(* ===== verification/Prelude.thy ===== *)
theory Prelude
  imports Main "HOL-Library.Word"
begin

text \<open>
  Shared vocabulary of the development: the machine-integer types of the C sources, the
  result type of code that can fail, checked array accesses, and the generic lemmas on
  counting loops over arrays that every component uses. A counting loop
  \<^verbatim>\<open>for (k = 0; k < n; k++)\<close> is \<open>fold body [0..<n]\<close> throughout.
\<close>

unbundle bit_operations_syntax

type_synonym u8 = "8 word"
type_synonym u16 = "16 word"
type_synonym u32 = "32 word"
type_synonym u64 = "64 word"

named_theorems arr_simps \<open>lengths and entries of arrays after the loops of the model\<close>

lemma unat_u8_less: "unat (a :: u8) < 256"
  using unsigned_less [of a] by simp

section \<open>Array loops\<close>

lemma length_fold_upd [arr_simps]:
  "length (fold (\<lambda>k xs. xs[f k := g k xs]) ks xs) = length xs"
  by (induction ks arbitrary: xs) auto

lemma fold_pair:
  "fold (\<lambda>k (a, b). (f k a, g k b)) ks (a, b) = (fold f ks a, fold g ks b)"
  by (induction ks arbitrary: a b) auto

text \<open>
  A loop that writes the block of \<open>n\<close> cells from \<open>b\<close> on, one cell per iteration, where
  the value written does not depend on the cells already written.
\<close>

lemma fold_block_upd_prefix:
  assumes g: "\<And>k ys. k < n \<Longrightarrow> length ys = length xs \<Longrightarrow>
      (\<And>p. \<not> (b \<le> p \<and> p < b + k) \<Longrightarrow> ys ! p = xs ! p) \<Longrightarrow> g k ys = h k"
    and len: "b + n \<le> length xs" and m: "m \<le> n"
  shows "length (fold (\<lambda>k xs. xs[b + k := g k xs]) [0..<m] xs) = length xs \<and>
    (\<forall>p. fold (\<lambda>k xs. xs[b + k := g k xs]) [0..<m] xs ! p =
      (if b \<le> p \<and> p < b + m then h (p - b) else xs ! p))"
  using m
proof (induction m)
  case 0
  show ?case by auto
next
  case (Suc m)
  let ?ys = "fold (\<lambda>k xs. xs[b + k := g k xs]) [0..<m] xs"
  from Suc have IH: "length ?ys = length xs"
    "\<And>p. ?ys ! p = (if b \<le> p \<and> p < b + m then h (p - b) else xs ! p)" by auto
  have "g m ?ys = h m"
    using Suc.prems IH by (intro g) auto
  then show ?case
    using Suc.prems len IH by (auto simp: nth_list_update less_Suc_eq)
qed

lemma fold_block_upd:
  assumes "\<And>k ys. k < n \<Longrightarrow> length ys = length xs \<Longrightarrow>
      (\<And>p. \<not> (b \<le> p \<and> p < b + k) \<Longrightarrow> ys ! p = xs ! p) \<Longrightarrow> g k ys = h k"
    and "b + n \<le> length xs"
  shows "fold (\<lambda>k xs. xs[b + k := g k xs]) [0..<n] xs ! p =
      (if b \<le> p \<and> p < b + n then h (p - b) else xs ! p)"
  by (rule fold_block_upd_prefix [OF assms order_refl, THEN conjunct2, THEN spec])

lemma fold_map_block:
  assumes "b + n \<le> length xs"
  shows "fold (\<lambda>k xs. xs[b + k := f k (xs ! (b + k))]) [0..<n] xs ! p =
      (if b \<le> p \<and> p < b + n then f (p - b) (xs ! p) else xs ! p)"
  by (subst fold_block_upd [where h = "\<lambda>k. f k (xs ! (b + k))" and n = n])
    (use assms in auto)

lemma fold_fill_block:
  assumes "b + n \<le> length xs"
  shows "fold (\<lambda>k xs. xs[b + k := g k]) [0..<n] xs ! p =
      (if b \<le> p \<and> p < b + n then g (p - b) else xs ! p)"
  using fold_map_block [OF assms, of "\<lambda>k _. g k" p] by simp

lemma fold_map_row:
  "n \<le> length xs \<Longrightarrow> fold (\<lambda>k xs. xs[k := f k (xs ! k)]) [0..<n] xs ! p =
      (if p < n then f p (xs ! p) else xs ! p)"
  using fold_map_block [of 0 n xs f p] by simp

lemma fold_fill_row:
  "n \<le> length xs \<Longrightarrow> fold (\<lambda>k xs. xs[k := g k]) [0..<n] xs ! p =
      (if p < n then g p else xs ! p)"
  using fold_fill_block [of 0 n xs g p] by simp

lemma fold_inv:
  assumes "P s" and "\<And>k s. k \<in> set ks \<Longrightarrow> P s \<Longrightarrow> P (f k s)"
  shows "P (fold f ks s)"
  using assms
proof (induction ks arbitrary: s)
  case (Cons k ks)
  have "P (f k s)" by (rule Cons.prems) (simp_all add: Cons.prems(1))
  then have "P (fold f ks (f k s))"
    by (rule Cons.IH) (simp_all add: Cons.prems(2))
  then show ?case by simp
qed simp

lemma fold_upto_inv:
  assumes "P 0 s" and "\<And>k s. k < n \<Longrightarrow> P k s \<Longrightarrow> P (Suc k) (f k s)"
  shows "P n (fold f [0..<n] s)"
proof -
  have "m \<le> n \<Longrightarrow> P m (fold f [0..<m] s)" for m
    by (induction m) (use assms in auto)
  then show ?thesis by simp
qed

lemma fold_from_inv:
  assumes "P a s" "a \<le> b" and "\<And>k s. a \<le> k \<Longrightarrow> k < b \<Longrightarrow> P k s \<Longrightarrow> P (Suc k) (f k s)"
  shows "P b (fold f [a..<b] s)"
proof -
  have "m \<le> b - a \<Longrightarrow> P (a + m) (fold f [a..<a + m] s)" for m
    by (induction m) (use assms in auto)
  from this [of "b - a"] assms(2) show ?thesis by simp
qed

text \<open>Two nested loops that fill the rows \<open>lo\<close> to \<open>hi\<close> of a row-major array with \<open>k\<close> columns.\<close>

lemma row_col_eq: "c < k \<Longrightarrow> c' < k \<Longrightarrow> k * r + c = k * r' + c' \<longleftrightarrow> r = r' \<and> (c :: nat) = c'"
proof -
  assume a: "c < k" "c' < k"
  have "r = (k * r + c) div k" "c = (k * r + c) mod k"
    "r' = (k * r' + c') div k" "c' = (k * r' + c') mod k" using a by simp_all
  then show ?thesis by metis
qed

lemma row_col_less: "r < m \<Longrightarrow> c < k \<Longrightarrow> k * m \<le> L \<Longrightarrow> k * r + c < (L :: nat)"
proof -
  assume a: "r < m" "c < k" "k * m \<le> L"
  then have "k * r + c < k * Suc r" by simp
  also have "\<dots> \<le> k * m" using a by (intro mult_le_mono2) simp
  finally show ?thesis using a by simp
qed

lemma fold_grid:
  fixes f :: "nat \<Rightarrow> nat \<Rightarrow> 'a"
  assumes "lo \<le> hi" "k * hi \<le> length D"
  defines "D' \<equiv> fold (\<lambda>i D. fold (\<lambda>j D. D[k * i + j := f i j]) [0..<k] D) [lo..<hi] D"
  shows "length D' = length D"
    and "c < k \<Longrightarrow> D' ! (k * r + c) = (if lo \<le> r \<and> r < hi then f r c else D ! (k * r + c))"
proof -
  let ?P = "\<lambda>i D1. length D1 = length D \<and> (\<forall>r. \<forall>c<k. D1 ! (k * r + c) =
      (if lo \<le> r \<and> r < i then f r c else D ! (k * r + c)))"
  have "?P hi D'"
    unfolding D'_def
  proof (rule fold_from_inv [where P = ?P])
    fix i D1 assume i: "lo \<le> i" "i < hi" and D1: "?P i D1"
    have nth: "fold (\<lambda>j D. D[k * i + j := f i j]) [0..<k] D1 ! p =
        (if k * i \<le> p \<and> p < k * i + k then f i (p - k * i) else D1 ! p)" for p
      by (rule fold_fill_block) (use row_col_less [of i hi] D1 i assms in
        \<open>metis Suc_leI le_trans mult_Suc_right mult_le_mono2 add.commute\<close>)
    have row: "k * i \<le> k * r + c \<and> k * r + c < k * i + k \<longleftrightarrow> r = i" if "c < k" for r c
    proof
      assume "k * i \<le> k * r + c \<and> k * r + c < k * i + k"
      with that have "k * i < k * Suc r" "k * r < k * Suc i" by auto
      then have "i < Suc r" "r < Suc i" by (simp_all only: mult_less_cancel1)
      then show "r = i" by simp
    qed (use that in auto)
    show "?P (Suc i) (fold (\<lambda>j D. D[k * i + j := f i j]) [0..<k] D1)"
      using D1 i by (auto simp: arr_simps nth row less_Suc_eq)
  qed (use assms(1) in auto)
  then show "length D' = length D"
    and "c < k \<Longrightarrow> D' ! (k * r + c) = (if lo \<le> r \<and> r < hi then f r c else D ! (k * r + c))"
    by blast+
qed

end
