(* ===== verification/Config.thy ===== *)
theory Config
  imports Prelude
begin

text \<open>
  Compile-time configuration of the resilience manager (\<^verbatim>\<open>infiniswap.h\<close>): the replication
  setup that is built and the erasure-coding setup kept beside it, and the constants both share.
\<close>

record is_config =
  NDATAS :: nat
  NDISKS :: nat
  DATASIZE_G :: nat
  SLAB_SHIFT :: nat

definition REP_config :: is_config where
  "REP_config = \<lparr>NDATAS = 1, NDISKS = 1 + 2, DATASIZE_G = 1, SLAB_SHIFT = 30\<rparr>"

definition EC_config :: is_config where
  "EC_config = \<lparr>NDATAS = 4, NDISKS = 4 + 2, DATASIZE_G = 4, SLAB_SHIFT = 32\<rparr>"

definition DISKSIZE_G :: "is_config \<Rightarrow> nat" where
  "DISKSIZE_G c = DATASIZE_G c div NDATAS c * NDISKS c"

definition SERVER_SELECT_NUM :: "is_config \<Rightarrow> nat" where
  "SERVER_SELECT_NUM c = NDISKS c + 1"

definition MAX_MR_SIZE_GB :: nat where "MAX_MR_SIZE_GB = 32"
definition IS_QUEUE_DEPTH :: nat where "IS_QUEUE_DEPTH = 256"
definition IS_PAGE_SIZE :: nat where "IS_PAGE_SIZE = 4096"
definition ONE_GB :: nat where "ONE_GB = 1073741824"
definition NO_CB_MAPPED :: int where "NO_CB_MAPPED = - 1"
definition EINVAL :: int where "EINVAL = 22"
definition ENOMEM :: int where "ENOMEM = 12"
definition EINTR :: int where "EINTR = 4"
definition EIO :: int where "EIO = 5"
definition EBUSY :: int where "EBUSY = 16"
definition EEXIST :: int where "EEXIST = 17"
definition ENODEV :: int where "ENODEV = 19"
definition ENOTTY :: int where "ENOTTY = 25"

lemmas config_defs = REP_config_def EC_config_def DISKSIZE_G_def SERVER_SELECT_NUM_def
  MAX_MR_SIZE_GB_def IS_QUEUE_DEPTH_def IS_PAGE_SIZE_def NO_CB_MAPPED_def

end
