(* ===== verification/Messages.thy ===== *)
theory Messages
  imports Config
begin

text \<open>
  The control messages that client and monitor exchange (\<^verbatim>\<open>struct IS_rdma_info\<close> of \<^verbatim>\<open>infiniswap.h\<close> and
  \<^verbatim>\<open>struct message\<close> of \<^verbatim>\<open>rdma-common.h\<close>, field by field the same), the byte order conversions both sides apply
  to addresses and keys, and the errors the operations of the development return.
\<close>

unbundle bit_operations_syntax

section \<open>Outcomes\<close>

text \<open>
  \<open>Die\<close> is a failed assertion or an explicit exit, \<open>Oob\<close> an access outside an array or through NULL,
  \<open>Blocked\<close> a wait that is never satisfied.
\<close>

datatype error = Die | Oob | Blocked

type_synonym 'a res = "error + 'a"

definition bindE :: "'a res \<Rightarrow> ('a \<Rightarrow> 'b res) \<Rightarrow> 'b res" where
  "bindE r f = (case r of Inl e \<Rightarrow> Inl e | Inr a \<Rightarrow> f a)"

lemma bindE_simps [simp]: "bindE (Inl e) f = Inl e" "bindE (Inr a) f = f a"
  by (simp_all add: bindE_def)

lemma bindE_Inr: "bindE r f = Inr b \<longleftrightarrow> (\<exists>a. r = Inr a \<and> f a = Inr b)"
  by (cases r) simp_all

fun foldE :: "('x \<Rightarrow> 's \<Rightarrow> 's res) \<Rightarrow> 'x list \<Rightarrow> 's \<Rightarrow> 's res" where
  "foldE f [] s = Inr s"
| "foldE f (x # xs) s = bindE (f x s) (foldE f xs)"

lemma foldE_inv:
  assumes "foldE f xs s = Inr s'" "P s" and "\<And>x s s'. x \<in> set xs \<Longrightarrow> P s \<Longrightarrow> f x s = Inr s' \<Longrightarrow> P s'"
  shows "P s'"
  using assms
proof (induction xs arbitrary: s)
  case (Cons x xs)
  from Cons.prems(1) obtain t where t: "f x s = Inr t" "foldE f xs t = Inr s'" by (auto simp: bindE_Inr)
  show ?case
    by (rule Cons.IH [OF t(2)]) (use Cons.prems(2) Cons.prems(3) t(1) in auto)
qed simp

text \<open>A loop over an interval that never fails, with an invariant indexed by the progress.\<close>

lemma foldE_upto:
  assumes "P 0 s" and "\<And>i t. i < n \<Longrightarrow> P i t \<Longrightarrow> \<exists>t'. f i t = Inr t' \<and> P (Suc i) t'"
  shows "\<exists>t. foldE f [0..<n] s = Inr t \<and> P n t"
proof -
  have "\<exists>t. foldE f [m..<n] s = Inr t \<and> P n t" if "m \<le> n" "P m s" for m s
    using that
  proof (induction "n - m" arbitrary: m s)
    case 0
    then show ?case by simp
  next
    case (Suc k)
    then have "m < n" "k = n - Suc m" by simp_all
    with assms(2) Suc.prems(2) obtain t where "f m s = Inr t" "P (Suc m) t" by blast
    moreover from Suc.hyps(1) [of "Suc m" t] \<open>k = n - Suc m\<close> \<open>m < n\<close> this(2) obtain t' where
      "foldE f [Suc m..<n] t = Inr t'" "P n t'" by auto
    ultimately show ?case using \<open>m < n\<close> by (auto simp: upt_conv_Cons)
  qed
  from this [of 0 s] assms(1) show ?thesis by simp
qed

text \<open>Array accesses with the index of a C \<^verbatim>\<open>int\<close>.\<close>

definition aload :: "'a list \<Rightarrow> int \<Rightarrow> 'a res" where
  "aload xs i = (if 0 \<le> i \<and> i < int (length xs) then Inr (xs ! nat i) else Inl Oob)"

definition astore :: "'a list \<Rightarrow> int \<Rightarrow> 'a \<Rightarrow> 'a list res" where
  "astore xs i v = (if 0 \<le> i \<and> i < int (length xs) then Inr (xs[nat i := v]) else Inl Oob)"

lemma aload_nat [simp]: "n < length xs \<Longrightarrow> aload xs (int n) = Inr (xs ! n)"
  by (simp add: aload_def)

lemma astore_nat [simp]: "n < length xs \<Longrightarrow> astore xs (int n) v = Inr (xs[n := v])"
  by (simp add: astore_def)

section \<open>Messages\<close>

text \<open>The types as both headers number them; \<open>NO_TYPE\<close> is the 0 of a message that was never filled in.\<close>

datatype msg_type = NO_TYPE | DONE | INFO | INFO_SINGLE | FREE_SIZE | EVICT | ACTIVITY | STOP | BIND
  | BIND_SINGLE | QUERY | FAULT | FAULT_DONE

record message =
  buf :: "u64 list"
  rkey :: "u32 list"
  size_gb :: int
  mtype :: msg_type

definition message_ok :: "message \<Rightarrow> bool" where
  "message_ok m \<longleftrightarrow> length (buf m) = MAX_MR_SIZE_GB \<and> length (rkey m) = MAX_MR_SIZE_GB"

section \<open>Byte order\<close>

text \<open>\<^verbatim>\<open>ntohl\<close> on a little-endian machine.\<close>

definition ntohl :: "u32 \<Rightarrow> u32" where
  "ntohl x = push_bit 24 (x AND 0xFF) OR push_bit 8 (x AND 0xFF00) OR
     (drop_bit 8 x AND 0xFF00) OR drop_bit 24 x"

text \<open>\<^verbatim>\<open>htons\<close>, and \<^verbatim>\<open>ntohs\<close>, which is the same.\<close>

definition htons :: "u16 \<Rightarrow> u16" where
  "htons x = push_bit 8 x OR drop_bit 8 x"

lemma htons_htons: "htons (htons x) = x"
  by (rule bit_word_eqI) (auto simp: htons_def bit_simps)

text \<open>The macro \<^verbatim>\<open>ntohll\<close>; \<^verbatim>\<open>htonll\<close> of the client is the same macro.\<close>

definition ntohll :: "u64 \<Rightarrow> u64" where
  "ntohll x = push_bit 32 (ucast (ntohl (ucast (drop_bit 32 (push_bit 32 x))))) OR
     ucast (ntohl (ucast (drop_bit 32 x)))"

text \<open>\<open>htonll\<close> of the monitor, on its little-endian branch.\<close>

definition htonll :: "u64 \<Rightarrow> u64" where
  "htonll value = push_bit 32 (ucast (ntohl (ucast (value AND 0xFFFFFFFF)))) OR
     ucast (ntohl (ucast (drop_bit 32 value)))"

lemma bit_u8_mask: "bit (0xFF :: u32) n \<longleftrightarrow> n < 8" 
proof -
  have "(0xFF :: u32) = mask 8" by (simp add: mask_numeral)
  then show ?thesis by (simp only: bit_mask_iff) auto
qed

lemma bit_ff00: "bit (0xFF00 :: u32) n \<longleftrightarrow> 8 \<le> n \<and> n < 16"
proof -
  have "(0xFF00 :: u32) = push_bit 8 (mask 8)" by (simp add: mask_numeral push_bit_numeral)
  then show ?thesis by (simp only: bit_push_bit_iff bit_mask_iff) auto
qed

lemma bit_ntohl_raw:
  "bit (ntohl x) n \<longleftrightarrow> n < 32 \<and> ((24 \<le> n \<and> bit x (n - 24) \<and> n - 24 < 8) \<or>
     (8 \<le> n \<and> bit x (n - 8) \<and> 8 \<le> n - 8 \<and> n - 8 < 16) \<or> (bit x (8 + n) \<and> 8 \<le> n \<and> n < 16) \<or> bit x (24 + n))"
proof -
  have "bit x k \<Longrightarrow> k < 32" for k using bit_imp_le_length [of x k] by simp
  from this [of "24 + n"] show ?thesis
    by (simp only: ntohl_def bit_or_iff bit_push_bit_iff bit_and_iff bit_drop_bit_eq bit_u8_mask bit_ff00 o_def
        possible_bit_word) auto
qed

text \<open>Bit \<open>n\<close> of the result is the same bit of the mirrored byte.\<close>

lemma bit_ntohl: "bit (ntohl x) n \<longleftrightarrow> n < 32 \<and> bit x (8 * (3 - n div 8) + n mod 8)"
proof -
  have lim: "bit x k \<Longrightarrow> k < 32" for k using bit_imp_le_length [of x k] by simp
  define q d where "q = n div 8" and "d = n mod 8"
  have n: "n = 8 * q + d" "d < 8" "n div 8 = q" "n mod 8 = d" by (simp_all add: q_def d_def)
  have "q = 0 \<or> q = 1 \<or> q = 2 \<or> q = 3 \<or> 4 \<le> q" by linarith
  then show ?thesis
    using lim [of "24 + n"] lim [of "8 + n"] n(2) unfolding bit_ntohl_raw n(3,4) unfolding n(1)
    by (elim disjE) (auto simp: add.assoc [symmetric])
qed

lemma ntohl_ntohl [simp]: "ntohl (ntohl x) = x"
proof (rule bit_word_eqI)
  fix n assume "n < LENGTH(32)"
  then have n: "n < 32" by simp
  then have "n div 8 \<le> 3" by simp
  then have "8 * (3 - n div 8) + n mod 8 < 32" by simp
  moreover have "(8 * (3 - n div 8) + n mod 8) div 8 = 3 - n div 8" "(8 * (3 - n div 8) + n mod 8) mod 8 = n mod 8"
    by simp_all
  moreover have "8 * (3 - (3 - n div 8)) + n mod 8 = n" using \<open>n div 8 \<le> 3\<close> by simp
  ultimately show "bit (ntohl (ntohl x)) n = bit x n" using n by (simp add: bit_ntohl)
qed

lemma ntohll_parts:
  "(ucast (drop_bit 32 (ntohll x)) :: u32) = ntohl (ucast x)"
  "(ucast (ntohll x) :: u32) = ntohl (ucast (drop_bit 32 x))"
proof -
  have hi: "bit (drop_bit 32 (ntohll x)) n \<longleftrightarrow> bit (ntohl (ucast x)) n"
    and lo: "n < 32 \<Longrightarrow> bit (ntohll x) n \<longleftrightarrow> bit (ntohl (ucast (drop_bit 32 x))) n" for n
  proof -
    have "(ucast (drop_bit 32 (push_bit 32 x)) :: u32) = ucast x"
      by (rule bit_word_eqI) (simp add: bit_unsigned_iff bit_drop_bit_eq bit_push_bit_iff)
    then have eq: "ntohll x = push_bit 32 (ucast (ntohl (ucast x))) OR ucast (ntohl (ucast (drop_bit 32 x)))"
      by (simp only: ntohll_def)
    have top: "\<not> bit (ntohl y) (32 + n)" for y by (simp add: bit_ntohl)
    have "bit (ntohl y) n \<Longrightarrow> n < 32 \<and> n < 64" for y by (simp add: bit_ntohl)
    then show "bit (drop_bit 32 (ntohll x)) n \<longleftrightarrow> bit (ntohl (ucast x)) n"
      using top unfolding eq
      by (auto simp: bit_or_iff bit_push_bit_iff bit_drop_bit_eq bit_unsigned_iff)
    show "bit (ntohll x) n \<longleftrightarrow> bit (ntohl (ucast (drop_bit 32 x))) n" if "n < 32"
      using that unfolding eq by (simp add: bit_or_iff bit_push_bit_iff bit_unsigned_iff)
  qed
  show "(ucast (drop_bit 32 (ntohll x)) :: u32) = ntohl (ucast x)"
    by (rule bit_word_eqI) (simp add: bit_unsigned_iff hi)
  show "(ucast (ntohll x) :: u32) = ntohl (ucast (drop_bit 32 x))"
    by (rule bit_word_eqI) (simp add: bit_unsigned_iff lo)
qed

lemma u64_of_halves: "push_bit 32 (ucast (ucast (drop_bit 32 x) :: u32)) OR ucast (ucast x :: u32) = (x :: u64)"
proof (rule bit_word_eqI)
  fix n assume "n < LENGTH(64)"
  then show "bit (push_bit 32 (ucast (ucast (drop_bit 32 x) :: u32)) OR ucast (ucast x :: u32) :: u64) n = bit x n"
    by (cases "n < 32") (auto simp: bit_or_iff bit_push_bit_iff bit_unsigned_iff bit_drop_bit_eq)
qed

lemma u64_eq_halves:
  "(ucast x :: u32) = ucast y \<Longrightarrow> (ucast (drop_bit 32 x) :: u32) = ucast (drop_bit 32 y) \<Longrightarrow> x = (y :: u64)"
  by (metis u64_of_halves)

lemma ntohll_ntohll [simp]: "ntohll (ntohll x) = x"
  by (rule u64_eq_halves) (simp_all add: ntohll_parts)

lemma htonll_eq: "htonll x = ntohll x"
proof -
  have "(ucast (x AND 0xFFFFFFFF) :: u32) = ucast x"
  proof (rule bit_word_eqI)
    fix n assume "n < LENGTH(32)"
    moreover have "(0xFFFFFFFF :: u64) = mask 32" by (simp add: mask_numeral)
    ultimately show "bit (ucast (x AND 0xFFFFFFFF) :: u32) n = bit (ucast x :: u32) n"
      by (simp only: bit_unsigned_iff bit_and_iff bit_mask_iff) auto
  qed
  moreover have "(ucast (drop_bit 32 (push_bit 32 x)) :: u32) = ucast x"
    by (rule bit_word_eqI) (simp add: bit_unsigned_iff bit_drop_bit_eq bit_push_bit_iff)
  ultimately show ?thesis by (simp only: htonll_def ntohll_def)
qed

lemma ntohll_htonll [simp]: "ntohll (htonll x) = x"
  by (simp add: htonll_eq)

lemma ntohl_eq_0 [simp]: "ntohl x = 0 \<longleftrightarrow> x = 0"
proof
  have z: "ntohl 0 = 0" by (simp add: ntohl_def)
  show "x = 0" if "ntohl x = 0" using that z by (metis ntohl_ntohl)
qed (simp add: ntohl_def)

section \<open>Properties\<close>

text \<open>Converting an address to network order and back gives the address: the conversion of the monitor is undone
  by the macro of the client, and the macro is its own inverse.\<close>

theorem byte_order_round_trip: "ntohll (htonll x) = x \<and> ntohll (ntohll x) = x \<and> ntohl (ntohl y) = y"
  by simp

end
