(* ===== verification/Ctx_Pool.thy ===== *)
theory Ctx_Pool
  imports Config "HOL-Library.Multiset"
begin

text \<open>
  Pools of RDMA contexts (\<^verbatim>\<open>struct free_ctx_pool\<close>, \<open>IS_get_ctx\<close>, \<open>IS_insert_ctx\<close> and
  \<open>IS_ctx_init\<close> of \<^verbatim>\<open>is_main.c\<close>). A pool is an array used as a stack. The locale \<open>ctx_store\<close> states
  what a client may rely on; inside it, every run of takers and returners is shown to conserve the
  contexts.
\<close>

section \<open>State and operations\<close>

definition CTX_IDLE :: nat where "CTX_IDLE = 0"
definition CTX_R_IN_FLIGHT :: nat where "CTX_R_IN_FLIGHT = 1"
definition CTX_W_IN_FLIGHT :: nat where "CTX_W_IN_FLIGHT = 2"

datatype wr_opcode = IB_WR_NONE | IB_WR_RDMA_READ | IB_WR_RDMA_WRITE

text \<open>A context is addressed by connection, pool and position, a chunk descriptor by server and position.\<close>

type_synonym ctx_addr = "nat \<times> nat \<times> nat"

text \<open>
  A context without its kernel handles: \<open>ctx_req\<close> and \<open>ctx_cb\<close> are identifiers, \<open>ctx_cnt\<close> the address of the
  completion counter, \<open>ctx_ctxs\<close> the contexts of the same request, \<open>sg_length\<close>, \<open>ctx_rkey\<close>, \<open>ctx_remote_addr\<close> and
  \<open>ctx_opcode\<close> the fields of its work request.
\<close>

record rdma_ctx =
  ctx_in_flight :: nat
  ctx_req :: "nat option"
  ctx_chunk_index :: int
  ctx_cb :: "nat option"
  ctx_offset :: nat
  ctx_len :: nat
  ctx_chunk_ptr :: "(nat \<times> nat) option"
  ctx_rdma_buf :: "u8 list option"
  sg_length :: nat
  ctx_rkey :: u32
  ctx_remote_addr :: u64
  ctx_opcode :: wr_opcode
  ctx_index :: nat
  ctx_cnt :: "nat option"
  ctx_ctxs :: "ctx_addr list"
  ctx_fault :: int

definition zero_ctx :: rdma_ctx where
  "zero_ctx = \<lparr>ctx_in_flight = 0, ctx_req = None, ctx_chunk_index = 0, ctx_cb = None, ctx_offset = 0, ctx_len = 0,
     ctx_chunk_ptr = None, ctx_rdma_buf = None,
     sg_length = 0, ctx_rkey = 0, ctx_remote_addr = 0, ctx_opcode = IB_WR_NONE, ctx_index = 0, ctx_cnt = None,
     ctx_ctxs = [], ctx_fault = 0\<rparr>"

text \<open>The entries of \<open>ctx_list\<close> are pointers into the pool; \<open>None\<close> is NULL.\<close>

record free_ctx_pool =
  len :: nat
  ctx_list :: "nat option list"
  head :: nat
  tail :: int

definition IS_get_ctx :: "free_ctx_pool \<Rightarrow> nat option \<times> free_ctx_pool" where
  "IS_get_ctx p = (if tail p = - 1 then (None, p)
     else (ctx_list p ! nat (tail p), p\<lparr>tail := tail p - 1\<rparr>))"

text \<open>The entry is stored before the index is checked; \<open>None\<close> is a write past the end of the array.\<close>

definition IS_insert_ctx :: "nat \<Rightarrow> free_ctx_pool \<Rightarrow> free_ctx_pool option" where
  "IS_insert_ctx ctx p =
     (let tail' = tail p + 1 in
      if tail' < 0 \<or> int (length (ctx_list p)) \<le> tail' then None
      else Some (p\<lparr>tail := tail', ctx_list := (ctx_list p)[nat tail' := Some ctx]\<rparr>))"

text \<open>
  \<open>IS_ctx_init\<close>: \<open>alloc i\<close> tells whether the buffer of context \<open>i\<close> could be allocated. The loop stops
  at the first failure and leaves the rest of \<open>ctx_list\<close> NULL.
\<close>

fun ctx_init_loop :: "(nat \<Rightarrow> bool) \<Rightarrow> nat \<Rightarrow> nat list \<Rightarrow> rdma_ctx list \<Rightarrow> free_ctx_pool \<Rightarrow>
    int \<times> rdma_ctx list \<times> free_ctx_pool" where
  "ctx_init_loop alloc sz [] pool p = (0, pool, p)"
| "ctx_init_loop alloc sz (i # is) pool p =
     (let p = p\<lparr>ctx_list := (ctx_list p)[i := Some i]\<rparr>;
          ctx = (pool ! i)\<lparr>ctx_in_flight := CTX_IDLE, ctx_chunk_index := - 1, ctx_req := None\<rparr>
      in if alloc i
         then ctx_init_loop alloc sz is (pool[i := ctx\<lparr>ctx_rdma_buf := Some (replicate sz 0)\<rparr>]) p
         else (- ENOMEM, pool[i := ctx\<lparr>ctx_rdma_buf := None\<rparr>], p))"

definition IS_ctx_init :: "(nat \<Rightarrow> bool) \<Rightarrow> nat \<Rightarrow> int \<times> rdma_ctx list \<times> free_ctx_pool" where
  "IS_ctx_init alloc sz =
     ctx_init_loop alloc sz [0..<IS_QUEUE_DEPTH] (replicate IS_QUEUE_DEPTH zero_ctx)
       \<lparr>len = IS_QUEUE_DEPTH, ctx_list = replicate IS_QUEUE_DEPTH None, head = 0,
        tail = int IS_QUEUE_DEPTH - 1\<rparr>"

section \<open>What the users of a pool rely on\<close>

text \<open>Runs of a pool: contexts are taken one at a time, and only contexts that are out come back.\<close>

inductive pool_run :: "('p \<Rightarrow> ('c \<times> 'p) option) \<Rightarrow> ('c \<Rightarrow> 'p \<Rightarrow> 'p option) \<Rightarrow> 'p \<Rightarrow> 'p \<Rightarrow> 'c multiset \<Rightarrow> bool"
  for get put p0 where
  start: "pool_run get put p0 p0 {#}"
| take: "pool_run get put p0 p out \<Longrightarrow> get p = Some (c, p') \<Longrightarrow> pool_run get put p0 p' (add_mset c out)"
| return: "pool_run get put p0 p out \<Longrightarrow> c \<in># out \<Longrightarrow> put c p = Some p' \<Longrightarrow>
    pool_run get put p0 p' (out - {#c#})"

locale ctx_store =
  fixes free :: "'p \<Rightarrow> 'c list" and get :: "'p \<Rightarrow> ('c \<times> 'p) option" and put :: "'c \<Rightarrow> 'p \<Rightarrow> 'p option"
    and ok :: "'p \<Rightarrow> bool" and cap :: nat
  assumes get_empty: "ok p \<Longrightarrow> free p = [] \<Longrightarrow> get p = None"
    and get_free: "ok p \<Longrightarrow> free p \<noteq> [] \<Longrightarrow>
      \<exists>c p'. get p = Some (c, p') \<and> ok p' \<and> mset (free p) = add_mset c (mset (free p'))"
    and put_room: "ok p \<Longrightarrow> length (free p) < cap \<Longrightarrow>
      \<exists>p'. put c p = Some p' \<and> ok p' \<and> mset (free p') = add_mset c (mset (free p))"
begin

lemma run_conserves:
  assumes "pool_run get put p0 p out" "ok p0" "length (free p0) \<le> cap"
  shows "ok p \<and> mset (free p) + out = mset (free p0)"
  using assms
proof induction
  case (take p out c p')
  then have IH: "ok p" "mset (free p) + out = mset (free p0)" by auto
  from take(2) get_empty [OF IH(1)] have "free p \<noteq> []" by auto
  from get_free [OF IH(1) this] take(2) IH(2) show ?case by auto
next
  case (return p out c p')
  then have IH: "ok p" "mset (free p) + out = mset (free p0)" by auto
  then have "length (free p) + size out = length (free p0)"
    by (metis size_mset size_union)
  moreover have "0 < size out" using return(2) by (auto simp: nonempty_has_size [symmetric])
  ultimately have "length (free p) < cap" using assms(3) by simp
  from put_room [OF IH(1) this, of c] return(3)
  have p': "ok p'" "mset (free p') = add_mset c (mset (free p))" by auto
  from return(2) have "mset (free p) + out = add_mset c (mset (free p)) + (out - {#c#})"
    by (metis add_mset_remove_trivial_eq union_mset_add_mset_left union_mset_add_mset_right insert_DiffM)
  with p' IH(2) show ?case by simp
qed simp

lemma run_safe:
  assumes "pool_run get put p0 p out" "ok p0" "length (free p0) \<le> cap" "distinct (free p0)"
  shows "\<forall>c. count out c \<le> 1 \<and> \<not> (c \<in> set (free p) \<and> c \<in># out)"
    and "c \<in># out \<Longrightarrow> put c p \<noteq> None"
proof -
  from run_conserves [OF assms(1-3)] have ok: "ok p" and eq: "mset (free p) + out = mset (free p0)" by auto
  have le: "count (mset (free p)) c + count out c \<le> 1" for c
    using assms(4) by (simp flip: count_union add: eq distinct_count_atmost_1)
  show "\<forall>c. count out c \<le> 1 \<and> \<not> (c \<in> set (free p) \<and> c \<in># out)"
  proof (intro allI conjI notI)
    fix c
    show "count out c \<le> 1" using le [of c] by simp
    assume "c \<in> set (free p) \<and> c \<in># out"
    then have "0 < count (mset (free p)) c" "0 < count out c" by (simp_all add: count_greater_zero_iff)
    with le [of c] show False by linarith
  qed
  show "put c p \<noteq> None" if "c \<in># out"
  proof -
    have "length (free p) + size out = length (free p0)" using eq by (metis size_mset size_union)
    moreover have "0 < size out" using that by (auto simp: nonempty_has_size [symmetric])
    ultimately have "length (free p) < cap" using assms(3) by simp
    from put_room [OF ok this] show ?thesis by auto
  qed
qed

end

section \<open>The array implements the store\<close>

definition take_ctx :: "free_ctx_pool \<Rightarrow> (nat \<times> free_ctx_pool) option" where
  "take_ctx p = (case IS_get_ctx p of (None, _) \<Rightarrow> None | (Some c, p') \<Rightarrow> Some (c, p'))"

definition free_list :: "free_ctx_pool \<Rightarrow> nat list" where
  "free_list p = map the (take (nat (tail p + 1)) (ctx_list p))"

definition pool_ok :: "free_ctx_pool \<Rightarrow> bool" where
  "pool_ok p \<longleftrightarrow> length (ctx_list p) = IS_QUEUE_DEPTH \<and> - 1 \<le> tail p \<and> tail p < int IS_QUEUE_DEPTH \<and>
     None \<notin> set (take (nat (tail p + 1)) (ctx_list p))"

lemma free_list_get:
  assumes "pool_ok p" "free_list p \<noteq> []"
  shows "\<exists>c p'. take_ctx p = Some (c, p') \<and> pool_ok p' \<and> free_list p = free_list p' @ [c]"
proof -
  from assms have t: "0 \<le> tail p" "tail p < int (length (ctx_list p))"
    by (auto simp: pool_ok_def free_list_def)
  define n where "n = nat (tail p)"
  have n: "tail p = int n" "n < length (ctx_list p)" using t by (simp_all add: n_def)
  have tk: "take (Suc n) (ctx_list p) = take n (ctx_list p) @ [ctx_list p ! n]"
    using n(2) by (rule take_Suc_conv_app_nth)
  obtain c where c: "ctx_list p ! n = Some c"
    using assms(1) tk n by (cases "ctx_list p ! n") (auto simp: pool_ok_def nat_add_distrib)
  have "take_ctx p = Some (c, p\<lparr>tail := int n - 1\<rparr>)"
    using n c by (simp add: take_ctx_def IS_get_ctx_def)
  moreover have "pool_ok (p\<lparr>tail := int n - 1\<rparr>)"
    using assms(1) n tk by (auto simp: pool_ok_def nat_add_distrib)
  moreover have "free_list p = free_list (p\<lparr>tail := int n - 1\<rparr>) @ [c]"
    using n tk c by (simp add: free_list_def nat_add_distrib)
  ultimately show ?thesis by blast
qed

lemma free_list_put:
  assumes "pool_ok p" "length (free_list p) < IS_QUEUE_DEPTH"
  shows "\<exists>p'. IS_insert_ctx c p = Some p' \<and> pool_ok p' \<and> free_list p' = free_list p @ [c]"
proof -
  define n where "n = nat (tail p + 1)"
  have n: "tail p + 1 = int n" "n < length (ctx_list p)"
    using assms by (auto simp: pool_ok_def free_list_def n_def)
  let ?p = "p\<lparr>tail := int n, ctx_list := (ctx_list p)[n := Some c]\<rparr>"
  have tk: "take (Suc n) ((ctx_list p)[n := Some c]) = take n (ctx_list p) @ [Some c]"
    using n(2) by (simp add: take_Suc_conv_app_nth)
  have "IS_insert_ctx c p = Some ?p"
    using n by (simp add: IS_insert_ctx_def Let_def)
  moreover have "pool_ok ?p"
    using assms(1) n tk by (auto simp: pool_ok_def nat_add_distrib n_def [symmetric])
  moreover have "free_list ?p = free_list p @ [c]"
    using n tk by (simp add: free_list_def nat_add_distrib n_def [symmetric])
  ultimately show ?thesis by blast
qed

interpretation ctx_pool: ctx_store free_list take_ctx IS_insert_ctx pool_ok IS_QUEUE_DEPTH
proof
  fix p assume "pool_ok p" "free_list p = []"
  then have "tail p = - 1" by (auto simp: free_list_def pool_ok_def IS_QUEUE_DEPTH_def)
  then show "take_ctx p = None" by (simp add: take_ctx_def IS_get_ctx_def)
next
  fix p assume "pool_ok p" "free_list p \<noteq> []"
  from free_list_get [OF this] show "\<exists>c p'. take_ctx p = Some (c, p') \<and> pool_ok p' \<and>
      mset (free_list p) = add_mset c (mset (free_list p'))" by auto
next
  fix p c assume "pool_ok p" "length (free_list p) < IS_QUEUE_DEPTH"
  from free_list_put [OF this] show "\<exists>p'. IS_insert_ctx c p = Some p' \<and> pool_ok p' \<and>
      mset (free_list p') = add_mset c (mset (free_list p))" by fastforce
qed

section \<open>Initialisation\<close>

lemma ctx_init_loop_ok:
  "\<forall>i\<in>set is. alloc i \<Longrightarrow> ctx_init_loop alloc sz is pool p =
    (0, fold (\<lambda>i pool. pool[i := (pool ! i)\<lparr>ctx_in_flight := CTX_IDLE, ctx_chunk_index := - 1, ctx_req := None,
        ctx_rdma_buf := Some (replicate sz 0)\<rparr>]) is pool,
     p\<lparr>ctx_list := fold (\<lambda>i l. l[i := Some i]) is (ctx_list p)\<rparr>)"
  by (induction "is" arbitrary: pool p) (simp_all add: Let_def)

lemma fold_identity: "n \<le> length l \<Longrightarrow> take n (fold (\<lambda>i l. l[i := Some i]) [0..<n] l) = map Some [0..<n]"
  by (rule nth_equalityI) (simp_all add: length_fold_upd fold_fill_row)

lemma IS_ctx_init_ok:
  assumes "\<forall>i<IS_QUEUE_DEPTH. alloc i"
  obtains pool p where "IS_ctx_init alloc sz = (0, pool, p)" "pool_ok p" "free_list p = [0..<IS_QUEUE_DEPTH]"
proof -
  let ?l = "fold (\<lambda>i l. l[i := Some i]) [0..<IS_QUEUE_DEPTH] (replicate IS_QUEUE_DEPTH None)"
  have tk: "take IS_QUEUE_DEPTH ?l = map Some [0..<IS_QUEUE_DEPTH]"
    by (rule fold_identity) simp
  have len: "length ?l = IS_QUEUE_DEPTH" by (simp add: length_fold_upd)
  let ?p = "\<lparr>len = IS_QUEUE_DEPTH, ctx_list = ?l, head = 0, tail = int IS_QUEUE_DEPTH - 1\<rparr>"
  show thesis
  proof (rule that)
    show "IS_ctx_init alloc sz = (0, fold (\<lambda>i pool. pool[i := (pool ! i)\<lparr>ctx_in_flight := CTX_IDLE,
        ctx_chunk_index := - 1, ctx_req := None, ctx_rdma_buf := Some (replicate sz 0)\<rparr>]) [0..<IS_QUEUE_DEPTH]
        (replicate IS_QUEUE_DEPTH zero_ctx), ?p)"
      unfolding IS_ctx_init_def using assms by (subst ctx_init_loop_ok) simp_all
    show "pool_ok ?p" using tk len by (auto simp: pool_ok_def IS_QUEUE_DEPTH_def)
    show "free_list ?p = [0..<IS_QUEUE_DEPTH]" using tk by (simp add: free_list_def comp_def)
  qed
qed

section \<open>Properties\<close>

text \<open>C13: In every run that starts from the pool \<open>IS_ctx_init\<close> builds, no context is handed out twice, no context
  is both free and in use, all contexts are accounted for, and returning a context that is out never
  writes outside the array.\<close>

theorem ctx_pool_safe:
  assumes "IS_ctx_init alloc sz = (0, pool, p0)" "\<forall>i<IS_QUEUE_DEPTH. alloc i"
    and "pool_run take_ctx IS_insert_ctx p0 p out"
  shows "(\<forall>c. count out c \<le> 1 \<and> \<not> (c \<in> set (free_list p) \<and> c \<in># out)) \<and>
    mset (free_list p) + out = mset [0..<IS_QUEUE_DEPTH] \<and>
    (\<forall>c. c \<in># out \<longrightarrow> IS_insert_ctx c p \<noteq> None)"
proof -
  have p0: "pool_ok p0" "free_list p0 = [0..<IS_QUEUE_DEPTH]"
    using IS_ctx_init_ok [OF assms(2), of sz] assms(1) by auto
  then have cap: "length (free_list p0) \<le> IS_QUEUE_DEPTH" "distinct (free_list p0)" by simp_all
  show ?thesis
    using ctx_pool.run_safe [OF assms(3) p0(1) cap] ctx_pool.run_conserves [OF assms(3) p0(1) cap(1)] p0(2)
    by (auto simp only:)
qed

theorem ctx_pool_safe_witness:
  "IS_insert_ctx 255 (snd (the (take_ctx (snd (snd (IS_ctx_init (\<lambda>_. True) 0)))))) \<noteq> None"
proof -
  obtain pool p where init: "IS_ctx_init (\<lambda>_. True) 0 = (0, pool, p)"
    and p: "pool_ok p" "free_list p = [0..<IS_QUEUE_DEPTH]"
    using IS_ctx_init_ok [of "\<lambda>_. True" 0] by auto
  have "[0..<256] = [0..<255] @ [255 :: nat]" using upt_Suc_append [of 0 255] by simp
  with free_list_get [OF p(1)] p(2) obtain p' where g: "take_ctx p = Some (255, p')"
    by (auto simp: IS_QUEUE_DEPTH_def)
  have "pool_run take_ctx IS_insert_ctx p p' (add_mset 255 {#})"
    by (rule pool_run.take [where p = p]) (rule pool_run.start, rule g)
  from ctx_pool_safe [OF init _ this] show ?thesis by (simp add: init g)
qed



end
