(* ===== verification/Mersenne_Twister.thy ===== *)
theory Mersenne_Twister
  imports Prelude
begin

text \<open>
  The two pseudo-random generators of the resilience manager, \<^verbatim>\<open>mt19937-64.c\<close> and
  \<^verbatim>\<open>mt19937.c\<close>. Both refill their state array in place, a block at a time. The locale
  \<open>block_generator\<close> states what such a refill promises and shows, once for both, that the
  generator enumerates the linear recurrence that defines the Mersenne Twister.
\<close>

unbundle bit_operations_syntax

section \<open>State and operations\<close>

record MTRand64 =
  mt :: "u64 list"
  mti :: int

record MTRand =
  mt32 :: "u32 list"
  mti32 :: int

definition MT19937_64_NN :: nat where "MT19937_64_NN = 312"
definition MT19937_64_MM :: nat where "MT19937_64_MM = 156"
definition MT19937_N :: nat where "MT19937_N = 624"
definition MT19937_M :: nat where "MT19937_M = 397"

lemmas mt_sizes = MT19937_64_NN_def MT19937_64_MM_def MT19937_N_def MT19937_M_def

text \<open>\<^verbatim>\<open>x = (a & UM) | (b & LM); ... m ^ (x >> 1) ^ mag01[x & 1]\<close>\<close>

definition mix64 :: "u64 \<Rightarrow> u64 \<Rightarrow> u64 \<Rightarrow> u64" where
  "mix64 a b m = (let x = (a AND 0xFFFFFFFF80000000) OR (b AND 0x7FFFFFFF)
     in m XOR drop_bit 1 x XOR (if x AND 1 = 0 then 0 else 0xB5026F5AA96619E9))"

definition mix32 :: "u32 \<Rightarrow> u32 \<Rightarrow> u32 \<Rightarrow> u32" where
  "mix32 a b m = (let y = (a AND 0x80000000) OR (b AND 0x7fffffff)
     in m XOR drop_bit 1 y XOR (if y AND 1 = 0 then 0 else 0x9908b0df))"

text \<open>The three loops that refill the array; the indices stay within the array.\<close>

definition generate :: "nat \<Rightarrow> nat \<Rightarrow> ('a \<Rightarrow> 'a \<Rightarrow> 'a \<Rightarrow> 'a) \<Rightarrow> 'a list \<Rightarrow> 'a list" where
  "generate N M mix s =
     (let s = fold (\<lambda>i s. s[i := mix (s ! i) (s ! (i + 1)) (s ! (i + M))]) [0..<N - M] s;
          s = fold (\<lambda>i s. s[i := mix (s ! i) (s ! (i + 1)) (s ! (i + M - N))]) [N - M..<N - 1] s
      in s[N - 1 := mix (s ! (N - 1)) (s ! 0) (s ! (M - 1))])"

definition init_genrand64 :: "MTRand64 \<Rightarrow> u64 \<Rightarrow> MTRand64" where
  "init_genrand64 r seed = \<lparr>mt =
       fold (\<lambda>i s. s[i := 6364136223846793005 * (s ! (i - 1) XOR drop_bit 62 (s ! (i - 1))) + word_of_nat i])
         [1..<MT19937_64_NN] ((mt r)[0 := seed]),
     mti = int MT19937_64_NN\<rparr>"

definition init_genrand :: "MTRand \<Rightarrow> u32 \<Rightarrow> MTRand" where
  "init_genrand r seed = \<lparr>mt32 =
       fold (\<lambda>i s. s[i := (1812433253 * (s ! (i - 1) XOR drop_bit 30 (s ! (i - 1))) + word_of_nat i) AND 0xffffffff])
         [1..<MT19937_N] ((mt32 r)[0 := seed AND 0xffffffff]),
     mti32 = int MT19937_N\<rparr>"

definition temper64 :: "u64 \<Rightarrow> u64" where
  "temper64 x =
     (let x = x XOR (drop_bit 29 x AND 0x5555555555555555);
          x = x XOR (push_bit 17 x AND 0x71D67FFFEDA60000);
          x = x XOR (push_bit 37 x AND 0xFFF7EEE000000000)
      in x XOR drop_bit 43 x)"

definition temper32 :: "u32 \<Rightarrow> u32" where
  "temper32 y =
     (let y = y XOR drop_bit 11 y;
          y = y XOR (push_bit 7 y AND 0x9d2c5680);
          y = y XOR (push_bit 15 y AND 0xefc60000)
      in y XOR drop_bit 18 y)"

definition genrand64_uint64 :: "MTRand64 \<Rightarrow> u64 \<times> MTRand64" where
  "genrand64_uint64 r =
     (let r = (if mti r \<ge> int MT19937_64_NN
               then let r = (if mti r = int MT19937_64_NN + 1 then init_genrand64 r 4357 else r)
                    in \<lparr>mt = generate MT19937_64_NN MT19937_64_MM mix64 (mt r), mti = 0\<rparr>
               else r);
          x = mt r ! nat (mti r)
      in (temper64 x, r\<lparr>mti := mti r + 1\<rparr>))"

definition genrand_uint32 :: "MTRand \<Rightarrow> u32 \<times> MTRand" where
  "genrand_uint32 r =
     (let r = (if mti32 r \<ge> int MT19937_N
               then let r = (if mti32 r = int MT19937_N + 1 then init_genrand r 5489 else r)
                    in \<lparr>mt32 = generate MT19937_N MT19937_M mix32 (mt32 r), mti32 = 0\<rparr>
               else r);
          y = mt32 r ! nat (mti32 r)
      in (temper32 y, r\<lparr>mti32 := mti32 r + 1\<rparr>))"

section \<open>What a refill promises\<close>

text \<open>
  A refill of \<open>N\<close> words and the sequence it has to continue: every word is \<open>mix\<close> of
  the words \<open>N\<close>, \<open>N - 1\<close> and \<open>N - M\<close> positions before.
\<close>

locale block_generator =
  fixes N M :: nat and mix :: "'a \<Rightarrow> 'a \<Rightarrow> 'a \<Rightarrow> 'a" and refill :: "'a list \<Rightarrow> 'a list"
  assumes shape: "0 < M" "M < N"
    and length_refill: "length s = N \<Longrightarrow> length (refill s) = N"
    and refill_nth: "length s = N \<Longrightarrow> i < N \<Longrightarrow> refill s ! i =
      mix (s ! i) (if i + 1 < N then s ! (i + 1) else refill s ! 0)
        (if i + M < N then s ! (i + M) else refill s ! (i + M - N))"
begin

definition recurrent :: "(nat \<Rightarrow> 'a) \<Rightarrow> bool" where
  "recurrent X \<longleftrightarrow> (\<forall>n. X (n + N) = mix (X n) (X (n + 1)) (X (n + M)))"

definition block :: "(nat \<Rightarrow> 'a) \<Rightarrow> nat \<Rightarrow> 'a list" where
  "block X b = map (\<lambda>i. X (b * N + i)) [0..<N]"

lemma refill_block:
  assumes X: "recurrent X"
  shows "refill (block X b) = block X (b + 1)"
proof (rule nth_equalityI)
  let ?s = "block X b"
  have len: "length ?s = N" by (simp add: block_def)
  then show "length (refill ?s) = length (block X (b + 1))" by (simp add: length_refill block_def)
  have step: "X (N + b * N + i) = mix (X (b * N + i)) (X (b * N + i + 1)) (X (b * N + i + M))" for i
    using X unfolding recurrent_def by (metis add.commute add.left_commute)
  have "i < N \<Longrightarrow> refill ?s ! i = X (N + b * N + i)" for i
  proof (induction i rule: less_induct)
    case (less i)
    have nxt: "(if i + 1 < N then ?s ! (i + 1) else refill ?s ! 0) = X (b * N + i + 1)"
    proof (cases "i + 1 < N")
      case False
      with less.prems have i: "i + 1 = N" by simp
      show ?thesis
      proof (cases "i = 0")
        case True
        with i shape show ?thesis by simp
      next
        case False
        with less.IH [of 0] i shape have "refill ?s ! 0 = X (N + b * N)" by simp
        also have "N + b * N = b * N + i + 1" using i by simp
        finally show ?thesis using i by simp
      qed
    qed (simp add: block_def)
    have far: "(if i + M < N then ?s ! (i + M) else refill ?s ! (i + M - N)) = X (b * N + i + M)"
    proof (cases "i + M < N")
      case False
      then have "refill ?s ! (i + M - N) = X (N + b * N + (i + M - N))"
        using shape less.prems by (intro less.IH) auto
      also have "N + b * N + (i + M - N) = b * N + i + M" using False by simp
      finally show ?thesis using False by simp
    qed (simp add: block_def add.assoc)
    have "refill ?s ! i = mix (?s ! i) (X (b * N + i + 1)) (X (b * N + i + M))"
      using refill_nth [OF len less.prems] by (simp only: nxt far)
    also have "?s ! i = X (b * N + i)" using less.prems by (simp add: block_def)
    finally show ?case by (simp only: step)
  qed
  then show "refill ?s ! i = block X (b + 1) ! i" if "i < length (refill ?s)" for i
    using that by (simp add: length_refill len block_def)
qed

lemma block_nth: "i < N \<Longrightarrow> block X b ! i = X (b * N + i)"
  by (simp add: block_def)

end

text \<open>The in-place loops satisfy the law of a refill.\<close>

lemma generate_refill:
  fixes mix :: "'a \<Rightarrow> 'a \<Rightarrow> 'a \<Rightarrow> 'a" and N M :: nat and s :: "'a list"
  assumes M: "0 < M" "M < N" and len: "length s = N"
  defines "t \<equiv> generate N M mix s"
  shows "length t = N"
    and "i < N \<Longrightarrow> t ! i = mix (s ! i) (if i + 1 < N then s ! (i + 1) else t ! 0)
        (if i + M < N then s ! (i + M) else t ! (i + M - N))"
proof -
  let ?P = "\<lambda>i t. length t = N \<and> (\<forall>j. i \<le> j \<and> j < N \<longrightarrow> t ! j = s ! j) \<and>
    (\<forall>j<i. t ! j = mix (s ! j) (s ! (j + 1)) (if j + M < N then s ! (j + M) else t ! (j + M - N)))"
  define s1 where "s1 = fold (\<lambda>i s. s[i := mix (s ! i) (s ! (i + 1)) (s ! (i + M))]) [0..<N - M] s"
  define s2 where "s2 = fold (\<lambda>i s. s[i := mix (s ! i) (s ! (i + 1)) (s ! (i + M - N))]) [N - M..<N - 1] s1"
  have t: "t = s2[N - 1 := mix (s2 ! (N - 1)) (s2 ! 0) (s2 ! (M - 1))]"
    by (simp only: t_def generate_def s1_def s2_def Let_def)
  have step: "?P (Suc i) (t[i := mix (t ! i) (t ! (i + 1)) v])"
    if P: "?P i t" and i: "i < N - 1" and v: "v = (if i + M < N then s ! (i + M) else t ! (i + M - N))" for i t v
  proof (intro conjI allI impI)
    show "length (t[i := mix (t ! i) (t ! (i + 1)) v]) = N" using P by simp
    show "t[i := mix (t ! i) (t ! (i + 1)) v] ! j = s ! j" if "Suc i \<le> j \<and> j < N" for j
      using P that by simp
    show "t[i := mix (t ! i) (t ! (i + 1)) v] ! j = mix (s ! j) (s ! (j + 1))
        (if j + M < N then s ! (j + M) else t[i := mix (t ! i) (t ! (i + 1)) v] ! (j + M - N))"
      if "j < Suc i" for j
    proof (cases "j = i")
      case True
      have "i + M < N \<or> i + M - N \<noteq> i" using M i by linarith
      moreover have "t ! i = s ! i" "t ! (i + 1) = s ! (i + 1)" using P i by simp_all
      moreover have "i < length t" using P i by simp
      ultimately show ?thesis using True by (auto simp: v)
    next
      case False
      with that have j: "j < i" by simp
      then have "j + M < N \<or> j + M - N \<noteq> i" using M i by linarith
      with j P show ?thesis by auto
    qed
  qed
  have "?P (N - M) s1"
    unfolding s1_def
  proof (rule fold_upto_inv [where P = ?P])
    fix i t assume i: "i < N - M" and P: "?P i t"
    then have "t ! (i + M) = s ! (i + M)" "i + M < N" using M by simp_all
    with i P M show "?P (Suc i) (t[i := mix (t ! i) (t ! (i + 1)) (t ! (i + M))])"
      by (intro step) simp_all
  qed (use len in simp)
  then have s2: "?P (N - 1) s2"
    unfolding s2_def
  proof (intro fold_from_inv [where P = ?P])
    fix i t assume i: "N - M \<le> i" "i < N - 1" and P: "?P i t"
    then have "\<not> i + M < N" by simp
    with i P show "?P (Suc i) (t[i := mix (t ! i) (t ! (i + 1)) (t ! (i + M - N))])"
      by (intro step) simp_all
  qed (use M in simp_all)
  then show "length t = N" by (simp add: t)
  show "t ! i = mix (s ! i) (if i + 1 < N then s ! (i + 1) else t ! 0)
        (if i + M < N then s ! (i + M) else t ! (i + M - N))" if "i < N"
  proof (cases "i = N - 1")
    case True
    then have "N - 1 + M - N = M - 1" using M by simp
    with True M s2 show ?thesis by (auto simp: t nth_list_update)
  next
    case False
    with that have i: "i < N - 1" by simp
    then have "i + M - N \<noteq> N - 1" using M by simp
    with i s2 M show ?thesis by (auto simp: t)
  qed
qed

interpretation mt64: block_generator MT19937_64_NN MT19937_64_MM mix64
  "generate MT19937_64_NN MT19937_64_MM mix64"
  by (unfold_locales; (rule generate_refill)?; simp add: mt_sizes)

interpretation mt32: block_generator MT19937_N MT19937_M mix32
  "generate MT19937_N MT19937_M mix32"
  by (unfold_locales; (rule generate_refill)?; simp add: mt_sizes)

section \<open>Seeding\<close>

text \<open>The words the seeding loops store, as a recursion on the position.\<close>

primrec seed64 :: "u64 \<Rightarrow> nat \<Rightarrow> u64" where
  "seed64 seed 0 = seed"
| "seed64 seed (Suc i) =
     6364136223846793005 * (seed64 seed i XOR drop_bit 62 (seed64 seed i)) + word_of_nat (Suc i)"

primrec seed32 :: "u32 \<Rightarrow> nat \<Rightarrow> u32" where
  "seed32 seed 0 = seed"
| "seed32 seed (Suc i) =
     1812433253 * (seed32 seed i XOR drop_bit 30 (seed32 seed i)) + word_of_nat (Suc i)"

lemma seeding_loop:
  assumes "length s = N" "0 < N" "\<And>i. f (Suc i) = g (f i) (Suc i)"
  shows "fold (\<lambda>i s. s[i := g (s ! (i - 1)) i]) [1..<N] (s[0 := f 0]) = map f [0..<N]"
proof -
  let ?P = "\<lambda>i t. length t = N \<and> (\<forall>j<i. t ! j = f j)"
  have "?P N (fold (\<lambda>i s. s[i := g (s ! (i - 1)) i]) [1..<N] (s[0 := f 0]))"
  proof (rule fold_from_inv [where P = ?P])
    fix i t assume i: "1 \<le> i" "i < N" and t: "?P i t"
    then have "f i = g (t ! (i - 1)) i" using assms(3) [of "i - 1"] by simp
    with i t show "?P (Suc i) (t[i := g (t ! (i - 1)) i])" by (auto simp: nth_list_update less_Suc_eq)
  qed (use assms in auto)
  then show ?thesis by (intro nth_equalityI) simp_all
qed

lemma and_mask32: "(x :: u32) AND 0xffffffff = x"
proof -
  have "(0xffffffff :: u32) = - 1" by simp
  then show ?thesis by (simp only: and.right_neutral)
qed

lemma init_genrand64_words:
  "length (mt r) = MT19937_64_NN \<Longrightarrow>
    init_genrand64 r seed = \<lparr>mt = map (seed64 seed) [0..<MT19937_64_NN], mti = int MT19937_64_NN\<rparr>"
  unfolding init_genrand64_def
  using seeding_loop [of "mt r" MT19937_64_NN "seed64 seed"
      "\<lambda>x i. 6364136223846793005 * (x XOR drop_bit 62 x) + word_of_nat i"]
  by (simp add: mt_sizes)

lemma init_genrand_words:
  "length (mt32 r) = MT19937_N \<Longrightarrow>
    init_genrand r seed = \<lparr>mt32 = map (seed32 seed) [0..<MT19937_N], mti32 = int MT19937_N\<rparr>"
  unfolding init_genrand_def and_mask32
  using seeding_loop [of "mt32 r" MT19937_N "seed32 seed"
      "\<lambda>x i. 1812433253 * (x XOR drop_bit 30 x) + word_of_nat i"]
  by (simp add: mt_sizes)

section \<open>The defining recurrence\<close>

function mt64_seq :: "u64 \<Rightarrow> nat \<Rightarrow> u64" where
  "mt64_seq seed n =
     (if n < 312 then seed64 seed n
      else mix64 (mt64_seq seed (n - 312)) (mt64_seq seed (n - 311)) (mt64_seq seed (n - 156)))"
  by pat_completeness auto
termination
  by (relation "measure snd") auto

function mt32_seq :: "u32 \<Rightarrow> nat \<Rightarrow> u32" where
  "mt32_seq seed n =
     (if n < 624 then seed32 seed n
      else mix32 (mt32_seq seed (n - 624)) (mt32_seq seed (n - 623)) (mt32_seq seed (n - 227)))"
  by pat_completeness auto
termination
  by (relation "measure snd") auto

declare mt64_seq.simps [simp del] mt32_seq.simps [simp del]

lemma mt64_seq_recurrent: "mt64.recurrent (mt64_seq seed)"
  unfolding mt64.recurrent_def by (subst mt64_seq.simps) (simp add: mt_sizes add.commute)

lemma mt32_seq_recurrent: "mt32.recurrent (mt32_seq seed)"
  unfolding mt32.recurrent_def by (subst mt32_seq.simps) (simp add: mt_sizes add.commute)

text \<open>
  The state after \<open>n\<close> numbers were drawn: block \<open>b\<close> of the sequence and the position in it. The
  numbers drawn start at word \<open>N\<close>, the first block only seeds the recurrence.
\<close>

definition at64 :: "u64 \<Rightarrow> nat \<Rightarrow> MTRand64 \<Rightarrow> bool" where
  "at64 seed n r \<longleftrightarrow> (\<exists>b i. i \<le> MT19937_64_NN \<and> b * MT19937_64_NN + i = n + MT19937_64_NN \<and>
     r = \<lparr>mt = mt64.block (mt64_seq seed) b, mti = int i\<rparr>)"

definition at32 :: "u32 \<Rightarrow> nat \<Rightarrow> MTRand \<Rightarrow> bool" where
  "at32 seed n r \<longleftrightarrow> (\<exists>b i. i \<le> MT19937_N \<and> b * MT19937_N + i = n + MT19937_N \<and>
     r = \<lparr>mt32 = mt32.block (mt32_seq seed) b, mti32 = int i\<rparr>)"

lemma at64_init: "length (mt r) = MT19937_64_NN \<Longrightarrow> at64 seed 0 (init_genrand64 r seed)"
proof -
  assume "length (mt r) = MT19937_64_NN"
  moreover have "map (seed64 seed) [0..<MT19937_64_NN] = mt64.block (mt64_seq seed) 0"
    unfolding mt64.block_def by (rule map_cong) (simp_all add: mt_sizes mt64_seq.simps)
  ultimately show ?thesis
    unfolding at64_def
    by - (rule exI [of _ 0], rule exI [of _ MT19937_64_NN], simp add: init_genrand64_words)
qed

lemma at32_init: "length (mt32 r) = MT19937_N \<Longrightarrow> at32 seed 0 (init_genrand r seed)"
proof -
  assume "length (mt32 r) = MT19937_N"
  moreover have "map (seed32 seed) [0..<MT19937_N] = mt32.block (mt32_seq seed) 0"
    unfolding mt32.block_def by (rule map_cong) (simp_all add: mt_sizes mt32_seq.simps)
  ultimately show ?thesis
    unfolding at32_def
    by - (rule exI [of _ 0], rule exI [of _ MT19937_N], simp add: init_genrand_words)
qed

lemma genrand64_step:
  assumes "at64 seed n r"
  shows "fst (genrand64_uint64 r) = temper64 (mt64_seq seed (n + MT19937_64_NN))"
    and "at64 seed (n + 1) (snd (genrand64_uint64 r))"
proof -
  from assms obtain b i where i: "i \<le> MT19937_64_NN" "b * MT19937_64_NN + i = n + MT19937_64_NN"
    and r: "r = \<lparr>mt = mt64.block (mt64_seq seed) b, mti = int i\<rparr>" by (auto simp: at64_def)
  obtain b' i' where i': "i' < MT19937_64_NN" "b' * MT19937_64_NN + i' = n + MT19937_64_NN"
    and g: "genrand64_uint64 r = (temper64 (mt64.block (mt64_seq seed) b' ! i'),
        \<lparr>mt = mt64.block (mt64_seq seed) b', mti = int i' + 1\<rparr>)"
  proof (cases "i = MT19937_64_NN")
    case True
    with i show ?thesis
      by (intro that [of 0 "b + 1"])
        (simp_all add: r genrand64_uint64_def mt64.refill_block mt64_seq_recurrent
          order.strict_trans [OF mt64.shape])
  next
    case False
    with i show ?thesis by (intro that [of i b]) (simp_all add: r genrand64_uint64_def)
  qed
  show "fst (genrand64_uint64 r) = temper64 (mt64_seq seed (n + MT19937_64_NN))"
    using i' by (simp add: g mt64.block_nth)
  show "at64 seed (n + 1) (snd (genrand64_uint64 r))"
    unfolding at64_def by (rule exI [of _ b'], rule exI [of _ "i' + 1"]) (use i' in \<open>simp add: g\<close>)
qed

lemma genrand32_step:
  assumes "at32 seed n r"
  shows "fst (genrand_uint32 r) = temper32 (mt32_seq seed (n + MT19937_N))"
    and "at32 seed (n + 1) (snd (genrand_uint32 r))"
proof -
  from assms obtain b i where i: "i \<le> MT19937_N" "b * MT19937_N + i = n + MT19937_N"
    and r: "r = \<lparr>mt32 = mt32.block (mt32_seq seed) b, mti32 = int i\<rparr>" by (auto simp: at32_def)
  obtain b' i' where i': "i' < MT19937_N" "b' * MT19937_N + i' = n + MT19937_N"
    and g: "genrand_uint32 r = (temper32 (mt32.block (mt32_seq seed) b' ! i'),
        \<lparr>mt32 = mt32.block (mt32_seq seed) b', mti32 = int i' + 1\<rparr>)"
  proof (cases "i = MT19937_N")
    case True
    with i show ?thesis
      by (intro that [of 0 "b + 1"])
        (simp_all add: r genrand_uint32_def mt32.refill_block mt32_seq_recurrent
          order.strict_trans [OF mt32.shape])
  next
    case False
    with i show ?thesis by (intro that [of i b]) (simp_all add: r genrand_uint32_def)
  qed
  show "fst (genrand_uint32 r) = temper32 (mt32_seq seed (n + MT19937_N))"
    using i' by (simp add: g mt32.block_nth)
  show "at32 seed (n + 1) (snd (genrand_uint32 r))"
    unfolding at32_def by (rule exI [of _ b'], rule exI [of _ "i' + 1"]) (use i' in \<open>simp add: g\<close>)
qed

section \<open>Tempering loses nothing\<close>

lemma xorshift_right_inj:
  fixes x y m :: "'a::len word"
  assumes "x XOR (drop_bit s x AND m) = y XOR (drop_bit s y AND m)" "0 < s"
  shows "x = y"
proof (rule bit_word_eqI)
  fix n assume "n < LENGTH('a)"
  then show "bit x n = bit y n"
  proof (induction "LENGTH('a) - n" arbitrary: n rule: less_induct)
    case less
    have "bit x n \<noteq> (bit x (s + n) \<and> bit m n) \<longleftrightarrow> bit y n \<noteq> (bit y (s + n) \<and> bit m n)"
      using arg_cong [OF assms(1), of "\<lambda>w. bit w n"] less.prems
      by (simp add: bit_xor_iff bit_and_iff bit_drop_bit_eq)
    moreover have "bit x (s + n) = bit y (s + n)"
    proof (cases "s + n < LENGTH('a)")
      case True
      then show ?thesis using less.prems assms(2) by (intro less.hyps) auto
    qed (simp add: bit_word.rep_eq)
    ultimately show ?case by blast
  qed
qed

lemma xorshift_left_inj:
  fixes x y m :: "'a::len word"
  assumes "x XOR (push_bit s x AND m) = y XOR (push_bit s y AND m)" "0 < s"
  shows "x = y"
proof (rule bit_word_eqI)
  fix n assume "n < LENGTH('a)"
  then show "bit x n = bit y n"
  proof (induction n rule: less_induct)
    case (less n)
    have "bit x n \<noteq> (s \<le> n \<and> bit x (n - s) \<and> bit m n) \<longleftrightarrow> bit y n \<noteq> (s \<le> n \<and> bit y (n - s) \<and> bit m n)"
      using arg_cong [OF assms(1), of "\<lambda>w. bit w n"] less.prems
      by (simp add: bit_xor_iff bit_and_iff bit_push_bit_iff)
    moreover have "bit x (n - s) = bit y (n - s)" if "s \<le> n"
      using less.prems assms(2) that by (intro less.IH) auto
    ultimately show ?case by blast
  qed
qed

lemma xorshift_inj:
  fixes m :: "'a::len word"
  assumes "0 < s"
  shows "inj (\<lambda>x. x XOR (drop_bit s x AND m))" "inj (\<lambda>x. x XOR (push_bit s x AND m))"
    "inj (\<lambda>x. x XOR drop_bit s x :: 'a word)"
proof -
  show "inj (\<lambda>x. x XOR (drop_bit s x AND m))"
    by (rule injI) (rule xorshift_right_inj [OF _ assms])
  show "inj (\<lambda>x. x XOR (push_bit s x AND m))"
    by (rule injI) (rule xorshift_left_inj [OF _ assms])
  show "inj (\<lambda>x. x XOR drop_bit s x :: 'a word)"
    by (rule injI) (rule xorshift_right_inj [OF _ assms, where m = "- 1"], simp only: and.right_neutral)
qed

section \<open>Properties\<close>

text \<open>C35: After seeding, the calls of \<open>genrand64_uint64\<close> return, one after the other and across every refill
  of the array, the tempered words of the recurrence of the 64-bit Mersenne Twister.\<close>

theorem genrand64_enumerates:
  assumes "length (mt r) = MT19937_64_NN"
  shows "fst (genrand64_uint64 (((\<lambda>r. snd (genrand64_uint64 r)) ^^ n) (init_genrand64 r seed))) =
    temper64 (mt64_seq seed (n + MT19937_64_NN))"
proof -
  have "at64 seed n (((\<lambda>r. snd (genrand64_uint64 r)) ^^ n) (init_genrand64 r seed))"
    by (induction n) (use at64_init [OF assms] genrand64_step(2) in auto)
  then show ?thesis by (rule genrand64_step(1))
qed

theorem genrand64_enumerates_witness:
  "fst (genrand64_uint64 (((\<lambda>r. snd (genrand64_uint64 r)) ^^ 1000)
      (init_genrand64 \<lparr>mt = replicate 312 0, mti = 313\<rparr> 1))) = temper64 (mt64_seq 1 (1000 + MT19937_64_NN))"
  by (rule genrand64_enumerates) (simp add: mt_sizes)

text \<open>The same holds of the 32-bit generator.\<close>

theorem genrand32_enumerates:
  assumes "length (mt32 r) = MT19937_N"
  shows "fst (genrand_uint32 (((\<lambda>r. snd (genrand_uint32 r)) ^^ n) (init_genrand r seed))) =
    temper32 (mt32_seq seed (n + MT19937_N))"
proof -
  have "at32 seed n (((\<lambda>r. snd (genrand_uint32 r)) ^^ n) (init_genrand r seed))"
    by (induction n) (use at32_init [OF assms] genrand32_step(2) in auto)
  then show ?thesis by (rule genrand32_step(1))
qed

theorem genrand32_enumerates_witness:
  "fst (genrand_uint32 (((\<lambda>r. snd (genrand_uint32 r)) ^^ 1000)
      (init_genrand \<lparr>mt32 = replicate 624 0, mti32 = 625\<rparr> 5489))) = temper32 (mt32_seq 5489 (1000 + MT19937_N))"
  by (rule genrand32_enumerates) (simp add: mt_sizes)

text \<open>Both tempering transformations are bijections, so no state word is merged with another.\<close>

theorem tempering_bijective: "bij temper64 \<and> bij temper32"
proof -
  have "temper64 = (\<lambda>x. x XOR drop_bit 43 x) \<circ> (\<lambda>x. x XOR (push_bit 37 x AND 0xFFF7EEE000000000)) \<circ>
      (\<lambda>x. x XOR (push_bit 17 x AND 0x71D67FFFEDA60000)) \<circ> (\<lambda>x. x XOR (drop_bit 29 x AND 0x5555555555555555))"
    by (rule ext) (simp only: temper64_def Let_def o_def)
  then have "inj temper64"
    by (elim ssubst) (intro inj_compose xorshift_inj; simp)
  moreover have "temper32 = (\<lambda>y. y XOR drop_bit 18 y) \<circ> (\<lambda>y. y XOR (push_bit 15 y AND 0xefc60000)) \<circ>
      (\<lambda>y. y XOR (push_bit 7 y AND 0x9d2c5680)) \<circ> (\<lambda>y. y XOR drop_bit 11 y)"
    by (rule ext) (simp only: temper32_def Let_def o_def)
  then have "inj temper32"
    by (elim ssubst) (intro inj_compose xorshift_inj; simp)
  ultimately show ?thesis by (simp add: bij_def finite_UNIV_inj_surj)
qed

end
