(* ===== verification/Text_Scan.thy ===== *)
theory Text_Scan
  imports Prelude
begin

text \<open>
  The text functions of the kernel that the sources call: \<^verbatim>\<open>sscanf\<close> with \<^verbatim>\<open>%d\<close>, \<^verbatim>\<open>%llu\<close> and
  \<^verbatim>\<open>%s\<close>, \<^verbatim>\<open>snprintf\<close> with \<^verbatim>\<open>%d\<close>, and \<^verbatim>\<open>strsep\<close>, with the round trips the parsers rely on.
\<close>

section \<open>Characters and numbers\<close>

definition code :: "char \<Rightarrow> nat" where
  "code c = of_char c"

definition is_digit :: "char \<Rightarrow> bool" where
  "is_digit c \<longleftrightarrow> 48 \<le> code c \<and> code c \<le> 57"

definition is_space :: "char \<Rightarrow> bool" where
  "is_space c \<longleftrightarrow> code c = 32 \<or> (9 \<le> code c \<and> code c \<le> 13)"

definition digit_char :: "nat \<Rightarrow> char" where
  "digit_char d = char_of (48 + d)"

definition digits_value :: "string \<Rightarrow> nat" where
  "digits_value s = fold (\<lambda>c v. 10 * v + (code c - 48)) s 0"

text \<open>The longest run of digits at the front, \<open>None\<close> if there is none (no conversion).\<close>

definition scan_nat :: "string \<Rightarrow> nat option" where
  "scan_nat s = (case takeWhile is_digit s of [] \<Rightarrow> None | ds \<Rightarrow> Some (digits_value ds))"

text \<open>\<^verbatim>\<open>sscanf(s, "%llu", &v)\<close>: the value modulo \<open>2^64\<close>.\<close>

definition sscanf_llu :: "string \<Rightarrow> u64 option" where
  "sscanf_llu s = map_option word_of_nat (scan_nat (dropWhile is_space s))"

text \<open>\<^verbatim>\<open>sscanf(s, "%d", &v)\<close>: an optional minus sign, the value cut to 32 bits and read as signed.\<close>

definition sscanf_d :: "string \<Rightarrow> int option" where
  "sscanf_d s = (case dropWhile is_space s of
       c # r \<Rightarrow> if c = CHR ''-'' then map_option (\<lambda>n. sint (word_of_int (- int n) :: u32)) (scan_nat r)
                else map_option (\<lambda>n. sint (word_of_nat n :: u32)) (scan_nat (c # r))
     | [] \<Rightarrow> None)"

text \<open>
  \<^verbatim>\<open>atoi\<close>: white space, a sign and digits, read as a \<^verbatim>\<open>long\<close> that stops at its bounds and cut to 32 bits.
\<close>

definition scan_int :: "string \<Rightarrow> int" where
  "scan_int s = (case dropWhile is_space s of
       c # r \<Rightarrow> if c = CHR ''-'' then - int (case scan_nat r of Some n \<Rightarrow> n | None \<Rightarrow> 0)
                else int (case scan_nat (if c = CHR ''+'' then r else c # r) of Some n \<Rightarrow> n | None \<Rightarrow> 0)
     | [] \<Rightarrow> 0)"

definition atoi :: "string \<Rightarrow> int" where
  "atoi s = sint (word_of_int (max (- (2 ^ 63)) (min (2 ^ 63 - 1) (scan_int s))) :: u32)"

text \<open>\<^verbatim>\<open>sscanf(s, "%s", buf)\<close>: the first word.\<close>

definition sscanf_s :: "string \<Rightarrow> string" where
  "sscanf_s s = takeWhile (\<lambda>c. \<not> is_space c) (dropWhile is_space s)"

fun print_nat :: "nat \<Rightarrow> string" where
  "print_nat n = (if n < 10 then [digit_char n] else print_nat (n div 10) @ [digit_char (n mod 10)])"

declare print_nat.simps [simp del]

text \<open>\<^verbatim>\<open>snprintf(s, size, "%d\n", v)\<close>\<close>

definition print_d_nl :: "int \<Rightarrow> string" where
  "print_d_nl v = (if v < 0 then CHR ''-'' # print_nat (nat (- v)) else print_nat (nat v)) @ [CHR 0x0A]"

text \<open>\<^verbatim>\<open>strsep(&ptr, ",")\<close>: the field up to the separator and what follows it (\<open>None\<close> at the end).\<close>

definition strsep :: "char \<Rightarrow> string \<Rightarrow> string \<times> string option" where
  "strsep d s = (takeWhile (\<lambda>c. c \<noteq> d) s,
     case dropWhile (\<lambda>c. c \<noteq> d) s of [] \<Rightarrow> None | _ # r \<Rightarrow> Some r)"

section \<open>Round trips\<close>

lemma code_digit_char [simp]: "d < 10 \<Longrightarrow> code (digit_char d) = 48 + d"
  by (simp add: code_def digit_char_def of_char_of)

lemma is_digit_digit_char [simp]: "d < 10 \<Longrightarrow> is_digit (digit_char d)"
  by (simp add: is_digit_def)

lemma print_nat_digits: "\<forall>c\<in>set (print_nat n). is_digit c"
proof (induction n rule: print_nat.induct)
  case (1 n)
  then show ?case by (subst print_nat.simps) auto
qed

lemma print_nat_nonempty: "print_nat n \<noteq> []"
  by (subst print_nat.simps) simp

lemma digits_value_print: "digits_value (print_nat n) = n"
proof (induction n rule: print_nat.induct)
  case (1 n)
  then show ?case
    by (subst print_nat.simps) (simp add: digits_value_def)
qed

text \<open>A printed number is read back when no digit follows it.\<close>

lemma scan_print:
  assumes "r = [] \<or> \<not> is_digit (hd r)"
  shows "scan_nat (print_nat n @ r) = Some n"
proof -
  have "takeWhile is_digit r = []" using assms by (cases r) auto
  then have "takeWhile is_digit (print_nat n @ r) = print_nat n"
    using print_nat_digits [of n] by (simp add: takeWhile_append2)
  then show ?thesis
    using print_nat_nonempty [of n] digits_value_print [of n]
    by (auto simp: scan_nat_def split: list.splits)
qed

lemma digit_not_space: "is_digit c \<Longrightarrow> \<not> is_space c"
  by (simp add: is_digit_def is_space_def)

lemma digit_not_minus: "is_digit c \<Longrightarrow> c \<noteq> CHR ''-''"
  by (auto simp: is_digit_def code_def)

lemma dropWhile_space_print: "dropWhile is_space (print_nat n @ r) = print_nat n @ r"
  using print_nat_nonempty [of n] print_nat_digits [of n] digit_not_space
  by (cases "print_nat n") auto

lemma sscanf_llu_print:
  "r = [] \<or> \<not> is_digit (hd r) \<Longrightarrow> sscanf_llu (print_nat n @ r) = Some (word_of_nat n)"
  by (simp add: sscanf_llu_def dropWhile_space_print scan_print)

lemma sint_small: "n < 2 ^ 31 \<Longrightarrow> sint (word_of_nat n :: u32) = int n"
  by (simp add: signed_of_nat signed_take_bit_int_eq_self_iff take_bit_nat_eq_self)

lemma sscanf_d_print:
  assumes "r = [] \<or> \<not> is_digit (hd r)" "n < 2 ^ 31"
  shows "sscanf_d (print_nat n @ r) = Some (int n)"
proof -
  obtain c s where p: "print_nat n @ r = c # s" "is_digit c"
    using print_nat_nonempty [of n] print_nat_digits [of n] by (cases "print_nat n") auto
  show ?thesis
    using sint_small [OF assms(2)] scan_print [OF assms(1), of n] digit_not_minus [OF p(2)] dropWhile_space_print [of n r]
    unfolding p(1) by (simp add: sscanf_d_def)
qed

lemma strsep_field: "d \<notin> set f \<Longrightarrow> strsep d (f @ d # r) = (f, Some r)"
  by (induction f) (auto simp: strsep_def)

lemma strsep_last: "d \<notin> set f \<Longrightarrow> strsep d f = (f, None)"
  by (induction f) (auto simp: strsep_def)

end
