(* ===== verification/Fault_Injection.thy ===== *)
theory Fault_Injection
  imports Config Mersenne_Twister Text_Scan
begin

text \<open>
  The fault injector, \<^verbatim>\<open>is_fault.c\<close>: a per-disk countdown of accesses, reloaded from the 64-bit
  generator. A remainder by zero traps; the operations that can trap return \<open>None\<close> then.
\<close>

section \<open>State and operations\<close>

text \<open>\<open>access_count_before_next_fault\<close> is a \<^verbatim>\<open>long long\<close>, read with \<open>sint\<close>.\<close>

record IS_fault_injection_disk =
  access_count :: u64
  access_count_before_next_fault :: u64
  fault_count :: u64
  seed :: MTRand64

record IS_fault_injection =
  inject_fault :: u32
  fault_rate :: u64
  disk_fault :: "IS_fault_injection_disk list"

fun reset_disks :: "u64 \<Rightarrow> nat list \<Rightarrow> IS_fault_injection_disk list \<Rightarrow> IS_fault_injection_disk list option" where
  "reset_disks rate [] ds = Some ds"
| "reset_disks rate (i # is) ds =
     (if 2 * rate = 0 then None
      else case genrand64_uint64 (init_genrand64 (seed (ds ! i)) 1) of (x, r) \<Rightarrow>
        reset_disks rate is (ds[i := (ds ! i)\<lparr>seed := r, access_count := 0,
          access_count_before_next_fault := x mod (2 * rate)\<rparr>]))"

definition init_uniform_distr :: "is_config \<Rightarrow> IS_fault_injection \<Rightarrow> u64 \<Rightarrow> IS_fault_injection option" where
  "init_uniform_distr c fi rate =
     map_option (\<lambda>ds. fi\<lparr>fault_rate := rate, disk_fault := ds\<rparr>)
       (reset_disks rate [0..<NDISKS c] (disk_fault fi))"

definition IS_fault_injection_init :: "is_config \<Rightarrow> IS_fault_injection \<Rightarrow> IS_fault_injection option" where
  "IS_fault_injection_init c fi = init_uniform_distr c (fi\<lparr>inject_fault := 0\<rparr>) 1000000000"

definition IS_fault_injection_enable :: "IS_fault_injection \<Rightarrow> u32" where
  "IS_fault_injection_enable fi = inject_fault fi"

definition IS_fault_injection_set_enable :: "IS_fault_injection \<Rightarrow> u32 \<Rightarrow> IS_fault_injection" where
  "IS_fault_injection_set_enable fi enable = fi\<lparr>inject_fault := enable\<rparr>"

definition IS_fault_injection_fault_count :: "is_config \<Rightarrow> IS_fault_injection \<Rightarrow> u64" where
  "IS_fault_injection_fault_count c fi =
     fold (\<lambda>i count. count + fault_count (disk_fault fi ! i)) [0..<NDISKS c] 0"

text \<open>The local \<open>fault_rate\<close> keeps its indeterminate value \<open>junk\<close> when nothing is converted.\<close>

definition IS_fault_injection_set_distr ::
  "is_config \<Rightarrow> u64 \<Rightarrow> IS_fault_injection \<Rightarrow> string \<Rightarrow> IS_fault_injection option" where
  "IS_fault_injection_set_distr c junk fi distr =
     init_uniform_distr c fi (case sscanf_llu distr of Some v \<Rightarrow> v | None \<Rightarrow> junk)"

text \<open>\<^verbatim>\<open>%d\<close> prints the low half of the 64-bit rate as a signed number.\<close>

definition IS_fault_injection_distr :: "IS_fault_injection \<Rightarrow> string" where
  "IS_fault_injection_distr fi = print_d_nl (sint (ucast (fault_rate fi) :: u32))"

definition IS_fault_injection_access :: "IS_fault_injection \<Rightarrow> nat \<Rightarrow> IS_fault_injection" where
  "IS_fault_injection_access fi disk =
     fi\<lparr>disk_fault := (disk_fault fi)[disk := (disk_fault fi ! disk)
       \<lparr>access_count := access_count (disk_fault fi ! disk) + 1,
        access_count_before_next_fault := access_count_before_next_fault (disk_fault fi ! disk) - 1\<rparr>]\<rparr>"

definition IS_fault_injection_inject_fault ::
  "IS_fault_injection \<Rightarrow> nat \<Rightarrow> (int \<times> IS_fault_injection) option" where
  "IS_fault_injection_inject_fault fi disk =
     (let d = disk_fault fi ! disk in
      if inject_fault fi = 1 \<and> sint (access_count_before_next_fault d) \<le> 0
      then if 2 * fault_rate fi = 0 then None
           else case genrand64_uint64 (seed d) of (x, r) \<Rightarrow>
             Some (1, fi\<lparr>disk_fault := (disk_fault fi)[disk := d
               \<lparr>fault_count := fault_count d + 1, seed := r,
                access_count_before_next_fault := 1 + x mod (2 * fault_rate fi)\<rparr>]\<rparr>)
      else Some (0, fi))"

text \<open>
  The way \<open>IS_rdma_read\<close> uses the injector on the disk it reads from: ask for a fault, and count
  an access of the disk only when there was none. The list holds the answers.
\<close>

fun faulty_reads :: "nat \<Rightarrow> nat \<Rightarrow> IS_fault_injection \<Rightarrow> (int list \<times> IS_fault_injection) option" where
  "faulty_reads 0 disk fi = Some ([], fi)"
| "faulty_reads (Suc n) disk fi =
     (case IS_fault_injection_inject_fault fi disk of
        None \<Rightarrow> None
      | Some (f, fi) \<Rightarrow> map_option (\<lambda>(fs, fi). (f # fs, fi))
          (faulty_reads n disk (if f = 0 then IS_fault_injection_access fi disk else fi)))"

section \<open>The countdown\<close>

abbreviation countdown :: "IS_fault_injection \<Rightarrow> nat \<Rightarrow> int" where
  "countdown fi disk \<equiv> sint (access_count_before_next_fault (disk_fault fi ! disk))"

lemma sint_dec:
  fixes w :: u64
  assumes "0 < sint w" shows "sint (w - 1) = sint w - 1"
proof -
  have "- (2 ^ 63) \<le> sint w - 1 \<and> sint w - 1 < 2 ^ 63"
    using assms sint_lt [of w] by simp
  then have "signed_take_bit 63 (sint w - 1) = sint w - 1"
    by (simp add: signed_take_bit_int_eq_self_iff)
  then show ?thesis by (simp add: sint_word_ariths)
qed

text \<open>A reload is between 1 and twice the rate, as long as that fits a \<^verbatim>\<open>long long\<close>.\<close>

lemma reload_range:
  fixes x rate :: u64
  assumes "rate \<noteq> 0" "unat rate < 2 ^ 62"
  shows "2 * rate \<noteq> 0" and "1 \<le> sint (1 + x mod (2 * rate))" and "sint (1 + x mod (2 * rate)) \<le> 2 * uint rate"
proof -
  have h: "uint rate < 2 ^ 62"
    using assms(2) by (metis of_nat_less_iff of_nat_numeral of_nat_power uint_nat)
  then have d: "uint (2 * rate) = 2 * uint rate"
    using uint_mult_lem [of "2 :: u64" rate] by simp
  have "uint rate \<noteq> 0" using assms(1) by (simp add: unsigned_eq_0_iff)
  then have pos: "0 < uint rate" using uint_ge_0 [of rate] by linarith
  show "2 * rate \<noteq> 0"
  proof
    assume "2 * rate = 0"
    then have "uint (2 * rate) = 0" by (simp only: unsigned_0)
    with d pos show False by linarith
  qed
  have m: "uint (x mod (2 * rate)) = uint x mod (2 * uint rate)"
    by (simp add: uint_mod d)
  have r: "0 \<le> uint x mod (2 * uint rate)" "uint x mod (2 * uint rate) < 2 * uint rate"
    using pos by simp_all
  have "2 * uint rate < 2 ^ 63" using h by simp
  with r have u: "uint (1 + x mod (2 * rate)) = 1 + uint x mod (2 * uint rate)"
    by (simp add: uint_word_ariths m take_bit_int_eq_self_iff)
  have "sint (1 + x mod (2 * rate)) = uint (1 + x mod (2 * rate))" if "uint (1 + x mod (2 * rate)) < 2 ^ 63"
    using that by (simp add: sint_uint signed_take_bit_int_eq_self_iff)
      (use uint_ge_0 [of "1 + x mod (2 * rate)"] in linarith)
  moreover have "1 + uint x mod (2 * uint rate) < 2 ^ 63 \<or> 2 * uint rate = 2 ^ 63"
    using r \<open>2 * uint rate < 2 ^ 63\<close> by linarith
  ultimately have "sint (1 + x mod (2 * rate)) = 1 + uint x mod (2 * uint rate)"
    using \<open>2 * uint rate < 2 ^ 63\<close> by (simp add: u)
  with r show "1 \<le> sint (1 + x mod (2 * rate))" "sint (1 + x mod (2 * rate)) \<le> 2 * uint rate" by simp_all
qed

lemma access_countdown:
  assumes "disk < length (disk_fault fi)" "0 < countdown fi disk"
  shows "countdown (IS_fault_injection_access fi disk) disk = countdown fi disk - 1"
  using assms by (simp add: IS_fault_injection_access_def sint_dec)

lemma access_frame:
  "inject_fault (IS_fault_injection_access fi disk) = inject_fault fi"
  "fault_rate (IS_fault_injection_access fi disk) = fault_rate fi"
  "length (disk_fault (IS_fault_injection_access fi disk)) = length (disk_fault fi)"
  "d \<noteq> disk \<Longrightarrow> disk_fault (IS_fault_injection_access fi disk) ! d = disk_fault fi ! d"
  "disk < length (disk_fault fi) \<Longrightarrow>
     fault_count (disk_fault (IS_fault_injection_access fi disk) ! disk) = fault_count (disk_fault fi ! disk)"
  by (simp_all add: IS_fault_injection_access_def)

lemma faulty_reads_until_fault:
  assumes "inject_fault fi = 1" "disk < length (disk_fault fi)"
    and rate: "fault_rate fi \<noteq> 0" "unat (fault_rate fi) < 2 ^ 62"
    and "countdown fi disk = int n"
  shows "\<exists>fi'. faulty_reads (Suc n) disk fi = Some (replicate n 0 @ [1], fi') \<and>
    1 \<le> countdown fi' disk \<and> countdown fi' disk \<le> 2 * uint (fault_rate fi) \<and>
    fault_count (disk_fault fi' ! disk) = fault_count (disk_fault fi ! disk) + 1"
  using assms
proof (induction n arbitrary: fi)
  case 0
  note range = reload_range [OF 0(3,4)]
  obtain x r where g: "genrand64_uint64 (seed (disk_fault fi ! disk)) = (x, r)" by fastforce
  show ?case
    using 0 range(1) range(2,3) [of x] by (simp add: IS_fault_injection_inject_fault_def Let_def g)
next
  case (Suc n)
  let ?fi = "IS_fault_injection_access fi disk"
  have "IS_fault_injection_inject_fault fi disk = Some (0, fi)"
    using Suc.prems by (simp add: IS_fault_injection_inject_fault_def Let_def)
  moreover have "countdown ?fi disk = int n"
    using Suc.prems by (subst access_countdown) simp_all
  with Suc.IH [of ?fi] Suc.prems obtain fi' where
    "faulty_reads (Suc n) disk ?fi = Some (replicate n 0 @ [1], fi')"
    "1 \<le> countdown fi' disk" "countdown fi' disk \<le> 2 * uint (fault_rate fi)"
    "fault_count (disk_fault fi' ! disk) = fault_count (disk_fault fi ! disk) + 1"
    by (auto simp only: access_frame)
  ultimately show ?case by (auto simp del: faulty_reads.simps(2) simp: faulty_reads.simps(2) [of "Suc n"])
qed

section \<open>Reset\<close>

lemma reset_disks_None:
  "reset_disks rate is ds = None \<longleftrightarrow> is \<noteq> [] \<and> 2 * rate = 0"
  by (induction rate "is" ds rule: reset_disks.induct) (auto split: prod.splits)

definition disk_reset :: "u64 \<Rightarrow> IS_fault_injection_disk \<Rightarrow> bool" where
  "disk_reset rate d \<longleftrightarrow> access_count d = 0 \<and> access_count_before_next_fault d < 2 * rate"

lemma reset_disks_Some:
  "reset_disks rate is ds = Some ds' \<Longrightarrow> length ds' = length ds \<and>
    (\<forall>i<length ds. fault_count (ds' ! i) = fault_count (ds ! i) \<and>
      (i \<in> set is \<or> disk_reset rate (ds ! i) \<longrightarrow> disk_reset rate (ds' ! i)))"
proof (induction rate "is" ds arbitrary: ds' rule: reset_disks.induct)
  case (2 rate i "is" ds)
  obtain x r where g: "genrand64_uint64 (init_genrand64 (seed (ds ! i)) 1) = (x, r)" by fastforce
  define d where "d = (ds ! i)\<lparr>seed := r, access_count := 0, access_count_before_next_fault := x mod (2 * rate)\<rparr>"
  from 2(2) have nz: "2 * rate \<noteq> 0" and run: "reset_disks rate is (ds[i := d]) = Some ds'"
    by (auto simp: g d_def split: if_splits)
  have d: "disk_reset rate d" "fault_count d = fault_count (ds ! i)"
    using nz by (simp_all add: d_def disk_reset_def word_mod_less_divisor word_neq_0_conv)
  have "ds[i := d] ! j = (if j = i then d else ds ! j)" if "j < length ds" for j
    using that by (auto simp: nth_list_update)
  with 2(1) [OF nz g [symmetric], folded d_def, OF run] d show ?case by auto
qed simp

section \<open>Properties\<close>

text \<open>C29: Faults are spaced the way the countdown says. With injection on, a disk whose countdown is \<open>n\<close>
  serves exactly \<open>n\<close> reads without a fault, the next one faults, and the countdown is then at least 1
  and at most twice the fault rate.\<close>

theorem fault_spacing:
  assumes "inject_fault fi = 1" "disk < length (disk_fault fi)" "fault_rate fi \<noteq> 0"
    and "unat (fault_rate fi) < 2 ^ 62" "countdown fi disk = int n"
  shows "\<exists>fi'. faulty_reads (Suc n) disk fi = Some (replicate n 0 @ [1], fi') \<and>
    1 \<le> countdown fi' disk \<and> countdown fi' disk \<le> 2 * uint (fault_rate fi) \<and>
    fault_count (disk_fault fi' ! disk) = fault_count (disk_fault fi ! disk) + 1"
  by (rule faulty_reads_until_fault [OF assms])

definition sample_injector :: IS_fault_injection where
  "sample_injector = \<lparr>inject_fault = 1, fault_rate = 100, disk_fault =
     [\<lparr>access_count = 0, access_count_before_next_fault = 2, fault_count = 5,
       seed = \<lparr>mt = replicate 312 0, mti = 312\<rparr>\<rparr>]\<rparr>"

theorem fault_spacing_witness:
  "\<exists>fi'. faulty_reads (Suc 2) 0 sample_injector = Some (replicate 2 0 @ [1], fi') \<and>
    1 \<le> countdown fi' 0 \<and> countdown fi' 0 \<le> 2 * uint (fault_rate sample_injector) \<and>
    fault_count (disk_fault fi' ! 0) = fault_count (disk_fault sample_injector ! 0) + 1"
  by (rule fault_spacing) (simp_all add: sample_injector_def)

text \<open>C40: Setting the distribution traps (division by zero) exactly when twice the requested rate is 0 modulo
  \<open>2^64\<close>, so for the rates 0 and \<open>2^63\<close>; otherwise every disk restarts with no accesses and a countdown
  below twice the rate. The fault counters are not reset.\<close>

theorem init_uniform_distr_result:
  assumes "0 < NDISKS c" "NDISKS c \<le> length (disk_fault fi)"
  shows "case init_uniform_distr c fi rate of
      None \<Rightarrow> 2 * rate = 0
    | Some fi' \<Rightarrow> 2 * rate \<noteq> 0 \<and> fault_rate fi' = rate \<and> inject_fault fi' = inject_fault fi \<and>
        (\<forall>d<NDISKS c. disk_reset rate (disk_fault fi' ! d) \<and>
          fault_count (disk_fault fi' ! d) = fault_count (disk_fault fi ! d))"
proof (cases "reset_disks rate [0..<NDISKS c] (disk_fault fi)")
  case None
  then have "2 * rate = 0" by (simp add: reset_disks_None)
  with None show ?thesis by (simp add: init_uniform_distr_def)
next
  case (Some ds)
  moreover from Some have "2 * rate \<noteq> 0" using assms reset_disks_None [of rate "[0..<NDISKS c]"] by fastforce
  ultimately show ?thesis using reset_disks_Some [OF Some] assms by (simp add: init_uniform_distr_def)
qed

theorem init_uniform_distr_result_witness:
  "init_uniform_distr (REP_config\<lparr>NDISKS := 1\<rparr>) sample_injector 0 = None \<and>
   init_uniform_distr (REP_config\<lparr>NDISKS := 1\<rparr>) sample_injector 7 \<noteq> None"
  using init_uniform_distr_result [of "REP_config\<lparr>NDISKS := 1\<rparr>" sample_injector 0]
    init_uniform_distr_result [of "REP_config\<lparr>NDISKS := 1\<rparr>" sample_injector 7]
  by (auto simp: sample_injector_def split: option.splits)

text \<open>The distribution attribute reads back what it shows: for rates below \<open>2^31\<close>, storing the shown text
  sets the same rate again.\<close>

theorem distr_show_store:
  assumes "unat (fault_rate fi) < 2 ^ 31"
  shows "IS_fault_injection_set_distr c junk fi (IS_fault_injection_distr fi) =
    init_uniform_distr c fi (fault_rate fi)"
proof -
  define n where "n = unat (fault_rate fi)"
  have rate: "fault_rate fi = word_of_nat n" by (simp add: n_def)
  have "sint (ucast (fault_rate fi) :: u32) = int n"
    using assms sint_small [of n] by (simp add: n_def)
  then have "IS_fault_injection_distr fi = print_nat n @ [CHR 0x0A]"
    by (simp add: IS_fault_injection_distr_def print_d_nl_def)
  moreover have "\<not> is_digit (CHR 0x0A)" by (simp add: is_digit_def code_def)
  ultimately show ?thesis
    by (simp add: IS_fault_injection_set_distr_def sscanf_llu_print rate)
qed

theorem distr_show_store_witness:
  "IS_fault_injection_set_distr REP_config 0 sample_injector (IS_fault_injection_distr sample_injector) =
    init_uniform_distr REP_config sample_injector (fault_rate sample_injector)"
  by (rule distr_show_store) (simp add: sample_injector_def)

end
