(* ===== verification/Session.thy ===== *)
theory Session
  imports Messages Ctx_Pool Fault_Injection
begin

text \<open>
  The session of the resilience manager: the control blocks of the servers and the tables that say which
  server holds which slab of the device (\<^verbatim>\<open>infiniswap.h\<close>, \<^verbatim>\<open>is_main.c\<close>, \<^verbatim>\<open>is_mq.c\<close>). The tables are kept twice, by slab in the
  session and by remote chunk in the control block; \<open>maps_ok\<close> says that the two agree, and \<open>placement\<close> is the
  abstract map they both represent.
\<close>

unbundle bit_operations_syntax

section \<open>States\<close>

datatype cb_state = CB_IDLE | CB_CONNECTED | CB_MAPPED | CB_EVICTING | CB_FAIL

datatype test_state = IDLE | CONNECT_REQUEST | ADDR_RESOLVED | ROUTE_RESOLVED | CONNECTED | FREE_MEM_RECV
  | AFTER_FREE_MEM | RDMA_BUF_ADV | WAIT_OPS | RECV_STOP | RECV_EVICT | RECV_FAULT_DONE | RDMA_WRITE_RUNNING
  | RDMA_READ_RUNNING | SEND_DONE | RDMA_DONE | RDMA_READ_ADV | RDMA_WRITE_ADV | CM_DISCONNECT | ERROR

datatype chunk_list_state = C_IDLE | C_READY | C_EVICT | C_STOP

text \<open>The enumerations are compared as numbers.\<close>

fun cb_rank :: "cb_state \<Rightarrow> nat" where
  "cb_rank CB_IDLE = 0" | "cb_rank CB_CONNECTED = 1" | "cb_rank CB_MAPPED = 2" | "cb_rank CB_EVICTING = 3"
| "cb_rank CB_FAIL = 4"

fun test_rank :: "test_state \<Rightarrow> nat" where
  "test_rank IDLE = 1" | "test_rank CONNECT_REQUEST = 2" | "test_rank ADDR_RESOLVED = 3" | "test_rank ROUTE_RESOLVED = 4"
| "test_rank CONNECTED = 5" | "test_rank FREE_MEM_RECV = 6" | "test_rank AFTER_FREE_MEM = 7" | "test_rank RDMA_BUF_ADV = 8"
| "test_rank WAIT_OPS = 9" | "test_rank RECV_STOP = 10" | "test_rank RECV_EVICT = 11" | "test_rank RECV_FAULT_DONE = 12"
| "test_rank RDMA_WRITE_RUNNING = 13" | "test_rank RDMA_READ_RUNNING = 14" | "test_rank SEND_DONE = 15"
| "test_rank RDMA_DONE = 16" | "test_rank RDMA_READ_ADV = 17" | "test_rank RDMA_WRITE_ADV = 18"
| "test_rank CM_DISCONNECT = 19" | "test_rank ERROR = 20"

lemma cb_rank_inj: "cb_rank a = cb_rank b \<Longrightarrow> a = b"
  by (cases a; cases b) simp_all

lemma test_rank_inj: "test_rank a = test_rank b \<Longrightarrow> a = b"
  by (cases a; cases b) simp_all

instantiation cb_state :: linorder
begin

definition less_eq_cb_state :: "cb_state \<Rightarrow> cb_state \<Rightarrow> bool" where
  "less_eq_cb_state a b \<longleftrightarrow> cb_rank a \<le> cb_rank b"

definition less_cb_state :: "cb_state \<Rightarrow> cb_state \<Rightarrow> bool" where
  "less_cb_state a b \<longleftrightarrow> cb_rank a < cb_rank b"

instance
  by standard (auto simp: less_eq_cb_state_def less_cb_state_def intro: cb_rank_inj)

end

instantiation test_state :: linorder
begin

definition less_eq_test_state :: "test_state \<Rightarrow> test_state \<Rightarrow> bool" where
  "less_eq_test_state a b \<longleftrightarrow> test_rank a \<le> test_rank b"

definition less_test_state :: "test_state \<Rightarrow> test_state \<Rightarrow> bool" where
  "less_test_state a b \<longleftrightarrow> test_rank a < test_rank b"

instance
  by standard (auto simp: less_eq_test_state_def less_test_state_def intro: test_rank_inj)

end

section \<open>Control blocks and session\<close>

definition CHUNK_MAPPED :: nat where "CHUNK_MAPPED = 1"
definition CHUNK_UNMAPPED :: nat where "CHUNK_UNMAPPED = 0"

record remote_chunk_g =
  remote_rkey :: u32
  remote_addr :: u64

record remote_chunk_g_list =
  chunk_list :: "remote_chunk_g list"
  remote_mapped :: "nat list"
  chunk_size_g :: int
  target_size_g :: int
  shrink_size_g :: int
  chunk_map :: "int list"
  evict_chunk_map :: "char list"
  c_state :: chunk_list_state
  evict_thread :: bool

text \<open>A kernel handle: NULL, an error pointer, or an object.\<close>

datatype handle = Null | Err int | Obj

text \<open>The kernel objects that the set-up of a connection allocates and maps.\<close>

datatype kobj = K_PD | K_CQ | K_QP | K_DMA_MR | K_RECV_MAP | K_SEND_MAP

record kernel_cb =
  cb_index :: nat
  recv_buf :: message
  send_buf :: message
  remote_chunk :: remote_chunk_g_list
  state :: test_state
  cb_port :: "16 word"
  cb_addr :: "u8 list"
  txdepth :: int
  cb_size :: nat
  cm_id :: handle
  pd :: handle
  cq :: handle
  qp :: handle
  dma_mr :: handle
  rdma_mr :: handle
  recv_mr :: handle
  send_mr :: handle

record ctx_pool_list =
  ctx_pool :: "rdma_ctx list"
  free_ctxs :: "free_ctx_pool option"

record IS_connection =
  cpu_id :: nat
  ctx_pools :: "ctx_pool_list list"

record IS_portal =
  port :: "16 word"
  addr :: string

text \<open>The entries of \<open>cb_list\<close> are pointers; a block that was freed is \<open>None\<close>.\<close>

record IS_session =
  fault_injection :: IS_fault_injection
  mapped_cb_num :: int
  cb_list :: "kernel_cb option list"
  portal_list :: "IS_portal list"
  cb_num :: int
  cb_state_list :: "cb_state list"
  IS_conns :: "IS_connection list"
  portal :: string
  conns_count :: int
  conns_wait :: bool
  capacity :: nat
  mapped_capacity :: nat
  capacity_g :: int
  cb_index_map :: "int list"
  chunk_map_cb_chunk :: "int list"
  unmapped_chunk_list :: "int list"
  free_chunk_index :: int

definition cb_at :: "IS_session \<Rightarrow> int \<Rightarrow> kernel_cb res" where
  "cb_at s b = bindE (aload (cb_list s) b) (\<lambda>c. case c of None \<Rightarrow> Inl Oob | Some cb \<Rightarrow> Inr cb)"

definition upd_cb :: "nat \<Rightarrow> (kernel_cb \<Rightarrow> kernel_cb) \<Rightarrow> IS_session \<Rightarrow> IS_session" where
  "upd_cb b f s = s\<lparr>cb_list := (cb_list s)[b := map_option f (cb_list s ! b)]\<rparr>"

definition upd_rc :: "nat \<Rightarrow> (remote_chunk_g_list \<Rightarrow> remote_chunk_g_list) \<Rightarrow> IS_session \<Rightarrow> IS_session" where
  "upd_rc b f = upd_cb b (\<lambda>cb. cb\<lparr>remote_chunk := f (remote_chunk cb)\<rparr>)"

definition set_state :: "nat \<Rightarrow> test_state \<Rightarrow> IS_session \<Rightarrow> IS_session" where
  "set_state b t = upd_cb b (\<lambda>cb. cb\<lparr>state := t\<rparr>)"

definition set_cb_state :: "nat \<Rightarrow> cb_state \<Rightarrow> IS_session \<Rightarrow> IS_session" where
  "set_cb_state b t s = s\<lparr>cb_state_list := (cb_state_list s)[b := t]\<rparr>"

section \<open>Creation\<close>

text \<open>\<open>kernel_cb_init\<close>; \<open>create_id\<close> is the result of \<^verbatim>\<open>rdma_create_id\<close>. On an error the block is freed.\<close>

definition init_remote_chunk :: "remote_chunk_g_list \<Rightarrow> remote_chunk_g_list" where
  "init_remote_chunk r = r\<lparr>chunk_size_g := 0,
     chunk_list := replicate MAX_MR_SIZE_GB \<lparr>remote_rkey = 0, remote_addr = 0\<rparr>,
     remote_mapped := replicate MAX_MR_SIZE_GB CHUNK_UNMAPPED, chunk_map := replicate MAX_MR_SIZE_GB (- 1),
     evict_chunk_map := replicate MAX_MR_SIZE_GB (CHR 0x00), c_state := C_IDLE\<rparr>"

definition kernel_cb_init :: "is_config \<Rightarrow> nat \<Rightarrow> handle \<Rightarrow> nat \<Rightarrow> IS_session \<Rightarrow> (int \<times> IS_session) res" where
  "kernel_cb_init c submit_queues create_id b s =
     bindE (cb_at s (int b)) (\<lambda>cb.
       let cb = cb\<lparr>txdepth := int IS_QUEUE_DEPTH * int submit_queues + 1, cb_size := IS_PAGE_SIZE div NDATAS c * 1,
                   state := IDLE, remote_chunk := init_remote_chunk (remote_chunk cb), cm_id := create_id\<rparr>
       in case create_id of
            Err e \<Rightarrow> Inr (e, s\<lparr>cb_list := (cb_list s)[b := None]\<rparr>)
          | _ \<Rightarrow> Inr (0, s\<lparr>cb_list := (cb_list s)[b := Some cb]\<rparr>))"


text \<open>A block fresh from \<^verbatim>\<open>kzalloc\<close>.\<close>

definition zero_message :: message where
  "zero_message = \<lparr>buf = replicate MAX_MR_SIZE_GB 0, rkey = replicate MAX_MR_SIZE_GB 0, size_gb = 0, mtype = NO_TYPE\<rparr>"

definition zero_cb :: kernel_cb where
  "zero_cb = \<lparr>cb_index = 0, recv_buf = zero_message, send_buf = zero_message,
     remote_chunk = \<lparr>chunk_list = [], remote_mapped = [], chunk_size_g = 0, target_size_g = 0, shrink_size_g = 0,
       chunk_map = [], evict_chunk_map = [], c_state = C_IDLE, evict_thread = False\<rparr>,
     state = IDLE, cb_port = 0, cb_addr = replicate 16 0, txdepth = 0, cb_size = 0, cm_id = Null, pd = Null, cq = Null,
     qp = Null, dma_mr = Null, rdma_mr = Null, recv_mr = Null, send_mr = Null\<rparr>"

text \<open>
  One entry of a portal: the address up to the colon, which has to fit its 16 bytes with the terminator, and the
  port. An entry without a colon is scanned past its end.
\<close>

definition parse_portal :: "string \<Rightarrow> IS_portal res" where
  "parse_portal p =
     (let a = takeWhile (\<lambda>ch. ch \<noteq> CHR '':'') p; j = length a in
      if j = length p \<or> 16 \<le> j then Inl Oob
      else Inr \<lparr>port = word_of_int (case sscanf_d (drop (j + 1) p) of Some v \<Rightarrow> v | None \<Rightarrow> 0), addr = a\<rparr>)"

fun parse_portals :: "nat \<Rightarrow> string option \<Rightarrow> IS_portal list res" where
  "parse_portals 0 ptr = Inr []"
| "parse_portals (Suc n) None = Inl Oob"
| "parse_portals (Suc n) (Some s) = (case strsep (CHR '','') s of (p, ptr) \<Rightarrow>
     bindE (parse_portal p) (\<lambda>x. bindE (parse_portals n ptr) (\<lambda>xs. Inr (x # xs))))"

definition portal_parser :: "IS_session \<Rightarrow> IS_session res" where
  "portal_parser s = (case strsep (CHR '','') (drop 7 (portal s)) of (f, ptr) \<Rightarrow>
     let p_count = (case sscanf_d f of Some v \<Rightarrow> v | None \<Rightarrow> 0) in
     bindE (parse_portals (nat p_count) ptr) (\<lambda>ps. Inr (s\<lparr>cb_num := p_count, portal_list := ps\<rparr>)))"

definition IS_create_conn :: "(nat \<Rightarrow> bool) \<Rightarrow> int \<Rightarrow> nat \<Rightarrow> IS_connection option" where
  "IS_create_conn conn_alloc num_cb cpu = (if conn_alloc cpu
     then Some \<lparr>cpu_id = cpu, ctx_pools = replicate (nat num_cb) \<lparr>ctx_pool = [], free_ctxs = None\<rparr>\<rparr> else None)"

text \<open>
  \<open>IS_session_create\<close>; \<open>in4_pton\<close> is the kernel's address parser, \<open>conns_alloc\<close> and \<open>conn_alloc\<close> tell whether the
  allocations whose result is checked succeed. The portal is copied without its terminator, over what the field held.
\<close>

definition session_tables :: "is_config \<Rightarrow> (string \<Rightarrow> u8 list) \<Rightarrow> IS_session \<Rightarrow> IS_session" where
  "session_tables c in4_pton s = s\<lparr>capacity_g := int (DATASIZE_G c), capacity := DATASIZE_G c * ONE_GB, mapped_cb_num := 0,
     mapped_capacity := 0,
     cb_list := map (\<lambda>i. Some (zero_cb\<lparr>cb_port := htons (port (portal_list s ! i)),
       cb_addr := in4_pton (addr (portal_list s ! i)), cb_index := i\<rparr>)) [0..<nat (cb_num s)],
     cb_state_list := replicate (nat (cb_num s)) CB_IDLE,
     free_chunk_index := int (DISKSIZE_G c) - 1,
     cb_index_map := replicate (DISKSIZE_G c) NO_CB_MAPPED,
     unmapped_chunk_list := map (\<lambda>i. int (DATASIZE_G c) - 1 - int i) [0..<DISKSIZE_G c],
     chunk_map_cb_chunk := replicate (DISKSIZE_G c) (- 1)\<rparr>"

definition IS_session_create :: "is_config \<Rightarrow> nat \<Rightarrow> (string \<Rightarrow> u8 list) \<Rightarrow> bool \<Rightarrow> (nat \<Rightarrow> bool) \<Rightarrow> string \<Rightarrow> IS_session \<Rightarrow>
    (int \<times> IS_session) res" where
  "IS_session_create c submit_queues in4_pton conns_alloc conn_alloc name s =
     (if 512 \<le> length name then Inl Oob
      else bindE (portal_parser (s\<lparr>portal := name @ drop (length name) (portal s)\<rparr>)) (\<lambda>s.
        let s = session_tables c in4_pton s;
            cs = map (IS_create_conn conn_alloc (cb_num s)) [0..<submit_queues]
        in if \<not> conns_alloc \<or> None \<in> set cs then Inr (- ENOMEM, s\<lparr>IS_conns := []\<rparr>)
           else case IS_fault_injection_init c (fault_injection s) of
               None \<Rightarrow> Inl Die
             | Some fi \<Rightarrow> Inr (0, s\<lparr>IS_conns := map the cs, fault_injection := fi\<rparr>)))"

section \<open>Receiving from a server\<close>

text \<open>The chunk a server granted is entered under the slab that was asked for, which the message names.\<close>

definition install_chunk :: "nat \<Rightarrow> kernel_cb \<Rightarrow> nat \<Rightarrow> remote_chunk_g_list \<Rightarrow> remote_chunk_g_list" where
  "install_chunk i cb slab r = r\<lparr>
     chunk_list := (chunk_list r)[i := \<lparr>remote_rkey = ntohl (rkey (recv_buf cb) ! i), remote_addr = ntohll (buf (recv_buf cb) ! i)\<rparr>],
     chunk_map := (chunk_map r)[i := int slab], remote_mapped := (remote_mapped r)[i := CHUNK_MAPPED]\<rparr>"

definition enter_slab :: "nat \<Rightarrow> int \<Rightarrow> nat \<Rightarrow> IS_session \<Rightarrow> IS_session res" where
  "enter_slab b slab i s =
     bindE (astore (chunk_map_cb_chunk s) slab (int i)) (\<lambda>mcc.
     bindE (astore (cb_index_map s) slab (int b)) (\<lambda>cim.
     Inr (s\<lparr>chunk_map_cb_chunk := mcc, cb_index_map := cim, free_chunk_index := free_chunk_index s - 1\<rparr>)))"

definition IS_single_chunk_init :: "nat \<Rightarrow> IS_session \<Rightarrow> IS_session res" where
  "IS_single_chunk_init b s = bindE (cb_at s (int b)) (\<lambda>cb.
     let select_chunk = size_gb (recv_buf cb) in
     case find (\<lambda>i. rkey (recv_buf cb) ! i \<noteq> 0) [0..<MAX_MR_SIZE_GB] of
       None \<Rightarrow> Inr s
     | Some i \<Rightarrow> bindE (enter_slab b select_chunk i s) (\<lambda>s.
         Inr (upd_rc b (\<lambda>r. (install_chunk i cb (nat select_chunk) r)\<lparr>chunk_size_g := chunk_size_g r + 1, c_state := C_READY\<rparr>) s)))"

text \<open>The bulk variant takes the slabs from the list of unmapped ones.\<close>

definition list_init_step :: "nat \<Rightarrow> kernel_cb \<Rightarrow> nat \<Rightarrow> IS_session \<Rightarrow> IS_session res" where
  "list_init_step b cb i s = (if rkey (recv_buf cb) ! i = 0 then Inr s
     else bindE (aload (unmapped_chunk_list s) (free_chunk_index s)) (\<lambda>slab.
          bindE (enter_slab b slab i s) (\<lambda>s. Inr (upd_rc b (install_chunk i cb (nat slab)) s))))"

definition IS_chunk_list_init :: "nat \<Rightarrow> IS_session \<Rightarrow> IS_session res" where
  "IS_chunk_list_init b s = bindE (cb_at s (int b)) (\<lambda>cb.
     bindE (foldE (list_init_step b cb) [0..<MAX_MR_SIZE_GB] s) (\<lambda>s.
     Inr (upd_rc b (\<lambda>r. r\<lparr>chunk_size_g := chunk_size_g r + size_gb (recv_buf cb), c_state := C_READY\<rparr>) s)))"

definition client_recv_evict :: "nat \<Rightarrow> message \<Rightarrow> IS_session \<Rightarrow> IS_session" where
  "client_recv_evict b m s = (if size_gb m = 0 then s
     else upd_rc b (\<lambda>r. r\<lparr>shrink_size_g := size_gb m, c_state := C_EVICT\<rparr>) s)"

definition client_recv_stop :: "nat \<Rightarrow> message \<Rightarrow> IS_session \<Rightarrow> IS_session" where
  "client_recv_stop b m s = upd_rc b (\<lambda>r. (if size_gb m = 0 then r
       else r\<lparr>evict_chunk_map := map (\<lambda>i. if rkey m ! i \<noteq> 0 then CHR ''s'' else CHR ''a'') [0..<MAX_MR_SIZE_GB]\<rparr>)
     \<lparr>shrink_size_g := size_gb m, c_state := C_STOP\<rparr>) s"

text \<open>The message has been placed in \<open>recv_buf\<close>; \<open>len_ok\<close> tells whether the completion has its length.\<close>

definition client_recv :: "nat \<Rightarrow> bool \<Rightarrow> IS_session \<Rightarrow> (int \<times> IS_session) res" where
  "client_recv b len_ok s = bindE (cb_at s (int b)) (\<lambda>cb.
     let m = recv_buf cb in
     if \<not> len_ok then Inr (- 1, s)
     else if state cb < CONNECTED then Inr (- 1, s)
     else case mtype m of
       FREE_SIZE \<Rightarrow> Inr (0, set_state b FREE_MEM_RECV (upd_rc b (\<lambda>r. r\<lparr>target_size_g := size_gb m\<rparr>) s))
     | INFO \<Rightarrow> bindE (IS_chunk_list_init b (set_state b WAIT_OPS (set_cb_state b CB_MAPPED s))) (\<lambda>s. Inr (0, s))
     | INFO_SINGLE \<Rightarrow> bindE (IS_single_chunk_init b (set_state b WAIT_OPS (set_cb_state b CB_MAPPED s))) (\<lambda>s. Inr (0, s))
     | EVICT \<Rightarrow> Inr (0, client_recv_evict b m (set_state b RECV_EVICT s))
     | STOP \<Rightarrow> Inr (0, client_recv_stop b m (set_state b RECV_STOP s))
     | FAULT_DONE \<Rightarrow> Inr (0, set_state b RECV_FAULT_DONE s)
     | _ \<Rightarrow> Inr (- 1, s))"

section \<open>Unmapping\<close>

text \<open>The first loop of \<open>IS_disconnect_handler\<close>: no request is routed to the server any more.\<close>

definition unmap_step :: "nat \<Rightarrow> nat \<Rightarrow> IS_session \<Rightarrow> IS_session res" where
  "unmap_step b i s = bindE (cb_at s (int b)) (\<lambda>cb.
     let slab = chunk_map (remote_chunk cb) ! i in
     if slab = - 1 then Inr s
     else bindE (astore (cb_index_map s) slab NO_CB_MAPPED) (\<lambda>cim.
       Inr (upd_rc b (\<lambda>r. r\<lparr>remote_mapped := (remote_mapped r)[i := CHUNK_UNMAPPED]\<rparr>) (s\<lparr>cb_index_map := cim\<rparr>))))"

text \<open>Its last loop: the slabs go back to the list of unmapped ones.\<close>

definition reclaim_step :: "nat \<Rightarrow> nat \<Rightarrow> IS_session \<Rightarrow> IS_session res" where
  "reclaim_step b i s = bindE (cb_at s (int b)) (\<lambda>cb.
     let slab = chunk_map (remote_chunk cb) ! i in
     if slab = - 1 then Inr s
     else bindE (astore (chunk_map_cb_chunk s) slab (- 1)) (\<lambda>mcc.
          bindE (astore (unmapped_chunk_list s) (free_chunk_index s + 1) slab) (\<lambda>ul.
          Inr (upd_rc b (\<lambda>r. r\<lparr>chunk_map := (chunk_map r)[i := - 1]\<rparr>)
            (s\<lparr>chunk_map_cb_chunk := mcc, unmapped_chunk_list := ul, free_chunk_index := free_chunk_index s + 1\<rparr>)))))"

definition unmap_server :: "nat \<Rightarrow> IS_session \<Rightarrow> IS_session res" where
  "unmap_server b s = bindE (foldE (unmap_step b) [0..<MAX_MR_SIZE_GB] s)
     (\<lambda>s. Inr (upd_rc b (\<lambda>r. r\<lparr>chunk_size_g := 0\<rparr>) s))"

definition reclaim_server :: "nat \<Rightarrow> IS_session \<Rightarrow> IS_session res" where
  "reclaim_server b = foldE (reclaim_step b) [0..<MAX_MR_SIZE_GB]"

end
