(* ===== verification/Session_Maps.thy ===== *)
theory Session_Maps
  imports Session
begin

text \<open>
  The slab tables of a session refine one partial map from slabs to (server, remote chunk): installing a chunk
  updates the map at one slab, losing a server removes exactly its slabs, and the two copies of the table stay
  consistent.
\<close>

section \<open>Consistency of the tables\<close>

abbreviation cmap :: "kernel_cb \<Rightarrow> int list" where
  "cmap cb \<equiv> chunk_map (remote_chunk cb)"

definition placement :: "IS_session \<Rightarrow> nat \<rightharpoonup> nat \<times> nat" where
  "placement s x = (if x < length (cb_index_map s) \<and> cb_index_map s ! x \<noteq> NO_CB_MAPPED
     then Some (nat (cb_index_map s ! x), nat (chunk_map_cb_chunk s ! x)) else None)"

definition rc_ok :: "remote_chunk_g_list \<Rightarrow> bool" where
  "rc_ok r \<longleftrightarrow> length (chunk_map r) = MAX_MR_SIZE_GB \<and> length (remote_mapped r) = MAX_MR_SIZE_GB \<and>
     length (chunk_list r) = MAX_MR_SIZE_GB"

text \<open>Slab \<open>x\<close> is chunk \<open>i\<close> of server \<open>b\<close>, by both tables.\<close>

definition linked :: "IS_session \<Rightarrow> nat \<Rightarrow> nat \<Rightarrow> nat \<Rightarrow> bool" where
  "linked s x b i \<longleftrightarrow> cb_index_map s ! x = int b \<and> chunk_map_cb_chunk s ! x = int i \<and> b < length (cb_list s) \<and>
     i < MAX_MR_SIZE_GB \<and>
     (\<exists>cb. cb_list s ! b = Some cb \<and> rc_ok (remote_chunk cb) \<and> cmap cb ! i = int x \<and>
        remote_mapped (remote_chunk cb) ! i = CHUNK_MAPPED)"

definition tables_ok :: "is_config \<Rightarrow> IS_session \<Rightarrow> bool" where
  "tables_ok c s \<longleftrightarrow> length (cb_index_map s) = DISKSIZE_G c \<and> length (chunk_map_cb_chunk s) = DISKSIZE_G c \<and>
     length (unmapped_chunk_list s) = DISKSIZE_G c \<and> length (cb_state_list s) = length (cb_list s) \<and>
     (\<forall>x<DISKSIZE_G c. cb_index_map s ! x \<noteq> NO_CB_MAPPED \<longrightarrow> (\<exists>b i. linked s x b i))"

definition back_ok :: "is_config \<Rightarrow> IS_session \<Rightarrow> nat \<Rightarrow> bool" where
  "back_ok c s b \<longleftrightarrow> (\<forall>cb i. cb_list s ! b = Some cb \<longrightarrow> i < length (cmap cb) \<longrightarrow> cmap cb ! i \<noteq> - 1 \<longrightarrow>
     (\<exists>x<DISKSIZE_G c. cmap cb ! i = int x \<and> linked s x b i))"

lemma back_okD:
  assumes "back_ok c s b" "cb_list s ! b = Some cb" "i < length (cmap cb)" "cmap cb ! i \<noteq> - 1"
  obtains x where "x < DISKSIZE_G c" "cmap cb ! i = int x" "linked s x b i"
  using assms unfolding back_ok_def by blast

definition unmapped :: "IS_session \<Rightarrow> int" where
  "unmapped s = int (length (filter (\<lambda>v. v = NO_CB_MAPPED) (cb_index_map s)))"

definition maps_ok :: "is_config \<Rightarrow> IS_session \<Rightarrow> bool" where
  "maps_ok c s \<longleftrightarrow> tables_ok c s \<and> (\<forall>b<length (cb_list s). back_ok c s b) \<and> free_chunk_index s + 1 = unmapped s"

lemma unmapped_update:
  assumes "x < length m"
  shows "int (length (filter (\<lambda>v. v = NO_CB_MAPPED) (m[x := v]))) = int (length (filter (\<lambda>v. v = NO_CB_MAPPED) m))
    - (if m ! x = NO_CB_MAPPED then 1 else 0) + (if v = NO_CB_MAPPED then 1 else 0)"
proof -
  have "filter (\<lambda>v. v = NO_CB_MAPPED) m = filter (\<lambda>v. v = NO_CB_MAPPED) (take x m @ m ! x # drop (Suc x) m)"
    using id_take_nth_drop [OF assms] by simp
  then show ?thesis using assms by (simp add: upd_conv_take_nth_drop)
qed

lemma placement_linked: "linked s x b i \<Longrightarrow> x < length (cb_index_map s) \<Longrightarrow> placement s x = Some (b, i)"
  by (simp add: linked_def placement_def NO_CB_MAPPED_def)

lemma linked_unique: "linked s x b i \<Longrightarrow> linked s x b' i' \<Longrightarrow> b = b' \<and> i = i'"
  by (simp add: linked_def)

text \<open>Different slabs are on different chunks.\<close>

lemma placement_inj:
  assumes "maps_ok c s" "placement s x = Some p" "placement s y = Some p"
  shows "x = y"
proof -
  have l: "\<exists>b i. linked s z b i \<and> z < length (cb_index_map s)" if "placement s z \<noteq> None" for z
    using that assms(1) by (auto simp: placement_def maps_ok_def tables_ok_def split: if_splits)
  from l [of x] l [of y] assms(2,3) obtain b i b' i' where
    "linked s x b i" "linked s y b' i'" "(b, i) = p" "(b', i') = p"
    using placement_linked by fastforce
  then show ?thesis by (auto simp: linked_def)
qed

section \<open>A new session\<close>

lemma session_tables_ok:
  "maps_ok c (session_tables c in4_pton s)" "placement (session_tables c in4_pton s) = Map.empty"
proof -
  show "placement (session_tables c in4_pton s) = Map.empty"
    by (rule ext) (simp add: placement_def session_tables_def)
  show "maps_ok c (session_tables c in4_pton s)"
    by (auto simp: maps_ok_def tables_ok_def back_ok_def unmapped_def session_tables_def zero_cb_def filter_replicate)
qed

section \<open>A chunk is granted\<close>

lemma find_upt_first: "find P [0..<n] = Some i \<longleftrightarrow> i < n \<and> P i \<and> (\<forall>j<i. \<not> P j)"
proof
  assume "find P [0..<n] = Some i"
  then show "i < n \<and> P i \<and> (\<forall>j<i. \<not> P j)" by (auto simp: find_Some_iff)
next
  assume i: "i < n \<and> P i \<and> (\<forall>j<i. \<not> P j)"
  then show "find P [0..<n] = Some i"
    unfolding find_Some_iff by (intro exI [of _ i]) auto
qed

lemma linked_other:
  assumes "linked s y b' j" "y \<noteq> x" "cb_list s ! b = Some cb" "b' = b \<Longrightarrow> j \<noteq> i"
    and "cb_list s' = (cb_list s)[b := Some cb']" "rc_ok (remote_chunk cb) \<Longrightarrow> rc_ok (remote_chunk cb')"
    and "\<And>j. j \<noteq> i \<Longrightarrow> cmap cb' ! j = cmap cb ! j \<and> remote_mapped (remote_chunk cb') ! j = remote_mapped (remote_chunk cb) ! j"
    and "cb_index_map s' ! y = cb_index_map s ! y" "chunk_map_cb_chunk s' ! y = chunk_map_cb_chunk s ! y"
  shows "linked s' y b' j"
  using assms by (cases "b' = b") (auto simp: linked_def)

lemma enter_slab_Inr:
  assumes "x < length (chunk_map_cb_chunk s)" "x < length (cb_index_map s)"
  shows "enter_slab b (int x) i s = Inr (s\<lparr>chunk_map_cb_chunk := (chunk_map_cb_chunk s)[x := int i],
    cb_index_map := (cb_index_map s)[x := int b], free_chunk_index := free_chunk_index s - 1\<rparr>)"
  using assms by (simp add: enter_slab_def)

text \<open>What installing chunk \<open>i\<close> of server \<open>b\<close> under the unmapped slab \<open>x\<close> does.\<close>

lemma install_ok:
  assumes ok: "maps_ok c s" and b: "b < length (cb_list s)" "cb_list s ! b = Some cb" "rc_ok (remote_chunk cb)"
    and x: "x < DISKSIZE_G c" "cb_index_map s ! x = NO_CB_MAPPED" and i: "i < MAX_MR_SIZE_GB" "cmap cb ! i = - 1"
    and cb': "rc_ok (remote_chunk cb')" "cmap cb' = (cmap cb)[i := int x]"
      "remote_mapped (remote_chunk cb') = (remote_mapped (remote_chunk cb))[i := CHUNK_MAPPED]"
    and s': "cb_list s' = (cb_list s)[b := Some cb']" "cb_index_map s' = (cb_index_map s)[x := int b]"
      "chunk_map_cb_chunk s' = (chunk_map_cb_chunk s)[x := int i]" "free_chunk_index s' = free_chunk_index s - 1"
      "unmapped_chunk_list s' = unmapped_chunk_list s" "length (cb_state_list s') = length (cb_state_list s)"
  shows "maps_ok c s'" and "placement s' = (placement s)(x \<mapsto> (b, i))"
proof -
  have len: "length (cb_index_map s) = DISKSIZE_G c" "length (chunk_map_cb_chunk s) = DISKSIZE_G c"
    using ok by (simp_all add: maps_ok_def tables_ok_def)
  have new: "linked s' x b i"
    using b x i cb' len by (simp add: linked_def s' rc_ok_def)
  have old: "linked s' y b' j" if l: "linked s y b' j" "y < DISKSIZE_G c" for y b' j
  proof (rule linked_other [OF l(1) _ b(2) _ s'(1)])
    show "y \<noteq> x" using l x by (auto simp: linked_def NO_CB_MAPPED_def)
    then show "cb_index_map s' ! y = cb_index_map s ! y" "chunk_map_cb_chunk s' ! y = chunk_map_cb_chunk s ! y" by (simp_all add: s')
    show "b' = b \<Longrightarrow> j \<noteq> i" using l i b by (auto simp: linked_def)
  qed (use cb' in simp_all)
  have "unmapped s' = unmapped s - 1"
    using unmapped_update [of x "cb_index_map s" "int b"] x len by (simp add: unmapped_def s' NO_CB_MAPPED_def)
  moreover have "back_ok c s' b'" if b': "b' < length (cb_list s')" for b'
    unfolding back_ok_def
  proof (intro allI impI)
    fix d j assume d: "cb_list s' ! b' = Some d" "j < length (cmap d)" "cmap d ! j \<noteq> - 1"
    have bk: "back_ok c s b'" using ok b' by (simp add: maps_ok_def s')
    consider (granted) "b' = b" "j = i" | (earlier) d0 where "cb_list s ! b' = Some d0" "j < length (cmap d0)" "cmap d0 ! j = cmap d ! j"
    proof (cases "b' = b \<and> j = i")
      case False
      then show ?thesis using that d b cb' by (cases "b' = b") (auto simp: s')
    qed auto
    then show "\<exists>y<DISKSIZE_G c. cmap d ! j = int y \<and> linked s' y b' j"
    proof cases
      case granted
      with d cb' b x i have "cmap d ! j = int x" by (auto simp: s' rc_ok_def)
      with granted new x show ?thesis by blast
    next
      case earlier
      with d(3) have "cmap d0 ! j \<noteq> - 1" by simp
      from back_okD [OF bk earlier(1,2) this] obtain y where "y < DISKSIZE_G c" "cmap d0 ! j = int y" "linked s y b' j" .
      with earlier old show ?thesis by metis
    qed
  qed
  moreover have "tables_ok c s'"
    unfolding tables_ok_def
  proof (intro conjI allI impI)
    fix y assume y: "y < DISKSIZE_G c" "cb_index_map s' ! y \<noteq> NO_CB_MAPPED"
    show "\<exists>b i. linked s' y b i"
    proof (cases "y = x")
      case False
      with y ok obtain b' j where "linked s y b' j" by (auto simp: maps_ok_def tables_ok_def s')
      with old y show ?thesis by blast
    qed (use new in blast)
  qed (use ok s' in \<open>simp_all add: maps_ok_def tables_ok_def\<close>)
  ultimately show "maps_ok c s'" using ok by (simp add: maps_ok_def s')
  show "placement s' = (placement s)(x \<mapsto> (b, i))"
    by (rule ext) (use len x in \<open>auto simp: placement_def s' NO_CB_MAPPED_def\<close>)
qed


lemma cb_at_Some: "b < length (cb_list s) \<Longrightarrow> cb_list s ! b = Some cb \<Longrightarrow> cb_at s (int b) = Inr cb"
  by (simp add: cb_at_def)

lemma single_chunk_init_ok:
  assumes ok: "maps_ok c s" and b: "b < length (cb_list s)" "cb_list s ! b = Some cb" "rc_ok (remote_chunk cb)"
    and key: "find (\<lambda>i. rkey (recv_buf cb) ! i \<noteq> 0) [0..<MAX_MR_SIZE_GB] = Some i" "cmap cb ! i = - 1"
    and x: "size_gb (recv_buf cb) = int x" "x < DISKSIZE_G c" "cb_index_map s ! x = NO_CB_MAPPED"
  shows "\<exists>s' cb'. IS_single_chunk_init b s = Inr s' \<and> maps_ok c s' \<and> placement s' = (placement s)(x \<mapsto> (b, i)) \<and>
    cb_list s' = (cb_list s)[b := Some cb'] \<and> cb_state_list s' = cb_state_list s \<and> rc_ok (remote_chunk cb') \<and> chunk_list (remote_chunk cb') ! i =
      \<lparr>remote_rkey = ntohl (rkey (recv_buf cb) ! i), remote_addr = ntohll (buf (recv_buf cb) ! i)\<rparr>"
proof -
  define cb' where "cb' = cb\<lparr>remote_chunk := (install_chunk i cb x (remote_chunk cb))
    \<lparr>chunk_size_g := chunk_size_g (remote_chunk cb) + 1, c_state := C_READY\<rparr>\<rparr>"
  define s' where "s' = s\<lparr>chunk_map_cb_chunk := (chunk_map_cb_chunk s)[x := int i], cb_index_map := (cb_index_map s)[x := int b],
    free_chunk_index := free_chunk_index s - 1, cb_list := (cb_list s)[b := Some cb']\<rparr>"
  have i: "i < MAX_MR_SIZE_GB" using key by (simp add: find_upt_first)
  have len: "x < length (chunk_map_cb_chunk s)" "x < length (cb_index_map s)"
    using ok x by (simp_all add: maps_ok_def tables_ok_def)
  have run: "IS_single_chunk_init b s = Inr s'"
    using b key x len by (simp add: IS_single_chunk_init_def cb_at_Some enter_slab_Inr Let_def upd_rc_def upd_cb_def s'_def cb'_def)
  have rc: "rc_ok (remote_chunk cb')" using b(3) by (simp add: cb'_def rc_ok_def install_chunk_def)
  have "cmap cb' = (cmap cb)[i := int x]"
    "remote_mapped (remote_chunk cb') = (remote_mapped (remote_chunk cb))[i := CHUNK_MAPPED]"
    by (simp_all add: cb'_def install_chunk_def)
  note inst = install_ok [OF ok b x(2,3) i key(2) rc this, of s']
  have "maps_ok c s'" "placement s' = (placement s)(x \<mapsto> (b, i))" by (rule inst; simp add: s'_def)+
  moreover have "chunk_list (remote_chunk cb') ! i = \<lparr>remote_rkey = ntohl (rkey (recv_buf cb) ! i), remote_addr = ntohll (buf (recv_buf cb) ! i)\<rparr>"
    using b(3) i by (simp add: cb'_def install_chunk_def rc_ok_def)
  ultimately show ?thesis using run rc by (auto simp: s'_def)
qed

section \<open>A server is lost\<close>

text \<open>After \<open>n\<close> rounds of the first loop, the slabs of the first \<open>n\<close> chunks are unmapped.\<close>

definition unmap_upto :: "IS_session \<Rightarrow> nat \<Rightarrow> kernel_cb \<Rightarrow> nat \<Rightarrow> IS_session \<Rightarrow> bool" where
  "unmap_upto s0 b cb n s \<longleftrightarrow> (\<exists>cim rm. s = s0\<lparr>cb_index_map := cim,
       cb_list := (cb_list s0)[b := Some (cb\<lparr>remote_chunk := (remote_chunk cb)\<lparr>remote_mapped := rm\<rparr>\<rparr>)]\<rparr> \<and>
     length rm = MAX_MR_SIZE_GB \<and> length cim = length (cb_index_map s0) \<and>
     (\<forall>x<length cim. cim ! x = (if \<exists>i<n. cmap cb ! i = int x then NO_CB_MAPPED else cb_index_map s0 ! x)))"

lemma unmap_step_upto:
  assumes b: "b < length (cb_list s0)" "cb_list s0 ! b = Some cb" "rc_ok (remote_chunk cb)"
    and n: "n < MAX_MR_SIZE_GB" "cmap cb ! n = - 1 \<or> (\<exists>x<length (cb_index_map s0). cmap cb ! n = int x)"
    and s: "unmap_upto s0 b cb n s"
  shows "\<exists>s'. unmap_step b n s = Inr s' \<and> unmap_upto s0 b cb (Suc n) s'"
proof -
  from s obtain cim rm where
    eq: "s = s0\<lparr>cb_index_map := cim, cb_list := (cb_list s0)[b := Some (cb\<lparr>remote_chunk := (remote_chunk cb)\<lparr>remote_mapped := rm\<rparr>\<rparr>)]\<rparr>"
    and rm: "length rm = MAX_MR_SIZE_GB" and cim: "length cim = length (cb_index_map s0)"
    "\<forall>x<length cim. cim ! x = (if \<exists>i<n. cmap cb ! i = int x then NO_CB_MAPPED else cb_index_map s0 ! x)"
    by (auto simp: unmap_upto_def)
  have at: "cb_at s (int b) = Inr (cb\<lparr>remote_chunk := (remote_chunk cb)\<lparr>remote_mapped := rm\<rparr>\<rparr>)"
    using b by (simp add: cb_at_def eq)
  show ?thesis
  proof (cases "cmap cb ! n = - 1")
    case True
    then have "unmap_step b n s = Inr s" by (simp add: unmap_step_def at)
    moreover have "unmap_upto s0 b cb (Suc n) s"
      unfolding unmap_upto_def
      by (intro exI [of _ cim] exI [of _ rm] conjI) (use eq rm cim True in \<open>auto simp: less_Suc_eq\<close>)
    ultimately show ?thesis by blast
  next
    case False
    then obtain x where x: "x < length cim" "cmap cb ! n = int x" using n cim by auto
    define s' where "s' = s0\<lparr>cb_index_map := cim[x := NO_CB_MAPPED], cb_list := (cb_list s0)[b := Some (cb\<lparr>remote_chunk :=
      (remote_chunk cb)\<lparr>remote_mapped := rm[n := CHUNK_UNMAPPED]\<rparr>\<rparr>)]\<rparr>"
    have "unmap_step b n s = Inr s'"
    proof -
      have "cb_index_map s = cim" by (simp add: eq)
      then have "unmap_step b n s = Inr (upd_rc b (\<lambda>r. r\<lparr>remote_mapped := (remote_mapped r)[n := CHUNK_UNMAPPED]\<rparr>)
          (s\<lparr>cb_index_map := cim[x := NO_CB_MAPPED]\<rparr>))"
        using x by (simp add: unmap_step_def at Let_def)
      also have "upd_rc b (\<lambda>r. r\<lparr>remote_mapped := (remote_mapped r)[n := CHUNK_UNMAPPED]\<rparr>)
          (s\<lparr>cb_index_map := cim[x := NO_CB_MAPPED]\<rparr>) = s'"
        using b by (simp add: eq upd_rc_def upd_cb_def s'_def)
      finally show ?thesis .
    qed
    moreover have "unmap_upto s0 b cb (Suc n) s'"
      unfolding unmap_upto_def
      by (intro exI [of _ "cim[x := NO_CB_MAPPED]"] exI [of _ "rm[n := CHUNK_UNMAPPED]"] conjI)
        (use rm cim x in \<open>auto simp: s'_def nth_list_update less_Suc_eq\<close>)
    ultimately show ?thesis by blast
  qed
qed

definition reclaim_upto :: "IS_session \<Rightarrow> nat \<Rightarrow> kernel_cb \<Rightarrow> nat \<Rightarrow> IS_session \<Rightarrow> bool" where
  "reclaim_upto s0 b cb n s \<longleftrightarrow> (\<exists>mcc ul cm. s = s0\<lparr>chunk_map_cb_chunk := mcc, unmapped_chunk_list := ul,
       free_chunk_index := free_chunk_index s0 + int (length (filter (\<lambda>i. cmap cb ! i \<noteq> - 1) [0..<n])),
       cb_list := (cb_list s0)[b := Some (cb\<lparr>remote_chunk := (remote_chunk cb)\<lparr>chunk_map := cm\<rparr>\<rparr>)]\<rparr> \<and>
     length cm = MAX_MR_SIZE_GB \<and> length mcc = length (chunk_map_cb_chunk s0) \<and> length ul = length (unmapped_chunk_list s0) \<and>
     (\<forall>i<MAX_MR_SIZE_GB. cm ! i = (if i < n then - 1 else cmap cb ! i)) \<and>
     (\<forall>x<length mcc. (\<forall>i<n. cmap cb ! i \<noteq> int x) \<longrightarrow> mcc ! x = chunk_map_cb_chunk s0 ! x))"

lemma reclaim_step_upto:
  assumes b: "b < length (cb_list s0)" "cb_list s0 ! b = Some cb" "rc_ok (remote_chunk cb)"
    and n: "n < MAX_MR_SIZE_GB" "cmap cb ! n = - 1 \<or> (\<exists>x<length (chunk_map_cb_chunk s0). cmap cb ! n = int x)"
    and room: "- 1 \<le> free_chunk_index s0"
      "free_chunk_index s0 + int (length (filter (\<lambda>i. cmap cb ! i \<noteq> - 1) [0..<Suc n])) < int (length (unmapped_chunk_list s0))"
    and s: "reclaim_upto s0 b cb n s"
  shows "\<exists>s'. reclaim_step b n s = Inr s' \<and> reclaim_upto s0 b cb (Suc n) s'"
proof -
  let ?k = "int (length (filter (\<lambda>i. cmap cb ! i \<noteq> - 1) [0..<n]))"
  from s obtain mcc ul cm where
    eq: "s = s0\<lparr>chunk_map_cb_chunk := mcc, unmapped_chunk_list := ul, free_chunk_index := free_chunk_index s0 + ?k,
       cb_list := (cb_list s0)[b := Some (cb\<lparr>remote_chunk := (remote_chunk cb)\<lparr>chunk_map := cm\<rparr>\<rparr>)]\<rparr>"
    and len: "length cm = MAX_MR_SIZE_GB" "length mcc = length (chunk_map_cb_chunk s0)" "length ul = length (unmapped_chunk_list s0)"
    and cm: "\<forall>i<MAX_MR_SIZE_GB. cm ! i = (if i < n then - 1 else cmap cb ! i)"
    and mcc: "\<forall>x<length mcc. (\<forall>i<n. cmap cb ! i \<noteq> int x) \<longrightarrow> mcc ! x = chunk_map_cb_chunk s0 ! x"
    by (auto simp: reclaim_upto_def)
  have at: "cb_at s (int b) = Inr (cb\<lparr>remote_chunk := (remote_chunk cb)\<lparr>chunk_map := cm\<rparr>\<rparr>)"
    using b by (simp add: cb_at_def eq)
  have cmn: "cm ! n = cmap cb ! n" using cm n by simp
  show ?thesis
  proof (cases "cmap cb ! n = - 1")
    case True
    then have "reclaim_step b n s = Inr s" using cmn by (simp add: reclaim_step_def at)
    moreover have "reclaim_upto s0 b cb (Suc n) s"
      unfolding reclaim_upto_def
      by (intro exI [of _ mcc] exI [of _ ul] exI [of _ cm] conjI) (use eq len cm mcc True in \<open>auto simp: less_Suc_eq\<close>)
    ultimately show ?thesis by blast
  next
    case False
    then obtain x where x: "x < length mcc" "cmap cb ! n = int x" using n len by auto
    have idx: "0 \<le> free_chunk_index s0 + ?k + 1" "free_chunk_index s0 + ?k + 1 < int (length ul)"
      using room False len by simp_all
    define s' where "s' = s0\<lparr>chunk_map_cb_chunk := mcc[x := - 1], unmapped_chunk_list := ul[nat (free_chunk_index s0 + ?k + 1) := int x],
      free_chunk_index := free_chunk_index s0 + int (length (filter (\<lambda>i. cmap cb ! i \<noteq> - 1) [0..<Suc n])),
      cb_list := (cb_list s0)[b := Some (cb\<lparr>remote_chunk := (remote_chunk cb)\<lparr>chunk_map := cm[n := - 1]\<rparr>\<rparr>)]\<rparr>"
    have "reclaim_step b n s = Inr s'"
    proof -
      have f: "chunk_map_cb_chunk s = mcc" "unmapped_chunk_list s = ul" "free_chunk_index s = free_chunk_index s0 + ?k" by (simp_all add: eq)
      have "reclaim_step b n s = Inr (upd_rc b (\<lambda>r. r\<lparr>chunk_map := (chunk_map r)[n := - 1]\<rparr>)
          (s\<lparr>chunk_map_cb_chunk := mcc[x := - 1], unmapped_chunk_list := ul[nat (free_chunk_index s0 + ?k + 1) := int x],
             free_chunk_index := free_chunk_index s0 + ?k + 1\<rparr>))"
        using x cmn idx False by (simp add: reclaim_step_def at Let_def f) (simp add: astore_def)
      also have "upd_rc b (\<lambda>r. r\<lparr>chunk_map := (chunk_map r)[n := - 1]\<rparr>)
          (s\<lparr>chunk_map_cb_chunk := mcc[x := - 1], unmapped_chunk_list := ul[nat (free_chunk_index s0 + ?k + 1) := int x],
             free_chunk_index := free_chunk_index s0 + ?k + 1\<rparr>) = s'"
        using b False by (simp add: eq upd_rc_def upd_cb_def s'_def)
      finally show ?thesis .
    qed
    moreover have "reclaim_upto s0 b cb (Suc n) s'"
      unfolding reclaim_upto_def
      by (intro exI [of _ "mcc[x := - 1]"] exI [of _ "ul[nat (free_chunk_index s0 + ?k + 1) := int x]"] exI [of _ "cm[n := - 1]"] conjI)
        (use len cm mcc x in \<open>auto simp: s'_def nth_list_update less_Suc_eq\<close>)
    ultimately show ?thesis by blast
  qed
qed


lemma slab_of_chunk:
  assumes "maps_ok c s" "b < length (cb_list s)" "cb_list s ! b = Some cb" "rc_ok (remote_chunk cb)" "x < DISKSIZE_G c"
  shows "cb_index_map s ! x = int b \<longleftrightarrow> (\<exists>i<MAX_MR_SIZE_GB. cmap cb ! i = int x)"
proof
  assume "cb_index_map s ! x = int b"
  with assms obtain b' i where "linked s x b' i" by (auto simp: maps_ok_def tables_ok_def NO_CB_MAPPED_def)
  with assms(3) \<open>cb_index_map s ! x = int b\<close> show "\<exists>i<MAX_MR_SIZE_GB. cmap cb ! i = int x" by (auto simp: linked_def)
next
  assume "\<exists>i<MAX_MR_SIZE_GB. cmap cb ! i = int x"
  then obtain i where i: "i < length (cmap cb)" "cmap cb ! i = int x" using assms(4) by (auto simp: rc_ok_def)
  have "back_ok c s b" using assms(1,2) by (simp add: maps_ok_def)
  from back_okD [OF this assms(3) i(1)] i(2) show "cb_index_map s ! x = int b" by (auto simp: linked_def)
qed

definition unmap_from :: "nat \<Rightarrow> int list \<Rightarrow> int list" where
  "unmap_from b m = map (\<lambda>v. if v = int b then NO_CB_MAPPED else v) m"

lemma unmap_server_ok:
  assumes ok: "maps_ok c s" and b: "b < length (cb_list s)" "cb_list s ! b = Some cb" "rc_ok (remote_chunk cb)"
  shows "\<exists>cb'. unmap_server b s = Inr (s\<lparr>cb_index_map := unmap_from b (cb_index_map s), cb_list := (cb_list s)[b := Some cb']\<rparr>) \<and>
    cmap cb' = cmap cb \<and> rc_ok (remote_chunk cb')"
proof -
  have len: "length (cb_index_map s) = DISKSIZE_G c" using ok by (simp add: maps_ok_def tables_ok_def)
  have "back_ok c s b" using ok b by (simp add: maps_ok_def)
  then have dom: "cmap cb ! i = - 1 \<or> (\<exists>x<length (cb_index_map s). cmap cb ! i = int x)" if "i < MAX_MR_SIZE_GB" for i
    using that b(3) back_okD [of c s b cb i] b(2) len by (fastforce simp: rc_ok_def)
  have "(cb_list s)[b := Some cb] = cb_list s" using b by (metis list_update_id)
  then have "unmap_upto s b cb 0 s"
    unfolding unmap_upto_def
    by (intro exI [of _ "cb_index_map s"] exI [of _ "remote_mapped (remote_chunk cb)"]) (use b(3) in \<open>simp add: rc_ok_def\<close>)
  then obtain s1 where run: "foldE (unmap_step b) [0..<MAX_MR_SIZE_GB] s = Inr s1" and s1: "unmap_upto s b cb MAX_MR_SIZE_GB s1"
    using foldE_upto [of "unmap_upto s b cb" s MAX_MR_SIZE_GB "unmap_step b"] unmap_step_upto [OF b _ dom] by blast
  from s1 obtain cim rm where
    eq: "s1 = s\<lparr>cb_index_map := cim, cb_list := (cb_list s)[b := Some (cb\<lparr>remote_chunk := (remote_chunk cb)\<lparr>remote_mapped := rm\<rparr>\<rparr>)]\<rparr>"
    and rm: "length rm = MAX_MR_SIZE_GB" and cim: "length cim = length (cb_index_map s)"
    "\<forall>x<length cim. cim ! x = (if \<exists>i<MAX_MR_SIZE_GB. cmap cb ! i = int x then NO_CB_MAPPED else cb_index_map s ! x)"
    by (auto simp: unmap_upto_def)
  have "cim = unmap_from b (cb_index_map s)"
    by (rule nth_equalityI) (use cim len slab_of_chunk [OF ok b] in \<open>auto simp: unmap_from_def\<close>)
  then show ?thesis
    using run b rm by (intro exI [of _ "cb\<lparr>remote_chunk := (remote_chunk cb)\<lparr>remote_mapped := rm, chunk_size_g := 0\<rparr>\<rparr>"])
      (simp add: unmap_server_def eq upd_rc_def upd_cb_def rc_ok_def)
qed

text \<open>The chunk tables of a control block.\<close>

definition rc_view :: "remote_chunk_g_list \<Rightarrow> int list \<times> nat list \<times> remote_chunk_g list" where
  "rc_view r = (chunk_map r, remote_mapped r, chunk_list r)"

definition chunk_view :: "kernel_cb option \<Rightarrow> (int list \<times> nat list \<times> remote_chunk_g list) option" where
  "chunk_view = map_option (\<lambda>cb. rc_view (remote_chunk cb))"

lemma chunk_view_simps [simp]: "chunk_view None = None" "chunk_view (Some cb) = Some (rc_view (remote_chunk cb))"
  by (simp_all add: chunk_view_def)

lemma rc_viewD:
  assumes "rc_view r = rc_view r'"
  shows "chunk_map r = chunk_map r'" "remote_mapped r = remote_mapped r'" "chunk_list r = chunk_list r'" "rc_ok r = rc_ok r'"
  using assms by (simp_all add: rc_view_def rc_ok_def)

text \<open>Sessions with the same tables, whatever else happened to them.\<close>

definition same_tables :: "IS_session \<Rightarrow> IS_session \<Rightarrow> bool" where
  "same_tables s s' \<longleftrightarrow> cb_index_map s' = cb_index_map s \<and> chunk_map_cb_chunk s' = chunk_map_cb_chunk s \<and>
     unmapped_chunk_list s' = unmapped_chunk_list s \<and> free_chunk_index s' = free_chunk_index s \<and>
     length (cb_state_list s') = length (cb_state_list s) \<and>
     map chunk_view (cb_list s') = map chunk_view (cb_list s)"

lemma same_tables_cb:
  assumes "same_tables s s'"
  shows "length (cb_list s') = length (cb_list s)"
    and "b < length (cb_list s) \<Longrightarrow> chunk_view (cb_list s' ! b) = chunk_view (cb_list s ! b)"
proof -
  from assms have eq: "map chunk_view (cb_list s') = map chunk_view (cb_list s)"
    by (simp add: same_tables_def)
  then show l: "length (cb_list s') = length (cb_list s)" using map_eq_imp_length_eq by blast
  show "b < length (cb_list s) \<Longrightarrow> chunk_view (cb_list s' ! b) = chunk_view (cb_list s ! b)"
    using eq l by (metis nth_map)
qed

lemma same_tables_sym: "same_tables s s' \<Longrightarrow> same_tables s' s"
  by (simp add: same_tables_def)

lemma same_tables_get:
  assumes "same_tables s s'" "b < length (cb_list s)" "cb_list s' ! b = Some d"
  obtains d0 where "cb_list s ! b = Some d0" "rc_view (remote_chunk d0) = rc_view (remote_chunk d)"
  using same_tables_cb(2) [OF assms(1,2)] assms(3) by (cases "cb_list s ! b") auto

lemma same_tables_linked1: 
  assumes t: "same_tables s s'" and l: "linked s x b i"
  shows "linked s' x b i"
proof -
  from l obtain cb where b: "b < length (cb_list s')" "cb_list s ! b = Some cb"
    and cb: "rc_ok (remote_chunk cb)" "cmap cb ! i = int x" "remote_mapped (remote_chunk cb) ! i = CHUNK_MAPPED"
    using same_tables_cb(1) [OF t] by (auto simp: linked_def)
  from same_tables_get [OF same_tables_sym [OF t] b] obtain d where d: "cb_list s' ! b = Some d"
    "rc_view (remote_chunk d) = rc_view (remote_chunk cb)" .
  then show ?thesis using l t b cb by (simp add: linked_def same_tables_def rc_viewD [OF d(2)])
qed

lemma same_tables_linked: "same_tables s s' \<Longrightarrow> linked s' x b i = linked s x b i"
  using same_tables_linked1 same_tables_sym by blast

lemma same_tables_maps_ok:
  assumes "same_tables s s'" "maps_ok c s"
  shows "maps_ok c s'" and "placement s' = placement s"
proof -
  show "placement s' = placement s" using assms(1) by (auto simp: placement_def same_tables_def fun_eq_iff)
  have "back_ok c s' b" if "b < length (cb_list s')" for b
    unfolding back_ok_def
  proof (intro allI impI)
    fix d j assume d: "cb_list s' ! b = Some d" "j < length (cmap d)" "cmap d ! j \<noteq> - 1"
    have b: "b < length (cb_list s)" using that same_tables_cb(1) [OF assms(1)] by simp
    from same_tables_get [OF assms(1) b d(1)] obtain d0 where d0: "cb_list s ! b = Some d0"
      "rc_view (remote_chunk d0) = rc_view (remote_chunk d)" .
    have "back_ok c s b" using assms(2) b by (simp add: maps_ok_def)
    from back_okD [OF this d0(1), of j] d rc_viewD [OF d0(2)] show "\<exists>y<DISKSIZE_G c. cmap d ! j = int y \<and> linked s' y b j"
      by (auto simp: same_tables_linked [OF assms(1)])
  qed
  then show "maps_ok c s'"
    using assms same_tables_cb(1) [OF assms(1)]
    by (simp add: maps_ok_def tables_ok_def same_tables_linked [OF assms(1)]) (simp add: same_tables_def unmapped_def)
qed


text \<open>A server has as many mapped chunks as there are slabs on it.\<close>

lemma chunks_eq_slabs:
  assumes ok: "maps_ok c s" and b: "b < length (cb_list s)" "cb_list s ! b = Some cb" "rc_ok (remote_chunk cb)"
  shows "length (filter (\<lambda>i. cmap cb ! i \<noteq> - 1) [0..<MAX_MR_SIZE_GB]) = card {x. x < DISKSIZE_G c \<and> cb_index_map s ! x = int b}"
proof -
  let ?I = "{i. i < MAX_MR_SIZE_GB \<and> cmap cb ! i \<noteq> - 1}" let ?X = "{x. x < DISKSIZE_G c \<and> cb_index_map s ! x = int b}"
  have bk: "back_ok c s b" using ok b by (simp add: maps_ok_def)
  have l: "\<exists>x<DISKSIZE_G c. cmap cb ! i = int x \<and> linked s x b i" if "i \<in> ?I" for i
    using back_okD [OF bk b(2), of i] that b(3) by (auto simp: rc_ok_def)
  have inj: "inj_on (\<lambda>i. nat (cmap cb ! i)) ?I"
  proof (rule inj_onI)
    fix i j assume ij: "i \<in> ?I" "j \<in> ?I" "nat (cmap cb ! i) = nat (cmap cb ! j)"
    from l [OF ij(1)] l [OF ij(2)] ij(3) show "i = j" by (auto simp: linked_def)
  qed
  have img: "(\<lambda>i. nat (cmap cb ! i)) ` ?I = ?X"
  proof
    show "(\<lambda>i. nat (cmap cb ! i)) ` ?I \<subseteq> ?X"
    proof
      fix x assume "x \<in> (\<lambda>i. nat (cmap cb ! i)) ` ?I"
      then obtain i where "i \<in> ?I" "x = nat (cmap cb ! i)" by blast
      with l [of i] show "x \<in> ?X" by (auto simp: linked_def)
    qed
    show "?X \<subseteq> (\<lambda>i. nat (cmap cb ! i)) ` ?I"
    proof
      fix x assume "x \<in> ?X"
      then obtain i where "i < MAX_MR_SIZE_GB" "cmap cb ! i = int x" using slab_of_chunk [OF ok b, of x] by auto
      then show "x \<in> (\<lambda>i. nat (cmap cb ! i)) ` ?I" by (intro rev_image_eqI [of i]) simp_all
    qed
  qed
  have "card ?X = card ?I" using card_image [OF inj] by (simp only: img)
  moreover have "{i. i < MAX_MR_SIZE_GB \<and> cmap cb ! ([0..<MAX_MR_SIZE_GB] ! i) \<noteq> - 1} = ?I" by auto
  ultimately show ?thesis by (simp only: length_filter_conv_card length_upt minus_nat.diff_0)
qed

lemma unmapped_unmap_from:
  assumes "length m = D"
  shows "length (filter (\<lambda>v. v = NO_CB_MAPPED) (unmap_from b m)) = length (filter (\<lambda>v. v = NO_CB_MAPPED) m) +
    card {x. x < D \<and> m ! x = int b}"
proof -
  have "{x. x < D \<and> unmap_from b m ! x = NO_CB_MAPPED} = {x. x < D \<and> m ! x = NO_CB_MAPPED} \<union> {x. x < D \<and> m ! x = int b}"
    using assms by (auto simp: unmap_from_def)
  moreover have "{x. x < D \<and> m ! x = NO_CB_MAPPED} \<inter> {x. x < D \<and> m ! x = int b} = {}" by (auto simp: NO_CB_MAPPED_def)
  ultimately have "card {x. x < D \<and> unmap_from b m ! x = NO_CB_MAPPED} =
      card {x. x < D \<and> m ! x = NO_CB_MAPPED} + card {x. x < D \<and> m ! x = int b}"
    by (simp add: card_Un_disjoint del: disjoint_iff)
  moreover have "length (unmap_from b m) = D" using assms by (simp add: unmap_from_def)
  ultimately show ?thesis using assms by (simp only: length_filter_conv_card)
qed

lemma reclaim_server_run:
  assumes b: "b < length (cb_list s)" "cb_list s ! b = Some cb" "rc_ok (remote_chunk cb)"
    and dom: "\<And>i. i < MAX_MR_SIZE_GB \<Longrightarrow> cmap cb ! i = - 1 \<or> (\<exists>x<length (chunk_map_cb_chunk s). cmap cb ! i = int x)"
    and room: "- 1 \<le> free_chunk_index s" "free_chunk_index s + int (length (filter (\<lambda>i. cmap cb ! i \<noteq> - 1) [0..<MAX_MR_SIZE_GB]))
      < int (length (unmapped_chunk_list s))"
  shows "\<exists>s'. reclaim_server b s = Inr s' \<and> reclaim_upto s b cb MAX_MR_SIZE_GB s'"
proof -
  have pre: "free_chunk_index s + int (length (filter (\<lambda>i. cmap cb ! i \<noteq> - 1) [0..<Suc n])) < int (length (unmapped_chunk_list s))"
    if "n < MAX_MR_SIZE_GB" for n
  proof -
    have "[0..<MAX_MR_SIZE_GB] = [0..<Suc n] @ [Suc n..<MAX_MR_SIZE_GB]"
      using upt_add_eq_append [of 0 "Suc n" "MAX_MR_SIZE_GB - Suc n"] that by simp
    then have "length (filter (\<lambda>i. cmap cb ! i \<noteq> - 1) [0..<Suc n]) \<le> length (filter (\<lambda>i. cmap cb ! i \<noteq> - 1) [0..<MAX_MR_SIZE_GB])"
      by (metis filter_append le_add1 length_append)
    with room(2) show ?thesis by linarith
  qed
  have "(cb_list s)[b := Some cb] = cb_list s" using b by (metis list_update_id)
  then have "reclaim_upto s b cb 0 s"
    unfolding reclaim_upto_def
    by (intro exI [of _ "chunk_map_cb_chunk s"] exI [of _ "unmapped_chunk_list s"] exI [of _ "cmap cb"]) (use b(3) in \<open>simp add: rc_ok_def\<close>)
  then show ?thesis
    unfolding reclaim_server_def
    by (rule foldE_upto) (use reclaim_step_upto [OF b _ dom room(1) pre] in blast)
qed


definition without :: "nat \<Rightarrow> (nat \<rightharpoonup> nat \<times> nat) \<Rightarrow> nat \<rightharpoonup> nat \<times> nat" where
  "without b m x = (case m x of Some (b', i) \<Rightarrow> if b' = b then None else Some (b', i) | None \<Rightarrow> None)"

lemma drop_server_ok:
  assumes ok: "maps_ok c s" and b: "b < length (cb_list s)"
    and len: "length (chunk_map_cb_chunk s3) = DISKSIZE_G c" "length (unmapped_chunk_list s3) = DISKSIZE_G c"
      "length (cb_state_list s3) = length (cb_list s)" "length (cb_list s3) = length (cb_list s)"
    and cim3: "cb_index_map s3 = unmap_from b (cb_index_map s)"
    and keep: "\<And>x. x < DISKSIZE_G c \<Longrightarrow> cb_index_map s ! x \<noteq> int b \<Longrightarrow> chunk_map_cb_chunk s3 ! x = chunk_map_cb_chunk s ! x"
    and others: "\<And>b'. b' < length (cb_list s) \<Longrightarrow> b' \<noteq> b \<Longrightarrow> chunk_view (cb_list s3 ! b') = chunk_view (cb_list s ! b')"
    and gone: "\<And>d i. cb_list s3 ! b = Some d \<Longrightarrow> i < length (cmap d) \<Longrightarrow> cmap d ! i = - 1"
    and free: "free_chunk_index s3 + 1 = unmapped s3"
  shows "maps_ok c s3" and "placement s3 = without b (placement s)"
proof -
  let ?D = "DISKSIZE_G c"
  have tab: "length (cb_index_map s) = ?D" using ok by (simp add: maps_ok_def tables_ok_def)
  have stay: "linked s3 x b' i" if l: "linked s x b' i" "b' \<noteq> b" "x < ?D" for x b' i
  proof -
    from l obtain d where d: "b' < length (cb_list s)" "cb_list s ! b' = Some d" "rc_ok (remote_chunk d)" "cmap d ! i = int x"
      "remote_mapped (remote_chunk d) ! i = CHUNK_MAPPED" by (auto simp: linked_def)
    with others [OF d(1) l(2)] obtain d2 where d2: "cb_list s3 ! b' = Some d2" "rc_view (remote_chunk d2) = rc_view (remote_chunk d)"
      by (cases "cb_list s3 ! b'") auto
    then show ?thesis
      using l d keep [OF l(3)] tab by (simp add: linked_def cim3 unmap_from_def len rc_viewD [OF d2(2)])
  qed
  show "placement s3 = without b (placement s)"
  proof
    fix x show "placement s3 x = without b (placement s) x"
    proof (cases "x < ?D")
      case True
      have "cb_index_map s ! x = NO_CB_MAPPED \<or> 0 \<le> cb_index_map s ! x"
        using ok True by (auto simp: maps_ok_def tables_ok_def linked_def)
      with True keep [OF True] tab show ?thesis
        by (auto simp: placement_def without_def cim3 unmap_from_def NO_CB_MAPPED_def)
    qed (use tab in \<open>simp add: placement_def without_def cim3 unmap_from_def\<close>)
  qed
  have "back_ok c s3 b'" if b': "b' < length (cb_list s3)" for b'
    unfolding back_ok_def
  proof (intro allI impI)
    fix d i assume d: "cb_list s3 ! b' = Some d" "i < length (cmap d)" "cmap d ! i \<noteq> - 1"
    have ne: "b' \<noteq> b" using d gone by auto
    have b's: "b' < length (cb_list s)" using b' len by simp
    from others [OF b's ne] d(1) obtain d1 where d1: "cb_list s ! b' = Some d1" "rc_view (remote_chunk d1) = rc_view (remote_chunk d)"
      by (cases "cb_list s ! b'") auto
    have "back_ok c s b'" using ok b's by (simp add: maps_ok_def)
    from back_okD [OF this d1(1), of i] d rc_viewD [OF d1(2)] obtain x where "x < ?D" "cmap d ! i = int x" "linked s x b' i" by auto
    with stay ne show "\<exists>x<?D. cmap d ! i = int x \<and> linked s3 x b' i" by blast
  qed
  moreover have "\<exists>b i. linked s3 x b i" if x: "x < ?D" "cb_index_map s3 ! x \<noteq> NO_CB_MAPPED" for x
  proof -
    have "cb_index_map s ! x \<noteq> NO_CB_MAPPED" "cb_index_map s ! x \<noteq> int b"
      using x tab by (auto simp: cim3 unmap_from_def split: if_splits)
    with ok x obtain b' i where "linked s x b' i" by (auto simp: maps_ok_def tables_ok_def)
    with stay [OF this _ x(1)] \<open>cb_index_map s ! x \<noteq> int b\<close> show ?thesis by (auto simp: linked_def)
  qed
  ultimately show "maps_ok c s3"
    using len tab free by (simp add: maps_ok_def tables_ok_def cim3) (simp add: unmap_from_def)
qed

text \<open>
  Unmapping a server and reclaiming its slabs, with anything in between that leaves the tables alone, removes exactly
  its slabs from the placement.
\<close>

lemma lose_server_ok:
  assumes ok: "maps_ok c s" and b: "b < length (cb_list s)" "cb_list s ! b = Some cb" "rc_ok (remote_chunk cb)"
    and un: "unmap_server b s = Inr s1" and same: "same_tables s1 s2"
  shows "\<exists>s3 cb3. reclaim_server b s2 = Inr s3 \<and> maps_ok c s3 \<and> placement s3 = without b (placement s) \<and>
    cb_list s3 = (cb_list s2)[b := Some cb3] \<and> rc_ok (remote_chunk cb3) \<and> cb_state_list s3 = cb_state_list s2"
proof -
  let ?D = "DISKSIZE_G c" and ?k = "\<lambda>cb. int (length (filter (\<lambda>i. cmap cb ! i \<noteq> - 1) [0..<MAX_MR_SIZE_GB]))"
  obtain cb1 where s1: "s1 = s\<lparr>cb_index_map := unmap_from b (cb_index_map s), cb_list := (cb_list s)[b := Some cb1]\<rparr>"
    and cb1: "cmap cb1 = cmap cb" "rc_ok (remote_chunk cb1)"
    using unmap_server_ok [OF ok b] un by auto
  have tab: "length (cb_index_map s) = ?D" "length (chunk_map_cb_chunk s) = ?D" "length (unmapped_chunk_list s) = ?D"
    "length (cb_state_list s) = length (cb_list s)" "free_chunk_index s + 1 = unmapped s"
    using ok by (simp_all add: maps_ok_def tables_ok_def)
  have l12: "length (cb_list s2) = length (cb_list s)" using same_tables_cb(1) [OF same] by (simp add: s1)
  obtain cb2 where b2: "b < length (cb_list s2)" "cb_list s2 ! b = Some cb2" and v2: "rc_view (remote_chunk cb2) = rc_view (remote_chunk cb1)"
    by (rule same_tables_get [OF same_tables_sym [OF same], of b cb1]) (use b l12 s1 in auto)
  have rc2: "cmap cb2 = cmap cb" "rc_ok (remote_chunk cb2)" using rc_viewD [OF v2] cb1 by simp_all
  have f2: "cb_index_map s2 = unmap_from b (cb_index_map s)" "chunk_map_cb_chunk s2 = chunk_map_cb_chunk s"
    "unmapped_chunk_list s2 = unmapped_chunk_list s" "free_chunk_index s2 = free_chunk_index s"
    "length (cb_state_list s2) = length (cb_state_list s)"
    using same by (simp_all add: same_tables_def s1)
  have bk: "back_ok c s b" using ok b by (simp add: maps_ok_def)
  have dom: "cmap cb2 ! i = - 1 \<or> (\<exists>x<length (chunk_map_cb_chunk s2). cmap cb2 ! i = int x)" if "i < MAX_MR_SIZE_GB" for i
    using back_okD [OF bk b(2), of i] that b(3) tab(2) by (fastforce simp: rc2 f2 rc_ok_def)
  have tot: "unmapped s2 = unmapped s + ?k cb"
    using unmapped_unmap_from [OF tab(1), of b] chunks_eq_slabs [OF ok b] by (simp add: unmapped_def f2)
  have "unmapped s2 \<le> int ?D" using tab(1) by (simp add: unmapped_def f2 unmap_from_def le_trans [OF length_filter_le])
  then have room: "- 1 \<le> free_chunk_index s2" "free_chunk_index s2 + ?k cb2 < int (length (unmapped_chunk_list s2))"
    using tab tot by (simp_all add: f2 rc2 unmapped_def)
  obtain s3 where run: "reclaim_server b s2 = Inr s3" and up: "reclaim_upto s2 b cb2 MAX_MR_SIZE_GB s3"
    using reclaim_server_run [OF b2 rc2(2) dom room] by blast
  then obtain mcc ul cm cb3 where
    s3: "s3 = s2\<lparr>chunk_map_cb_chunk := mcc, unmapped_chunk_list := ul, free_chunk_index := free_chunk_index s2 + ?k cb2,
       cb_list := (cb_list s2)[b := Some cb3]\<rparr>"
    and cb3: "cb3 = cb2\<lparr>remote_chunk := (remote_chunk cb2)\<lparr>chunk_map := cm\<rparr>\<rparr>"
    and len3: "length cm = MAX_MR_SIZE_GB" "length mcc = ?D" "length ul = ?D"
    and cm: "\<forall>i<MAX_MR_SIZE_GB. cm ! i = - 1"
    and mcc: "\<And>x. x < ?D \<Longrightarrow> (\<forall>i<MAX_MR_SIZE_GB. cmap cb2 ! i \<noteq> int x) \<Longrightarrow> mcc ! x = chunk_map_cb_chunk s ! x"
    by (auto simp: reclaim_upto_def f2 tab)
  have keep: "mcc ! x = chunk_map_cb_chunk s ! x" if "x < ?D" "cb_index_map s ! x \<noteq> int b" for x
    using mcc [OF that(1)] slab_of_chunk [OF ok b that(1)] that(2) by (simp add: rc2)
  have others: "chunk_view (cb_list s3 ! b') = chunk_view (cb_list s ! b')" if "b' < length (cb_list s)" "b' \<noteq> b" for b'
    using same_tables_cb(2) [OF same, of b'] that by (simp add: s1 s3)
  have free: "free_chunk_index s3 + 1 = unmapped s3"
    using tot tab(5) by (simp add: s3 f2 rc2 unmapped_def)
  have gone: "cmap d ! i = - 1" if "cb_list s3 ! b = Some d" "i < length (cmap d)" for d i
    using that cm len3 b2(1) by (auto simp: s3 cb3)
  have len: "length (chunk_map_cb_chunk s3) = ?D" "length (unmapped_chunk_list s3) = ?D"
    "length (cb_state_list s3) = length (cb_list s)" "length (cb_list s3) = length (cb_list s)"
    "cb_index_map s3 = unmap_from b (cb_index_map s)"
    using tab len3 l12 f2 by (simp_all add: s3)
  have keep3: "chunk_map_cb_chunk s3 ! x = chunk_map_cb_chunk s ! x" if "x < ?D" "cb_index_map s ! x \<noteq> int b" for x
    using keep [OF that] by (simp add: s3)
  have "maps_ok c s3" "placement s3 = without b (placement s)"
    using drop_server_ok [OF ok b(1) len keep3 others gone free] by simp_all
  moreover have "rc_ok (remote_chunk cb3)" using rc2(2) len3 by (simp add: cb3 rc_ok_def)
  ultimately show ?thesis using run by (auto simp: s3)
qed

end
