(* ===== verification/Data_Path.thy ===== *)
theory Data_Path
  imports Session
begin

text \<open>
  The data path of the resilience manager in its replication setup: from a block request (\<open>IS_queue_rq\<close>,
  \<open>IS_request\<close>) through the posting of RDMA work (\<open>IS_rdma_write\<close>, \<open>IS_rdma_read\<close>) to its completion (\<open>rdma_cq_event_handler\<close>,
  \<open>client_read_done\<close>, \<open>client_write_done\<close>). The verbs layer is a parameter: what a post returns, and which completion a
  poll delivers. A request is run to its end before the next one starts.
\<close>

unbundle bit_operations_syntax

section \<open>Requests, transport and world\<close>

text \<open>
  A block request: its direction, sector, length, the data of its bios (a page each) and the address of the first, the status it was ended
  with and its error field.
\<close>

record request =
  rq_write :: bool
  rq_pos :: nat
  rq_bytes :: nat
  rq_bios :: "u8 list list"
  rq_addr :: u64
  rq_multi :: bool
  rq_end :: "int option"
  rq_errors :: int

datatype work_request =
    WR_SEND message
  | WR_READ ctx_addr u32 u64 nat
  | WR_WRITE ctx_addr u32 u64 "u8 list"

datatype wc_status = WC_SUCCESS | WC_FLUSH | WC_ERROR

text \<open>A completion comes with what the adapter has placed in memory: the message, or the bytes that were read.\<close>

datatype completion = OP_RECV message bool | OP_SEND | OP_READ ctx_addr "u8 list" | OP_WRITE ctx_addr | OP_UNKNOWN

record 'n transport =
  tp_send :: "nat \<Rightarrow> work_request \<Rightarrow> 'n \<Rightarrow> int \<times> 'n"
  tp_recv :: "nat \<Rightarrow> 'n \<Rightarrow> int \<times> 'n"
  tp_poll :: "nat \<Rightarrow> 'n \<Rightarrow> (wc_status \<times> completion \<times> 'n) option"

record 'n world =
  sess :: IS_session
  reqs :: "nat \<Rightarrow> request option"
  cnts :: "int list"
  kobjs :: "nat \<Rightarrow> kobj list"
  net :: 'n

definition upd_sess :: "(IS_session \<Rightarrow> IS_session) \<Rightarrow> 'n world \<Rightarrow> 'n world" where
  "upd_sess f w = w\<lparr>sess := f (sess w)\<rparr>"

section \<open>Contexts\<close>

definition pool_at :: "'n world \<Rightarrow> nat \<Rightarrow> int \<Rightarrow> ctx_pool_list res" where
  "pool_at w c p = bindE (aload (IS_conns (sess w)) (int c)) (\<lambda>conn. aload (ctx_pools conn) p)"

definition upd_pool :: "nat \<Rightarrow> nat \<Rightarrow> (ctx_pool_list \<Rightarrow> ctx_pool_list) \<Rightarrow> 'n world \<Rightarrow> 'n world" where
  "upd_pool c p f = upd_sess (\<lambda>s. s\<lparr>IS_conns := (IS_conns s)[c := (IS_conns s ! c)
     \<lparr>ctx_pools := (ctx_pools (IS_conns s ! c))[p := f (ctx_pools (IS_conns s ! c) ! p)]\<rparr>]\<rparr>)"

fun ctx_at :: "'n world \<Rightarrow> ctx_addr \<Rightarrow> rdma_ctx res" where
  "ctx_at w (c, p, k) = bindE (pool_at w c (int p)) (\<lambda>pl. aload (ctx_pool pl) (int k))"

fun upd_ctx :: "ctx_addr \<Rightarrow> (rdma_ctx \<Rightarrow> rdma_ctx) \<Rightarrow> 'n world \<Rightarrow> 'n world" where
  "upd_ctx (c, p, k) f = upd_pool c p (\<lambda>pl. pl\<lparr>ctx_pool := (ctx_pool pl)[k := f (ctx_pool pl ! k)]\<rparr>)"

text \<open>\<open>IS_get_ctx\<close> on the pool of a connection; a pool that was never set up is a NULL pointer.\<close>

definition take_from :: "nat \<Rightarrow> int \<Rightarrow> 'n world \<Rightarrow> (ctx_addr option \<times> 'n world) res" where
  "take_from c p w = bindE (pool_at w c p) (\<lambda>pl. case free_ctxs pl of
       None \<Rightarrow> Inl Oob
     | Some f \<Rightarrow> (case IS_get_ctx f of (k, f') \<Rightarrow>
         Inr (map_option (\<lambda>k. (c, nat p, k)) k, upd_pool c (nat p) (\<lambda>pl. pl\<lparr>free_ctxs := Some f'\<rparr>) w)))"

fun give_back :: "ctx_addr \<Rightarrow> 'n world \<Rightarrow> 'n world res" where
  "give_back (c, p, k) w = bindE (pool_at w c (int p)) (\<lambda>pl. case free_ctxs pl of
       None \<Rightarrow> Inl Oob
     | Some f \<Rightarrow> (case IS_insert_ctx k f of
         None \<Rightarrow> Inl Oob
       | Some f' \<Rightarrow> Inr (upd_pool c p (\<lambda>pl. pl\<lparr>free_ctxs := Some f'\<rparr>) w)))"

section \<open>Requests and counters\<close>

definition req_at :: "'n world \<Rightarrow> nat \<Rightarrow> request res" where
  "req_at w r = (case reqs w r of None \<Rightarrow> Inl Oob | Some q \<Rightarrow> Inr q)"

definition upd_req :: "nat \<Rightarrow> (request \<Rightarrow> request) \<Rightarrow> 'n world \<Rightarrow> 'n world" where
  "upd_req r f w = w\<lparr>reqs := (reqs w)(r := map_option f (reqs w r))\<rparr>"

definition end_request :: "nat \<Rightarrow> int \<Rightarrow> 'n world \<Rightarrow> 'n world" where
  "end_request r st = upd_req r (\<lambda>q. q\<lparr>rq_end := Some st\<rparr>)"

definition new_counter :: "int \<Rightarrow> 'n world \<Rightarrow> nat \<times> 'n world" where
  "new_counter v w = (length (cnts w), w\<lparr>cnts := cnts w @ [v]\<rparr>)"

text \<open>\<open>atomic_dec_and_test\<close>\<close>

definition dec_and_test :: "nat option \<Rightarrow> 'n world \<Rightarrow> (bool \<times> 'n world) res" where
  "dec_and_test p w = (case p of None \<Rightarrow> Inl Oob | Some a \<Rightarrow>
     bindE (aload (cnts w) (int a)) (\<lambda>v. Inr (v - 1 = 0, w\<lparr>cnts := (cnts w)[a := v - 1]\<rparr>)))"

text \<open>\<open>memcpy\<close> of \<open>n\<close> bytes between buffers, with the bounds of both.\<close>

definition memcpy :: "nat \<Rightarrow> nat \<Rightarrow> nat \<Rightarrow> u8 list \<Rightarrow> u8 list \<Rightarrow> u8 list res" where
  "memcpy n d s dst src = (if d + n \<le> length dst \<and> s + n \<le> length src
     then Inr (take d dst @ take n (drop s src) @ drop (d + n) dst) else Inl Oob)"

definition buf_of :: "rdma_ctx \<Rightarrow> u8 list res" where
  "buf_of x = (case ctx_rdma_buf x of None \<Rightarrow> Inl Oob | Some b \<Rightarrow> Inr b)"

section \<open>Completion\<close>

text \<open>
  The loop \<^verbatim>\<open>for (j=i; i<NDISKS; j++)\<close> tests \<open>i\<close>, not \<open>j\<close>: with no context free of a fault it runs past the array.
\<close>

definition good_ctx :: "'n world \<Rightarrow> ctx_addr list \<Rightarrow> nat \<Rightarrow> rdma_ctx res" where
  "good_ctx w ctxs i = foldr (\<lambda>a r. bindE (ctx_at w a) (\<lambda>x. if ctx_fault x = 0 then Inr x else r)) (drop i ctxs) (Inl Oob)"

definition copy_block :: "is_config \<Rightarrow> ctx_addr list \<Rightarrow> nat \<Rightarrow> nat \<Rightarrow> nat \<Rightarrow> 'n world \<Rightarrow> 'n world res" where
  "copy_block c ctxs r k i w = bindE (req_at w r) (\<lambda>q. bindE (good_ctx w ctxs i) (\<lambda>x. bindE (buf_of x) (\<lambda>b.
     bindE (memcpy (IS_PAGE_SIZE div NDATAS c) (i * IS_PAGE_SIZE div NDATAS c) (k * IS_PAGE_SIZE div NDATAS c) (rq_bios q ! k) b) (\<lambda>d.
     Inr (upd_req r (\<lambda>q. q\<lparr>rq_bios := (rq_bios q)[k := d]\<rparr>) w)))))"

text \<open>
  With several segments the branch of \<open>bio_for_each_segment\<close> reads \<open>ctxs[i]\<close> where \<open>i\<close> is left at \<open>NDISKS\<close> by the loop before it.
\<close>

definition copy_out :: "is_config \<Rightarrow> ctx_addr list \<Rightarrow> nat \<Rightarrow> 'n world \<Rightarrow> 'n world res" where
  "copy_out c ctxs r w = bindE (req_at w r) (\<lambda>q. if rq_multi q then Inl Oob
     else foldE (\<lambda>k. foldE (copy_block c ctxs r k) [0..<NDATAS c]) [0..<length (rq_bios q)] w)"

definition reset_ctx :: "rdma_ctx \<Rightarrow> rdma_ctx" where
  "reset_ctx x = x\<lparr>ctx_in_flight := CTX_IDLE, ctx_chunk_index := - 1, ctx_chunk_ptr := None, ctx_req := None\<rparr>"

definition client_read_done :: "is_config \<Rightarrow> ctx_addr \<Rightarrow> 'n world \<Rightarrow> 'n world res" where
  "client_read_done c a w = bindE (ctx_at w a) (\<lambda>x. case ctx_req x of None \<Rightarrow> Inl Oob | Some r \<Rightarrow>
     bindE (dec_and_test (ctx_cnt x) (upd_ctx a reset_ctx w)) (\<lambda>(last, w).
       if \<not> last then Inr w
       else bindE (copy_out c (ctx_ctxs x) r w) (\<lambda>w. foldE give_back (take (NDISKS c) (ctx_ctxs x)) (end_request r 0 w))))"

definition client_write_done :: "ctx_addr \<Rightarrow> 'n world \<Rightarrow> 'n world res" where
  "client_write_done a w = bindE (ctx_at w a) (\<lambda>x. case ctx_req x of None \<Rightarrow> Inl Oob | Some r \<Rightarrow>
     bindE (dec_and_test (ctx_cnt x) (upd_ctx a (\<lambda>x. x\<lparr>ctx_in_flight := CTX_IDLE\<rparr>) w)) (\<lambda>(last, w).
       give_back a (upd_ctx a reset_ctx (if last then end_request r 0 w else w))))"

text \<open>What the adapter has written by the time a completion is polled.\<close>

definition overlay :: "u8 list \<Rightarrow> u8 list \<Rightarrow> u8 list" where
  "overlay d b = d @ drop (length d) b"

fun deliver :: "nat \<Rightarrow> completion \<Rightarrow> 'n world \<Rightarrow> 'n world" where
  "deliver b (OP_RECV m len_ok) w = upd_sess (upd_cb b (\<lambda>cb. cb\<lparr>recv_buf := m\<rparr>)) w"
| "deliver b (OP_READ a d) w = upd_ctx a (\<lambda>x. x\<lparr>ctx_rdma_buf := map_option (overlay d) (ctx_rdma_buf x)\<rparr>) w"
| "deliver b _ w = w"

definition handle_completion :: "is_config \<Rightarrow> 'n transport \<Rightarrow> nat \<Rightarrow> completion \<Rightarrow> 'n world \<Rightarrow> 'n world res" where
  "handle_completion c tr b op w = (let failed = upd_sess (set_state b ERROR) in case op of
       OP_RECV m len_ok \<Rightarrow> bindE (client_recv b len_ok (sess w)) (\<lambda>(ret, s).
         let w = w\<lparr>sess := s\<rparr> in
         if ret \<noteq> 0 then Inr (failed w)
         else case tp_recv tr b (net w) of (ret, n) \<Rightarrow>
           let w = w\<lparr>net := n\<rparr> in Inr (if ret \<noteq> 0 then failed w else w))
     | OP_SEND \<Rightarrow> Inr w
     | OP_READ a d \<Rightarrow> client_read_done c a w
     | OP_WRITE a \<Rightarrow> client_write_done a w
     | OP_UNKNOWN \<Rightarrow> Inr (failed w))"

text \<open>One completion is polled; a poll that never succeeds blocks, unless the server has failed.\<close>

definition rdma_cq_event_handler :: "is_config \<Rightarrow> 'n transport \<Rightarrow> nat \<Rightarrow> 'n world \<Rightarrow> 'n world res" where
  "rdma_cq_event_handler c tr b w = bindE (cb_at (sess w) (int b)) (\<lambda>cb.
     if state cb = ERROR then Inr w
     else case tp_poll tr b (net w) of
       None \<Rightarrow> if cb_state_list (sess w) ! b = CB_FAIL then Inr (upd_sess (set_state b ERROR) w) else Inl Blocked
     | Some (st, op, n) \<Rightarrow>
         let w = w\<lparr>net := n\<rparr>; w = (if st = WC_SUCCESS then deliver b op w else w) in
         if cb_state_list (sess w) ! b = CB_FAIL then Inr (upd_sess (set_state b ERROR) w)
         else case st of
           WC_FLUSH \<Rightarrow> Inr w
         | WC_ERROR \<Rightarrow> Inr (upd_sess (set_state b ERROR) w)
         | WC_SUCCESS \<Rightarrow> handle_completion c tr b op w)"

section \<open>Control messages\<close>

text \<open>
  The message in \<open>send_buf\<close> is posted, and its completion awaited where \<open>wait\<close> says so. The result of the post is returned.
\<close>

definition send_ctrl :: "is_config \<Rightarrow> 'n transport \<Rightarrow> bool \<Rightarrow> nat \<Rightarrow> (message \<Rightarrow> message) \<Rightarrow> 'n world \<Rightarrow> (int \<times> 'n world) res" where
  "send_ctrl c tr wait b f w =
     (let w = upd_sess (upd_cb b (\<lambda>cb. cb\<lparr>send_buf := f (send_buf cb)\<rparr>)) w in
      bindE (cb_at (sess w) (int b)) (\<lambda>cb. case tp_send tr b (WR_SEND (send_buf cb)) (net w) of (ret, n) \<Rightarrow>
        let w = w\<lparr>net := n\<rparr> in
        if ret \<noteq> 0 then Inr (ret, w)
        else if wait then bindE (rdma_cq_event_handler c tr b w) (\<lambda>w. Inr (0, w))
        else Inr (0, w)))"

definition IS_send_activity :: "is_config \<Rightarrow> 'n transport \<Rightarrow> nat \<Rightarrow> 'n world \<Rightarrow> (int \<times> 'n world) res" where
  "IS_send_activity c tr b = send_ctrl c tr True b (\<lambda>m. m\<lparr>mtype := ACTIVITY, buf := replicate MAX_MR_SIZE_GB 0\<rparr>)"

definition IS_send_query :: "is_config \<Rightarrow> 'n transport \<Rightarrow> nat \<Rightarrow> 'n world \<Rightarrow> (int \<times> 'n world) res" where
  "IS_send_query c tr b = send_ctrl c tr True b (\<lambda>m. m\<lparr>mtype := QUERY\<rparr>)"

definition IS_send_bind_single :: "is_config \<Rightarrow> 'n transport \<Rightarrow> nat \<Rightarrow> int \<Rightarrow> 'n world \<Rightarrow> (int \<times> 'n world) res" where
  "IS_send_bind_single c tr b select_chunk = send_ctrl c tr True b (\<lambda>m. m\<lparr>mtype := BIND_SINGLE, size_gb := select_chunk\<rparr>)"

definition IS_send_done :: "is_config \<Rightarrow> 'n transport \<Rightarrow> nat \<Rightarrow> int \<Rightarrow> 'n world \<Rightarrow> (int \<times> 'n world) res" where
  "IS_send_done c tr b num = send_ctrl c tr False b (\<lambda>m. m\<lparr>mtype := DONE, size_gb := num\<rparr>)"

definition IS_send_fault :: "is_config \<Rightarrow> 'n transport \<Rightarrow> nat \<Rightarrow> 'n world \<Rightarrow> (int \<times> 'n world) res" where
  "IS_send_fault c tr b = send_ctrl c tr True b (\<lambda>m. m\<lparr>mtype := FAULT\<rparr>)"

section \<open>Posting reads and writes\<close>

text \<open>
  The routes of a request, one per disk: the server and the chunk descriptor, or nothing for an unmapped
  slab. The descriptor is missing when the slab has a server and no chunk.
\<close>

type_synonym route = "(nat \<times> int \<times> (nat \<times> nat) option) option"

definition QUEUE_NUM_MASK :: u64 where "QUEUE_NUM_MASK = 0x1f"

definition conn_id :: "request \<Rightarrow> nat" where
  "conn_id q = unat (rq_addr q AND QUEUE_NUM_MASK)"

definition chunk_at :: "'n world \<Rightarrow> (nat \<times> nat) option \<Rightarrow> remote_chunk_g res" where
  "chunk_at w p = (case p of None \<Rightarrow> Inl Oob | Some (b, k) \<Rightarrow>
     bindE (cb_at (sess w) (int b)) (\<lambda>cb. aload (chunk_list (remote_chunk cb)) (int k)))"

text \<open>The fields of the work request.\<close>

definition fill_wr :: "is_config \<Rightarrow> nat \<Rightarrow> nat \<Rightarrow> remote_chunk_g \<Rightarrow> wr_opcode \<Rightarrow> nat \<Rightarrow> nat \<Rightarrow> rdma_ctx \<Rightarrow> rdma_ctx" where
  "fill_wr c offset ln ch opc i cnt x = x\<lparr>sg_length := ln div NDATAS c, ctx_rkey := remote_rkey ch,
     ctx_remote_addr := remote_addr ch + of_nat (offset div NDATAS c), ctx_opcode := opc, ctx_index := i, ctx_cnt := Some cnt\<rparr>"

definition acquire :: "is_config \<Rightarrow> nat \<Rightarrow> request \<Rightarrow> nat \<Rightarrow> nat \<Rightarrow> bool \<Rightarrow> nat \<Rightarrow> nat \<times> route \<Rightarrow>
    ctx_addr list \<times> 'n world \<Rightarrow> (ctx_addr list \<times> 'n world) res" where
  "acquire c r q offset ln wr cnt = (\<lambda>(i, rt) (as, w). case rt of
       None \<Rightarrow> bindE (take_from (conn_id q) (int i) w) (\<lambda>(a, w). case a of
           None \<Rightarrow> Inl Oob | Some a \<Rightarrow> Inr (as @ [a], w))
     | Some (b, ci, p) \<Rightarrow> bindE (take_from (conn_id q) (int b) w) (\<lambda>(a, w). case a of
           None \<Rightarrow> Inl Die
         | Some a \<Rightarrow> bindE (chunk_at w p) (\<lambda>ch. Inr (as @ [a],
             upd_ctx a (\<lambda>x. fill_wr c offset ln ch (if wr then IB_WR_RDMA_WRITE else IB_WR_RDMA_READ) i cnt
               (if wr then x\<lparr>ctx_req := Some r, ctx_cb := Some b, ctx_offset := offset div NDATAS c, ctx_len := ln div NDATAS c,
                            ctx_chunk_ptr := p, ctx_chunk_index := ci\<rparr>
                else x\<lparr>ctx_req := Some r, ctx_cb := Some b, ctx_in_flight := CTX_R_IN_FLIGHT\<rparr>)) w))))"

definition post_ctx :: "'n transport \<Rightarrow> nat \<Rightarrow> ctx_addr \<Rightarrow> 'n world \<Rightarrow> (int \<times> 'n world) res" where
  "post_ctx tr b a w = bindE (ctx_at w a) (\<lambda>x. bindE (buf_of x) (\<lambda>d.
     case tp_send tr b (if ctx_opcode x = IB_WR_RDMA_WRITE
         then WR_WRITE a (ctx_rkey x) (ctx_remote_addr x) (take (sg_length x) d)
         else WR_READ a (ctx_rkey x) (ctx_remote_addr x) (sg_length x)) (net w) of (ret, n) \<Rightarrow> Inr (ret, w\<lparr>net := n\<rparr>)))"

text \<open>A loop that returns early with a nonzero code.\<close>

fun whileE :: "('x \<Rightarrow> 's \<Rightarrow> (int \<times> 's) res) \<Rightarrow> 'x list \<Rightarrow> 's \<Rightarrow> (int \<times> 's) res" where
  "whileE f [] s = Inr (0, s)"
| "whileE f (x # xs) s = bindE (f x s) (\<lambda>(ret, s). if ret \<noteq> 0 then Inr (ret, s) else whileE f xs s)"

definition copy_in :: "nat \<Rightarrow> u8 list \<Rightarrow> ctx_addr \<Rightarrow> 'n world \<Rightarrow> 'n world res" where
  "copy_in k d a w = bindE (ctx_at w a) (\<lambda>x. bindE (buf_of x) (\<lambda>b.
     bindE (memcpy IS_PAGE_SIZE (k * IS_PAGE_SIZE) 0 b d) (\<lambda>b. Inr (upd_ctx a (\<lambda>x. x\<lparr>ctx_rdma_buf := Some b\<rparr>) w))))"

definition IS_rdma_write :: "is_config \<Rightarrow> 'n transport \<Rightarrow> route list \<Rightarrow> nat \<Rightarrow> nat \<Rightarrow> nat \<Rightarrow> 'n world \<Rightarrow> (int \<times> 'n world) res" where
  "IS_rdma_write c tr routes offset ln r w = bindE (req_at w r) (\<lambda>q.
     case new_counter (int (NDATAS c)) w of (cnt, w) \<Rightarrow>
     bindE (foldE (acquire c r q offset ln True cnt) (enumerate 0 routes) ([], w)) (\<lambda>(as, w).
     bindE (foldE (\<lambda>k. foldE (copy_in k (rq_bios q ! k)) as) [0..<length (rq_bios q)] w) (\<lambda>w.
     bindE (whileE (\<lambda>(rt, a) w. case rt of None \<Rightarrow> Inr (0, w) | Some (b, _) \<Rightarrow> post_ctx tr b a w) (zip routes as) w) (\<lambda>(ret, w).
     if ret \<noteq> 0 then Inr (ret, w)
     else bindE (foldE (\<lambda>(rt, a) w. case rt of None \<Rightarrow> give_back a w | Some (b, _) \<Rightarrow> rdma_cq_event_handler c tr b w)
         (zip routes as) w) (\<lambda>w. Inr (0, w))))))"

text \<open>The fault of disk \<open>i\<close> is drawn; a fault is reported to the server, and its answer awaited.\<close>

definition inject :: "is_config \<Rightarrow> 'n transport \<Rightarrow> nat \<times> route \<times> ctx_addr \<Rightarrow> 'n world \<Rightarrow> 'n world res" where
  "inject c tr = (\<lambda>(i, rt, a) w. case IS_fault_injection_inject_fault (fault_injection (sess w)) i of
       None \<Rightarrow> Inl Die
     | Some (f, fi) \<Rightarrow>
         let w = upd_ctx a (\<lambda>x. x\<lparr>ctx_fault := f\<rparr>) (upd_sess (\<lambda>s. s\<lparr>fault_injection := fi\<rparr>) w) in
         if f = 0 then Inr w
         else case rt of None \<Rightarrow> Inl Oob
         | Some (b, _) \<Rightarrow> bindE (IS_send_fault c tr b w) (\<lambda>(_, w). rdma_cq_event_handler c tr b w))"

definition usable :: "'n world \<Rightarrow> route \<times> ctx_addr \<Rightarrow> bool res" where
  "usable w = (\<lambda>(rt, a). bindE (ctx_at w a) (\<lambda>x. Inr (rt \<noteq> None \<and> ctx_fault x = 0)))"

text \<open>The search for a good parity runs past the arrays when there is none.\<close>

definition next_parity :: "'n world \<Rightarrow> (route \<times> ctx_addr) list \<Rightarrow> nat \<Rightarrow> nat res" where
  "next_parity w rts j = foldr (\<lambda>i r. bindE (usable w (rts ! i)) (\<lambda>u. if u then Inr i else r)) [j..<length rts] (Inl Oob)"

definition post_read :: "'n transport \<Rightarrow> (route \<times> ctx_addr) list \<Rightarrow> nat \<Rightarrow> 'n world \<Rightarrow> (int \<times> 'n world) res" where
  "post_read tr rts i w = (case rts ! i of (None, a) \<Rightarrow> Inl Oob
     | (Some (b, _), a) \<Rightarrow> bindE (post_ctx tr b a w) (\<lambda>(ret, w).
         Inr (ret, upd_sess (\<lambda>s. s\<lparr>fault_injection := IS_fault_injection_access (fault_injection s) i\<rparr>) w)))"

definition read_step :: "is_config \<Rightarrow> 'n transport \<Rightarrow> (route \<times> ctx_addr) list \<Rightarrow> nat \<Rightarrow> nat \<times> 'n world \<Rightarrow> (int \<times> nat \<times> 'n world) res" where
  "read_step c tr rts i = (\<lambda>(j, w). bindE (usable w (rts ! i)) (\<lambda>u.
     if u then bindE (post_read tr rts i w) (\<lambda>(ret, w). Inr (ret, j, w))
     else bindE (next_parity w rts (NDATAS c + j)) (\<lambda>p. bindE (post_read tr rts p w) (\<lambda>(ret, w).
       Inr (ret, (if ret = 0 then p - NDATAS c + 1 else p - NDATAS c), w)))))"

definition IS_rdma_read :: "is_config \<Rightarrow> 'n transport \<Rightarrow> route list \<Rightarrow> nat \<Rightarrow> nat \<Rightarrow> nat \<Rightarrow> 'n world \<Rightarrow> (int \<times> 'n world) res" where
  "IS_rdma_read c tr routes offset ln r w = bindE (req_at w r) (\<lambda>q.
     case new_counter (int (NDATAS c)) w of (cnt, w) \<Rightarrow>
     bindE (foldE (acquire c r q offset ln False cnt) (enumerate 0 routes) ([], w)) (\<lambda>(as, w).
     let w = fold (\<lambda>a. upd_ctx a (\<lambda>x. x\<lparr>ctx_ctxs := as\<rparr>)) as w; rts = zip routes as in
     bindE (foldE (inject c tr) (enumerate 0 rts) w) (\<lambda>w.
     bindE (whileE (read_step c tr rts) [0..<NDATAS c] (0, w)) (\<lambda>(ret, j, w).
     if ret \<noteq> 0 then Inr (ret, w)
     else bindE (foldE (\<lambda>(rt, a) w. bindE (usable w (rt, a)) (\<lambda>u. case rt of
         Some (b, _) \<Rightarrow> if u then rdma_cq_event_handler c tr b w else Inr w
       | None \<Rightarrow> Inr w)) (take (NDATAS c + j) rts) w) (\<lambda>w. Inr (0, w))))))"

definition IS_transfer_chunk :: "is_config \<Rightarrow> 'n transport \<Rightarrow> route list \<Rightarrow> nat \<Rightarrow> nat \<Rightarrow> bool \<Rightarrow> nat \<Rightarrow> 'n world \<Rightarrow> (int \<times> 'n world) res" where
  "IS_transfer_chunk c tr routes offset ln write r w =
     (if write then IS_rdma_write c tr routes offset ln r w else IS_rdma_read c tr routes offset ln r w)"

section \<open>Block requests\<close>

text \<open>The look-up of the slabs of a request.\<close>

definition route_of :: "IS_session \<Rightarrow> nat \<Rightarrow> route res" where
  "route_of s x = bindE (aload (cb_index_map s) (int x)) (\<lambda>b.
     if b = NO_CB_MAPPED then Inr None
     else bindE (cb_at s b) (\<lambda>cb. bindE (aload (chunk_map_cb_chunk s) (int x)) (\<lambda>k.
       Inr (Some (nat b, k, if k = - 1 then None else Some (nat b, nat k))))))"

definition IS_request :: "is_config \<Rightarrow> 'n transport \<Rightarrow> nat \<Rightarrow> 'n world \<Rightarrow> (int \<times> 'n world) res" where
  "IS_request c tr r w = bindE (req_at w r) (\<lambda>q.
     let start = rq_pos q * 512; slab_index = start div 2 ^ SLAB_SHIFT c; chunk_offset = start mod 2 ^ SLAB_SHIFT c in
     bindE (foldE (\<lambda>i rs. bindE (route_of (sess w) (slab_index * NDISKS c + i)) (\<lambda>x. Inr (rs @ [x]))) [0..<NDISKS c] []) (\<lambda>routes.
     IS_transfer_chunk c tr routes chunk_offset (rq_bytes q) (rq_write q) r w))"

definition BLK_MQ_RQ_QUEUE_OK :: int where "BLK_MQ_RQ_QUEUE_OK = 0"
definition BLK_MQ_RQ_QUEUE_ERROR :: int where "BLK_MQ_RQ_QUEUE_ERROR = 2"

definition IS_queue_rq :: "is_config \<Rightarrow> 'n transport \<Rightarrow> nat \<Rightarrow> 'n world \<Rightarrow> (int \<times> 'n world) res" where
  "IS_queue_rq c tr r w = bindE (IS_request c tr r w) (\<lambda>(err, w).
     if err \<noteq> 0 then Inr (BLK_MQ_RQ_QUEUE_ERROR, upd_req r (\<lambda>q. q\<lparr>rq_errors := - EIO\<rparr>) w)
     else Inr (BLK_MQ_RQ_QUEUE_OK, w))"

end
