(* ===== verification/Failover.thy ===== *)
theory Failover
  imports Data_Path Session_Maps
begin

text \<open>
  What the resilience manager does when a server goes away: \<open>IS_disconnect_handler\<close>, which unmaps the slabs of the
  server, retries what was in flight and reclaims the slabs, and the connection event handler that calls it. The
  scan for failed blocks inside the handler only feeds the erasure decoder and is modelled with it (\<open>Recovery\<close>).
\<close>

section \<open>Disconnection\<close>

text \<open>A context of the lost server: a read is retried, a write is given back. The context is not marked idle.\<close>

definition retry_step :: "is_config \<Rightarrow> 'n transport \<Rightarrow> nat \<Rightarrow> nat \<times> nat \<Rightarrow> int \<times> 'n world \<Rightarrow> (int \<times> 'n world) res" where
  "retry_step c tr b = (\<lambda>(i, j) (err, w). bindE (ctx_at w (i, b, j)) (\<lambda>x.
     if ctx_in_flight x = CTX_R_IN_FLIGHT
     then bindE (give_back (i, b, j) w) (\<lambda>w. case ctx_req x of None \<Rightarrow> Inl Oob | Some r \<Rightarrow> IS_request c tr r w)
     else if ctx_in_flight x = CTX_W_IN_FLIGHT then bindE (give_back (i, b, j) w) (\<lambda>w. Inr (err, w))
     else Inr (err, w)))"

definition retry_in_flight :: "is_config \<Rightarrow> 'n transport \<Rightarrow> nat \<Rightarrow> 'n world \<Rightarrow> (int \<times> 'n world) res" where
  "retry_in_flight c tr b w = foldE (retry_step c tr b)
     (concat (map (\<lambda>i. map (\<lambda>j. (i, j)) [0..<IS_QUEUE_DEPTH]) [0..<length (IS_conns (sess w))])) (0, w)"

definition on_sess :: "(IS_session \<Rightarrow> IS_session res) \<Rightarrow> 'n world \<Rightarrow> 'n world res" where
  "on_sess f w = bindE (f (sess w)) (\<lambda>s. Inr (w\<lparr>sess := s\<rparr>))"

definition IS_disconnect_handler :: "is_config \<Rightarrow> 'n transport \<Rightarrow> nat \<Rightarrow> 'n world \<Rightarrow> (int \<times> 'n world) res" where
  "IS_disconnect_handler c tr b w =
     (if cb_state_list (sess w) ! b = CB_CONNECTED then Inr (int b, upd_sess (set_cb_state b CB_FAIL) w)
      else bindE (on_sess (unmap_server b) (upd_sess (set_cb_state b CB_FAIL) w)) (\<lambda>w.
        bindE (retry_in_flight c tr b w) (\<lambda>(err, w).
        bindE (on_sess (reclaim_server b) w) (\<lambda>w. Inr (err, w)))))"

section \<open>Connection events\<close>

datatype cma_event = EV_ADDR_RESOLVED | EV_ROUTE_RESOLVED | EV_CONNECT_REQUEST | EV_ESTABLISHED | EV_ADDR_ERROR
  | EV_ROUTE_ERROR | EV_CONNECT_ERROR | EV_UNREACHABLE | EV_REJECTED | EV_DISCONNECTED | EV_DEVICE_REMOVAL | EV_OTHER

text \<open>An error of \<^verbatim>\<open>rdma_resolve_route\<close> is only logged.\<close>

definition IS_cma_event_handler :: "is_config \<Rightarrow> 'n transport \<Rightarrow> nat \<Rightarrow> cma_event \<Rightarrow> 'n world \<Rightarrow> (int \<times> 'n world) res" where
  "IS_cma_event_handler c tr b ev w = (let st = (\<lambda>t. Inr (0, upd_sess (set_state b t) w)) in case ev of
       EV_ADDR_RESOLVED \<Rightarrow> st ADDR_RESOLVED
     | EV_ROUTE_RESOLVED \<Rightarrow> st ROUTE_RESOLVED
     | EV_CONNECT_REQUEST \<Rightarrow> st CONNECT_REQUEST
     | EV_ESTABLISHED \<Rightarrow> Inr (0, upd_sess (\<lambda>s. let s = set_state b CONNECTED s; n = conns_count s - 1
           in s\<lparr>conns_count := n, conns_wait := conns_wait s \<or> n = 0\<rparr>) w)
     | EV_ADDR_ERROR \<Rightarrow> st ERROR
     | EV_ROUTE_ERROR \<Rightarrow> st ERROR
     | EV_CONNECT_ERROR \<Rightarrow> st ERROR
     | EV_UNREACHABLE \<Rightarrow> st ERROR
     | EV_REJECTED \<Rightarrow> st ERROR
     | EV_DISCONNECTED \<Rightarrow> bindE (IS_disconnect_handler c tr b (upd_sess (set_state b CM_DISCONNECT) w)) (\<lambda>(_, w). Inr (0, w))
     | EV_DEVICE_REMOVAL \<Rightarrow> Inr (- 1, w)
     | EV_OTHER \<Rightarrow> Inr (0, w))"

end
