(* ===== verification/Runs.thy ===== *)
theory Runs
  imports Messages
begin

text \<open>
  Runs of a component as sequences of events, and the contract under which the run of a detailed component is a run of
  an abstract one: every event that the environment may send is handled without an error, keeps the invariant and has its
  abstract effect.
\<close>

inductive run :: "('e \<Rightarrow> 's \<Rightarrow> bool) \<Rightarrow> ('e \<Rightarrow> 's \<Rightarrow> 's res) \<Rightarrow> 's \<Rightarrow> 'e list \<Rightarrow> 's \<Rightarrow> bool"
  for allowed step s0
where
  start: "run allowed step s0 [] s0"
| more: "run allowed step s0 es s \<Longrightarrow> allowed e s \<Longrightarrow> step e s = Inr s' \<Longrightarrow> run allowed step s0 (es @ [e]) s'"

text \<open>An invariant that every handled event keeps holds after every run.\<close>

locale preserved =
  fixes allowed :: "'e \<Rightarrow> 's \<Rightarrow> bool" and step :: "'e \<Rightarrow> 's \<Rightarrow> 's res" and inv :: "'s \<Rightarrow> bool"
  assumes step_inv: "inv s \<Longrightarrow> allowed e s \<Longrightarrow> step e s = Inr s' \<Longrightarrow> inv s'"
begin

lemma run_inv: "run allowed step s0 es s \<Longrightarrow> inv s0 \<Longrightarrow> inv s"
  by (induction rule: run.induct) (auto intro: step_inv)

end

locale refinement =
  fixes allowed :: "'e \<Rightarrow> 's \<Rightarrow> bool" and step :: "'e \<Rightarrow> 's \<Rightarrow> 's res"
    and inv :: "'s \<Rightarrow> bool" and abs :: "'s \<Rightarrow> 'a" and effect :: "'e \<Rightarrow> 'a \<Rightarrow> 'a"
  assumes step_refines: "inv s \<Longrightarrow> allowed e s \<Longrightarrow> \<exists>s'. step e s = Inr s' \<and> inv s' \<and> abs s' = effect e (abs s)"
begin

lemma run_refines: "run allowed step s0 es s \<Longrightarrow> inv s0 \<Longrightarrow> inv s \<and> abs s = fold effect es (abs s0)"
proof (induction rule: run.induct)
  case (more es s e s')
  then show ?case using step_refines [of s e] by auto
qed simp

lemma run_progress: "run allowed step s0 es s \<Longrightarrow> inv s0 \<Longrightarrow> allowed e s \<Longrightarrow> \<exists>s'. step e s = Inr s'"
  using run_refines [of s0 es s] step_refines [of s e] by blast

end

text \<open>A refinement keeps its invariant.\<close>

sublocale refinement \<subseteq> kept: preserved allowed step inv
proof
  fix s e s' assume "inv s" "allowed e s" "step e s = Inr s'"
  with step_refines [of s e] show "inv s'" by auto
qed

end
