(* ===== verification/Session_Runs.thy ===== *)
theory Session_Runs
  imports Session_Maps Failover Runs
begin

text \<open>
  The slab tables over the life of a session: servers are connected, grant chunks, send control messages and are lost.
  The tables refine the abstract placement map in every such run.
\<close>

section \<open>Events of a session\<close>

datatype slab_event = Connect nat handle | State nat test_state | Grant nat message | Control nat message | Lose nat

text \<open>What \<open>IS_disconnect_handler\<close> does to the session when nothing is in flight.\<close>

definition lose_server :: "nat \<Rightarrow> IS_session \<Rightarrow> IS_session res" where
  "lose_server b s = (if cb_state_list s ! b = CB_CONNECTED then Inr (set_cb_state b CB_FAIL s)
     else bindE (unmap_server b (set_cb_state b CB_FAIL s)) (reclaim_server b))"

definition receive :: "nat \<Rightarrow> message \<Rightarrow> IS_session \<Rightarrow> IS_session res" where
  "receive b m s = bindE (client_recv b True (upd_cb b (\<lambda>cb. cb\<lparr>recv_buf := m\<rparr>) s)) (\<lambda>(_, s). Inr s)"

fun slab_step :: "is_config \<Rightarrow> nat \<Rightarrow> slab_event \<Rightarrow> IS_session \<Rightarrow> IS_session res" where
  "slab_step c q (Connect b h) s = bindE (kernel_cb_init c q h b s) (\<lambda>(_, s). Inr (set_cb_state b CB_CONNECTED s))"
| "slab_step c q (State b t) s = bindE (cb_at s (int b)) (\<lambda>_. Inr (set_state b t s))"
| "slab_step c q (Grant b m) s = receive b m s"
| "slab_step c q (Control b m) s = receive b m s"
| "slab_step c q (Lose b) s = lose_server b s"

definition granted_chunk :: "message \<Rightarrow> nat option" where
  "granted_chunk m = find (\<lambda>i. rkey m ! i \<noteq> 0) [0..<MAX_MR_SIZE_GB]"

definition server_up :: "IS_session \<Rightarrow> nat \<Rightarrow> bool" where
  "server_up s b \<longleftrightarrow> b < length (cb_list s) \<and> cb_state_list s ! b \<noteq> CB_IDLE \<and> cb_state_list s ! b \<noteq> CB_FAIL"

text \<open>
  \<open>State\<close> is an event of the connection manager, or a step of the connection protocol. What the environment may do: only
  an idle server is connected; a server grants a slab that was asked for and is unmapped,
  with a chunk that it has not lent to this session.
\<close>

fun slab_allowed :: "is_config \<Rightarrow> slab_event \<Rightarrow> IS_session \<Rightarrow> bool" where
  "slab_allowed c (Connect b h) s \<longleftrightarrow> b < length (cb_list s) \<and> cb_state_list s ! b = CB_IDLE \<and> (case h of Err _ \<Rightarrow> False | _ \<Rightarrow> True)"
| "slab_allowed c (State b t) s \<longleftrightarrow> b < length (cb_list s)"
| "slab_allowed c (Grant b m) s \<longleftrightarrow> server_up s b \<and> mtype m = INFO_SINGLE \<and> 0 \<le> size_gb m \<and> size_gb m < int (DISKSIZE_G c) \<and>
     placement s (nat (size_gb m)) = None \<and> CONNECTED \<le> state (the (cb_list s ! b)) \<and>
     (case granted_chunk m of None \<Rightarrow> True | Some i \<Rightarrow> \<forall>y<DISKSIZE_G c. placement s y \<noteq> Some (b, i))"
| "slab_allowed c (Control b m) s \<longleftrightarrow> server_up s b \<and> mtype m \<noteq> INFO \<and> mtype m \<noteq> INFO_SINGLE"
| "slab_allowed c (Lose b) s \<longleftrightarrow> server_up s b"

text \<open>The effect of an event on the abstract map.\<close>

fun slab_effect :: "slab_event \<Rightarrow> (nat \<rightharpoonup> nat \<times> nat) \<Rightarrow> nat \<rightharpoonup> nat \<times> nat" where
  "slab_effect (Connect b h) p = p"
| "slab_effect (State b t) p = p"
| "slab_effect (Grant b m) p = (case granted_chunk m of None \<Rightarrow> p | Some i \<Rightarrow> p(nat (size_gb m) \<mapsto> (b, i)))"
| "slab_effect (Control b m) p = p"
| "slab_effect (Lose b) p = without b p"

section \<open>The invariant\<close>

text \<open>Beside the agreement of the tables: no slab is on a server that has not granted anything.\<close>

definition server_ok :: "IS_session \<Rightarrow> nat \<Rightarrow> bool" where
  "server_ok s b \<longleftrightarrow> (\<exists>cb. cb_list s ! b = Some cb \<and> (cb_state_list s ! b \<noteq> CB_IDLE \<longrightarrow> rc_ok (remote_chunk cb))) \<and>
     (cb_state_list s ! b \<le> CB_CONNECTED \<longrightarrow> (\<forall>x i. placement s x \<noteq> Some (b, i)))"

definition session_inv :: "is_config \<Rightarrow> IS_session \<Rightarrow> bool" where
  "session_inv c s \<longleftrightarrow> maps_ok c s \<and> (\<forall>b<length (cb_list s). server_ok s b)"

lemma placement_frame [simp]: "placement (s\<lparr>cb_list := l\<rparr>) = placement s" "placement (s\<lparr>cb_state_list := l'\<rparr>) = placement s"
  by (simp_all add: placement_def fun_eq_iff)

lemma session_invD:
  assumes "session_inv c s" "b < length (cb_list s)"
  obtains cb where "maps_ok c s" "cb_list s ! b = Some cb" "cb_state_list s ! b \<noteq> CB_IDLE \<Longrightarrow> rc_ok (remote_chunk cb)"
    "cb_state_list s ! b \<le> CB_CONNECTED \<Longrightarrow> (b, i) \<notin> ran (placement s)"
  using assms unfolding session_inv_def server_ok_def ran_def by blast

lemma unused_no_link:
  assumes "maps_ok c s" "(b, i) \<notin> ran (placement s)" "x < DISKSIZE_G c"
  shows "\<not> linked s x b i"
  using assms placement_linked [of s x b i] by (auto simp: ran_def maps_ok_def tables_ok_def)

lemma unused_chunk: "maps_ok c s \<Longrightarrow> (\<And>y. y < DISKSIZE_G c \<Longrightarrow> placement s y \<noteq> Some (b, i)) \<Longrightarrow> (b, i) \<notin> ran (placement s)"
proof -
  assume ok: "maps_ok c s" and un: "\<And>y. y < DISKSIZE_G c \<Longrightarrow> placement s y \<noteq> Some (b, i)"
  have "y < DISKSIZE_G c" if "placement s y = Some p" for y p
    using that ok by (auto simp: maps_ok_def tables_ok_def placement_def split: if_splits)
  with un show ?thesis by (auto simp: ran_def)
qed

text \<open>A chunk that no slab is on is free in the control block as well.\<close>

lemma unused_cmap:
  assumes ok: "maps_ok c s" and b: "b < length (cb_list s)" "cb_list s ! b = Some cb" and i: "i < length (cmap cb)"
    and un: "(b, i) \<notin> ran (placement s)"
  shows "cmap cb ! i = - 1"
proof (rule ccontr)
  assume "cmap cb ! i \<noteq> - 1"
  moreover have "back_ok c s b" using ok b by (simp add: maps_ok_def)
  ultimately obtain x where "x < DISKSIZE_G c" "linked s x b i" using back_okD b(2) i by blast
  with unused_no_link [OF ok un] show False by blast
qed

lemma server_ok_frame:
  assumes "server_ok s b" "placement s' = placement s" "cb_state_list s' ! b = cb_state_list s ! b"
    and "chunk_view (cb_list s' ! b) = chunk_view (cb_list s ! b)"
  shows "server_ok s' b"
proof -
  obtain cb where cb: "cb_list s ! b = Some cb" "cb_state_list s ! b \<noteq> CB_IDLE \<longrightarrow> rc_ok (remote_chunk cb)"
    using assms(1) by (auto simp: server_ok_def)
  with assms(4) obtain cb' where cb': "cb_list s' ! b = Some cb'"
    "rc_view (remote_chunk cb') = rc_view (remote_chunk cb)" by (cases "cb_list s' ! b") auto
  with cb rc_viewD(4) [OF cb'(2)] assms show ?thesis by (simp add: server_ok_def)
qed


section \<open>Connecting\<close>

lemma reset_server_ok:
  assumes ok: "maps_ok c s" and b: "b < length (cb_list s)" and un: "\<And>i. (b, i) \<notin> ran (placement s)"
    and s': "cb_list s' = (cb_list s)[b := Some cb']" "cb_index_map s' = cb_index_map s" "chunk_map_cb_chunk s' = chunk_map_cb_chunk s"
      "unmapped_chunk_list s' = unmapped_chunk_list s" "free_chunk_index s' = free_chunk_index s"
      "length (cb_state_list s') = length (cb_state_list s)"
    and fresh: "\<And>i. i < length (cmap cb') \<Longrightarrow> cmap cb' ! i = - 1"
  shows "maps_ok c s'" and "placement s' = placement s"
proof -
  show "placement s' = placement s" by (auto simp: placement_def s' fun_eq_iff)
  have keep: "linked s' x b' i" if "linked s x b' i" "x < DISKSIZE_G c" for x b' i
  proof -
    have "b' \<noteq> b" using unused_no_link [OF ok un that(2)] that(1) by auto
    with that show ?thesis by (simp add: linked_def s')
  qed
  have "back_ok c s' b'" if "b' < length (cb_list s')" for b'
    unfolding back_ok_def
  proof (intro allI impI)
    fix d i assume d: "cb_list s' ! b' = Some d" "i < length (cmap d)" "cmap d ! i \<noteq> - 1"
    with fresh b have "b' \<noteq> b" by (auto simp: s')
    with d that have "cb_list s ! b' = Some d" "back_ok c s b'" using ok by (simp_all add: s' maps_ok_def)
    with back_okD d keep show "\<exists>x<DISKSIZE_G c. cmap d ! i = int x \<and> linked s' x b' i" by metis
  qed
  moreover have "\<exists>b i. linked s' x b i" if "x < DISKSIZE_G c" "cb_index_map s' ! x \<noteq> NO_CB_MAPPED" for x
    using that ok keep by (simp add: maps_ok_def tables_ok_def s') blast
  ultimately show "maps_ok c s'"
    using ok by (simp add: maps_ok_def tables_ok_def s' unmapped_def)
qed

lemma connect_refines:
  assumes inv: "session_inv c s" and al: "slab_allowed c (Connect b h) s"
  shows "\<exists>s'. slab_step c q (Connect b h) s = Inr s' \<and> session_inv c s' \<and> placement s' = slab_effect (Connect b h) (placement s)"
proof -
  have b: "b < length (cb_list s)" "cb_state_list s ! b = CB_IDLE" "\<And>e. h \<noteq> Err e" using al by (auto split: handle.splits)
  obtain cb where ok: "maps_ok c s" and cb: "cb_list s ! b = Some cb" and un: "\<And>i. (b, i) \<notin> ran (placement s)"
    using inv b by (auto simp: session_inv_def server_ok_def ran_def less_eq_cb_state_def)
  define cb' where "cb' = cb\<lparr>txdepth := int IS_QUEUE_DEPTH * int q + 1, cb_size := IS_PAGE_SIZE div NDATAS c * 1,
    state := IDLE, remote_chunk := init_remote_chunk (remote_chunk cb), cm_id := h\<rparr>"
  define s' where "s' = set_cb_state b CB_CONNECTED (s\<lparr>cb_list := (cb_list s)[b := Some cb']\<rparr>)"
  have run: "slab_step c q (Connect b h) s = Inr s'"
    using b(3) cb_at_Some [OF b(1) cb] by (cases h) (auto simp: kernel_cb_init_def s'_def cb'_def)
  have rc: "rc_ok (remote_chunk cb')" by (simp add: cb'_def rc_ok_def init_remote_chunk_def)
  have "maps_ok c s'" "placement s' = placement s"
    by (rule reset_server_ok [OF ok b(1) un, where cb' = cb'];
        simp add: s'_def set_cb_state_def cb'_def init_remote_chunk_def)+
  moreover have "server_ok s' b'" if b': "b' < length (cb_list s')" for b'
  proof (cases "b' = b")
    case True
    then show ?thesis
      using rc un b \<open>placement s' = placement s\<close> by (auto simp: server_ok_def s'_def set_cb_state_def ran_def)
  next
    case False
    have "server_ok s b'" using inv b' by (simp add: session_inv_def s'_def set_cb_state_def)
    then show ?thesis
      by (rule server_ok_frame) (use False \<open>placement s' = placement s\<close> in \<open>simp_all add: s'_def set_cb_state_def\<close>)
  qed
  ultimately show ?thesis using run by (auto simp: session_inv_def)
qed

section \<open>Messages\<close>

lemma touch_cb:
  assumes "b < length (cb_list s)" "cb_list s ! b = Some cb" "rc_view (remote_chunk cb') = rc_view (remote_chunk cb)"
    and "length l = length (cb_state_list s)"
  shows "same_tables s (s\<lparr>cb_state_list := l, cb_list := (cb_list s)[b := Some cb']\<rparr>)"
proof -
  have "(map chunk_view (cb_list s))[b := chunk_view (Some cb')] = map chunk_view (cb_list s)"
    by (rule list_update_same_conv [THEN iffD2]) (use assms in simp_all)
  then show ?thesis using assms(4) by (simp add: same_tables_def map_update)
qed

lemma touch_cb_inv:
  assumes "session_inv c s" "b < length (cb_list s)" "cb_list s ! b = Some cb" "rc_view (remote_chunk cb') = rc_view (remote_chunk cb)"
  shows "session_inv c (s\<lparr>cb_list := (cb_list s)[b := Some cb']\<rparr>) \<and> placement (s\<lparr>cb_list := (cb_list s)[b := Some cb']\<rparr>) = placement s"
proof -
  let ?s = "s\<lparr>cb_list := (cb_list s)[b := Some cb']\<rparr>"
  have t: "same_tables s ?s" using touch_cb [OF assms(2-4), of "cb_state_list s"] by simp
  have m: "maps_ok c ?s" "placement ?s = placement s"
    using same_tables_maps_ok [OF t] assms(1) by (auto simp: session_inv_def)
  have "server_ok ?s b'" if "b' < length (cb_list ?s)" for b'
    by (rule server_ok_frame [where s = s])
      (use assms(1) that m(2) same_tables_cb(2) [OF t, of b'] in \<open>simp_all add: session_inv_def\<close>)
  with m show ?thesis by (simp add: session_inv_def)
qed

lemma state_refines:
  assumes inv: "session_inv c s" and al: "slab_allowed c (State b t) s"
  shows "\<exists>s'. slab_step c q (State b t) s = Inr s' \<and> session_inv c s' \<and> placement s' = slab_effect (State b t) (placement s)"
proof -
  have b: "b < length (cb_list s)" using al by simp
  obtain cb where cb: "cb_list s ! b = Some cb" using inv b by (auto simp: session_inv_def server_ok_def)
  then have "slab_step c q (State b t) s = Inr (s\<lparr>cb_list := (cb_list s)[b := Some (cb\<lparr>state := t\<rparr>)]\<rparr>)"
    using b by (simp add: cb_at_Some set_state_def upd_cb_def)
  with touch_cb_inv [OF inv b cb, of "cb\<lparr>state := t\<rparr>"] show ?thesis by simp
qed

lemma control_refines:
  assumes inv: "session_inv c s" and al: "slab_allowed c (Control b m) s"
  shows "\<exists>s'. slab_step c q (Control b m) s = Inr s' \<and> session_inv c s' \<and> placement s' = slab_effect (Control b m) (placement s)"
proof -
  have b: "b < length (cb_list s)" and m: "mtype m \<noteq> INFO" "mtype m \<noteq> INFO_SINGLE" using al by (auto simp: server_up_def)
  obtain cb where cb: "cb_list s ! b = Some cb" using inv b by (auto simp: session_inv_def server_ok_def)
  have "\<exists>cb'. slab_step c q (Control b m) s = Inr (s\<lparr>cb_list := (cb_list s)[b := Some cb']\<rparr>) \<and>
      rc_view (remote_chunk cb') = rc_view (remote_chunk cb)"
    using b m cb
    by (cases "mtype m") (auto simp: receive_def client_recv_def cb_at_def upd_cb_def upd_rc_def set_state_def Let_def
      client_recv_evict_def client_recv_stop_def rc_view_def)
  then obtain cb' where run: "slab_step c q (Control b m) s = Inr (s\<lparr>cb_list := (cb_list s)[b := Some cb']\<rparr>)"
    and "rc_view (remote_chunk cb') = rc_view (remote_chunk cb)" by blast
  from touch_cb_inv [OF inv b cb this(2)] run show ?thesis by simp
qed

lemma grant_result:
  assumes inv: "session_inv c s" and al: "slab_allowed c (Grant b m) s"
  shows "\<exists>s'. slab_step c q (Grant b m) s = Inr s' \<and> session_inv c s' \<and> placement s' = slab_effect (Grant b m) (placement s) \<and>
    cb_state_list s' ! b = CB_MAPPED \<and> length (cb_list s') = length (cb_list s) \<and> (\<forall>i. granted_chunk m = Some i \<longrightarrow> (\<exists>cb. cb_list s' ! b = Some cb \<and>
      chunk_list (remote_chunk cb) ! i = \<lparr>remote_rkey = ntohl (rkey m ! i), remote_addr = ntohll (buf m ! i)\<rparr>))"
proof -
  define x where "x = nat (size_gb m)"
  have b: "b < length (cb_list s)" "cb_state_list s ! b \<noteq> CB_IDLE" and m: "mtype m = INFO_SINGLE" "size_gb m = int x" "x < DISKSIZE_G c"
    "placement s x = None" and st: "CONNECTED \<le> state (the (cb_list s ! b))"
    and fr: "\<And>i. granted_chunk m = Some i \<Longrightarrow> (b, i) \<notin> ran (placement s)"
    using al unused_chunk [of c s b] inv by (auto simp: server_up_def x_def session_inv_def split: option.splits)
  obtain cb where ok: "maps_ok c s" and cb: "cb_list s ! b = Some cb" "rc_ok (remote_chunk cb)"
    using session_invD [OF inv b(1)] b(2) by blast
  define cb2 where "cb2 = cb\<lparr>recv_buf := m, state := WAIT_OPS\<rparr>"
  define s2 where "s2 = s\<lparr>cb_state_list := (cb_state_list s)[b := CB_MAPPED], cb_list := (cb_list s)[b := Some cb2]\<rparr>"
  have len: "length (cb_state_list s) = length (cb_list s)" "length (cb_index_map s) = DISKSIZE_G c"
    using ok by (simp_all add: maps_ok_def tables_ok_def)
  have run: "slab_step c q (Grant b m) s = IS_single_chunk_init b s2"
    using b m st cb unfolding slab_step.simps receive_def client_recv_def
    by (simp add: cb_at_def upd_cb_def set_state_def set_cb_state_def s2_def cb2_def not_less [symmetric] bindE_def Let_def split: sum.splits)
  have t: "same_tables s s2" unfolding s2_def by (rule touch_cb [OF b(1) cb(1)]) (simp_all add: cb2_def rc_view_def)
  have b2: "b < length (cb_list s2)" "cb_list s2 ! b = Some cb2" "rc_ok (remote_chunk cb2)" using b cb by (simp_all add: s2_def cb2_def)
  have st2: "cb_state_list s2 ! b = CB_MAPPED" "length (cb_list s2) = length (cb_list s)" using b len by (simp_all add: s2_def)
  have ok2: "maps_ok c s2" "placement s2 = placement s" by (rule same_tables_maps_ok [OF t ok])+
  have sv: "server_ok s' b'" if b': "b' < length (cb_list s')" and l: "cb_list s' = (cb_list s2)[b := Some cb']" "rc_ok (remote_chunk cb')"
    "cb_state_list s' = cb_state_list s2" "placement s' = (placement s) \<or> placement s' = (placement s)(x \<mapsto> (b, i))" for s' cb' b' i
  proof (cases "b' = b")
    case True
    then show ?thesis using l b len by (auto simp: server_ok_def s2_def less_eq_cb_state_def)
  next
    case False
    then have "server_ok s b'" "cb_list s' ! b' = cb_list s ! b'" "cb_state_list s' ! b' = cb_state_list s ! b'"
      using inv b' l by (simp_all add: session_inv_def s2_def)
    with False l(4) show ?thesis by (auto simp: server_ok_def split: if_splits)
  qed
  show ?thesis
  proof (cases "granted_chunk m")
    case None
    then have "IS_single_chunk_init b s2 = Inr s2"
      using cb_at_Some [OF b2(1,2)] by (simp add: IS_single_chunk_init_def granted_chunk_def cb2_def)
    moreover have "server_ok s2 b'" if "b' < length (cb_list s2)" for b'
      by (rule sv [OF that, of cb2]) (use b b2 ok2 in \<open>simp_all add: s2_def\<close>)
    ultimately show ?thesis using run ok2 None st2 by (simp add: session_inv_def)
  next
    case (Some i)
    then have key: "find (\<lambda>i. rkey (recv_buf cb2) ! i \<noteq> 0) [0..<MAX_MR_SIZE_GB] = Some i" by (simp add: granted_chunk_def cb2_def)
    then have i: "i < length (cmap cb)" using cb(2) by (simp add: find_upt_first rc_ok_def)
    have "cmap cb2 ! i = - 1" using unused_cmap [OF ok b(1) cb(1) i fr [OF Some]] by (simp add: cb2_def)
    moreover have "cb_index_map s2 ! x = NO_CB_MAPPED" using m len by (simp add: placement_def s2_def split: if_splits)
    ultimately obtain s' cb' where "IS_single_chunk_init b s2 = Inr s'" "maps_ok c s'" "placement s' = (placement s2)(x \<mapsto> (b, i))"
      "cb_list s' = (cb_list s2)[b := Some cb']" "cb_state_list s' = cb_state_list s2" "rc_ok (remote_chunk cb')"
      "chunk_list (remote_chunk cb') ! i = \<lparr>remote_rkey = ntohl (rkey m ! i), remote_addr = ntohll (buf m ! i)\<rparr>"
      using single_chunk_init_ok [OF ok2(1) b2 key _ _ m(3)] m(2) by (auto simp: cb2_def)
    with sv [of _ s' cb' i] ok2 run Some m st2 b2(1) show ?thesis by (simp add: session_inv_def x_def [symmetric])
  qed
qed

lemma grant_refines:
  assumes "session_inv c s" and "slab_allowed c (Grant b m) s"
  shows "\<exists>s'. slab_step c q (Grant b m) s = Inr s' \<and> session_inv c s' \<and> placement s' = slab_effect (Grant b m) (placement s)"
  using grant_result [OF assms] by blast

section \<open>Losing a server\<close>

lemma lose_refines:
  assumes inv: "session_inv c s" and al: "slab_allowed c (Lose b) s"
  shows "\<exists>s'. slab_step c q (Lose b) s = Inr s' \<and> session_inv c s' \<and> placement s' = slab_effect (Lose b) (placement s)"
proof -
  have b: "b < length (cb_list s)" "cb_state_list s ! b \<noteq> CB_IDLE" using al by (auto simp: server_up_def)
  obtain cb where ok: "maps_ok c s" and cb: "cb_list s ! b = Some cb" "rc_ok (remote_chunk cb)"
    using session_invD [OF inv b(1)] b(2) by blast
  let ?s = "set_cb_state b CB_FAIL s"
  have t: "same_tables s ?s" by (simp add: same_tables_def set_cb_state_def)
  have len: "length (cb_state_list s) = length (cb_list s)" using ok by (simp add: maps_ok_def tables_ok_def)
  have b2: "b < length (cb_list ?s)" "cb_list ?s ! b = Some cb" using b cb by (simp_all add: set_cb_state_def)
  have sv: "server_ok s' b'" if b': "b' < length (cb_list s')" and l: "cb_list s' = (cb_list s)[b := Some cb']" "rc_ok (remote_chunk cb')"
    "cb_state_list s' = cb_state_list ?s" "placement s' = placement s \<or> placement s' = without b (placement s)" for s' cb' b'
  proof (cases "b' = b")
    case True
    then show ?thesis using l b len by (auto simp: server_ok_def set_cb_state_def less_eq_cb_state_def)
  next
    case False
    then have "server_ok s b'" "cb_list s' ! b' = cb_list s ! b'" "cb_state_list s' ! b' = cb_state_list s ! b'"
      using inv b' l by (simp_all add: session_inv_def set_cb_state_def)
    with False l(4) show ?thesis by (auto simp: server_ok_def without_def split: if_splits option.splits)
  qed
  show ?thesis
  proof (cases "cb_state_list s ! b = CB_CONNECTED")
    case True
    then have un: "(b, i) \<notin> ran (placement s)" for i using inv b by (auto simp: session_inv_def server_ok_def ran_def)
    have "without b (placement s) = placement s"
      using un by (auto simp: without_def fun_eq_iff ran_def split: option.splits)
    moreover have "cb_list ?s = (cb_list s)[b := Some cb]" using cb(1) list_update_id [of "cb_list s" b] by (simp add: set_cb_state_def)
    then have "server_ok ?s b'" if "b' < length (cb_list ?s)" for b'
      by (rule sv [OF that]) (use cb same_tables_maps_ok [OF t ok] in simp_all)
    ultimately show ?thesis
      using True same_tables_maps_ok [OF t ok] by (simp add: lose_server_def session_inv_def)
  next
    case False
    obtain s1 cb1 where un: "unmap_server b ?s = Inr s1" "s1 = ?s\<lparr>cb_index_map := unmap_from b (cb_index_map ?s),
        cb_list := (cb_list ?s)[b := Some cb1]\<rparr>"
      using unmap_server_ok [OF same_tables_maps_ok(1) [OF t ok] b2 cb(2)] by blast
    have "same_tables s1 s1" by (simp add: same_tables_def)
    from lose_server_ok [OF same_tables_maps_ok(1) [OF t ok] b2 cb(2) un(1) this] obtain s3 cb3 where
      s3: "reclaim_server b s1 = Inr s3" "maps_ok c s3" "placement s3 = without b (placement ?s)"
      "cb_list s3 = (cb_list s1)[b := Some cb3]" "rc_ok (remote_chunk cb3)" "cb_state_list s3 = cb_state_list s1" by blast
    have "server_ok s3 b'" if "b' < length (cb_list s3)" for b'
      by (rule sv [OF that, of cb3]) (use s3 un(2) same_tables_maps_ok(2) [OF t ok] in \<open>simp_all add: set_cb_state_def\<close>)
    with False un(1) s3 same_tables_maps_ok(2) [OF t ok] show ?thesis
      by (simp add: lose_server_def session_inv_def)
  qed
qed

interpretation slabs: refinement "slab_allowed c" "slab_step c q" "session_inv c" placement slab_effect for c q
proof
  fix s e assume "session_inv c s" "slab_allowed c e s"
  then show "\<exists>s'. slab_step c q e s = Inr s' \<and> session_inv c s' \<and> placement s' = slab_effect e (placement s)"
    by (cases e; hypsubst) (rule connect_refines state_refines control_refines grant_refines lose_refines; assumption)+
qed


section \<open>A new session\<close>

lemma session_create_inv:
  assumes "IS_session_create c q in4_pton ca cna name s = Inr (0, s0)"
  shows "session_inv c s0" and "placement s0 = Map.empty"
proof -
  obtain s1 conns fi where s0: "s0 = (session_tables c in4_pton s1)\<lparr>IS_conns := conns, fault_injection := fi\<rparr>"
    using assms by (auto simp: IS_session_create_def bindE_def Let_def ENOMEM_def split: if_splits sum.splits option.splits)
  let ?s1 = "session_tables c in4_pton s1"
  have t: "same_tables ?s1 s0" by (simp add: s0 same_tables_def)
  show "placement s0 = Map.empty" using same_tables_maps_ok(2) [OF t] session_tables_ok [of c in4_pton s1] by simp
  moreover have "maps_ok c s0" using same_tables_maps_ok(1) [OF t] session_tables_ok(1) by blast
  ultimately show "session_inv c s0"
    by (auto simp: session_inv_def server_ok_def) (auto simp: s0 session_tables_def)
qed

section \<open>The disconnect handler\<close>

definition quiet :: "nat \<Rightarrow> 'n world \<Rightarrow> bool" where
  "quiet b w \<longleftrightarrow> (\<forall>i<length (IS_conns (sess w)). \<forall>j<IS_QUEUE_DEPTH. \<exists>x. ctx_at w (i, b, j) = Inr x \<and> ctx_in_flight x = CTX_IDLE)"

lemma foldE_skip: "(\<And>x. x \<in> set xs \<Longrightarrow> f x s = Inr s) \<Longrightarrow> foldE f xs s = Inr s"
  by (induction xs) auto

lemma retry_quiet: "quiet b w \<Longrightarrow> retry_in_flight c tr b w = Inr (0, w)"
  unfolding retry_in_flight_def
proof (rule foldE_skip)
  fix p assume "quiet b w" "p \<in> set (concat (map (\<lambda>i. map (\<lambda>j. (i, j)) [0..<IS_QUEUE_DEPTH]) [0..<length (IS_conns (sess w))]))"
  moreover from this obtain i j where p: "p = (i, j)" "i < length (IS_conns (sess w))" "j < IS_QUEUE_DEPTH" by auto
  ultimately obtain x where "ctx_at w (i, b, j) = Inr x" "ctx_in_flight x = CTX_IDLE" unfolding quiet_def by blast
  with p(1) show "retry_step c tr b p (0, w) = Inr (0, w)"
    by (simp add: retry_step_def CTX_IDLE_def CTX_R_IN_FLIGHT_def CTX_W_IN_FLIGHT_def)
qed

lemma disconnect_quiet:
  assumes inv: "session_inv c (sess w)" and con: "server_up (sess w) b" and qu: "quiet b w"
  shows "\<exists>err s'. IS_disconnect_handler c tr b w = Inr (err, w\<lparr>sess := s'\<rparr>) \<and> session_inv c s' \<and>
    placement s' = without b (placement (sess w)) \<and> cb_state_list s' ! b = CB_FAIL"
proof -
  let ?s = "set_cb_state b CB_FAIL (sess w)"
  have b: "b < length (cb_list (sess w))" "cb_state_list (sess w) ! b \<noteq> CB_IDLE" using con by (auto simp: server_up_def)
  obtain cb where ok: "maps_ok c (sess w)" and cb: "cb_list (sess w) ! b = Some cb" "rc_ok (remote_chunk cb)"
    using session_invD [OF inv b(1)] b(2) by blast
  have len: "length (cb_state_list (sess w)) = length (cb_list (sess w))" using ok by (simp add: maps_ok_def tables_ok_def)
  have al: "slab_allowed c (Lose b) (sess w)" using con by simp
  from lose_refines [OF inv al] obtain s' where
    s': "lose_server b (sess w) = Inr s'" "session_inv c s'" "placement s' = without b (placement (sess w))" by auto
  show ?thesis
  proof (cases "cb_state_list (sess w) ! b = CB_CONNECTED")
    case True
    then show ?thesis using s' b len
      by (intro exI [of _ "int b"] exI [of _ s']) (auto simp: IS_disconnect_handler_def lose_server_def upd_sess_def set_cb_state_def)
  next
    case False
    have t: "same_tables (sess w) ?s" by (simp add: same_tables_def set_cb_state_def)
    have b2: "b < length (cb_list ?s)" "cb_list ?s ! b = Some cb" using b cb by (simp_all add: set_cb_state_def)
    obtain s1 cb1 where un: "unmap_server b ?s = Inr s1" and s1: "s1 = ?s\<lparr>cb_index_map := unmap_from b (cb_index_map ?s),
        cb_list := (cb_list ?s)[b := Some cb1]\<rparr>"
      using unmap_server_ok [OF same_tables_maps_ok(1) [OF t ok] b2 cb(2)] by blast
    have "same_tables s1 s1" by (simp add: same_tables_def)
    from lose_server_ok [OF same_tables_maps_ok(1) [OF t ok] b2 cb(2) un this] obtain s3 where
      s3: "reclaim_server b s1 = Inr s3" "cb_state_list s3 = cb_state_list s1" by blast
    have "quiet b (w\<lparr>sess := s1\<rparr>)" using qu by (simp add: quiet_def pool_at_def s1 set_cb_state_def)
    from retry_quiet [OF this] un s3 False have "IS_disconnect_handler c tr b w = Inr (0, w\<lparr>sess := s3\<rparr>)"
      by (simp add: IS_disconnect_handler_def on_sess_def upd_sess_def)
    moreover have "s3 = s'" using s'(1) un s3(1) False by (simp add: lose_server_def)
    moreover have "cb_state_list s3 ! b = CB_FAIL" using s3(2) b len by (simp add: s1 set_cb_state_def)
    ultimately show ?thesis using s' by auto
  qed
qed

section \<open>A first run\<close>

definition demo_session :: "IS_fault_injection \<Rightarrow> IS_session" where
  "demo_session fi = \<lparr>fault_injection = fi, mapped_cb_num = 0, cb_list = [], portal_list = [], cb_num = 0, cb_state_list = [],
     IS_conns = [], portal = [], conns_count = 0, conns_wait = False, capacity = 0, mapped_capacity = 0, capacity_g = 0,
     cb_index_map = [], chunk_map_cb_chunk = [], unmapped_chunk_list = [], free_chunk_index = 0\<rparr>"

definition demo_injector :: IS_fault_injection where
  "demo_injector = \<lparr>inject_fault = 0, fault_rate = 0, disk_fault = replicate 3 \<lparr>access_count = 0,
     access_count_before_next_fault = 0, fault_count = 0, seed = \<lparr>mt = [], mti = 0\<rparr>\<rparr>\<rparr>"

definition demo_grant :: message where
  "demo_grant = \<lparr>buf = (replicate 32 0)[5 := 0x1000], rkey = (replicate 32 0)[5 := 7], size_gb = 2, mtype = INFO_SINGLE\<rparr>"

definition demo_parsed :: "IS_fault_injection \<Rightarrow> IS_session" where
  "demo_parsed fi = (demo_session fi)\<lparr>portal := ''rdma://1,10.0.0.1:9400'', cb_num := 1,
     portal_list := [\<lparr>port = 9400, addr = ''10.0.0.1''\<rparr>]\<rparr>"

lemma demo_parse: "portal_parser ((demo_session fi)\<lparr>portal := ''rdma://1,10.0.0.1:9400'' @
    drop (length ''rdma://1,10.0.0.1:9400'') (portal (demo_session fi))\<rparr>) = Inr (demo_parsed fi)"
  by code_simp

lemma fault_init_Some: "IS_fault_injection_init c fi \<noteq> None"
  by (simp add: IS_fault_injection_init_def init_uniform_distr_def reset_disks_None)

lemma demo_create:
  obtains s0 where "IS_session_create REP_config 2 (\<lambda>_. [10, 0, 0, 1]) True (\<lambda>_. True) ''rdma://1,10.0.0.1:9400'' (demo_session fi) = Inr (0, s0)"
    "length (cb_list s0) = 1" "cb_state_list s0 = [CB_IDLE]"
proof -
  let ?s = "session_tables REP_config (\<lambda>_. [10, 0, 0, 1]) (demo_parsed fi)"
  obtain fi' where fi: "IS_fault_injection_init REP_config (fault_injection ?s) = Some fi'" using fault_init_Some by blast
  let ?s0 = "?s\<lparr>IS_conns := map the (map (IS_create_conn (\<lambda>_. True) 1) [0..<2]), fault_injection := fi'\<rparr>"
  have n: "cb_num ?s = 1" by (simp add: session_tables_def demo_parsed_def)
  have "IS_session_create REP_config 2 (\<lambda>_. [10, 0, 0, 1]) True (\<lambda>_. True) ''rdma://1,10.0.0.1:9400'' (demo_session fi) = Inr (0, ?s0)"
    unfolding IS_session_create_def demo_parse using fi n by (auto simp: Let_def IS_create_conn_def)
  then show thesis by (rule that) (simp_all add: session_tables_def demo_parsed_def)
qed

lemma demo_granted: "granted_chunk demo_grant = Some 5"
  by code_simp

lemma first_connect_run:
  assumes inv: "session_inv c s0" and new: "placement s0 = Map.empty" and b: "0 < length (cb_list s0)" "cb_state_list s0 ! 0 = CB_IDLE"
  shows "\<exists>s cb. run (slab_allowed c) (slab_step c q) s0 [Connect 0 Obj, State 0 CONNECTED] s \<and> session_inv c s \<and>
    placement s = Map.empty \<and> server_up s 0 \<and> cb_list s ! 0 = Some cb \<and> state cb = CONNECTED"
proof -
  obtain cb where cb: "cb_list s0 ! 0 = Some cb" using inv b by (auto simp: session_inv_def server_ok_def)
  have len: "length (cb_state_list s0) = length (cb_list s0)" using inv by (simp add: session_inv_def maps_ok_def tables_ok_def)
  have at: "cb_at s0 0 = Inr cb" using cb_at_Some [OF b(1) cb] by simp
  let ?al = "slab_allowed c" and ?st = "slab_step c q"
  define cb1 where "cb1 = cb\<lparr>txdepth := int IS_QUEUE_DEPTH * int q + 1, cb_size := IS_PAGE_SIZE div NDATAS c,
    state := IDLE, remote_chunk := init_remote_chunk (remote_chunk cb), cm_id := Obj\<rparr>"
  define s1 where "s1 = set_cb_state 0 CB_CONNECTED (s0\<lparr>cb_list := (cb_list s0)[0 := Some cb1]\<rparr>)"
  define s2 where "s2 = s1\<lparr>cb_list := (cb_list s1)[0 := Some (cb1\<lparr>state := CONNECTED\<rparr>)]\<rparr>"
  have s1: "?st (Connect 0 Obj) s0 = Inr s1" "cb_list s1 ! 0 = Some cb1" "length (cb_list s1) = length (cb_list s0)"
      "cb_state_list s1 ! 0 = CB_CONNECTED" "placement s1 = placement s0"
    using b len at by (simp_all add: kernel_cb_init_def set_cb_state_def s1_def cb1_def)
  have s2: "?st (State 0 CONNECTED) s1 = Inr s2" "cb_list s2 ! 0 = Some (cb1\<lparr>state := CONNECTED\<rparr>)" "length (cb_list s2) = length (cb_list s0)"
      "cb_state_list s2 ! 0 = CB_CONNECTED" "placement s2 = placement s0"
    using b s1 cb_at_Some [of 0 s1] by (simp_all add: set_state_def upd_cb_def s2_def)
  have "run ?al ?st s0 ([] @ [Connect 0 Obj]) s1"
    by (rule run.more, rule run.start) (use b s1 in simp_all)
  then have "run ?al ?st s0 (([] @ [Connect 0 Obj]) @ [State 0 CONNECTED]) s2"
    by (rule run.more) (use b s1 s2 in simp_all)
  then have r2: "run ?al ?st s0 [Connect 0 Obj, State 0 CONNECTED] s2" by simp
  have "session_inv c s2" using slabs.run_refines [OF r2 inv] by simp
  moreover have "server_up s2 0" using b s2 by (simp add: server_up_def)
  ultimately show ?thesis using r2 s2 new by (intro exI [of _ s2] exI [of _ "cb1\<lparr>state := CONNECTED\<rparr>"]) simp
qed

lemma first_grant_run:
  assumes "session_inv c s0" "placement s0 = Map.empty" "0 < length (cb_list s0)" "cb_state_list s0 ! 0 = CB_IDLE"
    and D: "2 < DISKSIZE_G c"
  shows "\<exists>s. run (slab_allowed c) (slab_step c q) s0 [Connect 0 Obj, State 0 CONNECTED, Grant 0 demo_grant] s \<and>
    session_inv c s \<and> placement s = [2 \<mapsto> (0, 5)] \<and> server_up s 0"
proof -
  let ?al = "slab_allowed c" and ?st = "slab_step c q"
  obtain s2 cb where r2: "run ?al ?st s0 [Connect 0 Obj, State 0 CONNECTED] s2" and s2: "session_inv c s2" "placement s2 = Map.empty"
    "server_up s2 0" "cb_list s2 ! 0 = Some cb" "state cb = CONNECTED"
    using first_connect_run [OF assms(1-4)] by blast
  have al: "?al (Grant 0 demo_grant) s2" using s2 D by (simp add: demo_granted) (simp add: demo_grant_def)
  from grant_result [OF s2(1) al, of q] obtain s3 where s3: "?st (Grant 0 demo_grant) s2 = Inr s3" "session_inv c s3"
    "placement s3 = slab_effect (Grant 0 demo_grant) (placement s2)" "cb_state_list s3 ! 0 = CB_MAPPED"
    "length (cb_list s3) = length (cb_list s2)" by blast
  have "placement s3 = [2 \<mapsto> (0, 5)]" using s3(3) s2(2) by (simp add: demo_granted) (simp add: demo_grant_def)
  moreover have "server_up s3 0" using s3(4,5) s2(3) by (simp add: server_up_def)
  ultimately show ?thesis using run.more [OF r2 al s3(1)] s3(2) by auto
qed

definition idle_transport :: "unit transport" where
  "idle_transport = \<lparr>tp_send = (\<lambda>_ _ n. (0, n)), tp_recv = (\<lambda>_ n. (0, n)), tp_poll = (\<lambda>_ _. None)\<rparr>"

lemma session_inv_conns: "session_inv c (s\<lparr>IS_conns := l\<rparr>) = session_inv c s" "placement (s\<lparr>IS_conns := l\<rparr>) = placement s"
proof -
  have p: "placement (s\<lparr>IS_conns := l\<rparr>) = placement s" by (simp add: placement_def fun_eq_iff)
  have l: "linked (s\<lparr>IS_conns := l\<rparr>) = linked s" by (simp add: linked_def fun_eq_iff)
  show "placement (s\<lparr>IS_conns := l\<rparr>) = placement s" by (rule p)
  show "session_inv c (s\<lparr>IS_conns := l\<rparr>) = session_inv c s"
    by (simp add: session_inv_def maps_ok_def tables_ok_def back_ok_def l server_ok_def unmapped_def p)
qed

section \<open>Properties\<close>







end
