(* ===== verification/Connection.thy ===== *)
theory Connection
  imports Session_Runs
begin

text \<open>
  How the client connects to a server: \<open>IS_bind_client\<close>, \<open>IS_setup_qp\<close>, \<open>IS_setup_buffers\<close>, \<open>IS_connect_client\<close> and
  the two functions that compose them. The connection manager and the verbs library answer through \<open>cm_env\<close>; the objects
  they allocate are recorded in the world, so that the error paths can be checked for what they leave behind.
\<close>

record cm_env =
  create_id :: handle
  resolve_addr_ret :: int
  resolve_events :: "cma_event list"
  pd_handle :: handle
  cq_handle :: handle
  qp_ret :: int
  dma_mr_handle :: handle
  connect_ret :: int
  connect_events :: "cma_event list"

definition alloc_obj :: "nat \<Rightarrow> kobj \<Rightarrow> 'n world \<Rightarrow> 'n world" where
  "alloc_obj b k w = w\<lparr>kobjs := (kobjs w)(b := k # kobjs w b)\<rparr>"

definition free_obj :: "nat \<Rightarrow> kobj \<Rightarrow> 'n world \<Rightarrow> 'n world" where
  "free_obj b k w = w\<lparr>kobjs := (kobjs w)(b := remove1 k (kobjs w b))\<rparr>"

definition set_handle :: "nat \<Rightarrow> (kernel_cb \<Rightarrow> kernel_cb) \<Rightarrow> 'n world \<Rightarrow> 'n world" where
  "set_handle b f = upd_sess (upd_cb b f)"

text \<open>\<^verbatim>\<open>wait_event_interruptible(cb->sem, ...)\<close>: connection events arrive until the condition holds.\<close>

fun wait_state :: "is_config \<Rightarrow> 'n transport \<Rightarrow> nat \<Rightarrow> test_state \<Rightarrow> cma_event list \<Rightarrow> 'n world \<Rightarrow> 'n world res" where
  "wait_state c tr b t evs w = bindE (cb_at (sess w) (int b)) (\<lambda>cb.
     if t \<le> state cb then Inr w
     else case evs of [] \<Rightarrow> Inl Blocked
       | e # es \<Rightarrow> bindE (IS_cma_event_handler c tr b e w) (\<lambda>(_, w). wait_state c tr b t es w))"

declare wait_state.simps [simp del]

definition IS_bind_client :: "is_config \<Rightarrow> 'n transport \<Rightarrow> cm_env \<Rightarrow> nat \<Rightarrow> 'n world \<Rightarrow> (int \<times> 'n world) res" where
  "IS_bind_client c tr env b w =
     (if resolve_addr_ret env \<noteq> 0 then Inr (resolve_addr_ret env, w)
      else bindE (wait_state c tr b ROUTE_RESOLVED (resolve_events env) w) (\<lambda>w.
        bindE (cb_at (sess w) (int b)) (\<lambda>cb. Inr (if state cb \<noteq> ROUTE_RESOLVED then - EINTR else 0, w))))"

definition IS_create_qp :: "cm_env \<Rightarrow> nat \<Rightarrow> 'n world \<Rightarrow> int \<times> 'n world" where
  "IS_create_qp env b w = (qp_ret env,
     if qp_ret env = 0 then alloc_obj b K_QP (set_handle b (\<lambda>cb. cb\<lparr>qp := Obj\<rparr>) w) else w)"

definition IS_free_qp :: "nat \<Rightarrow> 'n world \<Rightarrow> 'n world" where
  "IS_free_qp b w = free_obj b K_PD (free_obj b K_CQ (free_obj b K_QP w))"

definition IS_setup_qp :: "cm_env \<Rightarrow> nat \<Rightarrow> 'n world \<Rightarrow> int \<times> 'n world" where
  "IS_setup_qp env b w =
     (let w = set_handle b (\<lambda>cb. cb\<lparr>pd := pd_handle env\<rparr>) w in
      case pd_handle env of Err e \<Rightarrow> (e, w)
      | _ \<Rightarrow>
        let w = set_handle b (\<lambda>cb. cb\<lparr>cq := cq_handle env\<rparr>) (alloc_obj b K_PD w) in
        case cq_handle env of Err e \<Rightarrow> (e, free_obj b K_PD w)
        | _ \<Rightarrow> (case IS_create_qp env b (alloc_obj b K_CQ w) of (ret, w) \<Rightarrow>
            if ret \<noteq> 0 then (ret, free_obj b K_PD (free_obj b K_CQ w)) else (0, w)))"

definition IS_setup_buffers :: "cm_env \<Rightarrow> nat \<Rightarrow> 'n world \<Rightarrow> int \<times> 'n world" where
  "IS_setup_buffers env b w =
     (let w = set_handle b (\<lambda>cb. cb\<lparr>dma_mr := dma_mr_handle env\<rparr>) (alloc_obj b K_SEND_MAP (alloc_obj b K_RECV_MAP w)) in
      case dma_mr_handle env of Err e \<Rightarrow> (e, w) | _ \<Rightarrow> (0, alloc_obj b K_DMA_MR w))"

definition IS_free_buffers :: "nat \<Rightarrow> 'n world \<Rightarrow> 'n world" where
  "IS_free_buffers b w = free_obj b K_SEND_MAP (free_obj b K_RECV_MAP (free_obj b K_DMA_MR w))"

definition IS_connect_client :: "is_config \<Rightarrow> 'n transport \<Rightarrow> cm_env \<Rightarrow> nat \<Rightarrow> 'n world \<Rightarrow> (int \<times> 'n world) res" where
  "IS_connect_client c tr env b w =
     (if connect_ret env \<noteq> 0 then Inr (connect_ret env, w)
      else bindE (wait_state c tr b CONNECTED (connect_events env) w) (\<lambda>w.
        bindE (cb_at (sess w) (int b)) (\<lambda>cb. Inr (if state cb = ERROR then - 1 else 0, w))))"

definition rdma_connect_upper :: "is_config \<Rightarrow> 'n transport \<Rightarrow> cm_env \<Rightarrow> nat \<Rightarrow> 'n world \<Rightarrow> (int \<times> 'n world) res" where
  "rdma_connect_upper c tr env b w = bindE (IS_bind_client c tr env b w) (\<lambda>(ret, w).
     if ret \<noteq> 0 then Inr (ret, w)
     else case IS_setup_qp env b w of (ret, w) \<Rightarrow>
       if ret \<noteq> 0 then Inr (ret, w)
       else case IS_setup_buffers env b w of (ret, w) \<Rightarrow>
         if ret \<noteq> 0 then Inr (ret, IS_free_qp b w) else Inr (0, w))"

definition rdma_connect_down :: "is_config \<Rightarrow> 'n transport \<Rightarrow> cm_env \<Rightarrow> nat \<Rightarrow> 'n world \<Rightarrow> (int \<times> 'n world) res" where
  "rdma_connect_down c tr env b w = (case tp_recv tr b (net w) of (ret, n) \<Rightarrow>
     let w = w\<lparr>net := n\<rparr> in
     if ret \<noteq> 0 then Inr (ret, IS_free_buffers b w)
     else bindE (IS_connect_client c tr env b w) (\<lambda>(ret, w).
       if ret \<noteq> 0 then Inr (ret, IS_free_buffers b w) else Inr (0, w)))"

section \<open>What a failed connection leaves behind\<close>

text \<open>Documented: an error pointer carries a nonzero code.\<close>

definition errors_nonzero :: "cm_env \<Rightarrow> bool" where
  "errors_nonzero env \<longleftrightarrow> pd_handle env \<noteq> Err 0 \<and> cq_handle env \<noteq> Err 0 \<and> dma_mr_handle env \<noteq> Err 0"

definition is_err :: "handle \<Rightarrow> bool" where
  "is_err h \<longleftrightarrow> (case h of Err _ \<Rightarrow> True | _ \<Rightarrow> False)"

definition qp_granted :: "cm_env \<Rightarrow> bool" where
  "qp_granted env \<longleftrightarrow> \<not> is_err (pd_handle env) \<and> \<not> is_err (cq_handle env) \<and> qp_ret env = 0"

lemma kobjs_simps [simp]:
  "kobjs (upd_sess f w) = kobjs w" "kobjs (set_handle b g w) = kobjs w"
  "kobjs (alloc_obj b k w) b = k # kobjs w b" "kobjs (free_obj b k w) b = remove1 k (kobjs w b)"
  by (simp_all add: upd_sess_def set_handle_def alloc_obj_def free_obj_def)

lemma event_kobjs: "ev \<noteq> EV_DISCONNECTED \<Longrightarrow> IS_cma_event_handler c tr b ev w = Inr (ret, w') \<Longrightarrow> kobjs w' = kobjs w"
  by (cases ev) (auto simp: IS_cma_event_handler_def)

lemma wait_kobjs:
  "EV_DISCONNECTED \<notin> set evs \<Longrightarrow> wait_state c tr b t evs w = Inr w' \<Longrightarrow> kobjs w' = kobjs w"
proof (induction evs arbitrary: w)
  case Nil
  then show ?case by (subst (asm) wait_state.simps) (auto simp: bindE_Inr split: if_splits)
next
  case (Cons e es)
  from Cons.prems(2) consider (held) "w' = w" | (event) ret w1 where "IS_cma_event_handler c tr b e w = Inr (ret, w1)" "wait_state c tr b t es w1 = Inr w'"
    by (subst (asm) wait_state.simps) (auto simp: bindE_Inr split: if_splits)
  then show ?case
  proof cases
    case event
    then show ?thesis using Cons event_kobjs [of e c tr b w ret w1] by auto
  qed simp
qed

lemma bind_client_kobjs:
  "EV_DISCONNECTED \<notin> set (resolve_events env) \<Longrightarrow> IS_bind_client c tr env b w = Inr (ret, w') \<Longrightarrow> kobjs w' = kobjs w"
  by (auto simp: IS_bind_client_def bindE_Inr split: if_splits dest: wait_kobjs)

section \<open>A sample failure\<close>

text \<open>A client whose address and route are resolved, and a device that cannot register memory.\<close>

definition resolved_world :: "unit world" where
  "resolved_world = \<lparr>sess = (demo_session demo_injector)\<lparr>cb_list := [Some (zero_cb\<lparr>state := ROUTE_RESOLVED\<rparr>)], cb_state_list := [CB_IDLE]\<rparr>,
     reqs = Map.empty, cnts = [], kobjs = (\<lambda>_. []), net = ()\<rparr>"

definition no_mr_env :: cm_env where
  "no_mr_env = \<lparr>create_id = Obj, resolve_addr_ret = 0, resolve_events = [], pd_handle = Obj, cq_handle = Obj, qp_ret = 0,
     dma_mr_handle = Err (- ENOMEM), connect_ret = 0, connect_events = []\<rparr>"

lemma resolved_cb: "cb_at (sess resolved_world) 0 = Inr (zero_cb\<lparr>state := ROUTE_RESOLVED\<rparr>)"
  by (simp add: cb_at_def resolved_world_def aload_def)

lemma resolved_wait: "wait_state c tr 0 ROUTE_RESOLVED evs resolved_world = Inr resolved_world"
  by (subst wait_state.simps) (simp add: resolved_cb)

lemma no_mr_run: "\<exists>w'. rdma_connect_upper c tr no_mr_env 0 resolved_world = Inr (- ENOMEM, w')"
  by (simp add: rdma_connect_upper_def IS_bind_client_def no_mr_env_def resolved_wait resolved_cb IS_setup_qp_def IS_create_qp_def
    IS_setup_buffers_def Let_def ENOMEM_def)

section \<open>Properties\<close>

text \<open>C28: A successful \<open>rdma_connect_upper\<close> has allocated exactly one protection domain, completion queue, queue pair, memory region and the
  two DMA mappings. A failed one has released everything it had allocated, except when the memory region could not be
  registered: then the two DMA mappings of \<open>IS_setup_buffers\<close> stay mapped.\<close>

theorem connect_upper_objects:
  assumes "rdma_connect_upper c tr env b w = Inr (ret, w')" "errors_nonzero env" "EV_DISCONNECTED \<notin> set (resolve_events env)"
  shows "\<exists>r1 w1. IS_bind_client c tr env b w = Inr (r1, w1) \<and>
    kobjs w' b = (if ret = 0 then [K_DMA_MR, K_SEND_MAP, K_RECV_MAP, K_QP, K_CQ, K_PD]
      else if r1 = 0 \<and> qp_granted env then [K_SEND_MAP, K_RECV_MAP] else []) @ kobjs w b"
proof -
  obtain r1 w1 where bind: "IS_bind_client c tr env b w = Inr (r1, w1)"
    using assms(1) by (auto simp: rdma_connect_upper_def bindE_Inr)
  have k: "kobjs w1 = kobjs w" by (rule bind_client_kobjs [OF assms(3) bind])
  have "kobjs w' b = (if ret = 0 then [K_DMA_MR, K_SEND_MAP, K_RECV_MAP, K_QP, K_CQ, K_PD]
      else if r1 = 0 \<and> qp_granted env then [K_SEND_MAP, K_RECV_MAP] else []) @ kobjs w b"
    using assms(1,2) bind k
    by (cases "pd_handle env"; cases "cq_handle env"; cases "dma_mr_handle env")
      (auto simp: rdma_connect_upper_def errors_nonzero_def qp_granted_def is_err_def IS_setup_qp_def IS_create_qp_def IS_setup_buffers_def
        IS_free_qp_def Let_def split: if_splits)
  with bind show ?thesis by blast
qed

theorem connect_upper_objects_witness:
  "\<exists>w'. rdma_connect_upper REP_config idle_transport no_mr_env 0 resolved_world = Inr (- ENOMEM, w') \<and> kobjs w' 0 = [K_SEND_MAP, K_RECV_MAP]"
proof -
  obtain w' where run: "rdma_connect_upper REP_config idle_transport no_mr_env 0 resolved_world = Inr (- ENOMEM, w')"
    using no_mr_run by blast
  from connect_upper_objects [OF run] obtain r1 w1 where
    b: "IS_bind_client REP_config idle_transport no_mr_env 0 resolved_world = Inr (r1, w1)"
    "kobjs w' 0 = (if - ENOMEM = 0 then [K_DMA_MR, K_SEND_MAP, K_RECV_MAP, K_QP, K_CQ, K_PD]
      else if r1 = 0 \<and> qp_granted no_mr_env then [K_SEND_MAP, K_RECV_MAP] else []) @ kobjs resolved_world 0"
    by (auto simp: errors_nonzero_def no_mr_env_def ENOMEM_def)
  have "r1 = 0" using b(1) by (simp add: IS_bind_client_def no_mr_env_def resolved_wait resolved_cb)
  with b run show ?thesis by (simp add: ENOMEM_def qp_granted_def is_err_def no_mr_env_def resolved_world_def)
qed

end
