(* ===== verification/Selection.thy ===== *)
theory Selection
  imports Prelude "HOL-Library.While_Combinator" "HOL-Library.Multiset"
begin

text \<open>
  Two loops that both the client (\<open>IS_single_chunk_map\<close>) and the monitor (\<open>evict_mem\<close>) contain:
  circular probing for an admissible index, and exchange sort of the first places of an array.
\<close>

section \<open>Circular probing\<close>

text \<open>\<^verbatim>\<open>while (bad(r)) { r += 1; r %= n; }\<close>, with \<open>None\<close> for a loop that never ends.\<close>

definition probe :: "nat \<Rightarrow> (nat \<Rightarrow> bool) \<Rightarrow> nat \<Rightarrow> nat option" where
  "probe n bad r = while_option bad (\<lambda>r. (r + 1) mod n) r"

lemma probe_Some:
  assumes "r < n" "g < n" "\<not> bad g"
  shows "\<exists>r'. probe n bad r = Some r' \<and> r' < n \<and> \<not> bad r'"
proof -
  let ?dist = "\<lambda>r. if r \<le> g then g - r else g + n - r"
  have "\<exists>r'. while_option bad (\<lambda>r. (r + 1) mod n) r = Some r'"
  proof (rule measure_while_option_Some [where P = "\<lambda>r. r < n" and f = ?dist])
    fix s assume s: "s < n" "bad s"
    then have "s \<noteq> g" using assms(3) by auto
    with s assms(2) show "(s + 1) mod n < n \<and> ?dist ((s + 1) mod n) < ?dist s"
      by (cases "s + 1 = n") auto
  qed (rule assms(1))
  then obtain r' where r': "while_option bad (\<lambda>r. (r + 1) mod n) r = Some r'" by blast
  have "r' < n"
    by (rule while_option_rule [where P = "\<lambda>r. r < n", OF _ r' assms(1)]) (use assms(2) in auto)
  moreover have "\<not> bad r'" using while_option_stop [OF r'] .
  ultimately show ?thesis using r' by (auto simp: probe_def)
qed

lemma probe_None:
  assumes "r < n" "\<And>g. g < n \<Longrightarrow> bad g"
  shows "probe n bad r = None"
proof (cases "probe n bad r")
  case (Some r')
  then have w: "while_option bad (\<lambda>r. (r + 1) mod n) r = Some r'" by (simp add: probe_def)
  have "r' < n"
    by (rule while_option_rule [where P = "\<lambda>r. r < n", OF _ w assms(1)]) auto
  then have "bad r'" by (rule assms(2))
  with while_option_stop [OF w] show ?thesis by simp
qed

text \<open>Probing repeatedly and marking what was found picks distinct admissible indices.\<close>

fun probe_many :: "nat \<Rightarrow> (nat \<Rightarrow> bool) \<Rightarrow> nat list \<Rightarrow> nat list \<Rightarrow> nat list option" where
  "probe_many n bad [] sel = Some sel"
| "probe_many n bad (x # xs) sel =
     (case probe n (\<lambda>r. bad r \<or> r \<in> set sel) (x mod n) of
        None \<Rightarrow> None
      | Some r \<Rightarrow> probe_many n bad xs (sel @ [r]))"

lemma probe_many_Some:
  assumes "length sel + length xs \<le> card {r. r < n \<and> \<not> bad r}" "distinct sel"
    and "\<forall>r\<in>set sel. r < n \<and> \<not> bad r"
  shows "\<exists>sel'. probe_many n bad xs sel = Some sel' \<and> distinct sel' \<and> length sel' = length sel + length xs \<and>
    (\<forall>r\<in>set sel'. r < n \<and> \<not> bad r)"
  using assms
proof (induction xs arbitrary: sel)
  case (Cons x xs)
  let ?G = "{r. r < n \<and> \<not> bad r}"
  have "card (set sel) < card ?G" using Cons.prems distinct_card [of sel] by simp
  then have "\<not> ?G \<subseteq> set sel" using card_mono [of "set sel" ?G] by auto
  then obtain g where g: "g < n" "\<not> (bad g \<or> g \<in> set sel)" by auto
  then have "x mod n < n" by simp
  from probe_Some [where bad = "\<lambda>r. bad r \<or> r \<in> set sel", OF this g] obtain r where r: "probe n (\<lambda>r. bad r \<or> r \<in> set sel) (x mod n) = Some r"
    "r < n" "\<not> (bad r \<or> r \<in> set sel)" by blast
  have "\<exists>sel'. probe_many n bad xs (sel @ [r]) = Some sel' \<and> distinct sel' \<and>
      length sel' = length (sel @ [r]) + length xs \<and> (\<forall>r\<in>set sel'. r < n \<and> \<not> bad r)"
    by (rule Cons.IH) (use Cons.prems r in auto)
  with r(1) show ?case by auto
qed auto

section \<open>Exchange sort of a prefix\<close>

definition swap :: "nat \<Rightarrow> nat \<Rightarrow> 'a list \<Rightarrow> 'a list" where
  "swap i j xs = xs[i := xs ! j, j := xs ! i]"

definition exchange :: "('a \<Rightarrow> 'a \<Rightarrow> bool) \<Rightarrow> nat \<Rightarrow> nat \<Rightarrow> 'a list \<Rightarrow> 'a list" where
  "exchange before i j xs = (if before (xs ! j) (xs ! i) then swap i j xs else xs)"

definition settle :: "('a \<Rightarrow> 'a \<Rightarrow> bool) \<Rightarrow> nat \<Rightarrow> nat \<Rightarrow> 'a list \<Rightarrow> 'a list" where
  "settle before k i xs = fold (\<lambda>j. exchange before i j) [i + 1..<k] xs"

definition exchange_sort :: "('a \<Rightarrow> 'a \<Rightarrow> bool) \<Rightarrow> nat \<Rightarrow> nat \<Rightarrow> 'a list \<Rightarrow> 'a list" where
  "exchange_sort before n k xs = fold (settle before k) [0..<n] xs"

lemma length_swap [simp]: "length (swap i j xs) = length xs"
  by (simp add: swap_def)

lemma length_exchange [simp]: "length (exchange before i j xs) = length xs"
  by (simp add: exchange_def)

lemma length_settle [simp]: "length (settle before k i xs) = length xs"
  unfolding settle_def by (rule fold_inv) auto

lemma mset_exchange: "i < length xs \<Longrightarrow> j < length xs \<Longrightarrow> mset (exchange before i j xs) = mset xs"
  by (simp add: exchange_def swap_def mset_swap)

text \<open>
  The contract of a selection order: a strict order in which \<open>a\<close> may come first unless something is
  strictly before it.
\<close>

locale selection_order =
  fixes before :: "'a \<Rightarrow> 'a \<Rightarrow> bool"
  assumes irrefl: "\<not> before a a"
    and trans_not: "\<not> before b a \<Longrightarrow> \<not> before c b \<Longrightarrow> \<not> before c a"
    and before_not: "before a b \<Longrightarrow> \<not> before b a"
begin

definition settled :: "nat \<Rightarrow> nat \<Rightarrow> 'a list \<Rightarrow> bool" where
  "settled n k xs \<longleftrightarrow> (\<forall>i<n. \<forall>j. i < j \<and> j < k \<longrightarrow> \<not> before (xs ! j) (xs ! i))"

lemma settle_inv:
  assumes i: "i < k" "k \<le> length xs" and s: "settled i k xs"
  shows "settled (Suc i) k (settle before k i xs) \<and> mset (settle before k i xs) = mset xs \<and>
    (\<forall>p. p < i \<or> k \<le> p \<longrightarrow> settle before k i xs ! p = xs ! p)"
proof -
  let ?P = "\<lambda>j ys. length ys = length xs \<and> mset ys = mset xs \<and> settled i k ys \<and>
    (\<forall>p. p < i \<or> k \<le> p \<longrightarrow> ys ! p = xs ! p) \<and> (\<forall>q. i < q \<and> q < j \<longrightarrow> \<not> before (ys ! q) (ys ! i))"
  have "?P k (settle before k i xs)"
    unfolding settle_def
  proof (rule fold_from_inv [where P = ?P])
    show "?P (i + 1) xs" using s by auto
    fix j ys assume j: "i + 1 \<le> j" "j < k" and P: "?P j ys"
    show "?P (Suc j) (exchange before i j ys)"
    proof (cases "before (ys ! j) (ys ! i)")
      case False
      with P j show ?thesis by (auto simp: exchange_def less_Suc_eq)
    next
      case True
      let ?zs = "swap i j ys"
      have z: "?zs ! p = (if p = i then ys ! j else if p = j then ys ! i else ys ! p)" for p
        using P i j by (auto simp: swap_def nth_list_update)
      have "mset ?zs = mset xs" using P i j by (simp add: swap_def mset_swap)
      moreover have "settled i k ?zs"
        unfolding settled_def z using P i j by (auto simp: settled_def)
      moreover have "\<not> before (?zs ! q) (?zs ! i)" if "i < q \<and> q < Suc j" for q
      proof (cases "q = j")
        case True
        with that show ?thesis using before_not [OF \<open>before (ys ! j) (ys ! i)\<close>] by (simp add: z)
      next
        case False
        with that P have "\<not> before (ys ! q) (ys ! i)" by auto
        with before_not [OF True] have "\<not> before (ys ! q) (ys ! j)" using trans_not by blast
        with False that show ?thesis by (simp add: z)
      qed
      ultimately show ?thesis using P True i j by (auto simp: exchange_def z)
    qed
  qed (use i in simp)
  then show ?thesis by (auto simp: settled_def less_Suc_eq)
qed

lemma exchange_sort_inv:
  assumes "n \<le> k" "k \<le> length xs"
  shows "settled n k (exchange_sort before n k xs) \<and> mset (exchange_sort before n k xs) = mset xs \<and>
    length (exchange_sort before n k xs) = length xs"
proof -
  let ?P = "\<lambda>i ys. settled i k ys \<and> mset ys = mset xs \<and> length ys = length xs"
  show ?thesis
    unfolding exchange_sort_def
  proof (rule fold_upto_inv [where P = ?P])
    fix i ys assume i: "i < n" and P: "?P i ys"
    show "?P (Suc i) (settle before k i ys)"
      using settle_inv [of i k ys] P i assms by auto
  qed (simp add: settled_def)
qed

end

text \<open>The two orders in use: smallest activity first, largest free memory first.\<close>

interpretation by_key_up: selection_order "\<lambda>a b. key a < key b" for key :: "'a \<Rightarrow> 'b::linorder"
  by unfold_locales auto

interpretation by_key_down: selection_order "\<lambda>a b. key b < key a" for key :: "'a \<Rightarrow> 'b::linorder"
  by unfold_locales auto

end
