(* ===== verification/Placement.thy ===== *)
theory Placement
  imports Connection Selection
begin

text \<open>
  Where slabs go: \<open>IS_single_chunk_map\<close> chooses servers, asks them for their free memory, sorts the answers and binds one
  chunk on each of the \<open>NDISKS\<close> servers with most memory; \<open>rdma_trigger\<close> does so for every group of slabs; \<open>evict_handler\<close> gives
  chunks back when a server asks and maps the slabs again.
\<close>

section \<open>Sorting by free memory\<close>

text \<open>
  The exchange of two entries by additions and subtractions, on the array of sizes and the array of servers alike.
\<close>

definition add_sub_swap :: "nat \<Rightarrow> nat \<Rightarrow> int list \<Rightarrow> int list" where
  "add_sub_swap i j xs =
     (let xs = xs[i := xs ! i + xs ! j]; xs = xs[j := xs ! i - xs ! j] in xs[i := xs ! i - xs ! j])"

definition sort_free_mem :: "nat \<Rightarrow> nat \<Rightarrow> int list \<times> int list \<Rightarrow> int list \<times> int list" where
  "sort_free_mem n k = fold (\<lambda>i. fold (\<lambda>j (fm, srt).
     if fm ! i < fm ! j then (add_sub_swap i j fm, add_sub_swap i j srt) else (fm, srt)) [i + 1..<k]) [0..<n]"

section \<open>Mapping a group of slabs\<close>

record map_env =
  rnd :: "nat \<Rightarrow> nat"
  cm :: "nat \<Rightarrow> cm_env"
  ctx_alloc :: "nat \<Rightarrow> bool"

definition select_servers :: "is_config \<Rightarrow> (nat \<Rightarrow> nat) \<Rightarrow> IS_session \<Rightarrow> nat list option" where
  "select_servers c rn s =
     (let n = nat (cb_num s); bad = (\<lambda>i. CB_EVICTING \<le> cb_state_list s ! i);
          avail_cb = length (filter (\<lambda>i. \<not> bad i) [0..<n])
      in if avail_cb \<le> SERVER_SELECT_NUM c then Some (filter (\<lambda>i. cb_state_list s ! i < CB_EVICTING) [0..<n])
         else probe_many n bad (map rn [0..<SERVER_SELECT_NUM c]) [])"

definition IS_ctx_dma_setup :: "(nat \<Rightarrow> bool) \<Rightarrow> nat \<Rightarrow> 'n world \<Rightarrow> 'n world res" where
  "IS_ctx_dma_setup alloc b w = bindE (cb_at (sess w) (int b)) (\<lambda>cb.
     foldE (\<lambda>i w. bindE (pool_at w i (int b)) (\<lambda>_. case IS_ctx_init alloc (cb_size cb) of (_, pool, f) \<Rightarrow>
         Inr (upd_pool i b (\<lambda>pl. pl\<lparr>ctx_pool := pool, free_ctxs := Some f\<rparr>) w)))
       [0..<length (IS_conns (sess w))] w)"

text \<open>A server is asked for its free memory, after it has been connected where it was idle. All results are ignored.\<close>

definition query_server :: "is_config \<Rightarrow> 'n transport \<Rightarrow> map_env \<Rightarrow> nat \<times> nat \<Rightarrow> int list \<times> int list \<times> 'n world \<Rightarrow>
    (int list \<times> int list \<times> 'n world) res" where
  "query_server c tr env = (\<lambda>(i, b) (fm, srt, w).
     if cb_state_list (sess w) ! b = CB_FAIL then Inr (fm, srt, w)
     else bindE
       (if CB_IDLE < cb_state_list (sess w) ! b
        then bindE (IS_send_query c tr b w) (\<lambda>(_, w). bindE (rdma_cq_event_handler c tr b w) (\<lambda>w.
          Inr (upd_sess (set_state b AFTER_FREE_MEM) w)))
        else bindE (kernel_cb_init c (length (IS_conns (sess w))) (create_id (cm env b)) b (sess w)) (\<lambda>(_, s).
          bindE (rdma_connect_upper c tr (cm env b) b (w\<lparr>sess := s\<rparr>)) (\<lambda>(_, w).
          bindE (rdma_connect_down c tr (cm env b) b w) (\<lambda>(_, w).
          bindE (rdma_cq_event_handler c tr b w) (\<lambda>w.
          Inr (upd_sess (set_cb_state b CB_CONNECTED) (upd_sess (set_state b AFTER_FREE_MEM) w)))))))
       (\<lambda>w. bindE (cb_at (sess w) (int b)) (\<lambda>cb.
          Inr (fm[i := target_size_g (remote_chunk cb)], srt[i := int b], w))))"

definition bind_server :: "is_config \<Rightarrow> 'n transport \<Rightarrow> map_env \<Rightarrow> nat \<Rightarrow> int list \<Rightarrow> nat \<Rightarrow> 'n world \<Rightarrow> 'n world res" where
  "bind_server c tr env need_chunk srt i w = bindE (cb_at (sess w) (srt ! i)) (\<lambda>_.
     let b = nat (srt ! i) in
     bindE (if cb_state_list (sess w) ! b = CB_CONNECTED
            then bindE (IS_ctx_dma_setup (ctx_alloc env) b (upd_sess (\<lambda>s. s\<lparr>mapped_cb_num := mapped_cb_num s + 1\<rparr>) w))
                   (\<lambda>w. Inr (upd_sess (upd_rc b (\<lambda>r. r\<lparr>evict_thread := True\<rparr>)) w))
            else Inr w) (\<lambda>w.
     bindE (IS_send_bind_single c tr b (int need_chunk + int i) w) (\<lambda>(_, w).
     rdma_cq_event_handler c tr b w)))"

definition IS_single_chunk_map :: "is_config \<Rightarrow> 'n transport \<Rightarrow> map_env \<Rightarrow> nat \<Rightarrow> 'n world \<Rightarrow> (int \<times> 'n world) res" where
  "IS_single_chunk_map c tr env select_chunk w = (case select_servers c (rnd env) (sess w) of
       None \<Rightarrow> Inl Blocked
     | Some sel \<Rightarrow>
         if length sel < NDISKS c then Inr (- 1, w)
         else bindE (foldE (query_server c tr env) (enumerate 0 sel)
             (replicate (SERVER_SELECT_NUM c) (- 1), replicate (SERVER_SELECT_NUM c) (cb_num (sess w)), w)) (\<lambda>(fm, srt, w).
           case sort_free_mem (NDISKS c) (length sel) (fm, srt) of (fm, srt) \<Rightarrow>
           if fm ! (NDISKS c - 1) = 0 then Inr (- 1, w)
           else bindE (foldE (bind_server c tr env select_chunk srt) [0..<NDISKS c] w) (\<lambda>w. Inr (0, w))))"

text \<open>
  \<^verbatim>\<open>while (IS_single_chunk_map(IS_sess, i));\<close> with the answers of the environment to each attempt; a list that runs out is a loop
  that goes on.
\<close>

fun map_until :: "is_config \<Rightarrow> 'n transport \<Rightarrow> map_env list \<Rightarrow> nat \<Rightarrow> 'n world \<Rightarrow> (map_env list \<times> 'n world) res" where
  "map_until c tr [] i w = Inl Blocked"
| "map_until c tr (env # envs) i w = bindE (IS_single_chunk_map c tr env i w) (\<lambda>(ret, w).
     if ret \<noteq> 0 then map_until c tr envs i w else Inr (envs, w))"

definition rdma_trigger :: "is_config \<Rightarrow> 'n transport \<Rightarrow> map_env list \<Rightarrow> 'n world \<Rightarrow> 'n world res" where
  "rdma_trigger c tr envs w = bindE (foldE (\<lambda>i (envs, w). map_until c tr envs i w)
     (filter (\<lambda>i. i mod NDISKS c = 0) [0..<DISKSIZE_G c]) (envs, w)) (\<lambda>(_, w). Inr w)"

section \<open>Eviction\<close>

text \<open>
  The chunks marked by the server are taken off the slab tables. A mark on a chunk that is not mapped writes
  before the start of the table.
\<close>

definition stop_step :: "nat \<Rightarrow> nat \<Rightarrow> int list \<times> IS_session \<Rightarrow> (int list \<times> IS_session) res" where
  "stop_step b i = (\<lambda>(ev, s). bindE (cb_at s (int b)) (\<lambda>cb.
     if evict_chunk_map (remote_chunk cb) ! i = CHR ''s''
     then let slab = cmap cb ! i in
       bindE (astore (cb_index_map s) slab NO_CB_MAPPED) (\<lambda>cim. bindE (astore ev slab 1) (\<lambda>ev.
       Inr (ev, upd_cb b (\<lambda>cb. cb\<lparr>send_buf := (send_buf cb)\<lparr>rkey := (rkey (send_buf cb))[i := 1]\<rparr>,
           remote_chunk := (remote_chunk cb)\<lparr>chunk_map := (cmap cb)[i := - 1]\<rparr>\<rparr>) (s\<lparr>cb_index_map := cim\<rparr>))))
     else Inr (ev, upd_cb b (\<lambda>cb. cb\<lparr>send_buf := (send_buf cb)\<lparr>rkey := (rkey (send_buf cb))[i := 0]\<rparr>\<rparr>) s)))"

definition unmap_stopped :: "nat \<Rightarrow> IS_session \<Rightarrow> IS_session" where
  "unmap_stopped b = upd_rc b (\<lambda>r. r\<lparr>remote_mapped := map (\<lambda>i. if evict_chunk_map r ! i = CHR ''s'' then CHUNK_UNMAPPED
     else remote_mapped r ! i) [0..<MAX_MR_SIZE_GB]\<rparr>)"

text \<open>
  \<open>IS_chunk_wait_in_flight_requests\<close> returns when no request in flight is on a chunk that is being taken away;
  nothing else runs meanwhile here, so that a request in flight on such a chunk is waited for in vain. A context
  without a chunk reads before the start of the table.
\<close>

definition wait_ctx :: "nat \<Rightarrow> ctx_addr \<Rightarrow> 'n world \<Rightarrow> 'n world res" where
  "wait_ctx b a w = bindE (ctx_at w a) (\<lambda>x. bindE (cb_at (sess w) (int b)) (\<lambda>cb.
     if ctx_in_flight x = CTX_R_IN_FLIGHT \<or> ctx_in_flight x = CTX_W_IN_FLIGHT
     then bindE (aload (cmap cb) (ctx_chunk_index x)) (\<lambda>v. if v = - 1 then Inl Blocked else Inr w)
     else Inr w))"

definition IS_chunk_wait_in_flight_requests :: "nat \<Rightarrow> 'n world \<Rightarrow> 'n world res" where
  "IS_chunk_wait_in_flight_requests b w = foldE (wait_ctx b)
     (concat (map (\<lambda>i. map (\<lambda>j. (i, b, j)) [0..<IS_QUEUE_DEPTH]) [0..<length (IS_conns (sess w))])) w"

definition remap_slab :: "is_config \<Rightarrow> 'n transport \<Rightarrow> (nat \<Rightarrow> map_env) \<Rightarrow> int list \<Rightarrow> nat \<Rightarrow> 'n world \<Rightarrow> 'n world res" where
  "remap_slab c tr envs ev i w = (if ev ! i = 1
     then bindE (on_sess (\<lambda>s. bindE (astore (chunk_map_cb_chunk s) (int i) (- 1)) (\<lambda>mcc.
            bindE (astore (unmapped_chunk_list s) (free_chunk_index s + 1) (int i)) (\<lambda>ul.
            Inr (s\<lparr>chunk_map_cb_chunk := mcc, unmapped_chunk_list := ul, free_chunk_index := free_chunk_index s + 1\<rparr>)))) w) (\<lambda>w.
          bindE (IS_single_chunk_map c tr (envs i) i w) (\<lambda>(_, w). Inr w))
     else Inr w)"

text \<open>
  One round of \<open>evict_handler\<close>, from the moment its thread sees \<open>C_EVICT\<close>; \<open>poll\<close> is what the other threads do until
  \<open>C_STOP\<close> is set.
\<close>

definition evict_handler_round :: "is_config \<Rightarrow> 'n transport \<Rightarrow> (nat \<Rightarrow> map_env) \<Rightarrow> ('n world \<Rightarrow> 'n world res) \<Rightarrow> nat \<Rightarrow> 'n world \<Rightarrow> 'n world res" where
  "evict_handler_round c tr envs poll b w =
     bindE (IS_send_activity c tr b w) (\<lambda>(_, w). bindE (poll w) (\<lambda>w. bindE (cb_at (sess w) (int b)) (\<lambda>cb.
     let size_g = shrink_size_g (remote_chunk cb); ready = upd_sess (upd_rc b (\<lambda>r. r\<lparr>c_state := C_READY\<rparr>)) in
     if c_state (remote_chunk cb) \<noteq> C_STOP then Inl Blocked
     else if size_g = 0 then Inr (ready w)
     else bindE (foldE (stop_step b) [0..<MAX_MR_SIZE_GB] (replicate (DISKSIZE_G c) (- 1), sess w)) (\<lambda>(ev, s).
       bindE (IS_chunk_wait_in_flight_requests b (w\<lparr>sess := s\<rparr>)) (\<lambda>w.
       let w = upd_sess (\<lambda>s. upd_rc b (\<lambda>r. r\<lparr>chunk_size_g := chunk_size_g r - size_g, shrink_size_g := 0\<rparr>)
             ((unmap_stopped b s)\<lparr>mapped_cb_num := mapped_cb_num s - size_g\<rparr>)) w in
       bindE (IS_send_done c tr b size_g w) (\<lambda>(_, w).
       bindE (foldE (remap_slab c tr envs ev) [0..<DISKSIZE_G c] (upd_sess (set_cb_state b CB_EVICTING) (ready w))) (\<lambda>w.
       Inr (upd_sess (set_cb_state b CB_MAPPED) w))))))))"

section \<open>The sort puts the largest servers first\<close>

lemma add_sub_swap_eq: "i \<noteq> j \<Longrightarrow> i < length xs \<Longrightarrow> j < length xs \<Longrightarrow> add_sub_swap i j xs = swap i j xs"
  by (rule nth_equalityI) (auto simp: add_sub_swap_def swap_def Let_def nth_list_update)

definition unzip :: "('a \<times> 'b) list \<Rightarrow> 'a list \<times> 'b list" where
  "unzip ps = (map fst ps, map snd ps)"

lemma unzip_swap: "i < length ps \<Longrightarrow> j < length ps \<Longrightarrow> unzip (swap i j ps) = (swap i j (map fst ps), swap i j (map snd ps))"
  by (simp add: unzip_def swap_def map_update)

abbreviation larger :: "int \<times> int \<Rightarrow> int \<times> int \<Rightarrow> bool" where
  "larger a b \<equiv> fst b < fst a"

text \<open>On the two arrays taken together, the loops are an exchange sort by size.\<close>

lemma sort_step_exchange:
  assumes "i \<noteq> j" "i < length ps" "j < length ps"
  shows "(\<lambda>(fm, srt). if fm ! i < fm ! j then (add_sub_swap i j fm, add_sub_swap i j srt) else (fm, srt)) (unzip ps) =
    unzip (exchange larger i j ps)"
proof -
  have "add_sub_swap i j (map fst ps) = swap i j (map fst ps)" "add_sub_swap i j (map snd ps) = swap i j (map snd ps)"
    using assms by (simp_all add: add_sub_swap_eq)
  with assms show ?thesis by (simp add: exchange_def unzip_swap) (simp add: unzip_def)
qed

lemma fold_unzip:
  assumes "\<And>x ps. x \<in> set xs \<Longrightarrow> length ps = n \<Longrightarrow> f x (unzip ps) = unzip (g x ps) \<and> length (g x ps) = n" "length ps = n"
  shows "fold f xs (unzip ps) = unzip (fold g xs ps) \<and> length (fold g xs ps) = n"
  using assms by (induction xs arbitrary: ps) auto

lemma sort_free_mem_exchange:
  assumes "n \<le> k" "k \<le> length ps"
  shows "sort_free_mem n k (unzip ps) = unzip (exchange_sort larger n k ps)"
proof -
  have inner: "fold (\<lambda>j (fm, srt). if fm ! i < fm ! j then (add_sub_swap i j fm, add_sub_swap i j srt) else (fm, srt)) [i + 1..<k] (unzip qs) =
      unzip (settle larger k i qs) \<and> length (settle larger k i qs) = length ps"
    if "i < n" "length qs = length ps" for i qs
    unfolding settle_def
    by (rule fold_unzip) (use that assms sort_step_exchange in auto)
  show ?thesis
    unfolding sort_free_mem_def exchange_sort_def
    by (rule fold_unzip [where n = "length ps", THEN conjunct1]) (use inner in auto)
qed

section \<open>Selection of servers\<close>

lemma select_servers_ok:
  fixes s :: IS_session
  defines "n \<equiv> nat (cb_num s)"
  defines "up \<equiv> {i. i < n \<and> cb_state_list s ! i < CB_EVICTING}"
  shows "\<exists>sel. select_servers c rn s = Some sel \<and> distinct sel \<and> set sel \<subseteq> up \<and> length sel = min (card up) (SERVER_SELECT_NUM c)"
proof -
  let ?bad = "\<lambda>i. CB_EVICTING \<le> cb_state_list s ! i"
  have len: "length (filter (\<lambda>i. \<not> ?bad i) [0..<n]) = card up"
    by (subst distinct_card [symmetric]) (auto simp: up_def not_le intro!: arg_cong [where f = card])
  have eq: "filter (\<lambda>i. cb_state_list s ! i < CB_EVICTING) [0..<n] = filter (\<lambda>i. \<not> ?bad i) [0..<n]"
    by (simp add: not_le)
  show ?thesis
  proof (cases "card up \<le> SERVER_SELECT_NUM c")
    case True
    then have "select_servers c rn s = Some (filter (\<lambda>i. \<not> ?bad i) [0..<n])"
      using len by (simp add: select_servers_def Let_def n_def [symmetric] eq)
    then show ?thesis using len True by (auto simp: up_def)
  next
    case False
    have "up = {r. r < n \<and> \<not> ?bad r}" by (auto simp: up_def)
    with False have "length ([] :: nat list) + length (map rn [0..<SERVER_SELECT_NUM c]) \<le> card {r. r < n \<and> \<not> ?bad r}" by simp
    from probe_many_Some [OF this] obtain sel where
      "probe_many n ?bad (map rn [0..<SERVER_SELECT_NUM c]) [] = Some sel" "distinct sel"
      "length sel = SERVER_SELECT_NUM c" "\<forall>r\<in>set sel. r < n \<and> \<not> ?bad r" by auto
    with False len show ?thesis by (auto simp: select_servers_def Let_def n_def [symmetric] up_def not_le)
  qed
qed

section \<open>Properties\<close>

text \<open>C24: Sorting by additions and subtractions keeps every size with its server and puts the \<open>NDISKS\<close> servers with the most
  free memory first, in descending order.\<close>

theorem sort_free_mem_correct:
  assumes "n \<le> k" "k \<le> length fm" "length srt = length fm" "sort_free_mem n k (fm, srt) = (fm', srt')"
  shows "mset (zip fm' srt') = mset (zip fm srt) \<and> (\<forall>i<n. \<forall>j. i < j \<and> j < k \<longrightarrow> fm' ! j \<le> fm' ! i)"
proof -
  let ?ps = "exchange_sort larger n k (zip fm srt)"
  have uz: "unzip (zip fm srt) = (fm, srt)" using assms(3) by (simp add: unzip_def)
  have "(fm', srt') = unzip ?ps"
    using sort_free_mem_exchange [of n k "zip fm srt"] assms uz by simp
  then have f: "fm' = map fst ?ps" "srt' = map snd ?ps" by (simp_all add: unzip_def)
  note sorted = by_key_down.exchange_sort_inv [of n k "zip fm srt" fst, unfolded by_key_down.settled_def]
  have "zip fm' srt' = ?ps" by (simp add: f zip_map_fst_snd)
  moreover have "fm' ! j \<le> fm' ! i" if "i < n" "i < j" "j < k" for i j
    using sorted that assms(1,2,3) by (auto simp: f not_less)
  ultimately show ?thesis using sorted assms(1,2,3) by simp
qed

theorem sort_free_mem_correct_witness:
  "sort_free_mem 3 4 ([5, 9, 2, 7], [0, 1, 2, 3]) = ([9, 7, 5, 2], [1, 3, 0, 2]) \<and>
   mset (zip [9, 7, 5, 2] [1, 3, 0, 2]) = mset (zip [5, 9, 2, 7 :: int] [0, 1, 2, 3 :: int])"
proof -
  have run: "sort_free_mem 3 4 ([5, 9, 2, 7], [0, 1, 2, 3]) = ([9, 7, 5, 2], [1, 3, 0, 2])" by code_simp
  with sort_free_mem_correct [OF _ _ _ run] show ?thesis by simp
qed


end
