(* ===== verification/Monitor.thy ===== *)
theory Monitor
  imports Messages Selection Text_Scan
begin

text \<open>
  The resource monitor, \<^verbatim>\<open>resource_monitor/rdma-common.c\<close>: the session that lends 1 GB chunks of
  local memory to its clients. Connections are objects on a heap, addressed by the connection
  identifier they hang on (\<^verbatim>\<open>id->context\<close>). The verbs library is a parameter: the return codes of its calls
  and the address and key it registers a chunk under.
\<close>

section \<open>State\<close>

definition MAX_CLIENT :: nat where "MAX_CLIENT = 32"
definition MAX_FREE_MEM_GB :: nat where "MAX_FREE_MEM_GB = 32"
definition ONE_MB :: int where "ONE_MB = 1048576"
definition FREE_MEM_EVICT_THRESHOLD :: int where "FREE_MEM_EVICT_THRESHOLD = 10"
definition FREE_MEM_EXPAND_THRESHOLD :: int where "FREE_MEM_EXPAND_THRESHOLD = 20"
definition MEM_EVICT_HIT_THRESHOLD :: int where "MEM_EVICT_HIT_THRESHOLD = 1"
definition MEM_EXPAND_HIT_THRESHOLD :: int where "MEM_EXPAND_HIT_THRESHOLD = 20"
definition EXTRA_CHUNK_NUM :: int where "EXTRA_CHUNK_NUM = 2"
definition CQ_QP_BUSY :: int where "CQ_QP_BUSY = 1"
definition CQ_QP_IDLE :: int where "CQ_QP_IDLE = 0"
definition CHUNK_MALLOCED :: nat where "CHUNK_MALLOCED = 1"
definition CHUNK_EMPTY :: nat where "CHUNK_EMPTY = 0"

datatype conn_state = CONN_IDLE | CONN_CONNECTED | CONN_MAPPED | CONN_FAILED
datatype server_state = S_WAIT | S_BIND | S_DONE
datatype send_state = SS_INIT | SS_MR_SENT | SS_STOP_SENT | SS_DONE_SENT
datatype recv_state = RS_INIT | RS_STOPPED_RECV | RS_DONE_RECV

record connection =
  conn_index :: int
  sess_chunk_map :: "int list"
  mapped_chunk_size :: int
  evict_sem :: nat
  stop_sem :: nat
  connected :: bool
  recv_msg :: message
  send_msg :: message
  cq_qp_state :: int
  free_mem_gb :: int
  server_state_of :: server_state
  send_state_of :: send_state
  recv_state_of :: recv_state
  posted_recvs :: nat

record rdma_remote_mem =
  mr_list :: "(u64 \<times> u32) option list"
  remote_size_gb :: int
  mapped_size :: int
  conn_map :: "int list"
  malloc_map :: "nat list"
  conn_chunk_map :: "int list"

record rdma_session =
  conns :: "nat option list"
  conns_state :: "conn_state list"
  conn_num :: int
  rdma_remote :: rdma_remote_mem

record monitor =
  session :: rdma_session
  heap :: "nat \<Rightarrow> connection option"
  running :: bool
  s_ctx :: "nat option"
  sent :: "(nat \<times> message) list"

text \<open>The verbs library and the allocator, as far as the code looks at their results.\<close>

record verbs =
  context_ok :: bool
  create_qp_ret :: int
  reg_msg_ok :: bool
  reg_mr :: "nat \<Rightarrow> (u64 \<times> u32) option"
  post_recv_ret :: int
  post_send_ret :: int
  accept_ret :: int
  fresh_conn :: connection

definition upd_remote :: "(rdma_remote_mem \<Rightarrow> rdma_remote_mem) \<Rightarrow> monitor \<Rightarrow> monitor" where
  "upd_remote f st = st\<lparr>session := (session st)\<lparr>rdma_remote := f (rdma_remote (session st))\<rparr>\<rparr>"

definition upd_conn :: "nat \<Rightarrow> (connection \<Rightarrow> connection) \<Rightarrow> monitor \<Rightarrow> monitor res" where
  "upd_conn cid f st = (case heap st cid of None \<Rightarrow> Inl Oob | Some c \<Rightarrow> Inr (st\<lparr>heap := (heap st)(cid \<mapsto> f c)\<rparr>))"

section \<open>Free memory and session set-up\<close>

text \<open>\<^verbatim>\<open>fgets(result, 60, fd)\<close>: at most 59 characters, up to and including a newline.\<close>

fun fgets :: "nat \<Rightarrow> string \<Rightarrow> string \<times> string" where
  "fgets 0 s = ([], s)"
| "fgets (Suc n) [] = ([], [])"
| "fgets (Suc n) (c # s) =
     (if c = CHR 0x0A then ([c], s) else case fgets n s of (l, r) \<Rightarrow> (c # l, r))"

text \<open>The digits of the second line of \<^verbatim>\<open>/proc/meminfo\<close>, read as one number.\<close>

definition get_free_mem :: "string \<Rightarrow> int" where
  "get_free_mem meminfo =
     (let rest = snd (fgets 59 meminfo); result = fst (fgets 59 rest)
      in fold (\<lambda>c res. if 48 \<le> code c \<and> code c \<le> 57 then res * 10 + (int (code c) - 48) else res) result 0)"

definition initial_size :: "int \<Rightarrow> int" where
  "initial_size free_mem_g =
     (let g = (if free_mem_g > FREE_MEM_EXPAND_THRESHOLD
               then free_mem_g - (FREE_MEM_EVICT_THRESHOLD + FREE_MEM_EXPAND_THRESHOLD) div 2
               else if free_mem_g > FREE_MEM_EVICT_THRESHOLD then free_mem_g - FREE_MEM_EVICT_THRESHOLD
               else 0)
      in if g > int MAX_FREE_MEM_GB then int MAX_FREE_MEM_GB else g)"

definition rdma_session_init :: "string \<Rightarrow> rdma_session" where
  "rdma_session_init meminfo =
     (let free_mem_g = initial_size (get_free_mem meminfo div ONE_MB) in
      \<lparr>conns = replicate MAX_CLIENT None, conns_state = replicate MAX_CLIENT CONN_IDLE, conn_num = 0,
       rdma_remote = \<lparr>mr_list = replicate MAX_FREE_MEM_GB None, remote_size_gb = free_mem_g, mapped_size = 0,
         conn_map = replicate MAX_FREE_MEM_GB (- 1),
         malloc_map = fold (\<lambda>i m. m[i := CHUNK_MALLOCED]) [0..<nat free_mem_g] (replicate MAX_FREE_MEM_GB CHUNK_EMPTY),
         conn_chunk_map = replicate MAX_FREE_MEM_GB (- 1)\<rparr>\<rparr>)"

section \<open>Connections\<close>

definition build_context :: "verbs \<Rightarrow> nat \<Rightarrow> monitor \<Rightarrow> monitor res" where
  "build_context env v st = (case s_ctx st of
       Some v' \<Rightarrow> if v' \<noteq> v then Inl Die else Inr st
     | None \<Rightarrow> if context_ok env then Inr (st\<lparr>s_ctx := Some v\<rparr>) else Inl Die)"

definition post_receives :: "verbs \<Rightarrow> nat \<Rightarrow> monitor \<Rightarrow> monitor res" where
  "post_receives env cid st =
     bindE (upd_conn cid (\<lambda>c. c\<lparr>posted_recvs := posted_recvs c + 1\<rparr>) st)
       (\<lambda>st'. if post_recv_ret env \<noteq> 0 then Inl Die else Inr st')"

text \<open>The fields the code does not set keep what the allocator returned, \<open>fresh_conn\<close>.\<close>

definition build_connection :: "verbs \<Rightarrow> nat \<Rightarrow> nat \<Rightarrow> monitor \<Rightarrow> monitor res" where
  "build_connection env v cid st =
     bindE (build_context env v st) (\<lambda>st.
       if create_qp_ret env \<noteq> 0 then Inl Die
       else let conn = (fresh_conn env)\<lparr>send_state_of := SS_INIT, recv_state_of := RS_INIT,
                  server_state_of := S_WAIT, connected := False, cq_qp_state := CQ_QP_BUSY, free_mem_gb := 0,
                  stop_sem := 0, evict_sem := 0, sess_chunk_map := replicate MAX_FREE_MEM_GB (- 1),
                  mapped_chunk_size := 0, posted_recvs := 0\<rparr>;
                s = session st;
                (conn, s) = (case find (\<lambda>i. conns_state s ! i = CONN_IDLE) [0..<MAX_CLIENT] of
                    Some i \<Rightarrow> (conn\<lparr>conn_index := int i\<rparr>,
                      s\<lparr>conns := (conns s)[i := Some cid], conns_state := (conns_state s)[i := CONN_CONNECTED]\<rparr>)
                  | None \<Rightarrow> (conn, s));
                s = s\<lparr>conn_num := conn_num s + 1\<rparr>;
                st = st\<lparr>session := s, heap := (heap st)(cid \<mapsto> conn)\<rparr>
            in if \<not> reg_msg_ok env then Inl Die else post_receives env cid st)"

definition unmap_chunk :: "int \<Rightarrow> monitor \<Rightarrow> monitor res" where
  "unmap_chunk index st =
     (let r = rdma_remote (session st) in
      if index = - 1 then Inr st
      else bindE (astore (conn_map r) index (- 1)) (\<lambda>cm.
           bindE (astore (conn_chunk_map r) index (- 1)) (\<lambda>ccm.
           Inr (upd_remote (\<lambda>r. r\<lparr>conn_map := cm, conn_chunk_map := ccm\<rparr>) st))))"

definition destroy_connection :: "nat \<Rightarrow> monitor \<Rightarrow> monitor res" where
  "destroy_connection cid st = (case heap st cid of None \<Rightarrow> Inl Oob | Some conn \<Rightarrow>
     bindE (if mapped_chunk_size conn > 0
            then bindE (foldE (\<lambda>i. unmap_chunk (sess_chunk_map conn ! i)) [0..<MAX_MR_SIZE_GB] st)
                   (\<lambda>st. Inr (upd_remote (\<lambda>r. r\<lparr>mapped_size := mapped_size r - mapped_chunk_size conn\<rparr>) st))
            else Inr st) (\<lambda>st.
     let s = session st in
     bindE (astore (conns s) (conn_index conn) None) (\<lambda>cs.
     bindE (astore (conns_state s) (conn_index conn) CONN_IDLE) (\<lambda>css.
     let s = s\<lparr>conns := cs, conns_state := css, conn_num := conn_num s - 1\<rparr> in
     Inr (st\<lparr>session := s, running := running st \<and> conn_num s \<noteq> 0, heap := (heap st)(cid := None)\<rparr>)))))"

section \<open>Messages to a client\<close>

text \<open>\<^verbatim>\<open>while (!conn->connected);\<close> spins until the connection is established.\<close>

definition send_message :: "verbs \<Rightarrow> nat \<Rightarrow> monitor \<Rightarrow> monitor res" where
  "send_message env cid st = (case heap st cid of
       None \<Rightarrow> Inl Oob
     | Some c \<Rightarrow> if \<not> connected c then Inl Blocked
         else if post_send_ret env \<noteq> 0 then Inl Die
         else Inr (st\<lparr>sent := sent st @ [(cid, send_msg c)]\<rparr>))"

definition set_msg :: "(message \<Rightarrow> message) \<Rightarrow> connection \<Rightarrow> connection" where
  "set_msg f c = c\<lparr>send_msg := f (send_msg c)\<rparr>"

definition chunk_free :: "rdma_remote_mem \<Rightarrow> nat \<Rightarrow> bool" where
  "chunk_free r i \<longleftrightarrow> malloc_map r ! i = CHUNK_MALLOCED \<and> conn_map r ! i = - 1"

text \<open>Chunk \<open>i\<close> is mapped to the connection, registered and written into the message.\<close>

definition grant :: "verbs \<Rightarrow> nat \<Rightarrow> nat \<Rightarrow> monitor \<Rightarrow> monitor res" where
  "grant env cid i st = (case heap st cid of None \<Rightarrow> Inl Oob | Some c \<Rightarrow>
     (case reg_mr env i of
        None \<Rightarrow> Inl Die
      | Some (addr, key) \<Rightarrow>
          Inr (upd_remote (\<lambda>r. r\<lparr>conn_map := (conn_map r)[i := conn_index c], mr_list := (mr_list r)[i := Some (addr, key)]\<rparr>)
            (st\<lparr>heap := (heap st)(cid \<mapsto> set_msg (\<lambda>m. m\<lparr>buf := (buf m)[i := htonll addr], rkey := (rkey m)[i := ntohl key]\<rparr>)
               (c\<lparr>sess_chunk_map := (sess_chunk_map c)[i := int i]\<rparr>))\<rparr>))))"

fun grant_loop :: "verbs \<Rightarrow> nat \<Rightarrow> int \<Rightarrow> nat list \<Rightarrow> int \<Rightarrow> monitor \<Rightarrow> monitor res" where
  "grant_loop env cid sz [] j st = Inr st"
| "grant_loop env cid sz (i # is) j st =
     (if chunk_free (rdma_remote (session st)) i
      then bindE (grant env cid i st)
             (\<lambda>st. if j + 1 = sz then Inr st else grant_loop env cid sz is (j + 1) st)
      else grant_loop env cid sz is j st)"

text \<open>
  \<open>send_single_mr\<close> (which leaves the loop at the first chunk) and \<open>send_mr\<close>: the size counters grow by
  \<open>n\<close> whether or not \<open>n\<close> chunks were found.
\<close>

definition send_chunks :: "verbs \<Rightarrow> nat \<Rightarrow> int \<Rightarrow> int \<Rightarrow> msg_type \<Rightarrow> monitor \<Rightarrow> monitor res" where
  "send_chunks env cid label n t st =
     bindE (upd_conn cid (set_msg (\<lambda>m. m\<lparr>size_gb := label, rkey := replicate MAX_FREE_MEM_GB 0\<rparr>)) st) (\<lambda>st.
     bindE (grant_loop env cid n [0..<MAX_FREE_MEM_GB] 0 st) (\<lambda>st.
     bindE (upd_conn cid (\<lambda>c. set_msg (\<lambda>m. m\<lparr>mtype := t\<rparr>) (c\<lparr>mapped_chunk_size := mapped_chunk_size c + n\<rparr>))
       (upd_remote (\<lambda>r. r\<lparr>mapped_size := mapped_size r + n\<rparr>) st)) (\<lambda>st.
     send_message env cid st)))"

definition send_single_mr :: "verbs \<Rightarrow> nat \<Rightarrow> int \<Rightarrow> monitor \<Rightarrow> monitor res" where
  "send_single_mr env cid client_chunk_index = send_chunks env cid client_chunk_index 1 INFO_SINGLE"

definition send_mr :: "verbs \<Rightarrow> nat \<Rightarrow> int \<Rightarrow> monitor \<Rightarrow> monitor res" where
  "send_mr env cid sz = send_chunks env cid sz sz INFO"

definition send_free_mem_size :: "verbs \<Rightarrow> nat \<Rightarrow> monitor \<Rightarrow> monitor res" where
  "send_free_mem_size env cid st =
     (let r = rdma_remote (session st) in
      bindE (upd_conn cid (set_msg (\<lambda>m. m\<lparr>mtype := FREE_SIZE, size_gb := remote_size_gb r - mapped_size r\<rparr>)) st)
        (send_message env cid))"

text \<open>\<open>send_stop\<close> waits for the client's answer unless nothing is to be stopped.\<close>

definition send_stop :: "verbs \<Rightarrow> nat \<Rightarrow> int \<Rightarrow> monitor \<Rightarrow> monitor res" where
  "send_stop env cid n st =
     bindE (upd_conn cid (set_msg (\<lambda>m. m\<lparr>mtype := STOP, size_gb := n\<rparr>)) st) (send_message env cid)"

definition sem_wait_stop :: "nat \<Rightarrow> monitor \<Rightarrow> monitor res" where
  "sem_wait_stop cid st = (case heap st cid of None \<Rightarrow> Inl Oob | Some c \<Rightarrow>
     if stop_sem c = 0 then Inl Blocked else upd_conn cid (\<lambda>c. c\<lparr>stop_sem := stop_sem c - 1\<rparr>) st)"

definition send_evict :: "verbs \<Rightarrow> nat \<Rightarrow> int \<Rightarrow> monitor \<Rightarrow> monitor res" where
  "send_evict env cid n st =
     bindE (upd_conn cid (set_msg (\<lambda>m. m\<lparr>mtype := EVICT, size_gb := n, rkey := replicate MAX_MR_SIZE_GB 0\<rparr>)) st)
       (send_message env cid)"

definition send_fault_done :: "verbs \<Rightarrow> nat \<Rightarrow> monitor \<Rightarrow> monitor res" where
  "send_fault_done env cid st = bindE (upd_conn cid (set_msg (\<lambda>m. m\<lparr>mtype := FAULT_DONE\<rparr>)) st) (send_message env cid)"

definition send_terminate :: "verbs \<Rightarrow> nat \<Rightarrow> monitor \<Rightarrow> monitor res" where
  "send_terminate env cid st = bindE (upd_conn cid (set_msg (\<lambda>m. m\<lparr>mtype := DONE\<rparr>)) st) (send_message env cid)"

section \<open>Messages from a client\<close>

text \<open>A stopped chunk is deregistered (its entry of \<open>mr_list\<close> no longer names a region), freed and forgotten; a tag on a chunk that is not mapped indexes with -1.\<close>

definition drop_chunk :: "nat \<Rightarrow> nat \<Rightarrow> monitor \<Rightarrow> monitor res" where
  "drop_chunk cid i st = (case heap st cid of None \<Rightarrow> Inl Oob | Some c \<Rightarrow>
     if rkey (recv_msg c) ! i = 0 then Inr st
     else let index = sess_chunk_map c ! i; r = rdma_remote (session st) in
       bindE (astore (mr_list r) index None) (\<lambda>mrs.
       bindE (astore (conn_map r) index (- 1)) (\<lambda>cm.
       bindE (astore (malloc_map r) index CHUNK_EMPTY) (\<lambda>mm.
       bindE (astore (conn_chunk_map r) index (- 1)) (\<lambda>ccm.
       Inr (upd_remote (\<lambda>r. r\<lparr>mr_list := mrs, conn_map := cm, malloc_map := mm, conn_chunk_map := ccm\<rparr>)
         (st\<lparr>heap := (heap st)(cid \<mapsto> c\<lparr>sess_chunk_map := (sess_chunk_map c)[i := - 1]\<rparr>)\<rparr>)))))))"

definition recv_done :: "verbs \<Rightarrow> nat \<Rightarrow> monitor \<Rightarrow> monitor res" where
  "recv_done env cid st = (case heap st cid of None \<Rightarrow> Inl Oob | Some conn \<Rightarrow>
     let evict_g = size_gb (recv_msg conn) in
     bindE (foldE (drop_chunk cid) [0..<MAX_MR_SIZE_GB] st) (\<lambda>st.
     bindE (upd_conn cid (\<lambda>c. c\<lparr>mapped_chunk_size := mapped_chunk_size c - evict_g, stop_sem := stop_sem c + 1\<rparr>)
       (upd_remote (\<lambda>r. r\<lparr>remote_size_gb := remote_size_gb r - evict_g, mapped_size := mapped_size r - evict_g\<rparr>) st)) (\<lambda>st.
     bindE (if mapped_chunk_size conn - evict_g = 0
            then bindE (astore (conns_state (session st)) (conn_index conn) CONN_CONNECTED)
                   (\<lambda>css. Inr (st\<lparr>session := (session st)\<lparr>conns_state := css\<rparr>\<rparr>))
            else Inr st)
       (post_receives env cid))))"

datatype wc = WC_ERR | WC_SEND | WC_RECV message

definition set_busy :: "int \<Rightarrow> connection \<Rightarrow> connection" where
  "set_busy v c = c\<lparr>cq_qp_state := v\<rparr>"

definition mark_mapped :: "nat \<Rightarrow> monitor \<Rightarrow> monitor res" where
  "mark_mapped cid st = (case heap st cid of None \<Rightarrow> Inl Oob | Some c \<Rightarrow>
     bindE (astore (conns_state (session st)) (conn_index c) CONN_MAPPED)
       (\<lambda>css. Inr (st\<lparr>session := (session st)\<lparr>conns_state := css\<rparr>\<rparr>)))"

text \<open>\<open>on_completion\<close>; the message of a receive completion has been placed in \<open>recv_msg\<close>.\<close>

definition on_completion :: "verbs \<Rightarrow> nat \<Rightarrow> wc \<Rightarrow> monitor \<Rightarrow> monitor res" where
  "on_completion env cid w st = (case w of
       WC_ERR \<Rightarrow> Inl Die
     | WC_SEND \<Rightarrow> upd_conn cid (set_busy CQ_QP_IDLE) st
     | WC_RECV msg \<Rightarrow> bindE (upd_conn cid (\<lambda>c. c\<lparr>recv_msg := msg\<rparr>) st) (\<lambda>st.
         let busy = upd_conn cid (set_busy CQ_QP_BUSY) st;
             bound = upd_conn cid (\<lambda>c. set_busy CQ_QP_BUSY (c\<lparr>server_state_of := S_BIND\<rparr>)) st
         in case mtype msg of
           QUERY \<Rightarrow> bindE busy (\<lambda>st. bindE (send_free_mem_size env cid st) (post_receives env cid))
         | BIND \<Rightarrow> bindE bound (\<lambda>st. bindE (send_mr env cid (size_gb msg) st)
             (\<lambda>st. bindE (mark_mapped cid st) (post_receives env cid)))
         | BIND_SINGLE \<Rightarrow> bindE bound (\<lambda>st. bindE (send_single_mr env cid (size_gb msg) st)
             (\<lambda>st. bindE (mark_mapped cid st) (post_receives env cid)))
         | ACTIVITY \<Rightarrow> upd_conn cid (\<lambda>c. c\<lparr>evict_sem := evict_sem c + 1\<rparr>) st
         | FAULT \<Rightarrow> bindE busy (\<lambda>st. bindE (send_fault_done env cid st) (post_receives env cid))
         | DONE \<Rightarrow> bindE busy (recv_done env cid)
         | _ \<Rightarrow> Inl Die))"

definition on_connect :: "nat \<Rightarrow> monitor \<Rightarrow> monitor res" where
  "on_connect cid st = upd_conn cid (\<lambda>c. c\<lparr>connected := True\<rparr>) st"

section \<open>Connection events\<close>

datatype cm_event = CM_CONNECT_REQUEST nat | CM_ESTABLISHED | CM_DISCONNECTED | CM_OTHER

definition on_connect_request :: "verbs \<Rightarrow> nat \<Rightarrow> nat \<Rightarrow> monitor \<Rightarrow> monitor res" where
  "on_connect_request env v cid st =
     bindE (build_connection env v cid st) (\<lambda>st. if accept_ret env \<noteq> 0 then Inl Die else Inr st)"

definition on_connection :: "verbs \<Rightarrow> nat \<Rightarrow> monitor \<Rightarrow> monitor res" where
  "on_connection env cid st = bindE (on_connect cid st) (send_free_mem_size env cid)"

definition on_disconnect :: "nat \<Rightarrow> monitor \<Rightarrow> monitor res" where
  "on_disconnect cid st = destroy_connection cid st"

definition on_event :: "verbs \<Rightarrow> nat \<Rightarrow> cm_event \<Rightarrow> monitor \<Rightarrow> monitor res" where
  "on_event env cid ev st = (case ev of
       CM_CONNECT_REQUEST v \<Rightarrow> on_connect_request env v cid st
     | CM_ESTABLISHED \<Rightarrow> on_connection env cid st
     | CM_DISCONNECTED \<Rightarrow> on_disconnect cid st
     | CM_OTHER \<Rightarrow> Inl Die)"

section \<open>The memory thread\<close>

text \<open>The first loop of \<open>evict_mem\<close>: unmapped chunks are freed until enough are.\<close>

fun free_unmapped :: "nat list \<Rightarrow> int \<Rightarrow> int \<Rightarrow> rdma_remote_mem \<Rightarrow> int \<times> rdma_remote_mem" where
  "free_unmapped [] evict_g freed_g r = (freed_g, r)"
| "free_unmapped (i # is) evict_g freed_g r =
     (if chunk_free r i
      then let r = r\<lparr>malloc_map := (malloc_map r)[i := CHUNK_EMPTY]\<rparr>; freed_g = freed_g + 1
           in if freed_g = evict_g then (freed_g, r) else free_unmapped is evict_g freed_g r
      else free_unmapped is evict_g freed_g r)"

text \<open>Both exits of the loop subtract what was freed; the flag tells whether it was enough.\<close>

definition evict_unmapped :: "int \<Rightarrow> monitor \<Rightarrow> bool \<times> int \<times> monitor" where
  "evict_unmapped evict_g st =
     (case free_unmapped [0..<MAX_FREE_MEM_GB] evict_g 0 (rdma_remote (session st)) of (freed_g, r) \<Rightarrow>
        (freed_g = evict_g, evict_g - freed_g,
         upd_remote (\<lambda>_. r\<lparr>remote_size_gb := remote_size_gb r - freed_g\<rparr>) st))"

text \<open>The growing branch of \<open>free_mem\<close>: empty chunks are allocated.\<close>

fun alloc_chunks :: "nat list \<Rightarrow> int \<Rightarrow> int \<Rightarrow> nat list \<Rightarrow> nat list" where
  "alloc_chunks [] expand_g j m = m"
| "alloc_chunks (i # is) expand_g j m =
     (if m ! i = CHUNK_EMPTY
      then let m = m[i := CHUNK_MALLOCED] in if j + 1 = expand_g then m else alloc_chunks is expand_g (j + 1) m
      else alloc_chunks is expand_g j m)"

definition expand_mem :: "int \<Rightarrow> monitor \<Rightarrow> int \<times> monitor" where
  "expand_mem expand_g st =
     (let r = rdma_remote (session st);
          expand_g = (if expand_g + remote_size_gb r > int MAX_FREE_MEM_GB
                      then int MAX_FREE_MEM_GB - remote_size_gb r else expand_g)
      in (expand_g, upd_remote (\<lambda>r. r\<lparr>malloc_map := alloc_chunks [0..<MAX_FREE_MEM_GB] expand_g 0 (malloc_map r),
            remote_size_gb := remote_size_gb r + expand_g\<rparr>) st))"

end
