(* ===== verification/Monitor_Invariant.thy ===== *)
theory Monitor_Invariant
  imports Monitor
begin

text \<open>
  The bookkeeping invariant of the monitor: the chunk table, the connection table, the connection
  objects and the size counters agree. Every handler keeps it, given that clients bind only what is
  available and release only what they hold; what happens otherwise is stated too.
\<close>

section \<open>The invariant\<close>

definition cnt :: "('a \<Rightarrow> bool) \<Rightarrow> 'a list \<Rightarrow> int" where
  "cnt P xs = int (length (filter P xs))"

lemma cnt_update:
  assumes "i < length xs"
  shows "cnt P (xs[i := v]) = cnt P xs - (if P (xs ! i) then 1 else 0) + (if P v then 1 else 0)"
proof -
  have "filter P xs = filter P (take i xs @ xs ! i # drop (Suc i) xs)"
    using id_take_nth_drop [OF assms] by simp
  then have "length (filter P xs) = length (filter P (take i xs)) + (if P (xs ! i) then 1 else 0) +
      length (filter P (drop (Suc i) xs))" by simp
  moreover have "length (filter P (xs[i := v])) = length (filter P (take i xs)) + (if P v then 1 else 0) +
      length (filter P (drop (Suc i) xs))"
    using assms by (simp add: upd_conv_take_nth_drop)
  ultimately show ?thesis by (simp add: cnt_def)
qed

lemma cnt_replicate: "cnt P (replicate n v) = (if P v then int n else 0)"
  by (simp add: cnt_def filter_replicate)

text \<open>
  \<open>conn_ok r c d k\<close>: the object \<open>k\<close> in slot \<open>c\<close> agrees with the chunk table, its size counter lagging by \<open>d\<close>.
\<close>

definition conn_ok :: "rdma_remote_mem \<Rightarrow> nat \<Rightarrow> int \<Rightarrow> connection \<Rightarrow> bool" where
  "conn_ok r c d k \<longleftrightarrow> conn_index k = int c \<and> length (sess_chunk_map k) = MAX_FREE_MEM_GB \<and>
     (\<forall>i<MAX_FREE_MEM_GB. sess_chunk_map k ! i = (if conn_map r ! i = int c then int i else - 1)) \<and>
     mapped_chunk_size k = cnt (\<lambda>x. x = int c) (conn_map r) - d \<and>
     message_ok (recv_msg k) \<and> message_ok (send_msg k)"

definition remote_ok2 :: "rdma_remote_mem \<Rightarrow> int \<Rightarrow> int \<Rightarrow> bool" where
  "remote_ok2 r d e \<longleftrightarrow> length (mr_list r) = MAX_FREE_MEM_GB \<and> length (conn_map r) = MAX_FREE_MEM_GB \<and>
     length (malloc_map r) = MAX_FREE_MEM_GB \<and> length (conn_chunk_map r) = MAX_FREE_MEM_GB \<and>
     (\<forall>i<MAX_FREE_MEM_GB. malloc_map r ! i = CHUNK_MALLOCED \<or> malloc_map r ! i = CHUNK_EMPTY) \<and>
     (\<forall>i<MAX_FREE_MEM_GB. conn_map r ! i \<noteq> - 1 \<longrightarrow> malloc_map r ! i = CHUNK_MALLOCED) \<and>
     remote_size_gb r = cnt (\<lambda>x. x = CHUNK_MALLOCED) (malloc_map r) - e \<and>
     mapped_size r = cnt (\<lambda>x. x \<noteq> - 1) (conn_map r) - d"

abbreviation remote_ok :: "rdma_remote_mem \<Rightarrow> int \<Rightarrow> bool" where
  "remote_ok r d \<equiv> remote_ok2 r d 0"

lemmas remote_ok_def = remote_ok2_def

text \<open>A slot of the connection table: idle and empty, or in use by an object of the heap.\<close>

definition slot_ok :: "monitor \<Rightarrow> nat \<Rightarrow> int \<Rightarrow> bool" where
  "slot_ok st c d \<longleftrightarrow> (case conns (session st) ! c of
        None \<Rightarrow> conns_state (session st) ! c = CONN_IDLE
      | Some cid \<Rightarrow> conns_state (session st) ! c \<noteq> CONN_IDLE \<and>
          (\<exists>k. heap st cid = Some k \<and> conn_ok (rdma_remote (session st)) c d k))"

definition table_ok :: "monitor \<Rightarrow> nat \<Rightarrow> int \<Rightarrow> bool" where
  "table_ok st c0 d \<longleftrightarrow>
     length (conns (session st)) = MAX_CLIENT \<and> length (conns_state (session st)) = MAX_CLIENT \<and>
     (\<forall>c<MAX_CLIENT. slot_ok st c (if c = c0 then d else 0)) \<and>
     (\<forall>cid k. heap st cid = Some k \<longrightarrow> (\<exists>c<MAX_CLIENT. conns (session st) ! c = Some cid)) \<and>
     (\<forall>i<MAX_FREE_MEM_GB. conn_map (rdma_remote (session st)) ! i \<noteq> - 1 \<longrightarrow>
        (\<exists>c<MAX_CLIENT. conn_map (rdma_remote (session st)) ! i = int c \<and> conns (session st) ! c \<noteq> None)) \<and>
     conn_num (session st) = cnt (\<lambda>x. x \<noteq> None) (conns (session st))"

definition inv_off :: "monitor \<Rightarrow> nat \<Rightarrow> int \<Rightarrow> bool" where
  "inv_off st c0 d \<longleftrightarrow> table_ok st c0 d \<and> remote_ok (rdma_remote (session st)) d"

text \<open>The invariant: counters, tables and connection objects tell the same story.\<close>

definition monitor_inv :: "monitor \<Rightarrow> bool" where
  "monitor_inv st \<longleftrightarrow> inv_off st 0 0"

lemma inv_off_0: "inv_off st c 0 \<longleftrightarrow> monitor_inv st"
  unfolding monitor_inv_def inv_off_def table_ok_def by (simp only: if_cancel)

lemma table_okI:
  assumes "length (conns (session st)) = MAX_CLIENT" "length (conns_state (session st)) = MAX_CLIENT"
    and "\<And>c. c < MAX_CLIENT \<Longrightarrow> slot_ok st c (if c = c0 then d else 0)"
    and "\<And>cid k. heap st cid = Some k \<Longrightarrow> \<exists>c<MAX_CLIENT. conns (session st) ! c = Some cid"
    and "\<And>i. i < MAX_FREE_MEM_GB \<Longrightarrow> conn_map (rdma_remote (session st)) ! i \<noteq> - 1 \<Longrightarrow>
      \<exists>c<MAX_CLIENT. conn_map (rdma_remote (session st)) ! i = int c \<and> conns (session st) ! c \<noteq> None"
    and "conn_num (session st) = cnt (\<lambda>x. x \<noteq> None) (conns (session st))"
  shows "table_ok st c0 d"
  using assms unfolding table_ok_def by blast

lemma table_ok_facts:
  assumes "table_ok st c0 d"
  shows "length (conns (session st)) = MAX_CLIENT" "length (conns_state (session st)) = MAX_CLIENT"
    and "heap st cid = Some k \<Longrightarrow> \<exists>c<MAX_CLIENT. conns (session st) ! c = Some cid"
    and "i < MAX_FREE_MEM_GB \<Longrightarrow> conn_map (rdma_remote (session st)) ! i \<noteq> - 1 \<Longrightarrow>
      \<exists>c<MAX_CLIENT. conn_map (rdma_remote (session st)) ! i = int c \<and> conns (session st) ! c \<noteq> None"
    and "conn_num (session st) = cnt (\<lambda>x. x \<noteq> None) (conns (session st))"
  using assms unfolding table_ok_def by blast+

lemma table_ok_slot: "table_ok st c0 d \<Longrightarrow> c < MAX_CLIENT \<Longrightarrow> slot_ok st c (if c = c0 then d else 0)"
  unfolding table_ok_def by blast

lemma table_ok_conn:
  assumes "table_ok st c0 d" "heap st cid = Some k"
  obtains c where "c < MAX_CLIENT" "conns (session st) ! c = Some cid" "conns_state (session st) ! c \<noteq> CONN_IDLE"
    "conn_ok (rdma_remote (session st)) c (if c = c0 then d else 0) k" "conn_index k = int c"
proof -
  from assms obtain c where c: "c < MAX_CLIENT" "conns (session st) ! c = Some cid"
    unfolding table_ok_def by blast
  then have "slot_ok st c (if c = c0 then d else 0)" using assms(1) unfolding table_ok_def by blast
  with c assms(2) have "conns_state (session st) ! c \<noteq> CONN_IDLE"
    "conn_ok (rdma_remote (session st)) c (if c = c0 then d else 0) k"
    by (simp_all add: slot_ok_def)
  moreover from this(2) have "conn_index k = int c" by (simp add: conn_ok_def)
  ultimately show thesis using that c by blast
qed

text \<open>Two slots never hold the same object.\<close>

lemma table_ok_inj:
  assumes "table_ok st c0 d" "conns (session st) ! c = Some cid" "conns (session st) ! c' = Some cid"
    and "c < MAX_CLIENT" "c' < MAX_CLIENT"
  shows "c = c'"
proof -
  have "\<exists>k. heap st cid = Some k \<and> conn_index k = int c" if "c < MAX_CLIENT" "conns (session st) ! c = Some cid" for c
  proof -
    have "slot_ok st c (if c = c0 then d else 0)" using assms(1) that unfolding table_ok_def by blast
    with that(2) show ?thesis by (auto simp: slot_ok_def conn_ok_def)
  qed
  from this [OF assms(4,2)] this [OF assms(5,3)] show ?thesis by auto
qed

text \<open>Updates of a connection object that the invariant does not look at.\<close>

definition soft :: "(connection \<Rightarrow> connection) \<Rightarrow> bool" where
  "soft f \<longleftrightarrow> (\<forall>k. conn_index (f k) = conn_index k \<and> sess_chunk_map (f k) = sess_chunk_map k \<and>
     mapped_chunk_size (f k) = mapped_chunk_size k \<and>
     (message_ok (recv_msg k) \<and> message_ok (send_msg k) \<longrightarrow> message_ok (recv_msg (f k)) \<and> message_ok (send_msg (f k))))"

lemma conn_ok_soft: "soft f \<Longrightarrow> conn_ok r c d k \<Longrightarrow> conn_ok r c d (f k)"
  by (simp add: conn_ok_def soft_def)

lemma slot_ok_soft:
  assumes "soft f" "heap st cid = Some k" "slot_ok st c d"
  shows "slot_ok (st\<lparr>heap := (heap st)(cid \<mapsto> f k)\<rparr>) c d"
  using assms by (auto simp: slot_ok_def conn_ok_soft split: option.splits)

lemma upd_conn_soft:
  assumes "inv_off st c0 d" "soft f" "upd_conn cid f st = Inr st'"
  shows "inv_off st' c0 d" and "session st' = session st"
proof -
  from assms(3) obtain k where k: "heap st cid = Some k" "st' = st\<lparr>heap := (heap st)(cid \<mapsto> f k)\<rparr>"
    by (auto simp: upd_conn_def split: option.splits)
  then show "session st' = session st" by simp
  have "table_ok st' c0 d"
    using assms(1) slot_ok_soft [OF assms(2) k(1)] k unfolding inv_off_def table_ok_def
    by (auto split: if_splits)
  with assms(1) k(2) show "inv_off st' c0 d" by (simp add: inv_off_def)
qed

lemmas soft_defs = soft_def set_msg_def set_busy_def message_ok_def

lemma send_message_inv:
  assumes "inv_off st c0 d" "send_message env cid st = Inr st'"
  shows "inv_off st' c0 d" and "session st' = session st" and "heap st' = heap st"
  using assms by (auto simp: send_message_def inv_off_def table_ok_def slot_ok_def split: option.splits if_splits)

lemma post_receives_inv:
  assumes "inv_off st c0 d" "post_receives env cid st = Inr st'"
  shows "inv_off st' c0 d" and "session st' = session st"
proof -
  from assms(2) have u: "upd_conn cid (\<lambda>c. c\<lparr>posted_recvs := posted_recvs c + 1\<rparr>) st = Inr st'"
    by (auto simp: post_receives_def bindE_Inr split: if_splits)
  show "inv_off st' c0 d" "session st' = session st"
    by (rule upd_conn_soft [OF assms(1) _ u]; simp add: soft_def)+
qed

section \<open>Granting chunks\<close>

lemma conn_ok_grant_other:
  assumes "conn_ok r c' d k" "c' \<noteq> c" "conn_map r ! i = - 1" "i < length (conn_map r)"
  shows "conn_ok (r\<lparr>conn_map := (conn_map r)[i := int c], mr_list := ml\<rparr>) c' d k"
  using assms by (auto simp: conn_ok_def cnt_update nth_list_update)

lemma conn_ok_grant_self:
  assumes "conn_ok r c d k" "conn_map r ! i = - 1" "i < length (conn_map r)" "i < MAX_FREE_MEM_GB"
  shows "conn_ok (r\<lparr>conn_map := (conn_map r)[i := int c], mr_list := ml\<rparr>) c (d + 1)
    (set_msg (\<lambda>m. m\<lparr>buf := (buf m)[i := a], rkey := (rkey m)[i := b]\<rparr>) (k\<lparr>sess_chunk_map := (sess_chunk_map k)[i := int i]\<rparr>))"
  using assms by (auto simp: conn_ok_def cnt_update nth_list_update set_msg_def message_ok_def)

lemma grant_inv:
  assumes inv: "inv_off st c d" and k: "heap st cid = Some k" "conn_index k = int c"
    and i: "i < MAX_FREE_MEM_GB" "chunk_free (rdma_remote (session st)) i"
    and run: "grant env cid i st = Inr st'"
  obtains k' where "inv_off st' c (d + 1)" "heap st' cid = Some k'" "conn_index k' = int c"
    "\<And>j. j \<noteq> i \<Longrightarrow> chunk_free (rdma_remote (session st')) j = chunk_free (rdma_remote (session st)) j"
    "mapped_size (rdma_remote (session st')) = mapped_size (rdma_remote (session st))"
proof -
  let ?r = "rdma_remote (session st)"
  from run k obtain a b where st': "st' = upd_remote (\<lambda>r. r\<lparr>conn_map := (conn_map r)[i := int c], mr_list := (mr_list r)[i := Some (a, b)]\<rparr>)
      (st\<lparr>heap := (heap st)(cid \<mapsto> set_msg (\<lambda>m. m\<lparr>buf := (buf m)[i := htonll a], rkey := (rkey m)[i := ntohl b]\<rparr>)
         (k\<lparr>sess_chunk_map := (sess_chunk_map k)[i := int i]\<rparr>))\<rparr>)"
    by (auto simp: grant_def split: option.splits)
  define k' where "k' = set_msg (\<lambda>m. m\<lparr>buf := (buf m)[i := htonll a], rkey := (rkey m)[i := ntohl b]\<rparr>)
         (k\<lparr>sess_chunk_map := (sess_chunk_map k)[i := int i]\<rparr>)"
  define r' where "r' = ?r\<lparr>conn_map := (conn_map ?r)[i := int c], mr_list := (mr_list ?r)[i := Some (a, b)]\<rparr>"
  have acc: "session st' = (session st)\<lparr>rdma_remote := r'\<rparr>" "heap st' = (heap st)(cid \<mapsto> k')"
    by (simp_all add: st' upd_remote_def r'_def k'_def)
  have tab: "table_ok st c d" and rem: "remote_ok ?r d" using inv by (simp_all add: inv_off_def)
  from table_ok_conn [OF tab k(1)] k(2) have c: "c < MAX_CLIENT" "conns (session st) ! c = Some cid"
    "conns_state (session st) ! c \<noteq> CONN_IDLE" "conn_ok ?r c d k" by auto
  have free: "conn_map ?r ! i = - 1" "malloc_map ?r ! i = CHUNK_MALLOCED" "i < length (conn_map ?r)" "i < length (mr_list ?r)"
    using i rem by (simp_all add: chunk_free_def remote_ok_def)
  have slot: "slot_ok st' c' (if c' = c then d + 1 else 0)" if "c' < MAX_CLIENT" for c'
  proof (cases "c' = c")
    case True
    then show ?thesis
      using conn_ok_grant_self [OF c(4) free(1,3) i(1)] c
      by (simp add: slot_ok_def acc r'_def k'_def)
  next
    case False
    with table_ok_slot [OF tab that] have s: "slot_ok st c' 0" by simp
    have "conns (session st) ! c' \<noteq> Some cid" using table_ok_inj [OF tab c(2) _ c(1) that] False by auto
    with s show ?thesis using False conn_ok_grant_other [OF _ False free(1,3)]
      by (auto simp: slot_ok_def acc r'_def split: option.splits)
  qed
  have "table_ok st' c (d + 1)"
  proof (rule table_okI [OF _ _ slot])
    fix cid' k2 assume "heap st' cid' = Some k2"
    then show "\<exists>c<MAX_CLIENT. conns (session st') ! c = Some cid'"
      using c table_ok_facts(3) [OF tab, of cid'] by (cases "cid' = cid") (auto simp: acc)
  next
    fix j assume j: "j < MAX_FREE_MEM_GB" "conn_map (rdma_remote (session st')) ! j \<noteq> - 1"
    show "\<exists>c<MAX_CLIENT. conn_map (rdma_remote (session st')) ! j = int c \<and> conns (session st') ! c \<noteq> None"
      using c free j table_ok_facts(4) [OF tab, of j] by (cases "j = i") (auto simp: acc r'_def)
  qed (use table_ok_facts [OF tab] in \<open>simp_all add: acc\<close>)
  moreover have "remote_ok r' (d + 1)"
    using rem free i by (auto simp: remote_ok_def r'_def cnt_update nth_list_update)
  ultimately have "inv_off st' c (d + 1)" by (simp add: inv_off_def acc)
  then show thesis
  proof (rule that)
    show "heap st' cid = Some k'" by (simp add: acc)
    show "conn_index k' = int c" using k(2) by (simp add: k'_def set_msg_def)
    show "chunk_free (rdma_remote (session st')) j = chunk_free ?r j" if "j \<noteq> i" for j
      using that by (simp add: acc r'_def chunk_free_def)
  qed (simp add: acc r'_def)
qed

definition avail :: "rdma_remote_mem \<Rightarrow> nat list \<Rightarrow> int" where
  "avail r is = int (length (filter (chunk_free r) is))"

lemma grant_loop_inv:
  assumes "inv_off st c d" "heap st cid = Some k" "conn_index k = int c"
    and "set is \<subseteq> {..<MAX_FREE_MEM_GB}" "distinct is" "j < n"
    and "grant_loop env cid n is j st = Inr st'"
  shows "\<exists>k'. inv_off st' c (d + min (n - j) (avail (rdma_remote (session st)) is)) \<and>
    heap st' cid = Some k' \<and> conn_index k' = int c \<and>
    mapped_size (rdma_remote (session st')) = mapped_size (rdma_remote (session st))"
  using assms
proof (induction "is" arbitrary: st d k j)
  case Nil
  then show ?case by (simp add: avail_def min_def)
next
  case (Cons i "is")
  let ?r = "rdma_remote (session st)"
  show ?case
  proof (cases "chunk_free ?r i")
    case False
    then have "avail ?r (i # is) = avail ?r is" by (simp add: avail_def)
    with False Cons.IH [OF Cons.prems(1-3) _ _ Cons.prems(6)] Cons.prems show ?thesis by simp
  next
    case True
    from True Cons.prems(7) obtain st1 where g: "grant env cid i st = Inr st1"
      and rest: "(if j + 1 = n then Inr st1 else grant_loop env cid n is (j + 1) st1) = Inr st'"
      by (auto simp: bindE_Inr)
    have i: "i < MAX_FREE_MEM_GB" using Cons.prems(4) by simp
    from grant_inv [OF Cons.prems(1-3) i True g] obtain k1 where
      st1: "inv_off st1 c (d + 1)" "heap st1 cid = Some k1" "conn_index k1 = int c"
      and free: "\<And>j. j \<noteq> i \<Longrightarrow> chunk_free (rdma_remote (session st1)) j = chunk_free ?r j"
      and ms: "mapped_size (rdma_remote (session st1)) = mapped_size ?r" by metis
    have "filter (chunk_free (rdma_remote (session st1))) is = filter (chunk_free ?r) is"
      using Cons.prems(5) by (intro filter_cong refl free) auto
    then have av: "avail ?r (i # is) = 1 + avail (rdma_remote (session st1)) is"
      using True by (simp add: avail_def)
    have ge: "0 \<le> avail (rdma_remote (session st1)) is" by (simp add: avail_def)
    show ?thesis
    proof (cases "j + 1 = n")
      case True
      then have "n - j = 1" by simp
      then have "min (n - j) (avail ?r (i # is)) = 1" using av ge by simp
      with True rest st1 ms show ?thesis by simp
    next
      case False
      then have "j + 1 < n" using Cons.prems(6) by simp
      from Cons.IH [OF st1 _ _ this] False rest Cons.prems(4,5) obtain k' where
        "inv_off st' c (d + 1 + min (n - (j + 1)) (avail (rdma_remote (session st1)) is))"
        "heap st' cid = Some k'" "conn_index k' = int c" "mapped_size (rdma_remote (session st')) = mapped_size ?r"
        using ms by auto
      moreover have "d + 1 + min (n - (j + 1)) (avail (rdma_remote (session st1)) is) =
          d + min (n - j) (avail ?r (i # is))" using av by simp
      ultimately show ?thesis by metis
    qed
  qed
qed

text \<open>The size counters follow; the offset is what was promised and not found.\<close>

lemma conn_ok_size:
  "conn_ok r c d k \<Longrightarrow> conn_ok (r\<lparr>mapped_size := v\<rparr>) c (d - n) (k\<lparr>mapped_chunk_size := mapped_chunk_size k + n\<rparr>)"
  by (simp add: conn_ok_def)

lemma conn_ok_mapped_size: "conn_ok r c d k \<Longrightarrow> conn_ok (r\<lparr>mapped_size := v\<rparr>) c d k"
  by (simp add: conn_ok_def)

lemma count_inv:
  assumes inv: "inv_off st c d" and k: "heap st cid = Some k" "conn_index k = int c"
    and run: "upd_conn cid (\<lambda>k. set_msg g (k\<lparr>mapped_chunk_size := mapped_chunk_size k + n\<rparr>))
       (upd_remote (\<lambda>r. r\<lparr>mapped_size := mapped_size r + n\<rparr>) st) = Inr st'"
    and g: "\<And>m. message_ok m \<Longrightarrow> message_ok (g m)"
  shows "inv_off st' c (d - n)"
proof -
  let ?r = "rdma_remote (session st)"
  define k' where "k' = set_msg g (k\<lparr>mapped_chunk_size := mapped_chunk_size k + n\<rparr>)"
  have acc: "session st' = (session st)\<lparr>rdma_remote := ?r\<lparr>mapped_size := mapped_size ?r + n\<rparr>\<rparr>"
    "heap st' = (heap st)(cid \<mapsto> k')"
    using run k by (auto simp: upd_conn_def upd_remote_def k'_def)
  have tab: "table_ok st c d" and rem: "remote_ok ?r d" using inv by (simp_all add: inv_off_def)
  from table_ok_conn [OF tab k(1)] k(2) have c: "c < MAX_CLIENT" "conns (session st) ! c = Some cid"
    "conns_state (session st) ! c \<noteq> CONN_IDLE" "conn_ok ?r c d k" by auto
  have slot: "slot_ok st' c' (if c' = c then d - n else 0)" if "c' < MAX_CLIENT" for c'
  proof (cases "c' = c")
    case True
    have "conn_ok (?r\<lparr>mapped_size := mapped_size ?r + n\<rparr>) c (d - n) k'"
      using conn_ok_size [OF c(4), of "mapped_size ?r + n" n] g by (simp add: conn_ok_def k'_def set_msg_def)
    then show ?thesis using True c by (simp add: slot_ok_def acc)
  next
    case False
    with table_ok_slot [OF tab that] have s: "slot_ok st c' 0" by simp
    have "conns (session st) ! c' \<noteq> Some cid" using table_ok_inj [OF tab c(2) _ c(1) that] False by auto
    with s show ?thesis using False by (auto simp: slot_ok_def acc conn_ok_mapped_size split: option.splits)
  qed
  have "table_ok st' c (d - n)"
    using tab slot c unfolding table_ok_def acc by auto
  moreover have "remote_ok (?r\<lparr>mapped_size := mapped_size ?r + n\<rparr>) (d - n)"
    using rem by (simp add: remote_ok_def)
  ultimately show ?thesis by (simp add: inv_off_def acc)
qed

lemma send_chunks_inv:
  assumes inv: "monitor_inv st" and k: "heap st cid = Some k" "conn_index k = int c" and n: "0 < n"
    and run: "send_chunks env cid label n t st = Inr st'"
  shows "inv_off st' c (min n (avail (rdma_remote (session st)) [0..<MAX_FREE_MEM_GB]) - n)"
proof -
  let ?g = "\<lambda>m :: message. m\<lparr>size_gb := label, rkey := replicate MAX_FREE_MEM_GB 0\<rparr>"
  from run obtain st1 st2 st3 where
    s1: "upd_conn cid (set_msg ?g) st = Inr st1"
    and s2: "grant_loop env cid n [0..<MAX_FREE_MEM_GB] 0 st1 = Inr st2"
    and s3: "upd_conn cid (\<lambda>c. set_msg (\<lambda>m. m\<lparr>mtype := t\<rparr>) (c\<lparr>mapped_chunk_size := mapped_chunk_size c + n\<rparr>))
       (upd_remote (\<lambda>r. r\<lparr>mapped_size := mapped_size r + n\<rparr>) st2) = Inr st3"
    and s4: "send_message env cid st3 = Inr st'"
    by (auto simp: send_chunks_def bindE_Inr)
  have inv0: "inv_off st c 0" using inv by (simp add: inv_off_0)
  have soft: "soft (set_msg ?g)"
    by (simp add: soft_defs MAX_FREE_MEM_GB_def MAX_MR_SIZE_GB_def)
  note i1 = upd_conn_soft [OF inv0 soft s1]
  from s1 k have k1: "heap st1 cid = Some (set_msg ?g k)" "conn_index (set_msg ?g k) = int c"
    by (auto simp: upd_conn_def set_msg_def)
  from grant_loop_inv [OF i1(1) k1 _ _ n s2] obtain k2 where
    i2: "inv_off st2 c (min n (avail (rdma_remote (session st)) [0..<MAX_FREE_MEM_GB]))"
    and k2: "heap st2 cid = Some k2" "conn_index k2 = int c"
    by (auto simp: i1(2) lessThan_atLeast0)
  have "inv_off st3 c (min n (avail (rdma_remote (session st)) [0..<MAX_FREE_MEM_GB]) - n)"
    by (rule count_inv [OF i2 k2 s3]) (simp add: message_ok_def)
  then show ?thesis by (rule send_message_inv(1) [OF _ s4])
qed

section \<open>Releasing chunks\<close>

text \<open>While a release is under way, both counters lag.\<close>

definition inv_drop :: "monitor \<Rightarrow> nat \<Rightarrow> int \<Rightarrow> bool" where
  "inv_drop st c d \<longleftrightarrow> table_ok st c d \<and> remote_ok2 (rdma_remote (session st)) d d"

lemma conn_ok_drop_other:
  assumes "conn_ok r c' d k" "c' \<noteq> c" "conn_map r ! i = int c" "i < length (conn_map r)"
  shows "conn_ok (r\<lparr>mr_list := a, conn_map := (conn_map r)[i := - 1], malloc_map := b, conn_chunk_map := e\<rparr>) c' d k"
  using assms by (auto simp: conn_ok_def cnt_update nth_list_update)

lemma conn_ok_drop_self:
  assumes "conn_ok r c d k" "conn_map r ! i = int c" "i < length (conn_map r)" "i < MAX_FREE_MEM_GB"
  shows "conn_ok (r\<lparr>mr_list := a, conn_map := (conn_map r)[i := - 1], malloc_map := b, conn_chunk_map := e\<rparr>) c (d - 1)
    (k\<lparr>sess_chunk_map := (sess_chunk_map k)[i := - 1]\<rparr>)"
  using assms by (auto simp: conn_ok_def cnt_update nth_list_update)

text \<open>Dropping a tagged chunk that the connection holds.\<close>

lemma drop_chunk_inv:
  assumes inv: "inv_drop st c d" and k: "heap st cid = Some k" "conn_index k = int c"
    and i: "i < MAX_FREE_MEM_GB" "rkey (recv_msg k) ! i \<noteq> 0" "sess_chunk_map k ! i \<noteq> - 1"
  obtains st' where "drop_chunk cid i st = Inr st'" "inv_drop st' c (d - 1)"
    "heap st' cid = Some (k\<lparr>sess_chunk_map := (sess_chunk_map k)[i := - 1]\<rparr>)"
proof -
  let ?r = "rdma_remote (session st)"
  have tab: "table_ok st c d" and rem: "remote_ok2 ?r d d" using inv by (simp_all add: inv_drop_def)
  from table_ok_conn [OF tab k(1)] k(2) have c: "c < MAX_CLIENT" "conns (session st) ! c = Some cid"
    "conns_state (session st) ! c \<noteq> CONN_IDLE" "conn_ok ?r c d k" by auto
  from c(4) i have own: "sess_chunk_map k ! i = int i" "conn_map ?r ! i = int c"
    by (auto simp: conn_ok_def split: if_splits)
  have len: "i < length (conn_map ?r)" "i < length (malloc_map ?r)" "i < length (mr_list ?r)" "i < length (conn_chunk_map ?r)"
    using i rem by (simp_all add: remote_ok2_def)
  define r' where "r' = ?r\<lparr>mr_list := (mr_list ?r)[i := None], conn_map := (conn_map ?r)[i := - 1],
    malloc_map := (malloc_map ?r)[i := CHUNK_EMPTY], conn_chunk_map := (conn_chunk_map ?r)[i := - 1]\<rparr>"
  define k' where "k' = k\<lparr>sess_chunk_map := (sess_chunk_map k)[i := - 1]\<rparr>"
  define st' where "st' = st\<lparr>session := (session st)\<lparr>rdma_remote := r'\<rparr>, heap := (heap st)(cid \<mapsto> k')\<rparr>"
  have acc: "session st' = (session st)\<lparr>rdma_remote := r'\<rparr>" "heap st' = (heap st)(cid \<mapsto> k')"
    by (simp_all add: st'_def)
  have slot: "slot_ok st' c' (if c' = c then d - 1 else 0)" if "c' < MAX_CLIENT" for c'
  proof (cases "c' = c")
    case True
    then show ?thesis
      using conn_ok_drop_self [OF c(4) own(2) len(1) i(1)] c by (simp add: slot_ok_def acc r'_def k'_def)
  next
    case False
    with table_ok_slot [OF tab that] have s: "slot_ok st c' 0" by simp
    have "conns (session st) ! c' \<noteq> Some cid" using table_ok_inj [OF tab c(2) _ c(1) that] False by auto
    with s show ?thesis using False conn_ok_drop_other [OF _ False own(2) len(1)]
      by (auto simp: slot_ok_def acc r'_def split: option.splits)
  qed
  have "table_ok st' c (d - 1)"
  proof (rule table_okI [OF _ _ slot])
    fix cid' k2 assume "heap st' cid' = Some k2"
    then show "\<exists>c<MAX_CLIENT. conns (session st') ! c = Some cid'"
      using c table_ok_facts(3) [OF tab, of cid'] by (cases "cid' = cid") (auto simp: acc)
  next
    fix j assume j: "j < MAX_FREE_MEM_GB" "conn_map (rdma_remote (session st')) ! j \<noteq> - 1"
    show "\<exists>c<MAX_CLIENT. conn_map (rdma_remote (session st')) ! j = int c \<and> conns (session st') ! c \<noteq> None"
      using len j table_ok_facts(4) [OF tab, of j] by (cases "j = i") (auto simp: acc r'_def)
  qed (use table_ok_facts [OF tab] in \<open>simp_all add: acc\<close>)
  moreover have "remote_ok2 r' (d - 1) (d - 1)"
    using rem len i own
    by (auto simp: remote_ok2_def r'_def cnt_update nth_list_update CHUNK_MALLOCED_def CHUNK_EMPTY_def)
  ultimately have "inv_drop st' c (d - 1)" by (simp add: inv_drop_def acc)
  moreover have "drop_chunk cid i st = Inr st'"
    using k i own len by (simp add: drop_chunk_def Let_def upd_remote_def st'_def r'_def k'_def)
  ultimately show thesis using that by (simp add: acc k'_def)
qed

definition release_ok :: "message \<Rightarrow> connection \<Rightarrow> bool" where
  "release_ok m k \<longleftrightarrow> message_ok m \<and> size_gb m = cnt (\<lambda>x. x \<noteq> 0) (rkey m) \<and>
     (\<forall>i<MAX_FREE_MEM_GB. rkey m ! i \<noteq> 0 \<longrightarrow> sess_chunk_map k ! i \<noteq> - 1)"

lemma drop_loop_inv:
  assumes "inv_drop st c d" "heap st cid = Some k" "conn_index k = int c" "recv_msg k = m"
    and "distinct is" "set is \<subseteq> {..<MAX_FREE_MEM_GB}"
    and "\<forall>i\<in>set is. rkey m ! i \<noteq> 0 \<longrightarrow> sess_chunk_map k ! i \<noteq> - 1"
  shows "\<exists>st' k'. foldE (drop_chunk cid) is st = Inr st' \<and> heap st' cid = Some k' \<and> conn_index k' = int c \<and>
    inv_drop st' c (d - int (length (filter (\<lambda>i. rkey m ! i \<noteq> 0) is)))"
  using assms
proof (induction "is" arbitrary: st d k)
  case (Cons i "is")
  show ?case
  proof (cases "rkey m ! i = 0")
    case True
    then have "drop_chunk cid i st = Inr st" using Cons.prems by (simp add: drop_chunk_def)
    with True Cons.IH [OF Cons.prems(1-4)] Cons.prems show ?thesis by simp
  next
    case False
    with Cons.prems have i: "i < MAX_FREE_MEM_GB" "rkey (recv_msg k) ! i \<noteq> 0" "sess_chunk_map k ! i \<noteq> - 1" by auto
    obtain st1 where st1: "drop_chunk cid i st = Inr st1" "inv_drop st1 c (d - 1)"
      "heap st1 cid = Some (k\<lparr>sess_chunk_map := (sess_chunk_map k)[i := - 1]\<rparr>)"
      using drop_chunk_inv [OF Cons.prems(1-3) i] by blast
    have "\<forall>j\<in>set is. rkey m ! j \<noteq> 0 \<longrightarrow> (sess_chunk_map k)[i := - 1] ! j \<noteq> - 1"
    proof
      fix j assume "j \<in> set is"
      moreover from this have "i \<noteq> j" using Cons.prems(5) by auto
      ultimately show "rkey m ! j \<noteq> 0 \<longrightarrow> (sess_chunk_map k)[i := - 1] ! j \<noteq> - 1" using Cons.prems(7) by simp
    qed
    with Cons.IH [OF st1(2,3)] Cons.prems st1(1) False show ?thesis by (simp add: algebra_simps)
  qed
qed simp

lemma filter_upt_nth: "length xs = n \<Longrightarrow> int (length (filter (\<lambda>i. P (xs ! i)) [0..<n])) = cnt P xs"
proof -
  assume "length xs = n"
  then have "filter P xs = map ((!) xs) (filter (\<lambda>i. P (xs ! i)) [0..<n])"
    using filter_map [of P "(!) xs" "[0..<n]"] map_nth [of xs] by (simp add: comp_def)
  then show ?thesis by (simp add: cnt_def)
qed

text \<open>Changing the state of a slot that is in use.\<close>

lemma state_change_inv:
  assumes inv: "inv_off st c0 d" and k: "heap st cid = Some k" "conn_index k = int c" and "s \<noteq> CONN_IDLE"
  shows "astore (conns_state (session st)) (conn_index k) s = Inr ((conns_state (session st))[c := s])"
    and "inv_off (st\<lparr>session := (session st)\<lparr>conns_state := (conns_state (session st))[c := s]\<rparr>\<rparr>) c0 d"
proof -
  have tab: "table_ok st c0 d" using inv by (simp add: inv_off_def)
  from table_ok_conn [OF tab k(1)] k(2) have c: "c < MAX_CLIENT" "conns (session st) ! c = Some cid" by auto
  note len = table_ok_facts(1,2) [OF tab]
  show "astore (conns_state (session st)) (conn_index k) s = Inr ((conns_state (session st))[c := s])"
    using c len k(2) by (simp add: astore_def)
  let ?st = "st\<lparr>session := (session st)\<lparr>conns_state := (conns_state (session st))[c := s]\<rparr>\<rparr>"
  have "slot_ok ?st c' e" if "slot_ok st c' e" "c' < MAX_CLIENT" for c' e
    using that c len assms(4) by (auto simp: slot_ok_def nth_list_update split: option.splits)
  then have "table_ok ?st c0 d"
    using table_ok_facts [OF tab] table_ok_slot [OF tab] by (intro table_okI) auto
  then show "inv_off ?st c0 d" using inv by (simp add: inv_off_def)
qed

lemma count_drop_inv:
  assumes inv: "inv_drop st c (- g)" and k: "heap st cid = Some k" "conn_index k = int c"
    and run: "upd_conn cid (\<lambda>k. k\<lparr>mapped_chunk_size := mapped_chunk_size k - g, stop_sem := stop_sem k + 1\<rparr>)
       (upd_remote (\<lambda>r. r\<lparr>remote_size_gb := remote_size_gb r - g, mapped_size := mapped_size r - g\<rparr>) st) = Inr st'"
  shows "inv_off st' c 0"
proof -
  let ?r = "rdma_remote (session st)"
  define r' where "r' = ?r\<lparr>remote_size_gb := remote_size_gb ?r - g, mapped_size := mapped_size ?r - g\<rparr>"
  define k' where "k' = k\<lparr>mapped_chunk_size := mapped_chunk_size k - g, stop_sem := stop_sem k + 1\<rparr>"
  have acc: "session st' = (session st)\<lparr>rdma_remote := r'\<rparr>" "heap st' = (heap st)(cid \<mapsto> k')"
    using run k by (auto simp: upd_conn_def upd_remote_def k'_def r'_def)
  have tab: "table_ok st c (- g)" and rem: "remote_ok2 ?r (- g) (- g)" using inv by (simp_all add: inv_drop_def)
  from table_ok_conn [OF tab k(1)] k(2) have c: "c < MAX_CLIENT" "conns (session st) ! c = Some cid"
    "conns_state (session st) ! c \<noteq> CONN_IDLE" "conn_ok ?r c (- g) k" by auto
  have slot: "slot_ok st' c' 0" if "c' < MAX_CLIENT" for c'
  proof (cases "c' = c")
    case True
    have "conn_ok r' c 0 k'" using c(4) by (simp add: conn_ok_def r'_def k'_def)
    then show ?thesis using True c by (simp add: slot_ok_def acc)
  next
    case False
    with table_ok_slot [OF tab that] have s: "slot_ok st c' 0" by simp
    have "conns (session st) ! c' \<noteq> Some cid" using table_ok_inj [OF tab c(2) _ c(1) that] False by auto
    with s show ?thesis by (auto simp: slot_ok_def acc conn_ok_def r'_def split: option.splits)
  qed
  have "table_ok st' c 0"
  proof (rule table_okI)
    fix cid' k2 assume "heap st' cid' = Some k2"
    then show "\<exists>c<MAX_CLIENT. conns (session st') ! c = Some cid'"
      using c table_ok_facts(3) [OF tab, of cid'] by (cases "cid' = cid") (auto simp: acc)
  qed (use table_ok_facts [OF tab] slot in \<open>simp_all add: acc r'_def\<close>)
  moreover have "remote_ok r' 0" using rem by (simp add: remote_ok2_def r'_def)
  ultimately show ?thesis by (simp add: inv_off_def acc)
qed

lemma recv_done_inv:
  assumes inv: "monitor_inv st" and k: "heap st cid = Some k" and rel: "release_ok (recv_msg k) k"
    and run: "recv_done env cid st = Inr st'"
  shows "monitor_inv st'"
proof -
  let ?g = "size_gb (recv_msg k)"
  have tab: "table_ok st 0 0" using inv by (simp add: monitor_inv_def inv_off_def)
  from table_ok_conn [OF tab k] obtain c where c: "c < MAX_CLIENT" "conn_index k = int c" by blast
  have drop0: "inv_drop st c 0" using inv inv_off_0 [of st c] by (simp add: inv_off_def inv_drop_def)
  have "\<exists>st1 k1. foldE (drop_chunk cid) [0..<MAX_FREE_MEM_GB] st = Inr st1 \<and> heap st1 cid = Some k1 \<and>
      conn_index k1 = int c \<and>
      inv_drop st1 c (0 - int (length (filter (\<lambda>i. rkey (recv_msg k) ! i \<noteq> 0) [0..<MAX_FREE_MEM_GB])))"
    by (rule drop_loop_inv [OF drop0 k c(2) refl]) (use rel in \<open>auto simp: release_ok_def\<close>)
  moreover have "int (length (filter (\<lambda>i. rkey (recv_msg k) ! i \<noteq> 0) [0..<MAX_FREE_MEM_GB])) = ?g"
    using rel filter_upt_nth [of "rkey (recv_msg k)" MAX_FREE_MEM_GB "\<lambda>x. x \<noteq> 0"]
    by (simp add: release_ok_def message_ok_def MAX_FREE_MEM_GB_def MAX_MR_SIZE_GB_def)
  ultimately obtain st1 k1 where
    l: "foldE (drop_chunk cid) [0..<MAX_MR_SIZE_GB] st = Inr st1" "heap st1 cid = Some k1" "conn_index k1 = int c"
    and i1: "inv_drop st1 c (- ?g)"
    by (auto simp: MAX_FREE_MEM_GB_def MAX_MR_SIZE_GB_def)
  from run k l(1) obtain st2 st3 where
    s2: "upd_conn cid (\<lambda>c. c\<lparr>mapped_chunk_size := mapped_chunk_size c - ?g, stop_sem := stop_sem c + 1\<rparr>)
       (upd_remote (\<lambda>r. r\<lparr>remote_size_gb := remote_size_gb r - ?g, mapped_size := mapped_size r - ?g\<rparr>) st1) = Inr st2"
    and s3: "(if mapped_chunk_size k - ?g = 0
            then bindE (astore (conns_state (session st2)) (conn_index k) CONN_CONNECTED)
                   (\<lambda>css. Inr (st2\<lparr>session := (session st2)\<lparr>conns_state := css\<rparr>\<rparr>))
            else Inr st2) = Inr st3"
    and s4: "post_receives env cid st3 = Inr st'"
    by (auto simp: recv_done_def Let_def bindE_Inr)
  have i2: "inv_off st2 c 0" by (rule count_drop_inv [OF i1 l(2,3) s2])
  from s2 l(2,3) c obtain k2 where k2: "heap st2 cid = Some k2" "conn_index k2 = int c"
    by (auto simp: upd_conn_def upd_remote_def)
  have "inv_off st3 c 0"
    using s3 i2 state_change_inv [OF i2 k2, of CONN_CONNECTED] k2(2) c(2) by (auto split: if_splits)
  from post_receives_inv(1) [OF this s4] show ?thesis by (simp add: inv_off_0)
qed

lemma mark_mapped_inv:
  assumes "monitor_inv st" "mark_mapped cid st = Inr st'"
  shows "monitor_inv st'"
proof -
  from assms(2) obtain k where k: "heap st cid = Some k" by (auto simp: mark_mapped_def split: option.splits)
  have inv: "inv_off st 0 0" using assms(1) by (simp add: monitor_inv_def)
  then have tab: "table_ok st 0 0" by (simp add: inv_off_def)
  from table_ok_conn [OF tab k] obtain c where c: "conn_index k = int c" by blast
  from state_change_inv [OF inv k c, of CONN_MAPPED] assms(2) k c show ?thesis
    by (simp add: mark_mapped_def monitor_inv_def)
qed

section \<open>Closing a connection\<close>

lemma foldE_append: "foldE f (xs @ ys) s = bindE (foldE f xs s) (foldE f ys)"
proof (induction xs arbitrary: s)
  case (Cons x xs)
  then show ?case by (cases "f x s") simp_all
qed simp

definition forget :: "int \<Rightarrow> nat \<Rightarrow> int list \<Rightarrow> int list" where
  "forget c n cm = map (\<lambda>j. if j < n \<and> cm ! j = c then - 1 else cm ! j) [0..<length cm]"

lemma length_forget [simp]: "length (forget c n cm) = length cm"
  by (simp add: forget_def)

lemma forget_all: "forget c (length cm) cm = map (\<lambda>x. if x = c then - 1 else x) cm"
  by (rule nth_equalityI) (simp_all add: forget_def)

lemma unmap_loop:
  assumes k: "conn_ok (rdma_remote (session st)) c d k" and n: "n \<le> MAX_FREE_MEM_GB"
    and len: "length (conn_map (rdma_remote (session st))) = MAX_FREE_MEM_GB"
      "length (conn_chunk_map (rdma_remote (session st))) = MAX_FREE_MEM_GB"
  shows "\<exists>ccm. foldE (\<lambda>i. unmap_chunk (sess_chunk_map k ! i)) [0..<n] st =
      Inr (upd_remote (\<lambda>r. r\<lparr>conn_map := forget (int c) n (conn_map r), conn_chunk_map := ccm\<rparr>) st) \<and>
    length ccm = MAX_FREE_MEM_GB"
  using n
proof (induction n)
  case 0
  have "forget (int c) 0 (conn_map (rdma_remote (session st))) = conn_map (rdma_remote (session st))"
    by (simp add: forget_def map_nth)
  then show ?case using len by (intro exI [of _ "conn_chunk_map (rdma_remote (session st))"]) (simp add: upd_remote_def)
next
  case (Suc n)
  let ?r = "rdma_remote (session st)"
  from Suc obtain ccm where IH: "foldE (\<lambda>i. unmap_chunk (sess_chunk_map k ! i)) [0..<n] st =
      Inr (upd_remote (\<lambda>r. r\<lparr>conn_map := forget (int c) n (conn_map r), conn_chunk_map := ccm\<rparr>) st)"
    "length ccm = MAX_FREE_MEM_GB" by auto
  have own: "sess_chunk_map k ! n = (if conn_map ?r ! n = int c then int n else - 1)"
    using k Suc.prems by (simp add: conn_ok_def)
  show ?case
  proof (cases "conn_map ?r ! n = int c")
    case True
    have "(forget (int c) n (conn_map ?r))[n := - 1] = forget (int c) (Suc n) (conn_map ?r)"
    proof (rule nth_equalityI)
      fix i assume "i < length ((forget (int c) n (conn_map ?r))[n := - 1])"
      then show "(forget (int c) n (conn_map ?r))[n := - 1] ! i = forget (int c) (Suc n) (conn_map ?r) ! i"
        using True by (cases "i = n") (auto simp: forget_def less_Suc_eq)
    qed simp
    moreover have "unmap_chunk (int n) (upd_remote (\<lambda>r. r\<lparr>conn_map := forget (int c) n (conn_map r), conn_chunk_map := ccm\<rparr>) st) =
        Inr (upd_remote (\<lambda>r. r\<lparr>conn_map := (forget (int c) n (conn_map ?r))[n := - 1], conn_chunk_map := ccm[n := - 1]\<rparr>) st)"
      using IH(2) len Suc.prems by (simp add: unmap_chunk_def upd_remote_def Let_def)
    ultimately show ?thesis using True own IH len Suc.prems
      by (intro exI [of _ "ccm[n := - 1]"]) (simp add: foldE_append, simp add: upd_remote_def)
  next
    case False
    then have "forget (int c) (Suc n) (conn_map ?r) = forget (int c) n (conn_map ?r)"
      by (auto simp: forget_def less_Suc_eq)
    moreover have "unmap_chunk (- 1) s = Inr s" for s by (simp add: unmap_chunk_def)
    ultimately show ?thesis using False own IH
      by (intro exI [of _ ccm]) (simp add: foldE_append, simp add: upd_remote_def)
  qed
qed

lemma cnt_forget:
  "c \<noteq> - 1 \<Longrightarrow> cnt (\<lambda>x. x \<noteq> - 1) (map (\<lambda>x. if x = c then - 1 else x) cm) =
     cnt (\<lambda>x. x \<noteq> - 1) cm - cnt (\<lambda>x. x = c) cm"
  "c' \<noteq> - 1 \<Longrightarrow> c' \<noteq> c \<Longrightarrow> cnt (\<lambda>x. x = c') (map (\<lambda>x. if x = c then - 1 else x) cm) = cnt (\<lambda>x. x = c') cm"
  by (induction cm) (auto simp: cnt_def)

lemma cnt_nonneg: "0 \<le> cnt P xs"
  by (simp add: cnt_def)

lemma cnt_zero: "cnt P xs = 0 \<Longrightarrow> x \<in> set xs \<Longrightarrow> \<not> P x"
  by (auto simp: cnt_def filter_empty_conv)

lemma forget_none: "cnt (\<lambda>x. x = c) cm = 0 \<Longrightarrow> map (\<lambda>x. if x = c then - 1 else x) cm = cm"
  using cnt_zero [of "\<lambda>x. x = c" cm] by (intro map_idI) auto

lemma conn_ok_forget:
  assumes "conn_ok r c' 0 k" "c' \<noteq> c" "length (conn_map r) = MAX_FREE_MEM_GB"
  shows "conn_ok (r\<lparr>conn_map := map (\<lambda>x. if x = int c then - 1 else x) (conn_map r), conn_chunk_map := e, mapped_size := v\<rparr>) c' 0 k"
  using assms by (auto simp: conn_ok_def cnt_forget)

lemma destroy_connection_inv:
  assumes inv: "monitor_inv st" and run: "destroy_connection cid st = Inr st'"
  shows "monitor_inv st'" and "heap st' cid = None" and "running st' \<longleftrightarrow> running st \<and> conn_num (session st') \<noteq> 0"
proof -
  let ?r = "rdma_remote (session st)"
  from run obtain k where k: "heap st cid = Some k" by (auto simp: destroy_connection_def split: option.splits)
  have tab: "table_ok st 0 0" and rem: "remote_ok ?r 0" using inv by (simp_all add: monitor_inv_def inv_off_def)
  from table_ok_conn [OF tab k] obtain c where c: "c < MAX_CLIENT" "conns (session st) ! c = Some cid"
    "conn_ok ?r c 0 k" "conn_index k = int c" by (metis if_cancel)
  have len: "length (conn_map ?r) = MAX_FREE_MEM_GB" "length (conn_chunk_map ?r) = MAX_FREE_MEM_GB"
    using rem by (simp_all add: remote_ok2_def)
  note tl = table_ok_facts(1,2) [OF tab]
  have mcs: "mapped_chunk_size k = cnt (\<lambda>x. x = int c) (conn_map ?r)" using c(3) by (simp add: conn_ok_def)
  let ?cm = "map (\<lambda>x. if x = int c then - 1 else x) (conn_map ?r)"
  obtain ccm where ccm: "length ccm = MAX_FREE_MEM_GB"
    and phase: "(if mapped_chunk_size k > 0
            then bindE (foldE (\<lambda>i. unmap_chunk (sess_chunk_map k ! i)) [0..<MAX_MR_SIZE_GB] st)
                   (\<lambda>st. Inr (upd_remote (\<lambda>r. r\<lparr>mapped_size := mapped_size r - mapped_chunk_size k\<rparr>) st))
            else Inr st) =
        Inr (upd_remote (\<lambda>r. r\<lparr>conn_map := ?cm, conn_chunk_map := ccm, mapped_size := mapped_size r - mapped_chunk_size k\<rparr>) st)"
  proof (cases "mapped_chunk_size k > 0")
    case True
    from unmap_loop [OF c(3) order_refl len] obtain ccm where
      l: "foldE (\<lambda>i. unmap_chunk (sess_chunk_map k ! i)) [0..<MAX_FREE_MEM_GB] st =
        Inr (upd_remote (\<lambda>r. r\<lparr>conn_map := forget (int c) MAX_FREE_MEM_GB (conn_map r), conn_chunk_map := ccm\<rparr>) st)"
      "length ccm = MAX_FREE_MEM_GB" by blast
    have "forget (int c) MAX_FREE_MEM_GB (conn_map ?r) = ?cm" using forget_all [of "int c" "conn_map ?r"] len by simp
    moreover have "MAX_MR_SIZE_GB = MAX_FREE_MEM_GB" by (simp add: MAX_MR_SIZE_GB_def MAX_FREE_MEM_GB_def)
    ultimately show thesis using True l by (intro that [OF l(2)]) (simp add: upd_remote_def)
  next
    case False
    then have z: "cnt (\<lambda>x. x = int c) (conn_map ?r) = 0" using mcs cnt_nonneg by (metis order_le_less)
    then have "?cm = conn_map ?r" by (rule forget_none)
    with False mcs z show thesis by (intro that [OF len(2)]) (simp add: upd_remote_def)
  qed
  define r' where "r' = ?r\<lparr>conn_map := ?cm, conn_chunk_map := ccm, mapped_size := mapped_size ?r - mapped_chunk_size k\<rparr>"
  from run k phase c tl have
    acc: "session st' = (session st)\<lparr>rdma_remote := r', conns := (conns (session st))[c := None],
        conns_state := (conns_state (session st))[c := CONN_IDLE], conn_num := conn_num (session st) - 1\<rparr>"
      "heap st' = (heap st)(cid := None)" "running st' \<longleftrightarrow> running st \<and> conn_num (session st) - 1 \<noteq> 0"
    by (auto simp: destroy_connection_def upd_remote_def Let_def astore_def r'_def)
  show "heap st' cid = None" "running st' \<longleftrightarrow> running st \<and> conn_num (session st') \<noteq> 0" by (simp_all add: acc)
  have slot: "slot_ok st' c' 0" if "c' < MAX_CLIENT" for c'
  proof (cases "c' = c")
    case True
    then show ?thesis using that tl by (simp add: slot_ok_def acc)
  next
    case False
    from table_ok_slot [OF tab that] have s: "slot_ok st c' 0" by (simp only: if_cancel)
    have "conns (session st) ! c' \<noteq> Some cid" using table_ok_inj [OF tab c(2) _ c(1) that] False by auto
    with s False show ?thesis using conn_ok_forget [OF _ False len(1)]
      by (auto simp: slot_ok_def acc r'_def split: option.splits)
  qed
  have "table_ok st' 0 0"
  proof (rule table_okI)
    fix cid' k2 assume "heap st' cid' = Some k2"
    then have "cid' \<noteq> cid" "heap st cid' = Some k2" by (auto simp: acc split: if_splits)
    from table_ok_facts(3) [OF tab this(2)] obtain c2 where c2: "c2 < MAX_CLIENT" "conns (session st) ! c2 = Some cid'" by blast
    with c(2) \<open>cid' \<noteq> cid\<close> have "c2 \<noteq> c" by auto
    with c2 show "\<exists>c<MAX_CLIENT. conns (session st') ! c = Some cid'"
      by (intro exI [of _ c2]) (simp add: acc)
  next
    fix i assume i: "i < MAX_FREE_MEM_GB" "conn_map (rdma_remote (session st')) ! i \<noteq> - 1"
    then have "conn_map ?r ! i \<noteq> - 1" "conn_map ?r ! i \<noteq> int c" "conn_map (rdma_remote (session st')) ! i = conn_map ?r ! i"
      using len by (auto simp: acc r'_def split: if_splits)
    with table_ok_facts(4) [OF tab i(1)]
    show "\<exists>c<MAX_CLIENT. conn_map (rdma_remote (session st')) ! i = int c \<and> conns (session st') ! c \<noteq> None"
      by (auto simp: acc)
  next
    show "conn_num (session st') = cnt (\<lambda>x. x \<noteq> None) (conns (session st'))"
      using table_ok_facts(5) [OF tab] c tl by (simp add: acc cnt_update)
  qed (use slot tl in \<open>simp_all add: acc\<close>)
  moreover have "remote_ok r' 0"
    using rem ccm mcs by (auto simp: remote_ok2_def r'_def cnt_forget)
  ultimately show "monitor_inv st'" by (simp add: monitor_inv_def inv_off_def acc)
qed

section \<open>Opening a connection\<close>

lemma find_upt: "find P [0..<n] = Some i \<Longrightarrow> i < n \<and> P i"
  by (metis add.left_neutral find_Some_iff length_upt nth_upt diff_zero)

lemma find_upt_None: "find P [0..<n] = None \<longleftrightarrow> (\<forall>i<n. \<not> P i)"
  by (auto simp: find_None_iff)

definition fresh_ok :: "verbs \<Rightarrow> bool" where
  "fresh_ok env \<longleftrightarrow> message_ok (recv_msg (fresh_conn env)) \<and> message_ok (send_msg (fresh_conn env))"

lemma build_connection_inv:
  assumes inv: "monitor_inv st" and new: "heap st cid = None" and env: "fresh_ok env"
    and idle: "\<exists>c<MAX_CLIENT. conns_state (session st) ! c = CONN_IDLE"
    and run: "build_connection env v cid st = Inr st'"
  shows "monitor_inv st'"
proof -
  from idle obtain c where f: "find (\<lambda>i. conns_state (session st) ! i = CONN_IDLE) [0..<MAX_CLIENT] = Some c"
    by (cases "find (\<lambda>i. conns_state (session st) ! i = CONN_IDLE) [0..<MAX_CLIENT]") (auto simp: find_upt_None)
  from find_upt [OF f] have c: "c < MAX_CLIENT" "conns_state (session st) ! c = CONN_IDLE" by auto
  let ?r = "rdma_remote (session st)"
  define k where "k = (fresh_conn env)\<lparr>send_state_of := SS_INIT, recv_state_of := RS_INIT,
                  server_state_of := S_WAIT, connected := False, cq_qp_state := CQ_QP_BUSY, free_mem_gb := 0,
                  stop_sem := 0, evict_sem := 0, sess_chunk_map := replicate MAX_FREE_MEM_GB (- 1),
                  mapped_chunk_size := 0, posted_recvs := 0, conn_index := int c\<rparr>"
  define st1 where "st1 = st\<lparr>session := (session st)\<lparr>conns := (conns (session st))[c := Some cid],
      conns_state := (conns_state (session st))[c := CONN_CONNECTED], conn_num := conn_num (session st) + 1\<rparr>,
      heap := (heap st)(cid \<mapsto> k)\<rparr>"
  have acc: "session st1 = (session st)\<lparr>conns := (conns (session st))[c := Some cid],
      conns_state := (conns_state (session st))[c := CONN_CONNECTED], conn_num := conn_num (session st) + 1\<rparr>"
    "heap st1 = (heap st)(cid \<mapsto> k)" by (simp_all add: st1_def)
  from run obtain st0 where ctx: "build_context env v st = Inr st0"
    and post: "post_receives env cid (st0\<lparr>session := session st1, heap := heap st1\<rparr>) = Inr st'"
  proof -
    from run obtain st0 where ctx: "build_context env v st = Inr st0" by (auto simp: build_connection_def bindE_Inr)
    then have "session st0 = session st" "heap st0 = heap st"
      by (auto simp: build_context_def split: option.splits if_splits)
    with run ctx f show thesis
      by (intro that [OF ctx]) (simp add: build_connection_def Let_def acc k_def split: if_splits)
  qed
  have tab: "table_ok st 0 0" and rem: "remote_ok ?r 0" using inv by (simp_all add: monitor_inv_def inv_off_def)
  note tl = table_ok_facts(1,2) [OF tab]
  from table_ok_slot [OF tab c(1)] c(2) have none: "conns (session st) ! c = None"
    by (auto simp: slot_ok_def split: option.splits)
  have unused: "conn_map ?r ! i \<noteq> int c" if "i < MAX_FREE_MEM_GB" for i
    using table_ok_facts(4) [OF tab that] none by (cases "conn_map ?r ! i = - 1") auto
  then have "cnt (\<lambda>x. x = int c) (conn_map ?r) = 0"
    using rem by (auto simp: cnt_def remote_ok2_def filter_empty_conv in_set_conv_nth)
  with unused env have kok: "conn_ok ?r c 0 k" by (auto simp: conn_ok_def k_def fresh_ok_def)
  let ?st = "st0\<lparr>session := session st1, heap := heap st1\<rparr>"
  have slot: "slot_ok ?st c' 0" if "c' < MAX_CLIENT" for c'
  proof (cases "c' = c")
    case True
    then show ?thesis using kok tl c by (simp add: slot_ok_def acc)
  next
    case False
    from table_ok_slot [OF tab that] have s: "slot_ok st c' 0" by (simp only: if_cancel)
    with False new show ?thesis by (auto simp: slot_ok_def acc split: option.splits)
  qed
  have "table_ok ?st 0 0"
  proof (rule table_okI)
    fix cid' k2 assume "heap ?st cid' = Some k2"
    then show "\<exists>c<MAX_CLIENT. conns (session ?st) ! c = Some cid'"
    proof (cases "cid' = cid")
      case False
      with \<open>heap ?st cid' = Some k2\<close> have "heap st cid' = Some k2" by (simp add: acc)
      from table_ok_facts(3) [OF tab this] obtain c2 where c2: "c2 < MAX_CLIENT" "conns (session st) ! c2 = Some cid'" by blast
      with none have "c2 \<noteq> c" by auto
      with c2 show ?thesis by (intro exI [of _ c2]) (simp add: acc)
    qed (use c tl in \<open>auto simp: acc\<close>)
  next
    fix i assume i: "i < MAX_FREE_MEM_GB" "conn_map (rdma_remote (session ?st)) ! i \<noteq> - 1"
    with table_ok_facts(4) [OF tab i(1)] unused [OF i(1)]
    show "\<exists>c<MAX_CLIENT. conn_map (rdma_remote (session ?st)) ! i = int c \<and> conns (session ?st) ! c \<noteq> None"
      by (auto simp: acc)
  next
    show "conn_num (session ?st) = cnt (\<lambda>x. x \<noteq> None) (conns (session ?st))"
      using table_ok_facts(5) [OF tab] c tl none by (simp add: acc cnt_update)
  qed (use slot tl in \<open>simp_all add: acc\<close>)
  moreover have "remote_ok (rdma_remote (session ?st)) 0" using rem by (simp add: acc)
  ultimately have "inv_off ?st 0 0" by (simp add: inv_off_def)
  from post_receives_inv(1) [OF this post] show ?thesis by (simp add: monitor_inv_def)
qed

section \<open>The memory thread\<close>

lemma remote_change_inv:
  assumes "monitor_inv st" "remote_ok r 0" "conn_map r = conn_map (rdma_remote (session st))"
  shows "monitor_inv (upd_remote (\<lambda>_. r) st)"
proof -
  let ?st = "upd_remote (\<lambda>_. r) st"
  have tab: "table_ok st 0 0" using assms(1) by (simp add: monitor_inv_def inv_off_def)
  have "slot_ok ?st c 0" if "c < MAX_CLIENT" for c
    using table_ok_slot [OF tab that] assms(3)
    by (auto simp: slot_ok_def upd_remote_def conn_ok_def split: option.splits)
  then have "table_ok ?st 0 0"
    using table_ok_facts [OF tab] assms(3) by (intro table_okI) (simp_all add: upd_remote_def)
  with assms(2) show ?thesis by (simp add: monitor_inv_def inv_off_def upd_remote_def)
qed

lemma remote_ok_empty:
  assumes "remote_ok2 r 0 e" "i < MAX_FREE_MEM_GB" "chunk_free r i"
  shows "remote_ok2 (r\<lparr>malloc_map := (malloc_map r)[i := CHUNK_EMPTY]\<rparr>) 0 (e - 1)"
  using assms by (auto simp: remote_ok2_def chunk_free_def cnt_update nth_list_update CHUNK_MALLOCED_def CHUNK_EMPTY_def)

lemma free_unmapped_inv:
  "free_unmapped is g f r = (f', r') \<Longrightarrow> remote_ok2 r 0 (- f) \<Longrightarrow> set is \<subseteq> {..<MAX_FREE_MEM_GB} \<Longrightarrow> f < g \<Longrightarrow>
    remote_ok2 r' 0 (- f') \<and> conn_map r' = conn_map r \<and> f \<le> f' \<and> f' \<le> g \<and>
    (\<forall>i. malloc_map r' ! i \<noteq> malloc_map r ! i \<longrightarrow> i < MAX_FREE_MEM_GB \<and> conn_map r ! i = - 1) \<and>
    remote_size_gb r' = remote_size_gb r"
proof (induction "is" arbitrary: f r)
  case (Cons i "is")
  let ?r = "r\<lparr>malloc_map := (malloc_map r)[i := CHUNK_EMPTY]\<rparr>"
  show ?case
  proof (cases "chunk_free r i")
    case True
    have ok: "remote_ok2 ?r 0 (- (f + 1))" using remote_ok_empty [OF Cons.prems(2) _ True] Cons.prems(3) by simp
    have upd: "malloc_map ?r ! j \<noteq> malloc_map r ! j \<Longrightarrow> j < MAX_FREE_MEM_GB \<and> conn_map r ! j = - 1" for j
      using True Cons.prems(3) by (cases "j = i") (auto simp: chunk_free_def)
    show ?thesis
    proof (cases "f + 1 = g")
      case True
      with \<open>chunk_free r i\<close> Cons.prems(1) have "f' = f + 1" "r' = ?r" by (auto simp: Let_def)
      with ok True upd show ?thesis by simp
    next
      case False
      with \<open>chunk_free r i\<close> Cons.prems have run: "free_unmapped is g (f + 1) ?r = (f', r')" by (simp add: Let_def)
      have "f + 1 < g" using False Cons.prems(4) by simp
      from Cons.IH [OF run ok _ this] Cons.prems(3) upd show ?thesis by (auto, (metis+)?)
    qed
  qed (use Cons in auto)
qed simp

lemma evict_unmapped_inv:
  assumes "monitor_inv st" "0 < g" "evict_unmapped g st = (b, e, st')"
  shows "monitor_inv st'" and "0 \<le> e" and "b \<longleftrightarrow> e = 0"
    and "remote_size_gb (rdma_remote (session st')) = remote_size_gb (rdma_remote (session st)) - (g - e)"
    and "conn_map (rdma_remote (session st')) = conn_map (rdma_remote (session st))"
proof -
  let ?r = "rdma_remote (session st)"
  obtain f r where run: "free_unmapped [0..<MAX_FREE_MEM_GB] g 0 ?r = (f, r)" by fastforce
  have "remote_ok2 ?r 0 (- 0)" using assms(1) by (simp add: monitor_inv_def inv_off_def)
  note l = free_unmapped_inv [OF run this _ assms(2)]
  have ok: "remote_ok2 r 0 (- f)" "conn_map r = conn_map ?r" "f \<le> g" "remote_size_gb r = remote_size_gb ?r"
    using l by (auto simp: lessThan_atLeast0)
  have res: "b = (f = g)" "e = g - f" "st' = upd_remote (\<lambda>_. r\<lparr>remote_size_gb := remote_size_gb r - f\<rparr>) st"
    using assms(3) run by (auto simp: evict_unmapped_def)
  show "monitor_inv st'"
    unfolding res(3) using ok by (intro remote_change_inv [OF assms(1)]) (simp_all add: remote_ok2_def)
  show "0 \<le> e" "b \<longleftrightarrow> e = 0" "remote_size_gb (rdma_remote (session st')) = remote_size_gb ?r - (g - e)"
    "conn_map (rdma_remote (session st')) = conn_map ?r"
    using ok by (auto simp: res upd_remote_def)
qed

lemma alloc_chunks_inv:
  assumes "j < g" "distinct is" "set is \<subseteq> {..<length m}" "\<forall>i<length m. m ! i = CHUNK_MALLOCED \<or> m ! i = CHUNK_EMPTY"
  defines "m' \<equiv> alloc_chunks is g j m"
  shows "length m' = length m \<and> (\<forall>i<length m. m' ! i = CHUNK_MALLOCED \<or> m' ! i = m ! i) \<and>
    cnt (\<lambda>x. x = CHUNK_MALLOCED) m' =
      cnt (\<lambda>x. x = CHUNK_MALLOCED) m + min (g - j) (int (length (filter (\<lambda>i. m ! i = CHUNK_EMPTY) is)))"
  using assms(1-4) unfolding m'_def
proof (induction "is" arbitrary: j m)
  case (Cons i "is")
  show ?case
  proof (cases "m ! i = CHUNK_EMPTY")
    case True
    let ?m = "m[i := CHUNK_MALLOCED]"
    have i: "i < length m" using Cons.prems(3) by simp
    have one: "cnt (\<lambda>x. x = CHUNK_MALLOCED) ?m = cnt (\<lambda>x. x = CHUNK_MALLOCED) m + 1"
      using True i by (simp add: cnt_update CHUNK_MALLOCED_def CHUNK_EMPTY_def)
    have same: "filter (\<lambda>i. ?m ! i = CHUNK_EMPTY) is = filter (\<lambda>i. m ! i = CHUNK_EMPTY) is"
    proof (rule filter_cong [OF refl])
      fix q assume "q \<in> set is"
      then have "q \<noteq> i" using Cons.prems(2) by auto
      then show "(?m ! q = CHUNK_EMPTY) = (m ! q = CHUNK_EMPTY)" by simp
    qed
    show ?thesis
    proof (cases "j + 1 = g")
      case True
      with \<open>m ! i = CHUNK_EMPTY\<close> i one show ?thesis by (auto simp: Let_def nth_list_update)
    next
      case False
      then have "j + 1 < g" using Cons.prems(1) by simp
      from Cons.IH [OF this, of ?m] Cons.prems(2-4) i have
        "length (alloc_chunks is g (j + 1) ?m) = length m \<and>
         (\<forall>q<length m. alloc_chunks is g (j + 1) ?m ! q = CHUNK_MALLOCED \<or> alloc_chunks is g (j + 1) ?m ! q = ?m ! q) \<and>
         cnt (\<lambda>x. x = CHUNK_MALLOCED) (alloc_chunks is g (j + 1) ?m) = cnt (\<lambda>x. x = CHUNK_MALLOCED) ?m +
           min (g - (j + 1)) (int (length (filter (\<lambda>i. ?m ! i = CHUNK_EMPTY) is)))"
        by (auto simp: nth_list_update)
      with False \<open>m ! i = CHUNK_EMPTY\<close> one same i show ?thesis by (auto simp: Let_def nth_list_update min_def) metis
    qed
  qed (use Cons in auto)
qed (simp add: cnt_def)

lemma cnt_compl: "cnt P xs + cnt (\<lambda>x. \<not> P x) xs = int (length xs)"
  using sum_length_filter_compl [of P xs] by (simp add: cnt_def)

lemma expand_mem_inv:
  assumes inv: "monitor_inv st" and g: "0 < g" and run: "expand_mem g st = (e, st')"
  shows "monitor_inv st'"
proof -
  let ?r = "rdma_remote (session st)"
  have rem: "remote_ok ?r 0" using inv by (simp add: monitor_inv_def inv_off_def)
  define m' where "m' = alloc_chunks [0..<MAX_FREE_MEM_GB] e 0 (malloc_map ?r)"
  define r' where "r' = ?r\<lparr>malloc_map := m', remote_size_gb := remote_size_gb ?r + e\<rparr>"
  have e: "e = (if g + remote_size_gb ?r > int MAX_FREE_MEM_GB then int MAX_FREE_MEM_GB - remote_size_gb ?r else g)"
    and st': "st' = upd_remote (\<lambda>_. r') st"
    using run by (auto simp: expand_mem_def Let_def m'_def r'_def upd_remote_def)
  have bin: "\<forall>i<MAX_FREE_MEM_GB. malloc_map ?r ! i = CHUNK_MALLOCED \<or> malloc_map ?r ! i = CHUNK_EMPTY"
    and len: "length (malloc_map ?r) = MAX_FREE_MEM_GB"
    and sz: "remote_size_gb ?r = cnt (\<lambda>x. x = CHUNK_MALLOCED) (malloc_map ?r)"
    using rem by (simp_all add: remote_ok2_def)
  have "filter (\<lambda>i. malloc_map ?r ! i = CHUNK_EMPTY) [0..<MAX_FREE_MEM_GB] =
      filter (\<lambda>i. malloc_map ?r ! i \<noteq> CHUNK_MALLOCED) [0..<MAX_FREE_MEM_GB]"
    using bin by (intro filter_cong) (auto simp: CHUNK_MALLOCED_def CHUNK_EMPTY_def)
  then have empties: "int (length (filter (\<lambda>i. malloc_map ?r ! i = CHUNK_EMPTY) [0..<MAX_FREE_MEM_GB])) =
      int MAX_FREE_MEM_GB - remote_size_gb ?r"
    using filter_upt_nth [OF len, of "\<lambda>x. x \<noteq> CHUNK_MALLOCED"]
      cnt_compl [of "\<lambda>x. x = CHUNK_MALLOCED" "malloc_map ?r"] len sz by simp
  then have le: "remote_size_gb ?r \<le> int MAX_FREE_MEM_GB" by linarith
  have m': "length m' = MAX_FREE_MEM_GB \<and> (\<forall>i<MAX_FREE_MEM_GB. m' ! i = CHUNK_MALLOCED \<or> m' ! i = malloc_map ?r ! i) \<and>
      cnt (\<lambda>x. x = CHUNK_MALLOCED) m' = remote_size_gb ?r + e"
  proof (cases "0 < e")
    case True
    from alloc_chunks_inv [OF this, of "[0..<MAX_FREE_MEM_GB]" "malloc_map ?r"] bin len empties sz e g
    show ?thesis by (simp add: m'_def lessThan_atLeast0 min_def)
  next
    case False
    then have "e = 0" using e g le by (auto split: if_splits)
    moreover have "int (length (filter (\<lambda>i. malloc_map ?r ! i = CHUNK_EMPTY) [0..<MAX_FREE_MEM_GB])) = 0"
      using False e g le empties by (auto split: if_splits)
    then have "\<forall>i<MAX_FREE_MEM_GB. malloc_map ?r ! i \<noteq> CHUNK_EMPTY" by (simp add: filter_empty_conv)
    then have "alloc_chunks is 0 0 (malloc_map ?r) = malloc_map ?r" if "set is \<subseteq> {..<MAX_FREE_MEM_GB}" for "is"
      using that by (induction "is") auto
    ultimately show ?thesis using len sz by (simp add: m'_def lessThan_atLeast0)
  qed
  have "\<forall>i<MAX_FREE_MEM_GB. m' ! i = CHUNK_MALLOCED \<or> m' ! i = CHUNK_EMPTY"
    using m' bin by metis
  then have "remote_ok r' 0" using rem m' unfolding remote_ok2_def r'_def by (simp, metis)
  then show ?thesis unfolding st' by (intro remote_change_inv [OF inv]) (simp_all add: r'_def)
qed

section \<open>Start\<close>

lemma initial_size_range: "0 \<le> initial_size g \<and> initial_size g \<le> int MAX_FREE_MEM_GB"
  by (simp add: initial_size_def Let_def MAX_FREE_MEM_GB_def FREE_MEM_EXPAND_THRESHOLD_def FREE_MEM_EVICT_THRESHOLD_def)

definition initial_monitor :: "string \<Rightarrow> monitor" where
  "initial_monitor meminfo =
     \<lparr>session = rdma_session_init meminfo, heap = (\<lambda>_. None), running = True, s_ctx = None, sent = []\<rparr>"

lemma fill_prefix:
  "n \<le> m \<Longrightarrow> fold (\<lambda>i l. l[i := v]) [0..<n] (replicate m w) = replicate n v @ replicate (m - n) w"
  by (rule nth_equalityI) (auto simp: length_fold_upd fold_fill_row nth_append)

lemma initial_monitor_inv: "monitor_inv (initial_monitor meminfo)"
proof -
  let ?st = "initial_monitor meminfo"
  define g where "g = initial_size (get_free_mem meminfo div ONE_MB)"
  have g: "0 \<le> g" "nat g \<le> MAX_FREE_MEM_GB" using initial_size_range by (auto simp: g_def nat_le_iff)
  have "slot_ok ?st c 0" if "c < MAX_CLIENT" for c
    using that by (simp add: slot_ok_def initial_monitor_def rdma_session_init_def Let_def)
  then have "table_ok ?st 0 0"
    by (intro table_okI) (simp_all add: initial_monitor_def rdma_session_init_def Let_def cnt_replicate)
  moreover have "malloc_map (rdma_remote (session ?st)) =
      replicate (nat g) CHUNK_MALLOCED @ replicate (MAX_FREE_MEM_GB - nat g) CHUNK_EMPTY"
    using fill_prefix [OF g(2), of CHUNK_MALLOCED CHUNK_EMPTY]
    by (simp add: initial_monitor_def rdma_session_init_def Let_def g_def)
  then have "remote_ok (rdma_remote (session ?st)) 0"
    using g by (simp add: remote_ok2_def initial_monitor_def rdma_session_init_def Let_def cnt_def filter_replicate
        nth_append CHUNK_MALLOCED_def CHUNK_EMPTY_def flip: g_def)
  ultimately show ?thesis by (simp add: monitor_inv_def inv_off_def)
qed

section \<open>Steps of the monitor\<close>

text \<open>
  What a client may ask for: a bind only of what is available, a release only of chunks it holds, with the
  matching count.
\<close>

definition client_ok :: "monitor \<Rightarrow> nat \<Rightarrow> message \<Rightarrow> bool" where
  "client_ok st cid m \<longleftrightarrow> message_ok m \<and> (case mtype m of
       BIND \<Rightarrow> 0 < size_gb m \<and> size_gb m \<le> avail (rdma_remote (session st)) [0..<MAX_FREE_MEM_GB]
     | BIND_SINGLE \<Rightarrow> 0 < avail (rdma_remote (session st)) [0..<MAX_FREE_MEM_GB]
     | DONE \<Rightarrow> (\<forall>k. heap st cid = Some k \<longrightarrow> release_ok m k)
     | _ \<Rightarrow> True)"

inductive monitor_step :: "verbs \<Rightarrow> monitor \<Rightarrow> monitor \<Rightarrow> bool" for env where
  connect: "heap st cid = None \<Longrightarrow> \<exists>c<MAX_CLIENT. conns_state (session st) ! c = CONN_IDLE \<Longrightarrow>
    on_event env cid (CM_CONNECT_REQUEST v) st = Inr st' \<Longrightarrow> monitor_step env st st'"
| established: "on_event env cid CM_ESTABLISHED st = Inr st' \<Longrightarrow> monitor_step env st st'"
| disconnected: "on_event env cid CM_DISCONNECTED st = Inr st' \<Longrightarrow> monitor_step env st st'"
| received: "client_ok st cid m \<Longrightarrow> on_completion env cid (WC_RECV m) st = Inr st' \<Longrightarrow> monitor_step env st st'"
| send_completed: "on_completion env cid WC_SEND st = Inr st' \<Longrightarrow> monitor_step env st st'"
| shrink: "0 < g \<Longrightarrow> evict_unmapped g st = (b, e, st') \<Longrightarrow> monitor_step env st st'"
| grow: "0 < g \<Longrightarrow> expand_mem g st = (e, st') \<Longrightarrow> monitor_step env st st'"

inductive_cases monitor_stepE: "monitor_step env st st'"

lemma send_free_mem_size_inv:
  assumes "monitor_inv st" "send_free_mem_size env cid st = Inr st'"
  shows "monitor_inv st'"
proof -
  from assms(2) obtain st1 where u: "upd_conn cid (set_msg (\<lambda>m. m\<lparr>mtype := FREE_SIZE,
      size_gb := remote_size_gb (rdma_remote (session st)) - mapped_size (rdma_remote (session st))\<rparr>)) st = Inr st1"
    and s: "send_message env cid st1 = Inr st'" by (auto simp: send_free_mem_size_def Let_def bindE_Inr)
  have "inv_off st1 0 0"
    by (rule upd_conn_soft(1) [OF _ _ u]) (use assms(1) in \<open>simp_all add: monitor_inv_def soft_defs\<close>)
  from send_message_inv(1) [OF this s] show ?thesis by (simp add: monitor_inv_def)
qed

lemma send_fault_done_inv:
  assumes "monitor_inv st" "send_fault_done env cid st = Inr st'"
  shows "monitor_inv st'"
proof -
  from assms(2) obtain st1 where u: "upd_conn cid (set_msg (\<lambda>m. m\<lparr>mtype := FAULT_DONE\<rparr>)) st = Inr st1"
    and s: "send_message env cid st1 = Inr st'" by (auto simp: send_fault_done_def bindE_Inr)
  have "inv_off st1 0 0"
    by (rule upd_conn_soft(1) [OF _ _ u]) (use assms(1) in \<open>simp_all add: monitor_inv_def soft_defs\<close>)
  from send_message_inv(1) [OF this s] show ?thesis by (simp add: monitor_inv_def)
qed

lemma upd_conn_soft_inv:
  "monitor_inv st \<Longrightarrow> soft f \<Longrightarrow> upd_conn cid f st = Inr st' \<Longrightarrow> monitor_inv st' \<and> session st' = session st \<and>
    (\<exists>k. heap st cid = Some k \<and> heap st' cid = Some (f k))"
  using upd_conn_soft [of st 0 0 f cid st'] by (auto simp: monitor_inv_def upd_conn_def split: option.splits)

lemma post_receives_monitor_inv: "monitor_inv st \<Longrightarrow> post_receives env cid st = Inr st' \<Longrightarrow> monitor_inv st'"
  using post_receives_inv(1) [of st 0 0 env cid st'] by (simp add: monitor_inv_def)

lemma send_chunks_full:
  assumes "monitor_inv st" "0 < n" "n \<le> avail (rdma_remote (session st)) [0..<MAX_FREE_MEM_GB]"
    and "send_chunks env cid label n t st = Inr st'"
  shows "monitor_inv st'"
proof -
  from assms(4) obtain k where k: "heap st cid = Some k"
    by (auto simp: send_chunks_def upd_conn_def bindE_Inr split: option.splits)
  have tab: "table_ok st 0 0" using assms(1) by (simp add: monitor_inv_def inv_off_def)
  from table_ok_conn [OF tab k] obtain c where "conn_index k = int c" by blast
  from send_chunks_inv [OF assms(1) k this assms(2,4)] assms(3) show ?thesis by (simp add: inv_off_0)
qed

lemma on_completion_inv:
  assumes inv: "monitor_inv st" and ok: "client_ok st cid m" and run: "on_completion env cid (WC_RECV m) st = Inr st'"
  shows "monitor_inv st'"
proof -
  from run obtain st1 where s1: "upd_conn cid (\<lambda>c. c\<lparr>recv_msg := m\<rparr>) st = Inr st1"
    by (auto simp: on_completion_def bindE_Inr)
  have "soft (\<lambda>c. c\<lparr>recv_msg := m\<rparr>)" using ok by (simp add: soft_def client_ok_def)
  from upd_conn_soft_inv [OF inv this s1] obtain k where
    i1: "monitor_inv st1" and ses: "session st1 = session st" and k: "heap st cid = Some k" "heap st1 cid = Some (k\<lparr>recv_msg := m\<rparr>)"
    by blast
  let ?busy = "upd_conn cid (set_busy CQ_QP_BUSY) st1"
  let ?bound = "upd_conn cid (\<lambda>c. set_busy CQ_QP_BUSY (c\<lparr>server_state_of := S_BIND\<rparr>)) st1"
  have busy: "monitor_inv s \<and> session s = session st \<and> heap s cid = Some (set_busy CQ_QP_BUSY (k\<lparr>recv_msg := m\<rparr>))"
    if "?busy = Inr s" for s
    using upd_conn_soft_inv [OF i1 _ that] ses k by (auto simp: soft_defs)
  have bound: "monitor_inv s \<and> session s = session st" if "?bound = Inr s" for s
    using upd_conn_soft_inv [OF i1 _ that] ses by (auto simp: soft_defs)
  have body: "(case mtype m of
           QUERY \<Rightarrow> bindE ?busy (\<lambda>st. bindE (send_free_mem_size env cid st) (post_receives env cid))
         | BIND \<Rightarrow> bindE ?bound (\<lambda>st. bindE (send_mr env cid (size_gb m) st)
             (\<lambda>st. bindE (mark_mapped cid st) (post_receives env cid)))
         | BIND_SINGLE \<Rightarrow> bindE ?bound (\<lambda>st. bindE (send_single_mr env cid (size_gb m) st)
             (\<lambda>st. bindE (mark_mapped cid st) (post_receives env cid)))
         | ACTIVITY \<Rightarrow> upd_conn cid (\<lambda>c. c\<lparr>evict_sem := evict_sem c + 1\<rparr>) st1
         | FAULT \<Rightarrow> bindE ?busy (\<lambda>st. bindE (send_fault_done env cid st) (post_receives env cid))
         | DONE \<Rightarrow> bindE ?busy (recv_done env cid)
         | _ \<Rightarrow> Inl Die) = Inr st'"
    using run s1 by (simp add: on_completion_def Let_def)
  show ?thesis
  proof (cases "mtype m")
    case DONE
    with body obtain s where s: "?busy = Inr s" "recv_done env cid s = Inr st'" by (auto simp: bindE_Inr)
    have "release_ok m (set_busy CQ_QP_BUSY (k\<lparr>recv_msg := m\<rparr>))"
      using ok DONE k(1) by (simp add: client_ok_def release_ok_def set_busy_def)
    with recv_done_inv [OF _ _ _ s(2)] busy [OF s(1)] show ?thesis by (simp add: set_busy_def)
  next
    case BIND
    with body obtain s s2 s3 where s: "?bound = Inr s" "send_mr env cid (size_gb m) s = Inr s2"
      "mark_mapped cid s2 = Inr s3" "post_receives env cid s3 = Inr st'" by (auto simp: bindE_Inr)
    have "monitor_inv s2"
      using send_chunks_full [of s "size_gb m" env cid "size_gb m" INFO s2] bound [OF s(1)] s(2) ok BIND
      by (simp add: client_ok_def send_mr_def)
    with s show ?thesis using mark_mapped_inv post_receives_monitor_inv by blast
  next
    case BIND_SINGLE
    with body obtain s s2 s3 where s: "?bound = Inr s" "send_single_mr env cid (size_gb m) s = Inr s2"
      "mark_mapped cid s2 = Inr s3" "post_receives env cid s3 = Inr st'" by (auto simp: bindE_Inr)
    have "monitor_inv s2"
      using send_chunks_full [of s 1 env cid "size_gb m" INFO_SINGLE s2] bound [OF s(1)] s(2) ok BIND_SINGLE
      by (simp add: client_ok_def send_single_mr_def)
    with s show ?thesis using mark_mapped_inv post_receives_monitor_inv by blast
  next
    case QUERY
    with body obtain s s2 where "?busy = Inr s" "send_free_mem_size env cid s = Inr s2" "post_receives env cid s2 = Inr st'"
      by (auto simp: bindE_Inr)
    with busy show ?thesis using send_free_mem_size_inv post_receives_monitor_inv by blast
  next
    case FAULT
    with body obtain s s2 where "?busy = Inr s" "send_fault_done env cid s = Inr s2" "post_receives env cid s2 = Inr st'"
      by (auto simp: bindE_Inr)
    with busy show ?thesis using send_fault_done_inv post_receives_monitor_inv by blast
  next
    case ACTIVITY
    with body upd_conn_soft_inv [OF i1, of "\<lambda>c. c\<lparr>evict_sem := evict_sem c + 1\<rparr>"] show ?thesis by (simp add: soft_def)
  qed (use body in auto)
qed

lemma monitor_step_inv:
  assumes "monitor_step env st st'" "monitor_inv st" "fresh_ok env"
  shows "monitor_inv st'"
  using assms
proof cases
  case (connect cid v)
  then obtain st1 where "build_connection env v cid st = Inr st1" "st' = st1"
    by (auto simp: on_event_def on_connect_request_def bindE_Inr split: if_splits)
  with build_connection_inv [OF assms(2) connect(1) assms(3) connect(2)] show ?thesis by blast
next
  case (established cid)
  then obtain st1 where s: "upd_conn cid (\<lambda>c. c\<lparr>connected := True\<rparr>) st = Inr st1" "send_free_mem_size env cid st1 = Inr st'"
    by (auto simp: on_event_def on_connection_def on_connect_def bindE_Inr)
  have "monitor_inv st1" using upd_conn_soft_inv [OF assms(2) _ s(1)] by (simp add: soft_def)
  with s(2) show ?thesis by (rule send_free_mem_size_inv [rotated])
next
  case (disconnected cid)
  then show ?thesis using destroy_connection_inv(1) [OF assms(2)] by (simp add: on_event_def on_disconnect_def)
next
  case (send_completed cid)
  then show ?thesis using upd_conn_soft_inv [OF assms(2), of "set_busy CQ_QP_IDLE" cid st']
    by (simp add: on_completion_def soft_defs)
qed (use assms(2) on_completion_inv evict_unmapped_inv(1) expand_mem_inv in blast)+

end
