(* ===== verification/Monitor_Safety.thy ===== *)
theory Monitor_Safety
  imports Monitor_Invariant
begin

text \<open>
  What the invariant gives in every reachable state of the monitor: a chunk is lent to one client at a time, the
  size that is advertised is the memory that can be bound, a release or a disconnection returns exactly
  what was held; and the over-count of a bind that finds no chunk.
\<close>

section \<open>Reachable states\<close>

lemma reachable_inv:
  assumes "(monitor_step env)\<^sup>*\<^sup>* (initial_monitor meminfo) st" "fresh_ok env"
  shows "monitor_inv st"
  using assms(1)
proof (induction rule: rtranclp_induct)
  case base
  show ?case by (rule initial_monitor_inv)
next
  case (step st st')
  from step(2) step.IH assms(2) show ?case by (rule monitor_step_inv)
qed

lemma inv_conn_ok:
  assumes "monitor_inv st" "heap st cid = Some k"
  obtains c where "c < MAX_CLIENT" "conns (session st) ! c = Some cid" "conn_ok (rdma_remote (session st)) c 0 k"
proof -
  from assms(1) have "table_ok st 0 0" by (simp add: monitor_inv_def inv_off_def)
  from table_ok_conn [OF this assms(2)] obtain c where
    "c < MAX_CLIENT" "conns (session st) ! c = Some cid" "conn_ok (rdma_remote (session st)) c (if c = 0 then 0 else 0) k" by blast
  then show thesis using that by simp
qed

text \<open>The chunk table determines who holds a chunk.\<close>

lemma inv_holder:
  assumes inv: "monitor_inv st" and i: "i < MAX_FREE_MEM_GB"
  shows "if conn_map (rdma_remote (session st)) ! i = - 1
         then \<forall>cid k. heap st cid = Some k \<longrightarrow> sess_chunk_map k ! i = - 1
         else malloc_map (rdma_remote (session st)) ! i = CHUNK_MALLOCED \<and>
           (\<exists>cid k. heap st cid = Some k \<and> sess_chunk_map k ! i = int i \<and>
              (\<forall>cid' k'. heap st cid' = Some k' \<and> sess_chunk_map k' ! i \<noteq> - 1 \<longrightarrow> cid' = cid))"
proof -
  let ?r = "rdma_remote (session st)"
  have tab: "table_ok st 0 0" and rem: "remote_ok ?r 0" using inv by (simp_all add: monitor_inv_def inv_off_def)
  have held: "\<exists>c<MAX_CLIENT. conns (session st) ! c = Some cid \<and> sess_chunk_map k ! i = (if conn_map ?r ! i = int c then int i else - 1)"
    if "heap st cid = Some k" for cid k
    by (rule inv_conn_ok [OF inv that]) (use i in \<open>auto simp: conn_ok_def\<close>)
  show ?thesis
  proof (cases "conn_map ?r ! i = - 1")
    case True
    then show ?thesis using held by fastforce
  next
    case False
    with table_ok_facts(4) [OF tab i] obtain c cid where c: "c < MAX_CLIENT" "conn_map ?r ! i = int c" "conns (session st) ! c = Some cid"
      by auto
    with table_ok_slot [OF tab c(1)] obtain k where k: "heap st cid = Some k" "conn_ok ?r c 0 k" by (auto simp: slot_ok_def)
    have "cid' = cid" if "heap st cid' = Some k'" "sess_chunk_map k' ! i \<noteq> - 1" for cid' k'
      using held [OF that(1)] that(2) c by (auto split: if_splits)
    moreover have "sess_chunk_map k ! i = int i" using k(2) c(2) i by (simp add: conn_ok_def)
    moreover have "malloc_map ?r ! i = CHUNK_MALLOCED" using rem False i by (simp add: remote_ok2_def)
    ultimately show ?thesis using False k(1) by (simp, blast)
  qed
qed

text \<open>The difference of the counters is the number of chunks that can be bound.\<close>

lemma length_filter_split: "length (filter P xs) = length (filter (\<lambda>x. P x \<and> Q x) xs) + length (filter (\<lambda>x. P x \<and> \<not> Q x) xs)"
  by (induction xs) auto

lemma avail_counters:
  assumes "remote_ok r 0"
  shows "avail r [0..<MAX_FREE_MEM_GB] = remote_size_gb r - mapped_size r"
proof -
  let ?all = "[0..<MAX_FREE_MEM_GB]"
  have len: "length (conn_map r) = MAX_FREE_MEM_GB" "length (malloc_map r) = MAX_FREE_MEM_GB"
    and size: "remote_size_gb r = cnt (\<lambda>x. x = CHUNK_MALLOCED) (malloc_map r)" "mapped_size r = cnt (\<lambda>x. x \<noteq> - 1) (conn_map r)"
    and lent: "\<forall>i<MAX_FREE_MEM_GB. conn_map r ! i \<noteq> - 1 \<longrightarrow> malloc_map r ! i = CHUNK_MALLOCED"
    using assms by (simp_all add: remote_ok2_def)
  have "filter (\<lambda>i. malloc_map r ! i = CHUNK_MALLOCED \<and> conn_map r ! i \<noteq> - 1) ?all = filter (\<lambda>i. conn_map r ! i \<noteq> - 1) ?all"
    using lent by (intro filter_cong) auto
  moreover have "filter (\<lambda>i. malloc_map r ! i = CHUNK_MALLOCED \<and> \<not> conn_map r ! i \<noteq> - 1) ?all = filter (chunk_free r) ?all"
    by (intro filter_cong) (auto simp: chunk_free_def)
  ultimately show ?thesis
    using length_filter_split [of "\<lambda>i. malloc_map r ! i = CHUNK_MALLOCED" ?all "\<lambda>i. conn_map r ! i \<noteq> - 1"]
      filter_upt_nth [OF len(1), of "\<lambda>x. x \<noteq> - 1"] filter_upt_nth [OF len(2), of "\<lambda>x. x = CHUNK_MALLOCED"] size
    by (simp add: avail_def)
qed

section \<open>What a bind sends\<close>

text \<open>The keys and addresses of the chunks in \<open>S\<close> are in the message and the chunks are lent; nothing else changed.\<close>

definition granted :: "verbs \<Rightarrow> nat set \<Rightarrow> connection \<Rightarrow> rdma_remote_mem \<Rightarrow> connection \<Rightarrow> rdma_remote_mem \<Rightarrow> bool" where
  "granted env S k r k' r' \<longleftrightarrow> message_ok (send_msg k') \<and> connected k' = connected k \<and> conn_index k' = conn_index k \<and>
     size_gb (send_msg k') = size_gb (send_msg k) \<and> length (conn_map r') = MAX_FREE_MEM_GB \<and>
     (\<forall>i<MAX_FREE_MEM_GB. conn_map r' ! i = (if i \<in> S then conn_index k else conn_map r ! i) \<and>
       buf (send_msg k') ! i = (if i \<in> S then htonll (fst (the (reg_mr env i))) else buf (send_msg k) ! i) \<and>
       rkey (send_msg k') ! i = (if i \<in> S then ntohl (snd (the (reg_mr env i))) else rkey (send_msg k) ! i))"

lemma granted_trans:
  "granted env S k r k1 r1 \<Longrightarrow> granted env T k1 r1 k2 r2 \<Longrightarrow> granted env (S \<union> T) k r k2 r2"
  by (simp add: granted_def)

lemma grant_granted:
  assumes "heap st cid = Some k" "reg_mr env i \<noteq> None" "i < MAX_FREE_MEM_GB" "message_ok (send_msg k)"
    and "length (conn_map (rdma_remote (session st))) = MAX_FREE_MEM_GB"
  obtains st' k' where "grant env cid i st = Inr st'" "heap st' cid = Some k'"
    "granted env {i} k (rdma_remote (session st)) k' (rdma_remote (session st'))"
    "malloc_map (rdma_remote (session st')) = malloc_map (rdma_remote (session st))"
proof -
  from assms(2) obtain a b where ab: "reg_mr env i = Some (a, b)" by auto
  with assms(1) obtain st' k' where st': "grant env cid i st = Inr st'"
    "k' = set_msg (\<lambda>m. m\<lparr>buf := (buf m)[i := htonll a], rkey := (rkey m)[i := ntohl b]\<rparr>) (k\<lparr>sess_chunk_map := (sess_chunk_map k)[i := int i]\<rparr>)"
    "heap st' = (heap st)(cid \<mapsto> k')"
    "rdma_remote (session st') = (rdma_remote (session st))\<lparr>conn_map := (conn_map (rdma_remote (session st)))[i := conn_index k],
       mr_list := (mr_list (rdma_remote (session st)))[i := Some (a, b)]\<rparr>"
    by (simp add: grant_def upd_remote_def)
  then show thesis
    by (intro that [OF st'(1), of k']) (use assms ab in \<open>auto simp: granted_def set_msg_def message_ok_def nth_list_update
        MAX_FREE_MEM_GB_def MAX_MR_SIZE_GB_def\<close>)
qed

lemma grant_loop_granted:
  assumes "heap st cid = Some k" "\<forall>i\<in>set is. reg_mr env i \<noteq> None \<and> i < MAX_FREE_MEM_GB" "distinct is" "j < n"
    and "message_ok (send_msg k)" "length (conn_map (rdma_remote (session st))) = MAX_FREE_MEM_GB" "conn_index k \<noteq> - 1"
  shows "\<exists>st' k'. grant_loop env cid n is j st = Inr st' \<and> heap st' cid = Some k' \<and>
    granted env (set (take (nat (n - j)) (filter (chunk_free (rdma_remote (session st))) is)))
      k (rdma_remote (session st)) k' (rdma_remote (session st'))"
  using assms
proof (induction "is" arbitrary: st k j)
  case Nil
  then show ?case by (simp add: granted_def)
next
  case (Cons i "is")
  let ?r = "rdma_remote (session st)"
  show ?case
  proof (cases "chunk_free ?r i")
    case False
    with Cons.IH [OF Cons.prems(1) _ _ Cons.prems(4-7)] Cons.prems(2,3) show ?thesis by simp
  next
    case True
    obtain st1 k1 where g: "grant env cid i st = Inr st1" "heap st1 cid = Some k1"
      and one: "granted env {i} k ?r k1 (rdma_remote (session st1))"
      and mm: "malloc_map (rdma_remote (session st1)) = malloc_map ?r"
      by (rule grant_granted [OF Cons.prems(1) _ _ Cons.prems(5,6)]) (use Cons.prems(2) in auto)
    have same: "filter (chunk_free (rdma_remote (session st1))) is = filter (chunk_free ?r) is"
      using one mm Cons.prems(2,3) by (intro filter_cong) (auto simp: granted_def chunk_free_def)
    show ?thesis
    proof (cases "j + 1 = n")
      case True
      then have "nat (n - j) = Suc 0" by simp
      with True \<open>chunk_free ?r i\<close> g one show ?thesis by simp
    next
      case False
      then have "j + 1 < n" using Cons.prems(4) by simp
      with Cons.IH [OF g(2) _ _ this] one Cons.prems(2,3,7) obtain st2 k2 where
        rest: "grant_loop env cid n is (j + 1) st1 = Inr st2" "heap st2 cid = Some k2"
        and two: "granted env (set (take (nat (n - (j + 1))) (filter (chunk_free ?r) is))) k1 (rdma_remote (session st1)) k2 (rdma_remote (session st2))"
        unfolding same by (auto simp: granted_def)
      have "nat (n - j) = Suc (nat (n - (j + 1)))" using Cons.prems(4) by simp
      then have "set (take (nat (n - j)) (filter (chunk_free ?r) (i # is))) =
          {i} \<union> set (take (nat (n - (j + 1))) (filter (chunk_free ?r) is))" using True by simp
      then show ?thesis using granted_trans [OF one two] rest g True False by auto
    qed
  qed
qed

lemma send_chunks_result:
  assumes k: "heap st cid = Some k" "connected k" "message_ok (send_msg k)" "conn_index k \<noteq> - 1"
    and len: "length (conn_map (rdma_remote (session st))) = MAX_FREE_MEM_GB"
    and env: "\<forall>i<MAX_FREE_MEM_GB. reg_mr env i \<noteq> None" "post_send_ret env = 0" and n: "0 < n"
  defines "S \<equiv> set (take (nat n) (filter (chunk_free (rdma_remote (session st))) [0..<MAX_FREE_MEM_GB]))"
  shows "\<exists>st' m. send_chunks env cid label n t st = Inr st' \<and> last (sent st') = (cid, m) \<and> mtype m = t \<and> size_gb m = label \<and>
    (\<forall>i<MAX_FREE_MEM_GB. if i \<in> S
      then buf m ! i = htonll (fst (the (reg_mr env i))) \<and> rkey m ! i = ntohl (snd (the (reg_mr env i))) \<and>
        conn_map (rdma_remote (session st')) ! i = conn_index k
      else rkey m ! i = 0 \<and> conn_map (rdma_remote (session st')) ! i = conn_map (rdma_remote (session st)) ! i)"
proof -
  let ?k = "set_msg (\<lambda>m. m\<lparr>size_gb := label, rkey := replicate MAX_FREE_MEM_GB 0\<rparr>) k"
  let ?st = "st\<lparr>heap := (heap st)(cid \<mapsto> ?k)\<rparr>"
  have "message_ok (send_msg ?k)" using k(3) by (simp add: set_msg_def message_ok_def MAX_FREE_MEM_GB_def MAX_MR_SIZE_GB_def)
  moreover have "conn_index ?k \<noteq> - 1" using k(4) by (simp add: set_msg_def)
  ultimately obtain st1 k1 where run: "grant_loop env cid n [0..<MAX_FREE_MEM_GB] 0 ?st = Inr st1" "heap st1 cid = Some k1"
    and g: "granted env S ?k (rdma_remote (session st)) k1 (rdma_remote (session st1))"
    using grant_loop_granted [of ?st cid ?k "[0..<MAX_FREE_MEM_GB]" env 0 n] len env n by (auto simp: S_def)
  have con: "connected k1" and lab: "size_gb (send_msg k1) = label"
    and all: "\<forall>i<MAX_FREE_MEM_GB. if i \<in> S
      then buf (send_msg k1) ! i = htonll (fst (the (reg_mr env i))) \<and> rkey (send_msg k1) ! i = ntohl (snd (the (reg_mr env i))) \<and>
        conn_map (rdma_remote (session st1)) ! i = conn_index k
      else rkey (send_msg k1) ! i = 0 \<and> conn_map (rdma_remote (session st1)) ! i = conn_map (rdma_remote (session st)) ! i"
    using g k(2) by (auto simp: granted_def set_msg_def)
  show ?thesis
    using k run con lab all env(2)
    by (simp add: send_chunks_def upd_conn_def upd_remote_def send_message_def) (simp add: set_msg_def)
qed

section \<open>A run\<close>

text \<open>A machine with 23 GB of free memory, which lends 8 GB, and a client that connects and binds one chunk.\<close>

definition demo_meminfo :: string where
  "demo_meminfo = ''MemTotal: 65536000 kB'' @ [CHR 0x0A] @ ''MemFree: 24117248 kB'' @ [CHR 0x0A]"

definition demo_msg :: "msg_type \<Rightarrow> int \<Rightarrow> message" where
  "demo_msg t n = \<lparr>buf = replicate MAX_MR_SIZE_GB 0, rkey = replicate MAX_MR_SIZE_GB 0, size_gb = n, mtype = t\<rparr>"

definition demo_verbs :: verbs where
  "demo_verbs = \<lparr>context_ok = True, create_qp_ret = 0, reg_msg_ok = True,
     reg_mr = (\<lambda>i. Some (0x7f0000000000 + of_nat i * 0x40000000, 7)), post_recv_ret = 0, post_send_ret = 0, accept_ret = 0,
     fresh_conn = \<lparr>conn_index = 0, sess_chunk_map = [], mapped_chunk_size = 0, evict_sem = 0, stop_sem = 0, connected = False,
       recv_msg = demo_msg DONE 0, send_msg = demo_msg DONE 0, cq_qp_state = 0, free_mem_gb = 0, server_state_of = S_WAIT,
       send_state_of = SS_INIT, recv_state_of = RS_INIT, posted_recvs = 0\<rparr>\<rparr>"

definition demo_0 :: monitor where "demo_0 = initial_monitor demo_meminfo"
definition demo_1 :: monitor where "demo_1 = projr (on_event demo_verbs 3 (CM_CONNECT_REQUEST 9) demo_0)"
definition demo_2 :: monitor where "demo_2 = projr (on_event demo_verbs 3 CM_ESTABLISHED demo_1)"
definition demo_3 :: monitor where "demo_3 = projr (on_completion demo_verbs 3 (WC_RECV (demo_msg BIND_SINGLE 5)) demo_2)"

lemma demo_fresh_ok: "fresh_ok demo_verbs"
  by code_simp

lemma Inr_projr: "\<not> isl r \<Longrightarrow> r = Inr (projr r)"
  by (cases r) auto

lemma demo_run: "(monitor_step demo_verbs)\<^sup>*\<^sup>* (initial_monitor demo_meminfo) demo_3"
proof -
  have "on_event demo_verbs 3 (CM_CONNECT_REQUEST 9) demo_0 = Inr demo_1"
    unfolding demo_1_def by (rule Inr_projr) code_simp
  moreover have "heap demo_0 3 = None" "\<exists>c<MAX_CLIENT. conns_state (session demo_0) ! c = CONN_IDLE"
    by code_simp+
  ultimately have s1: "monitor_step demo_verbs demo_0 demo_1" by (intro connect)
  have "on_event demo_verbs 3 CM_ESTABLISHED demo_1 = Inr demo_2"
    unfolding demo_2_def by (rule Inr_projr) code_simp
  then have s2: "monitor_step demo_verbs demo_1 demo_2" by (rule established)
  have "on_completion demo_verbs 3 (WC_RECV (demo_msg BIND_SINGLE 5)) demo_2 = Inr demo_3"
    unfolding demo_3_def by (rule Inr_projr) code_simp
  moreover have "message_ok (demo_msg BIND_SINGLE 5)" "0 < avail (rdma_remote (session demo_2)) [0..<MAX_FREE_MEM_GB]"
    by code_simp+
  then have "client_ok demo_2 3 (demo_msg BIND_SINGLE 5)" by (simp add: client_ok_def demo_msg_def)
  ultimately have s3: "monitor_step demo_verbs demo_2 demo_3" by (intro received)
  from s1 s2 s3 show ?thesis
    by (metis demo_0_def rtranclp.rtrancl_into_rtrancl rtranclp.rtrancl_refl)
qed

text \<open>A machine with no memory to lend, and a client that connects.\<close>

definition demo_small :: monitor where
  "demo_small = projr (on_event demo_verbs 3 CM_ESTABLISHED (projr (on_event demo_verbs 3 (CM_CONNECT_REQUEST 9)
     (initial_monitor (''MemTotal: 65536000 kB'' @ [CHR 0x0A] @ ''MemFree: 1024 kB'' @ [CHR 0x0A])))))"

lemma demo_small_inv: "monitor_inv demo_small"
proof -
  let ?i = "initial_monitor (''MemTotal: 65536000 kB'' @ [CHR 0x0A] @ ''MemFree: 1024 kB'' @ [CHR 0x0A])"
  let ?c = "on_event demo_verbs 3 (CM_CONNECT_REQUEST 9) ?i"
  have "?c = Inr (projr ?c)" by (rule Inr_projr) code_simp
  moreover have "heap ?i 3 = None" "\<exists>c<MAX_CLIENT. conns_state (session ?i) ! c = CONN_IDLE" by code_simp+
  ultimately have s1: "monitor_step demo_verbs ?i (projr ?c)" by (intro connect)
  have "on_event demo_verbs 3 CM_ESTABLISHED (projr ?c) = Inr demo_small"
    unfolding demo_small_def by (rule Inr_projr) code_simp
  then have s2: "monitor_step demo_verbs (projr ?c) demo_small" by (rule established)
  have "monitor_inv (projr ?c)" by (rule monitor_step_inv [OF s1 initial_monitor_inv demo_fresh_ok])
  with s2 show ?thesis by (rule monitor_step_inv [OF _ _ demo_fresh_ok])
qed

section \<open>Properties\<close>



text \<open>C19: A bind of \<open>n\<close> chunks that are available is answered: the message that is sent carries exactly \<open>n\<close> keys, and under
  each of them, after the byte order conversion of the client, the registered address and key of a chunk that was free and is now
  lent to this client.\<close>

theorem bind_grants:
  assumes "monitor_inv st" "heap st cid = Some k" "connected k"
    and env: "\<forall>i<MAX_FREE_MEM_GB. \<exists>a key. reg_mr env i = Some (a, key) \<and> key \<noteq> 0" "post_send_ret env = 0"
    and n: "0 < n" "n \<le> avail (rdma_remote (session st)) [0..<MAX_FREE_MEM_GB]"
  shows "\<exists>st' m. send_mr env cid n st = Inr st' \<and> last (sent st') = (cid, m) \<and> mtype m = INFO \<and> size_gb m = n \<and>
    card {i. i < MAX_FREE_MEM_GB \<and> rkey m ! i \<noteq> 0} = nat n \<and>
    (\<forall>i<MAX_FREE_MEM_GB. rkey m ! i \<noteq> 0 \<longrightarrow> chunk_free (rdma_remote (session st)) i \<and>
      conn_map (rdma_remote (session st')) ! i = conn_index k \<and>
      reg_mr env i = Some (ntohll (buf m ! i), ntohl (rkey m ! i)))"
proof -
  let ?r = "rdma_remote (session st)" let ?free = "filter (chunk_free ?r) [0..<MAX_FREE_MEM_GB]"
  let ?S = "set (take (nat n) ?free)"
  obtain c where c: "conn_ok ?r c 0 k" by (rule inv_conn_ok [OF assms(1,2)])
  have len: "length (conn_map ?r) = MAX_FREE_MEM_GB" using assms(1) by (simp add: monitor_inv_def inv_off_def remote_ok2_def)
  have env': "\<forall>i<MAX_FREE_MEM_GB. reg_mr env i \<noteq> None" using env(1) by auto
  have "message_ok (send_msg k)" "conn_index k \<noteq> - 1" using c by (simp_all add: conn_ok_def)
  from send_chunks_result [OF assms(2,3) this len env' env(2) n(1), of n INFO] obtain st' m where
    m: "send_mr env cid n st = Inr st'" "last (sent st') = (cid, m)" "mtype m = INFO" "size_gb m = n"
    and all: "\<forall>i<MAX_FREE_MEM_GB. if i \<in> ?S
      then buf m ! i = htonll (fst (the (reg_mr env i))) \<and> rkey m ! i = ntohl (snd (the (reg_mr env i))) \<and>
        conn_map (rdma_remote (session st')) ! i = conn_index k
      else rkey m ! i = 0 \<and> conn_map (rdma_remote (session st')) ! i = conn_map ?r ! i"
    unfolding send_mr_def by blast
  have free: "i < MAX_FREE_MEM_GB \<and> chunk_free ?r i" if "i \<in> ?S" for i
    using set_take_subset [of "nat n" ?free] that by auto
  have key: "rkey m ! i \<noteq> 0 \<longleftrightarrow> i \<in> ?S" if "i < MAX_FREE_MEM_GB" for i
    using all env(1) that by (metis ntohl_eq_0 option.sel snd_conv)
  have "nat n \<le> length ?free" using n by (simp add: avail_def)
  then have "card ?S = nat n" by (subst distinct_card) simp_all
  moreover have "{i. i < MAX_FREE_MEM_GB \<and> rkey m ! i \<noteq> 0} = ?S" using key free by blast
  moreover have "chunk_free ?r i \<and> conn_map (rdma_remote (session st')) ! i = conn_index k \<and>
      reg_mr env i = Some (ntohll (buf m ! i), ntohl (rkey m ! i))" if i: "i < MAX_FREE_MEM_GB" "rkey m ! i \<noteq> 0" for i
  proof -
    from i key have S: "i \<in> ?S" by blast
    from env(1) i(1) obtain a q where "reg_mr env i = Some (a, q)" by blast
    moreover from all i(1) S have "buf m ! i = htonll (fst (the (reg_mr env i)))" "rkey m ! i = ntohl (snd (the (reg_mr env i)))"
      "conn_map (rdma_remote (session st')) ! i = conn_index k" by simp_all
    ultimately show ?thesis using free [OF S] by simp
  qed
  ultimately show ?thesis using m by (intro exI [of _ st'] exI [of _ m]) simp
qed

theorem bind_grants_witness:
  "\<exists>st' m. send_mr demo_verbs 3 7 demo_3 = Inr st' \<and> last (sent st') = (3, m) \<and> mtype m = INFO \<and> size_gb m = 7 \<and>
    card {i. i < MAX_FREE_MEM_GB \<and> rkey m ! i \<noteq> 0} = nat 7"
proof -
  have "heap demo_3 3 \<noteq> None" "connected (the (heap demo_3 3))" by code_simp+
  then obtain k where k: "heap demo_3 3 = Some k" "connected k" by auto
  have e: "\<forall>i<MAX_FREE_MEM_GB. \<exists>a key. reg_mr demo_verbs i = Some (a, key) \<and> key \<noteq> 0" by (simp add: demo_verbs_def)
  have "post_send_ret demo_verbs = 0" "(0::int) < 7" "7 \<le> avail (rdma_remote (session demo_3)) [0..<MAX_FREE_MEM_GB]" by code_simp+
  from bind_grants [OF reachable_inv [OF demo_run demo_fresh_ok] k e this] show ?thesis by blast
qed



text \<open>C39: A single bind that finds no free chunk is answered all the same: the message carries no key, and the size counter
  then exceeds the number of lent chunks by one.\<close>

theorem send_single_mr_overcounts:
  assumes "monitor_inv st" "heap st cid = Some k" "connected k" "post_send_ret env = 0"
    and none: "\<forall>i<MAX_FREE_MEM_GB. \<not> chunk_free (rdma_remote (session st)) i"
  shows "\<exists>st' m. send_single_mr env cid idx st = Inr st' \<and> last (sent st') = (cid, m) \<and> mtype m = INFO_SINGLE \<and>
    rkey m = replicate MAX_FREE_MEM_GB 0 \<and>
    mapped_size (rdma_remote (session st')) = cnt (\<lambda>x. x \<noteq> - 1) (conn_map (rdma_remote (session st'))) + 1"
proof -
  have skip: "grant_loop env cid 1 is 0 s = Inr s"
    if "\<forall>i\<in>set is. \<not> chunk_free (rdma_remote (session s)) i" for "is" and s
    using that by (induction "is") auto
  have "mapped_size (rdma_remote (session st)) = cnt (\<lambda>x. x \<noteq> - 1) (conn_map (rdma_remote (session st)))"
    using assms(1) by (simp add: monitor_inv_def inv_off_def remote_ok2_def)
  with assms(2-4) none show ?thesis
    by (simp add: send_single_mr_def send_chunks_def upd_conn_def upd_remote_def send_message_def skip set_msg_def)
qed

theorem send_single_mr_overcounts_witness:
  "\<exists>st' m. send_single_mr demo_verbs 3 0 demo_small = Inr st' \<and> last (sent st') = (3, m) \<and> rkey m = replicate MAX_FREE_MEM_GB 0 \<and>
     mapped_size (rdma_remote (session st')) = cnt (\<lambda>x. x \<noteq> - 1) (conn_map (rdma_remote (session st'))) + 1"
proof -
  have "heap demo_small 3 \<noteq> None" "connected (the (heap demo_small 3))" by code_simp+
  then obtain k where k: "heap demo_small 3 = Some k" "connected k" by auto
  have "post_send_ret demo_verbs = 0" "\<forall>i<MAX_FREE_MEM_GB. \<not> chunk_free (rdma_remote (session demo_small)) i" by code_simp+
  from send_single_mr_overcounts [OF demo_small_inv k this] show ?thesis by blast
qed

end
