(* ===== verification/Monitor_Eviction.thy ===== *)
theory Monitor_Eviction
  imports Monitor_Safety
begin

text \<open>
  The rest of the monitor's memory thread: the second phase of \<open>evict_mem\<close>, which takes chunks back from clients
  when unmapped chunks are not enough, and the loop of \<open>free_mem\<close>. The completion thread runs while this one waits on a
  semaphore: what it does there is the parameter \<open>poll\<close>, the generator \<^verbatim>\<open>rand()\<close> is the sequence \<open>rnd\<close>, and the content of
  memory fresh from \<^verbatim>\<open>malloc\<close> is \<open>uninit\<close>.
\<close>

section \<open>Taking chunks back\<close>

record chunk_activity =
  activity :: u64
  chunk_index_of :: int

definition conn_at :: "monitor \<Rightarrow> int \<Rightarrow> nat res" where
  "conn_at st i = bindE (aload (conns (session st)) i) (\<lambda>c. case c of None \<Rightarrow> Inl Oob | Some cid \<Rightarrow> Inr cid)"

definition deref :: "monitor \<Rightarrow> nat \<Rightarrow> connection res" where
  "deref st cid = (case heap st cid of None \<Rightarrow> Inl Oob | Some k \<Rightarrow> Inr k)"

text \<open>Which clients are asked (\<open>send_list\<close>, 1 for asked) and how many chunks are to go.\<close>

definition evict_plan :: "(nat \<Rightarrow> nat) \<Rightarrow> int \<Rightarrow> monitor \<Rightarrow> (int \<times> int list) res" where
  "evict_plan rnd evict_g st =
     (let r = rdma_remote (session st) in
      if mapped_size r < evict_g + EXTRA_CHUNK_NUM
      then Inr (if mapped_size r < evict_g then mapped_size r else evict_g,
                map (\<lambda>s. if s = CONN_MAPPED then 1 else - 1) (conns_state (session st)))
      else (case probe_many MAX_FREE_MEM_GB (\<lambda>i. conn_map r ! i = - 1) (map rnd [0..<nat (evict_g + EXTRA_CHUNK_NUM)]) [] of
          None \<Rightarrow> Inl Blocked
        | Some sel \<Rightarrow> bindE (foldE (\<lambda>i sl. astore sl (conn_map r ! i) 1) sel (replicate MAX_CLIENT (- 1)))
                        (\<lambda>sl. Inr (evict_g, sl))))"

definition selected_size :: "int list \<Rightarrow> monitor \<Rightarrow> int res" where
  "selected_size sl st = foldE (\<lambda>i k. if sl ! i = 1
       then bindE (conn_at st (int i)) (\<lambda>cid. bindE (deref st cid) (\<lambda>c. Inr (k + mapped_chunk_size c))) else Inr k)
     [0..<MAX_CLIENT] 0"

definition evict_request :: "verbs \<Rightarrow> int list \<Rightarrow> int \<Rightarrow> monitor \<Rightarrow> monitor res" where
  "evict_request env sl j = foldE (\<lambda>i st. if sl ! i = 1 then bindE (conn_at st (int i)) (\<lambda>cid. send_evict env cid j st) else Inr st)
     [0..<MAX_CLIENT]"

text \<open>One client's activity report; every reported chunk goes to the next place of the list.\<close>

definition sem_wait_evict :: "nat \<Rightarrow> monitor \<Rightarrow> monitor res" where
  "sem_wait_evict cid st = bindE (deref st cid) (\<lambda>c.
     if evict_sem c = 0 then Inl Blocked else upd_conn cid (\<lambda>c. c\<lparr>evict_sem := evict_sem c - 1\<rparr>) st)"

definition read_report :: "message \<Rightarrow> chunk_activity list \<times> nat \<Rightarrow> (chunk_activity list \<times> nat) res" where
  "read_report msg = foldE (\<lambda>m (L, n). if buf msg ! m \<noteq> 0
       then bindE (astore L (int n) \<lparr>activity = ntohll (buf msg ! m), chunk_index_of = int m\<rparr>) (\<lambda>L. Inr (L, n + 1))
       else Inr (L, n)) [0..<MAX_MR_SIZE_GB]"

definition evict_collect :: "verbs \<Rightarrow> (nat \<Rightarrow> monitor \<Rightarrow> monitor res) \<Rightarrow> int list \<Rightarrow>
    chunk_activity list \<Rightarrow> monitor \<Rightarrow> (chunk_activity list \<times> nat \<times> monitor) res" where
  "evict_collect env poll sl L0 st0 = foldE (\<lambda>i (L, n, st). if sl ! i = 1
       then bindE (conn_at st (int i)) (\<lambda>cid. bindE (bindE (poll cid st) (sem_wait_evict cid)) (\<lambda>st.
            bindE (upd_conn cid (set_msg (\<lambda>m. m\<lparr>size_gb := 0, rkey := replicate MAX_MR_SIZE_GB 0\<rparr>)) st) (\<lambda>st.
            bindE (deref st cid) (\<lambda>c. bindE (read_report (recv_msg c) (L, n)) (\<lambda>(L, n).
            bindE (post_receives env cid st) (\<lambda>st. Inr (L, n, st)))))))
       else Inr (L, n, st)) [0..<MAX_CLIENT] (L0, 0, st0)"

text \<open>
  Place \<open>n\<close> of the list is settled by exchanges with the places up to \<open>k\<close>, and the chunk that ends there is tagged
  in the message to the client that holds it. The last component is the variable \<open>conn_index\<close>.
\<close>

definition tag_chunk :: "int \<Rightarrow> message \<Rightarrow> message res" where
  "tag_chunk ch m = bindE (astore (rkey m) ch 1) (\<lambda>ks. Inr (m\<lparr>rkey := ks, size_gb := size_gb m + 1\<rparr>))"

definition choose_step :: "nat \<Rightarrow> nat \<Rightarrow> chunk_activity list \<times> int list \<times> int \<times> monitor \<Rightarrow>
    (chunk_activity list \<times> int list \<times> int \<times> monitor) res" where
  "choose_step k n = (\<lambda>(L, sl, _, st).
     let L = settle (\<lambda>a b. activity a < activity b) k n L in
     bindE (aload L (int n)) (\<lambda>e.
     bindE (aload (conn_map (rdma_remote (session st))) (chunk_index_of e)) (\<lambda>ci.
     bindE (aload sl ci) (\<lambda>s.
     bindE (if s = 1 then astore sl ci 2 else Inr sl) (\<lambda>sl.
     bindE (conn_at st ci) (\<lambda>cid.
     bindE (deref st cid) (\<lambda>c.
     bindE (tag_chunk (chunk_index_of e) (send_msg c)) (\<lambda>m.
     bindE (upd_conn cid (\<lambda>c. c\<lparr>send_msg := m\<rparr>) st) (\<lambda>st. Inr (L, sl, ci, st))))))))))"

definition evict_choose :: "nat \<Rightarrow> nat \<Rightarrow> chunk_activity list \<times> int list \<times> int \<times> monitor \<Rightarrow>
    (chunk_activity list \<times> int list \<times> int \<times> monitor) res" where
  "evict_choose j k = foldE (choose_step k) [0..<j]"

text \<open>The size sent to every chosen client is the one of the last chunk's client.\<close>

definition send_stop_wait :: "verbs \<Rightarrow> (nat \<Rightarrow> monitor \<Rightarrow> monitor res) \<Rightarrow> nat \<Rightarrow> int \<Rightarrow> monitor \<Rightarrow> monitor res" where
  "send_stop_wait env poll cid n st = bindE (send_stop env cid n st)
     (\<lambda>st. if n \<noteq> 0 then bindE (poll cid st) (sem_wait_stop cid) else Inr st)"

definition evict_stop :: "verbs \<Rightarrow> (nat \<Rightarrow> monitor \<Rightarrow> monitor res) \<Rightarrow> int list \<Rightarrow> int \<Rightarrow> monitor \<Rightarrow> monitor res" where
  "evict_stop env poll sl ci = foldE (\<lambda>i st.
     if sl ! i = 2 then bindE (conn_at st (int i)) (\<lambda>cid. bindE (conn_at st ci) (\<lambda>last. bindE (deref st last) (\<lambda>c.
        send_stop_wait env poll cid (size_gb (send_msg c)) st)))
     else if sl ! i = 1 then bindE (conn_at st (int i)) (\<lambda>cid. send_stop_wait env poll cid 0 st)
     else Inr st) [0..<MAX_CLIENT]"

definition evict_mem :: "verbs \<Rightarrow> (nat \<Rightarrow> nat) \<Rightarrow> (nat \<Rightarrow> chunk_activity) \<Rightarrow> (nat \<Rightarrow> monitor \<Rightarrow> monitor res) \<Rightarrow>
    int \<Rightarrow> monitor \<Rightarrow> monitor res" where
  "evict_mem env rnd uninit poll stop_g st = (case evict_unmapped stop_g st of (done, evict_g, st) \<Rightarrow>
     if done then Inr st
     else bindE (evict_plan rnd evict_g st) (\<lambda>(j, sl).
       bindE (selected_size sl st) (\<lambda>k.
       bindE (evict_request env sl j st) (\<lambda>st.
       bindE (evict_collect env poll sl (map uninit [0..<nat k]) st) (\<lambda>(L, n, st).
       bindE (evict_choose (nat j) (nat k) (L, sl, 0, st)) (\<lambda>(L, sl, ci, st).
       evict_stop env poll sl ci st))))))"

section \<open>The memory thread\<close>

text \<open>
  One round of \<open>free_mem\<close>. The smoothed reading is computed in floating point from the new and the last one:
  \<open>filtered\<close> is any such function.
\<close>

record mem_thread =
  last_free_mem_g :: int
  evict_hit_count :: int
  expand_hit_count :: int

definition evict_round :: "(int \<Rightarrow> monitor \<Rightarrow> monitor res) \<Rightarrow> mem_thread \<Rightarrow> monitor \<Rightarrow> (mem_thread \<times> monitor) res" where
  "evict_round evict t st =
     (let t = t\<lparr>evict_hit_count := evict_hit_count t + 1, expand_hit_count := 0\<rparr> in
      if evict_hit_count t \<ge> MEM_EVICT_HIT_THRESHOLD
      then let sz = remote_size_gb (rdma_remote (session st));
               stop_size_g = FREE_MEM_EVICT_THRESHOLD - last_free_mem_g t;
               stop_size_g = (if sz < stop_size_g then sz else stop_size_g)
           in bindE (if stop_size_g > 0 then evict stop_size_g st else Inr st)
                (\<lambda>st. Inr (t\<lparr>evict_hit_count := 0, last_free_mem_g := last_free_mem_g t + stop_size_g\<rparr>, st))
      else Inr (t, st))"

definition expand_round :: "mem_thread \<Rightarrow> monitor \<Rightarrow> mem_thread \<times> monitor" where
  "expand_round t st =
     (let t = t\<lparr>expand_hit_count := expand_hit_count t + 1, evict_hit_count := 0\<rparr> in
      if expand_hit_count t \<ge> MEM_EXPAND_HIT_THRESHOLD
      then case expand_mem (last_free_mem_g t - FREE_MEM_EXPAND_THRESHOLD) st of (expand_size_g, st) \<Rightarrow>
             (t\<lparr>expand_hit_count := 0, last_free_mem_g := last_free_mem_g t - expand_size_g\<rparr>, st)
      else (t, st))"

definition free_mem_round :: "(int \<Rightarrow> int \<Rightarrow> int) \<Rightarrow> (int \<Rightarrow> monitor \<Rightarrow> monitor res) \<Rightarrow> int \<Rightarrow>
    mem_thread \<times> monitor \<Rightarrow> (mem_thread \<times> monitor) res" where
  "free_mem_round filtered evict free_mem_g = (\<lambda>(t, st).
     let f = filtered free_mem_g (last_free_mem_g t); t = t\<lparr>last_free_mem_g := f\<rparr> in
     if f < FREE_MEM_EVICT_THRESHOLD then evict_round evict t st
     else if f > FREE_MEM_EXPAND_THRESHOLD then Inr (expand_round t st)
     else Inr (t, st))"

text \<open>The loop, over the readings it takes while the server runs.\<close>

fun free_mem :: "(int \<Rightarrow> int \<Rightarrow> int) \<Rightarrow> (int \<Rightarrow> monitor \<Rightarrow> monitor res) \<Rightarrow> int list \<Rightarrow>
    mem_thread \<times> monitor \<Rightarrow> (mem_thread \<times> monitor) res" where
  "free_mem filtered evict [] s = Inr s"
| "free_mem filtered evict (g # gs) s =
     (if running (snd s) then bindE (free_mem_round filtered evict g s) (free_mem filtered evict gs) else Inr s)"

section \<open>Which clients are asked\<close>

lemma mark_clients:
  assumes "\<And>i. i \<in> set is \<Longrightarrow> \<exists>c<n. f i = int c \<and> P c" "length sl = n" "\<And>c. c < n \<Longrightarrow> sl ! c = 1 \<Longrightarrow> P c"
  shows "\<exists>sl'. foldE (\<lambda>i sl. astore sl (f i) 1) is sl = Inr sl' \<and> length sl' = n \<and> (\<forall>c<n. sl' ! c = (1 :: int) \<longrightarrow> P c)"
  using assms
proof (induction "is" arbitrary: sl)
  case (Cons i "is")
  from Cons.prems(1) [of i] obtain c where c: "c < n" "f i = int c" "P c" by auto
  have "\<exists>sl'. foldE (\<lambda>i sl. astore sl (f i) 1) is (sl[c := 1]) = Inr sl' \<and> length sl' = n \<and> (\<forall>c<n. sl' ! c = 1 \<longrightarrow> P c)"
  proof (rule Cons.IH)
    show "\<And>d. d < n \<Longrightarrow> sl[c := 1] ! d = 1 \<Longrightarrow> P d" using Cons.prems(3) c(3) by (metis nth_list_update_neq)
  qed (use Cons.prems in simp_all)
  with c Cons.prems(2) show ?case by simp
qed simp

lemma evict_plan_ok:
  assumes inv: "monitor_inv st" and g: "0 \<le> evict_g"
  shows "\<exists>sl. evict_plan rnd evict_g st = Inr (min evict_g (mapped_size (rdma_remote (session st))), sl) \<and> length sl = MAX_CLIENT \<and>
    (\<forall>i<MAX_CLIENT. sl ! i = 1 \<longrightarrow> conns (session st) ! i \<noteq> None)"
proof -
  let ?r = "rdma_remote (session st)"
  have tab: "table_ok st 0 0" and rem: "remote_ok ?r 0" using inv by (simp_all add: monitor_inv_def inv_off_def)
  show ?thesis
  proof (cases "mapped_size ?r < evict_g + EXTRA_CHUNK_NUM")
    case True
    have len: "length (conns_state (session st)) = MAX_CLIENT" by (rule table_ok_facts(2) [OF tab])
    have "conns (session st) ! i \<noteq> None" if "i < MAX_CLIENT" "conns_state (session st) ! i = CONN_MAPPED" for i
      using table_ok_slot [OF tab that(1)] that(2) by (auto simp: slot_ok_def split: option.splits)
    with True len show ?thesis by (simp add: evict_plan_def Let_def min_def)
  next
    case False
    let ?bad = "\<lambda>i. conn_map ?r ! i = - 1"
    have "length (conn_map ?r) = MAX_FREE_MEM_GB" "mapped_size ?r = cnt (\<lambda>x. x \<noteq> - 1) (conn_map ?r)"
      using rem by (simp_all add: remote_ok2_def)
    then have "mapped_size ?r = int (card {i. i < MAX_FREE_MEM_GB \<and> \<not> ?bad i})" by (simp add: cnt_def length_filter_conv_card)
    with False have "length ([] :: nat list) + length (map rnd [0..<nat (evict_g + EXTRA_CHUNK_NUM)]) \<le> card {i. i < MAX_FREE_MEM_GB \<and> \<not> ?bad i}"
      by (simp add: EXTRA_CHUNK_NUM_def)
    from probe_many_Some [OF this] obtain sel where
      sel: "probe_many MAX_FREE_MEM_GB ?bad (map rnd [0..<nat (evict_g + EXTRA_CHUNK_NUM)]) [] = Some sel"
      "\<forall>i\<in>set sel. i < MAX_FREE_MEM_GB \<and> \<not> ?bad i" by auto
    have "\<exists>sl. foldE (\<lambda>i sl. astore sl (conn_map ?r ! i) 1) sel (replicate MAX_CLIENT (- 1 :: int)) = Inr sl \<and> length sl = MAX_CLIENT \<and>
        (\<forall>c<MAX_CLIENT. sl ! c = 1 \<longrightarrow> conns (session st) ! c \<noteq> None)"
      using mark_clients [of sel MAX_CLIENT "\<lambda>i. conn_map ?r ! i" "\<lambda>c. conns (session st) ! c \<noteq> None" "replicate MAX_CLIENT (- 1)"]
        sel(2) table_ok_facts(4) [OF tab] by auto
    then obtain sl where "foldE (\<lambda>i sl. astore sl (conn_map ?r ! i) 1) sel (replicate MAX_CLIENT (- 1 :: int)) = Inr sl" "length sl = MAX_CLIENT"
      "\<forall>c<MAX_CLIENT. sl ! c = 1 \<longrightarrow> conns (session st) ! c \<noteq> None" by blast
    moreover have "min evict_g (mapped_size ?r) = evict_g" using False by (simp add: EXTRA_CHUNK_NUM_def min_def)
    ultimately show ?thesis using False sel(1) by (simp add: evict_plan_def Let_def)
  qed
qed

section \<open>Which chunks are chosen\<close>

definition tagged :: "monitor \<Rightarrow> int \<Rightarrow> bool" where
  "tagged st ch \<longleftrightarrow> (\<exists>ci cid k. aload (conn_map (rdma_remote (session st))) ch = Inr ci \<and> conn_at st ci = Inr cid \<and>
     heap st cid = Some k \<and> aload (rkey (send_msg k)) ch = Inr 1)"

lemma aload_Inr: "aload xs i = Inr x \<longleftrightarrow> 0 \<le> i \<and> nat i < length xs \<and> xs ! nat i = x"
  by (auto simp: aload_def)

lemma astore_Inr: "astore xs i v = Inr ys \<longleftrightarrow> 0 \<le> i \<and> nat i < length xs \<and> ys = xs[nat i := v]"
  by (auto simp: astore_def)

lemma store_1: "j < length xs \<Longrightarrow> xs ! j = v \<Longrightarrow> xs[i := v] ! j = v"
  by (cases "i = j") auto

lemma tagged_update:
  assumes "tagged st ch" "heap st cid = Some k" "session st' = session st" "heap st' = (heap st)(cid \<mapsto> k')"
    and "rkey (send_msg k') = (rkey (send_msg k))[i := 1]"
  shows "tagged st' ch"
proof -
  from assms(1) obtain ci cid0 k0 where "aload (conn_map (rdma_remote (session st))) ch = Inr ci" "conn_at st ci = Inr cid0"
    "heap st cid0 = Some k0" "aload (rkey (send_msg k0)) ch = Inr 1" by (auto simp: tagged_def)
  with assms show ?thesis
    unfolding tagged_def
    by (intro exI [of _ ci] exI [of _ cid0] exI [of _ "if cid0 = cid then k' else k0"])
      (auto simp: conn_at_def aload_Inr store_1)
qed

lemma choose_step_result:
  assumes "choose_step k n (L, sl, ci, st) = Inr (L', sl', ci', st')"
  shows "L' = settle (\<lambda>a b. activity a < activity b) k n L" "session st' = session st" "n < length L'"
    and "tagged st ch \<Longrightarrow> tagged st' ch" "tagged st' (chunk_index_of (L' ! n))"
proof -
  let ?L = "settle (\<lambda>a b. activity a < activity b) k n L"
  from assms obtain cid c m where
    L': "L' = ?L" "n < length ?L" and ci: "aload (conn_map (rdma_remote (session st))) (chunk_index_of (?L ! n)) = Inr ci'"
    and cid: "conn_at st ci' = Inr cid" "heap st cid = Some c" and m: "tag_chunk (chunk_index_of (?L ! n)) (send_msg c) = Inr m"
    and st': "st' = st\<lparr>heap := (heap st)(cid \<mapsto> c\<lparr>send_msg := m\<rparr>)\<rparr>"
    by (auto simp: choose_step_def Let_def bindE_Inr deref_def upd_conn_def aload_Inr split: option.splits if_splits)
  then show "L' = ?L" "session st' = session st" "n < length L'" by simp_all
  from m have r: "rkey m = (rkey (send_msg c))[nat (chunk_index_of (?L ! n)) := 1]"
    "0 \<le> chunk_index_of (?L ! n)" "nat (chunk_index_of (?L ! n)) < length (rkey (send_msg c))"
    by (auto simp: tag_chunk_def bindE_Inr astore_Inr)
  show "tagged st ch \<Longrightarrow> tagged st' ch"
    by (rule tagged_update [where st = st and cid = cid and k = c and k' = "c\<lparr>send_msg := m\<rparr>" and
      i = "nat (chunk_index_of (?L ! n))"]) (use cid r in \<open>simp_all add: st'\<close>)
  show "tagged st' (chunk_index_of (L' ! n))"
    unfolding tagged_def L'(1)
    by (intro exI [of _ ci'] exI [of _ cid] exI [of _ "c\<lparr>send_msg := m\<rparr>"])
      (use ci cid r in \<open>auto simp: st' conn_at_def aload_Inr\<close>)
qed

lemma settle_below: "p < n \<Longrightarrow> settle before k n xs ! p = xs ! p"
  unfolding settle_def
  by (rule fold_inv [where P = "\<lambda>ys. ys ! p = xs ! p"]) (auto simp: exchange_def swap_def)

lemma evict_choose_sorts:
  assumes "evict_choose j k (L, sl, ci, st) = Inr (L', sl', ci', st')"
  shows "L' = exchange_sort (\<lambda>a b. activity a < activity b) j k L \<and> session st' = session st \<and>
    (\<forall>n<j. tagged st' (chunk_index_of (L' ! n)))"
  using assms
proof (induction j arbitrary: L' sl' ci' st')
  case 0
  then show ?case by (simp add: evict_choose_def exchange_sort_def)
next
  case (Suc j)
  then obtain L1 sl1 ci1 st1 where
    one: "evict_choose j k (L, sl, ci, st) = Inr (L1, sl1, ci1, st1)" and two: "choose_step k j (L1, sl1, ci1, st1) = Inr (L', sl', ci', st')"
    by (auto simp: evict_choose_def foldE_append bindE_Inr)
  note IH = Suc.IH [OF one] and step = choose_step_result [OF two]
  have "tagged st' (chunk_index_of (L' ! n))" if "n < Suc j" for n
  proof (cases "n = j")
    case False
    with that have "L' ! n = L1 ! n" using step(1) settle_below [of n j] by simp
    moreover have "tagged st1 (chunk_index_of (L1 ! n))" using False that IH [THEN conjunct2, THEN conjunct2, rule_format, of n] by simp
    ultimately show ?thesis using step(4) by simp
  qed (use step(5) in simp)
  with IH step show ?case by (auto simp: exchange_sort_def)
qed

text \<open>Two reports on the state of the sample run.\<close>

definition demo_reports :: "chunk_activity list" where
  "demo_reports = [\<lparr>activity = 9, chunk_index_of = 1\<rparr>, \<lparr>activity = 3, chunk_index_of = 0\<rparr>]"

section \<open>Properties\<close>



text \<open>C26: The eviction takes the least active of the reported chunks: the list is permuted so that its first \<open>j\<close> places hold the smallest
  activities in ascending order, and each chunk of those places is tagged in the message to the client that holds it.\<close>

theorem evict_chooses_least_active:
  assumes "evict_choose j k (L, sl, ci, st) = Inr (L', sl', ci', st')" "j \<le> k" "k \<le> length L"
  shows "mset L' = mset L \<and> (\<forall>n<j. tagged st' (chunk_index_of (L' ! n)) \<and> (\<forall>m. n < m \<and> m < k \<longrightarrow> activity (L' ! n) \<le> activity (L' ! m)))"
  using evict_choose_sorts [OF assms(1)] by_key_up.exchange_sort_inv [OF assms(2,3), of activity, unfolded by_key_up.settled_def]
  by (auto simp: not_less)

theorem evict_chooses_least_active_witness:
  "\<exists>L sl ci st. evict_choose 1 2 (demo_reports, replicate MAX_CLIENT 1, 0, demo_3) = Inr (L, sl, ci, st) \<and>
    activity (L ! 0) \<le> activity (L ! 1) \<and> tagged st (chunk_index_of (L ! 0))"
proof -
  let ?r = "evict_choose 1 2 (demo_reports, replicate MAX_CLIENT 1, 0, demo_3)"
  have "?r = Inr (projr ?r)" by (rule Inr_projr) code_simp
  then obtain L sl ci st where r: "?r = Inr (L, sl, ci, st)" by (cases "projr ?r") auto
  from evict_chooses_least_active [OF this] have "activity (L ! 0) \<le> activity (L ! 1) \<and> tagged st (chunk_index_of (L ! 0))"
    by (simp add: demo_reports_def)
  with r show ?thesis by blast
qed

end
