(* ===== verification/Read_Write.thy ===== *)
theory Read_Write
  imports Session_Runs
begin

text \<open>
  Writes of a replicated device step by step, and what reads share with them: contexts are taken from the pools of the servers,
  one work request is posted per replica and its completion awaited. What the code relies on of the verbs layer is
  \<open>reliable\<close>: posts succeed, completions arrive in order, a write changes the bytes it names and a read returns them.
\<close>

section \<open>Remote memory\<close>

type_synonym memory = "u32 \<Rightarrow> u64 \<Rightarrow> u8"

definition mem_write :: "u32 \<Rightarrow> u64 \<Rightarrow> u8 list \<Rightarrow> memory \<Rightarrow> memory" where
  "mem_write k a d m = (\<lambda>k' a'. if k' = k \<and> unat (a' - a) < length d then d ! unat (a' - a) else m k' a')"

definition mem_read :: "u32 \<Rightarrow> u64 \<Rightarrow> nat \<Rightarrow> memory \<Rightarrow> u8 list" where
  "mem_read k a n m = map (\<lambda>j. m k (a + of_nat j)) [0..<n]"

lemma mem_read_write: "length d = n \<Longrightarrow> n < 2 ^ 64 \<Longrightarrow> mem_read k a n (mem_write k a d m) = d"
  by (rule nth_equalityI) (simp_all add: mem_read_def mem_write_def unsigned_of_nat take_bit_nat_eq_self)

definition reliable :: "'n transport \<Rightarrow> ('n \<Rightarrow> nat \<Rightarrow> memory) \<Rightarrow> ('n \<Rightarrow> nat \<Rightarrow> completion list) \<Rightarrow> bool" where
  "reliable tr mem cqe \<longleftrightarrow>
     (\<forall>b a k x d n. fst (tp_send tr b (WR_WRITE a k x d) n) = 0 \<and>
        mem (snd (tp_send tr b (WR_WRITE a k x d) n)) = (mem n)(b := mem_write k x d (mem n b)) \<and>
        cqe (snd (tp_send tr b (WR_WRITE a k x d) n)) = (cqe n)(b := cqe n b @ [OP_WRITE a])) \<and>
     (\<forall>b a k x l n. fst (tp_send tr b (WR_READ a k x l) n) = 0 \<and>
        mem (snd (tp_send tr b (WR_READ a k x l) n)) = mem n \<and>
        cqe (snd (tp_send tr b (WR_READ a k x l) n)) = (cqe n)(b := cqe n b @ [OP_READ a (mem_read k x l (mem n b))])) \<and>
     (\<forall>b n op ops. cqe n b = op # ops \<longrightarrow> (\<exists>n'. tp_poll tr b n = Some (WC_SUCCESS, op, n') \<and> mem n' = mem n \<and> cqe n' = (cqe n)(b := ops)))"

section \<open>Pools\<close>

definition has_pool :: "'n world \<Rightarrow> nat \<Rightarrow> nat \<Rightarrow> bool" where
  "has_pool w i b \<longleftrightarrow> i < length (IS_conns (sess w)) \<and> b < length (ctx_pools (IS_conns (sess w) ! i))"

definition pool_of :: "'n world \<Rightarrow> nat \<Rightarrow> nat \<Rightarrow> ctx_pool_list" where
  "pool_of w i b = ctx_pools (IS_conns (sess w) ! i) ! b"

lemma pool_at_of: "has_pool w i b \<Longrightarrow> pool_at w i (int b) = Inr (pool_of w i b)"
  by (simp add: has_pool_def pool_at_def pool_of_def)

lemma pool_of_upd: "has_pool w i b \<Longrightarrow> pool_of (upd_pool i b f w) i b' = (if b' = b then f (pool_of w i b) else pool_of w i b')"
  by (simp add: has_pool_def pool_of_def upd_pool_def upd_sess_def)

lemma has_pool_upd [simp]: "has_pool (upd_pool i b f w) i' b' = has_pool w i' b'"
  by (cases "i' = i") (auto simp: has_pool_def upd_pool_def upd_sess_def)

lemma upd_pool_frame [simp]:
  "reqs (upd_pool i b f w) = reqs w" "cnts (upd_pool i b f w) = cnts w" "net (upd_pool i b f w) = net w" "kobjs (upd_pool i b f w) = kobjs w"
  by (simp_all add: upd_pool_def upd_sess_def)

lemma ctx_at_of: "has_pool w i b \<Longrightarrow> k < length (ctx_pool (pool_of w i b)) \<Longrightarrow> ctx_at w (i, b, k) = Inr (ctx_pool (pool_of w i b) ! k)"
  by (simp add: pool_at_of)

lemmas pool_simps = pool_at_of ctx_at_of pool_of_upd

declare ctx_at.simps [simp del] upd_ctx.simps [simp del] give_back.simps [simp del]

text \<open>What the data path leaves alone: all of the session but contexts and fault counters.\<close>

definition frame :: "'n world \<Rightarrow> 'n world \<Rightarrow> bool" where
  "frame w w' \<longleftrightarrow> (\<exists>cs fi. sess w' = (sess w)\<lparr>IS_conns := cs, fault_injection := fi\<rparr> \<and> inject_fault fi = inject_fault (fault_injection (sess w))) \<and>
     (\<forall>i b. has_pool w' i b = has_pool w i b)"

lemma frameI:
  assumes "sess w' = (sess w)\<lparr>IS_conns := cs, fault_injection := fi\<rparr>" "inject_fault fi = inject_fault (fault_injection (sess w))"
    and "\<And>i b. has_pool w' i b = has_pool w i b"
  shows "frame w w'"
  using assms unfolding frame_def by blast

lemma frame_sess: "sess w' = sess w \<Longrightarrow> frame w w'"
  by (rule frameI [where cs = "IS_conns (sess w)" and fi = "fault_injection (sess w)"]) (simp_all add: has_pool_def)

lemma frame_refl [simp]: "frame w w"
  by (rule frame_sess) simp

lemma frame_trans: "frame w w1 \<Longrightarrow> frame w1 w2 \<Longrightarrow> frame w w2"
proof -
  assume a: "frame w w1" "frame w1 w2"
  then obtain cs fi where 1: "sess w1 = (sess w)\<lparr>IS_conns := cs, fault_injection := fi\<rparr>" "inject_fault fi = inject_fault (fault_injection (sess w))"
    by (auto simp: frame_def)
  from a obtain cs' fi' where 2: "sess w2 = (sess w1)\<lparr>IS_conns := cs', fault_injection := fi'\<rparr>" "inject_fault fi' = inject_fault (fault_injection (sess w1))"
    by (auto simp: frame_def)
  show ?thesis by (rule frameI [where cs = cs' and fi = fi']) (use a 1 2 in \<open>simp_all add: frame_def\<close>)
qed

lemma frame_pool: "frame w (upd_pool i b f w)"
  by (rule frameI [where cs = "(IS_conns (sess w))[i := (IS_conns (sess w) ! i)
      \<lparr>ctx_pools := (ctx_pools (IS_conns (sess w) ! i))[b := f (ctx_pools (IS_conns (sess w) ! i) ! b)]\<rparr>]" and fi = "fault_injection (sess w)"])
    (simp add: upd_pool_def upd_sess_def, simp_all)

lemma frame_net [simp]: "frame w (w\<lparr>net := n\<rparr>)" "frame w (w\<lparr>cnts := l\<rparr>)" "frame w (w\<lparr>reqs := g\<rparr>)" "frame w (upd_req r h w)"
  by (rule frame_sess; simp add: upd_req_def)+

lemma frame_fi: "inject_fault (h (sess w)) = inject_fault (fault_injection (sess w)) \<Longrightarrow> frame w (upd_sess (\<lambda>s. s\<lparr>fault_injection := h s\<rparr>) w)"
  by (rule frameI [where cs = "IS_conns (sess w)" and fi = "h (sess w)"]) (simp_all add: upd_sess_def has_pool_def)

lemma frameD:
  assumes "frame w w'"
  shows "cb_list (sess w') = cb_list (sess w)" "cb_state_list (sess w') = cb_state_list (sess w)"
    "cb_index_map (sess w') = cb_index_map (sess w)" "chunk_map_cb_chunk (sess w') = chunk_map_cb_chunk (sess w)"
    "has_pool w' i b = has_pool w i b" "cb_at (sess w') p = cb_at (sess w) p"
    "inject_fault (fault_injection (sess w')) = inject_fault (fault_injection (sess w))"
  using assms by (auto simp: frame_def cb_at_def)

section \<open>Loops over servers\<close>

text \<open>
  A loop whose steps each concern one server: if each step takes its server from \<open>P\<close> to \<open>Q\<close> and leaves the
  others alone, the loop takes them all.
\<close>

lemma foldE_servers:
  assumes step: "\<And>x w. x \<in> set xs \<Longrightarrow> I w \<Longrightarrow> P x (view (srv x) w) \<Longrightarrow>
      \<exists>w'. f x w = Inr w' \<and> I w' \<and> Q x (view (srv x) w') \<and> (\<forall>b. b \<noteq> srv x \<longrightarrow> view b w' = view b w)"
    and "distinct (map srv xs)" "I w" "\<forall>x\<in>set xs. P x (view (srv x) w)"
  shows "\<exists>w'. foldE f xs w = Inr w' \<and> I w' \<and> (\<forall>x\<in>set xs. Q x (view (srv x) w')) \<and> (\<forall>b. b \<notin> srv ` set xs \<longrightarrow> view b w' = view b w)"
  using assms
proof (induction xs arbitrary: w)
  case (Cons x xs)
  from Cons.prems(1) [of x w] Cons.prems(3,4) obtain w1 where
    w1: "f x w = Inr w1" "I w1" "Q x (view (srv x) w1)" "\<forall>b. b \<noteq> srv x \<longrightarrow> view b w1 = view b w" by auto
  have other: "srv y \<noteq> srv x" if "y \<in> set xs" for y using Cons.prems(2) that by (auto simp: image_iff)
  have "\<exists>w'. foldE f xs w1 = Inr w' \<and> I w' \<and> (\<forall>x\<in>set xs. Q x (view (srv x) w')) \<and> (\<forall>b. b \<notin> srv ` set xs \<longrightarrow> view b w' = view b w1)"
  proof (rule Cons.IH)
    show "\<forall>y\<in>set xs. P y (view (srv y) w1)" using Cons.prems(4) w1(4) other by auto
  qed (use Cons.prems(1,2) w1(2) in auto)
  then obtain w' where w': "foldE f xs w1 = Inr w'" "I w'" "\<forall>y\<in>set xs. Q y (view (srv y) w')" "\<forall>b. b \<notin> srv ` set xs \<longrightarrow> view b w' = view b w1"
    by blast
  have "srv x \<notin> srv ` set xs" using Cons.prems(2) by simp
  then have "view (srv x) w' = view (srv x) w1" using w'(4) by blast
  with w1 w' show ?case by auto
qed simp

lemma foldE_map: "foldE f (map h xs) s = foldE (\<lambda>x. f (h x)) xs s"
  by (induction xs arbitrary: s) (simp_all add: bindE_def split: sum.splits)

section \<open>Taking and returning contexts\<close>

text \<open>A pool that has a free context, and whose free contexts have page-sized buffers.\<close>

definition page_ctx :: "rdma_ctx \<Rightarrow> bool" where
  "page_ctx x \<longleftrightarrow> (case ctx_rdma_buf x of None \<Rightarrow> False | Some d \<Rightarrow> length d = IS_PAGE_SIZE)"

definition pool_free :: "ctx_pool_list \<Rightarrow> bool" where
  "pool_free pl \<longleftrightarrow> (case free_ctxs pl of None \<Rightarrow> False | Some f \<Rightarrow> pool_ok f \<and> free_list f \<noteq> [] \<and>
     (\<forall>k\<in>set (free_list f). k < length (ctx_pool pl) \<and> page_ctx (ctx_pool pl ! k)))"

definition top_id :: "ctx_pool_list \<Rightarrow> nat" where
  "top_id pl = last (free_list (the (free_ctxs pl)))"

definition popped :: "ctx_pool_list \<Rightarrow> free_ctx_pool" where
  "popped pl = snd (IS_get_ctx (the (free_ctxs pl)))"

definition top_ctx :: "ctx_pool_list \<Rightarrow> rdma_ctx" where
  "top_ctx pl = ctx_pool pl ! top_id pl"

text \<open>The pool with its top context replaced, and the given free list.\<close>

definition with_ctx :: "ctx_pool_list \<Rightarrow> free_ctx_pool option \<Rightarrow> rdma_ctx \<Rightarrow> ctx_pool_list" where
  "with_ctx pl f x = pl\<lparr>free_ctxs := f, ctx_pool := (ctx_pool pl)[top_id pl := x]\<rparr>"

lemma pool_free_take:
  assumes "pool_free pl"
  obtains f d where "free_ctxs pl = Some f" "IS_get_ctx f = (Some (top_id pl), popped pl)" "IS_insert_ctx (top_id pl) (popped pl) = Some f"
    "top_id pl < length (ctx_pool pl)" "ctx_rdma_buf (top_ctx pl) = Some d" "length d = IS_PAGE_SIZE"
proof -
  from assms obtain f where f: "free_ctxs pl = Some f" "pool_ok f" "free_list f \<noteq> []"
    and all: "\<forall>k\<in>set (free_list f). k < length (ctx_pool pl) \<and> page_ctx (ctx_pool pl ! k)"
    by (auto simp: pool_free_def split: option.splits)
  obtain k f' where k: "take_ctx f = Some (k, f')" "free_list f = free_list f' @ [k]" using free_list_get [OF f(2,3)] by blast
  have t: "top_id pl = k" using k f by (simp add: top_id_def)
  have get: "IS_get_ctx f = (Some k, f')" using k(1) by (auto simp: take_ctx_def split: option.splits prod.splits)
  then have tl: "tail f \<noteq> - 1" "ctx_list f ! nat (tail f) = Some k" "f' = f\<lparr>tail := tail f - 1\<rparr>" by (auto simp: IS_get_ctx_def split: if_splits)
  have "0 \<le> tail f" "tail f < int (length (ctx_list f))" using f(2) tl(1) by (auto simp: pool_ok_def)
  moreover have "(ctx_list f)[nat (tail f) := Some k] = ctx_list f" using tl(2) list_update_id [of "ctx_list f" "nat (tail f)"] by simp
  ultimately have ins: "IS_insert_ctx k f' = Some f" by (simp add: tl(3) IS_insert_ctx_def Let_def)
  from all k(2) obtain d where d: "k < length (ctx_pool pl)" "ctx_rdma_buf (ctx_pool pl ! k) = Some d" "length d = IS_PAGE_SIZE"
    by (auto simp: page_ctx_def split: option.splits)
  show thesis
    by (rule that [of f d]) (use f get ins d t in \<open>simp_all add: popped_def top_ctx_def\<close>)
qed

lemma pool_free_back:
  assumes "pool_free pl" "page_ctx x"
  shows "pool_free (with_ctx pl (free_ctxs pl) x)"
proof -
  have "page_ctx ((ctx_pool pl)[top_id pl := x] ! k)" if "k < length (ctx_pool pl)" "page_ctx (ctx_pool pl ! k)" for k
    using that assms(2) by (cases "k = top_id pl") auto
  with assms(1) show ?thesis by (auto simp: pool_free_def with_ctx_def split: option.splits)
qed

lemma with_ctx_simps [simp]:
  "free_ctxs (with_ctx pl f x) = f" "length (ctx_pool (with_ctx pl f x)) = length (ctx_pool pl)"
  "top_id pl < length (ctx_pool pl) \<Longrightarrow> ctx_pool (with_ctx pl f x) ! top_id pl = x"
  "(with_ctx pl f x)\<lparr>ctx_pool := (ctx_pool (with_ctx pl f x))[top_id pl := y]\<rparr> = with_ctx pl f y"
  "(with_ctx pl f x)\<lparr>free_ctxs := g\<rparr> = with_ctx pl g x"
  by (simp_all add: with_ctx_def)

text \<open>The data path on the context \<open>(i, b, top_id pl)\<close> once the pool is \<open>with_ctx pl f x\<close>.\<close>

lemma ctx_at_with:
  assumes "has_pool w i b" "pool_of w i b = with_ctx pl f x" "top_id pl < length (ctx_pool pl)"
  shows "ctx_at w (i, b, top_id pl) = Inr x"
  using assms by (simp add: ctx_at_of)

lemma upd_ctx_with:
  assumes "has_pool w i b" "pool_of w i b = with_ctx pl f x" "top_id pl < length (ctx_pool pl)"
  shows "pool_of (upd_ctx (i, b, top_id pl) h w) i b' = (if b' = b then with_ctx pl f (h x) else pool_of w i b')"
  using assms by (simp add: upd_ctx.simps pool_of_upd)

lemma give_back_with:
  assumes "has_pool w i b" "pool_of w i b = with_ctx pl (Some (popped pl)) x" "pool_free pl"
  shows "\<exists>w'. give_back (i, b, top_id pl) w = Inr w' \<and> frame w w' \<and> net w' = net w \<and> reqs w' = reqs w \<and> cnts w' = cnts w \<and>
    (\<forall>b'. pool_of w' i b' = (if b' = b then with_ctx pl (free_ctxs pl) x else pool_of w i b'))"
proof -
  obtain f where f: "free_ctxs pl = Some f" "IS_insert_ctx (top_id pl) (popped pl) = Some f" by (rule pool_free_take [OF assms(3)])
  let ?w = "upd_pool i b (\<lambda>pl. pl\<lparr>free_ctxs := Some f\<rparr>) w"
  have "give_back (i, b, top_id pl) w = Inr ?w" using assms f by (simp add: give_back.simps pool_at_of)
  moreover have "pool_of ?w i b' = (if b' = b then with_ctx pl (free_ctxs pl) x else pool_of w i b')" for b'
    using assms f by (simp add: pool_of_upd)
  ultimately show ?thesis using frame_pool by auto
qed

section \<open>Acquiring\<close>

definition the_route :: "nat \<times> nat \<Rightarrow> route" where
  "the_route p = Some (fst p, int (snd p), Some p)"

definition filled :: "is_config \<Rightarrow> nat \<Rightarrow> nat \<Rightarrow> nat \<Rightarrow> bool \<Rightarrow> nat \<Rightarrow> nat \<times> nat \<Rightarrow> remote_chunk_g \<Rightarrow> nat \<Rightarrow> rdma_ctx \<Rightarrow> rdma_ctx" where
  "filled c r offset ln wr cnt p ch i x = fill_wr c offset ln ch (if wr then IB_WR_RDMA_WRITE else IB_WR_RDMA_READ) i cnt
     (if wr then x\<lparr>ctx_req := Some r, ctx_cb := Some (fst p), ctx_offset := offset div NDATAS c, ctx_len := ln div NDATAS c,
                  ctx_chunk_ptr := Some p, ctx_chunk_index := int (snd p)\<rparr>
      else x\<lparr>ctx_req := Some r, ctx_cb := Some (fst p), ctx_in_flight := CTX_R_IN_FLIGHT\<rparr>)"

lemma chunk_at_frame: "frame w w' \<Longrightarrow> chunk_at w' p = chunk_at w p"
  by (auto simp: chunk_at_def frameD(6) split: option.splits)

lemma acquire_step:
  assumes "has_pool w i (fst p)" "pool_free (pool_of w i (fst p))" "chunk_at w (Some p) = Inr ch" "conn_id q = i"
  defines "pl \<equiv> pool_of w i (fst p)"
  shows "\<exists>w'. acquire c r q offset ln wr cnt (j, the_route p) (as, w) = Inr (as @ [(i, fst p, top_id pl)], w') \<and>
    frame w w' \<and> net w' = net w \<and> reqs w' = reqs w \<and> cnts w' = cnts w \<and>
    (\<forall>b. pool_of w' i b = (if b = fst p then with_ctx pl (Some (popped pl)) (filled c r offset ln wr cnt p ch j (top_ctx pl)) else pool_of w i b))"
proof -
  let ?b = "fst p"
  obtain f where f: "free_ctxs pl = Some f" "IS_get_ctx f = (Some (top_id pl), popped pl)" "top_id pl < length (ctx_pool pl)"
    by (rule pool_free_take [of pl]) (use assms(2) in \<open>simp add: pl_def\<close>)
  let ?w1 = "upd_pool i ?b (\<lambda>pl. pl\<lparr>free_ctxs := Some (popped (pool_of w i ?b))\<rparr>) w"
  let ?w2 = "upd_ctx (i, ?b, top_id pl) (filled c r offset ln wr cnt p ch j) ?w1"
  have tk: "take_from i (int ?b) w = Inr (Some (i, ?b, top_id pl), ?w1)"
    using assms(1) f by (simp add: take_from_def pool_at_of pl_def)
  have "chunk_at ?w1 (Some p) = Inr ch" using chunk_at_frame [OF frame_pool] assms(3) by metis
  then have run: "acquire c r q offset ln wr cnt (j, the_route p) (as, w) = Inr (as @ [(i, ?b, top_id pl)], ?w2)"
    using tk assms(4) by (simp add: acquire_def the_route_def filled_def [abs_def])
  have p1: "pool_of ?w1 i ?b = with_ctx pl (Some (popped pl)) (top_ctx pl)"
    using assms(1) f(3) by (simp add: pool_of_upd pl_def with_ctx_def top_ctx_def)
  have "pool_of ?w2 i b = (if b = ?b then with_ctx pl (Some (popped pl)) (filled c r offset ln wr cnt p ch j (top_ctx pl)) else pool_of w i b)" for b
    using upd_ctx_with [OF _ p1 f(3), of "filled c r offset ln wr cnt p ch j" b] assms(1) by (simp add: pool_of_upd)
  moreover have "frame ?w1 ?w2" unfolding upd_ctx.simps by (rule frame_pool)
  then have "frame w ?w2" by (rule frame_trans [OF frame_pool])
  moreover have "net ?w2 = net w" "reqs ?w2 = reqs w" "cnts ?w2 = cnts w" by (simp_all add: upd_ctx.simps)
  ultimately show ?thesis using run by blast
qed

lemma acquire_unmapped:
  assumes "has_pool w i j" "pool_free (pool_of w i j)" "conn_id q = i"
  defines "pl \<equiv> pool_of w i j"
  shows "\<exists>w'. acquire c r q offset ln wr cnt (j, None) (as, w) = Inr (as @ [(i, j, top_id pl)], w') \<and>
    frame w w' \<and> net w' = net w \<and> reqs w' = reqs w \<and> cnts w' = cnts w \<and>
    (\<forall>b. pool_of w' i b = (if b = j then with_ctx pl (Some (popped pl)) (top_ctx pl) else pool_of w i b))"
proof -
  obtain f where f: "free_ctxs pl = Some f" "IS_get_ctx f = (Some (top_id pl), popped pl)" "top_id pl < length (ctx_pool pl)"
    by (rule pool_free_take [of pl]) (use assms(2) in \<open>simp add: pl_def\<close>)
  let ?w1 = "upd_pool i j (\<lambda>pl. pl\<lparr>free_ctxs := Some (popped (pool_of w i j))\<rparr>) w"
  have "acquire c r q offset ln wr cnt (j, None) (as, w) = Inr (as @ [(i, j, top_id pl)], ?w1)"
    using assms(1,3) f by (simp add: acquire_def take_from_def pool_at_of pl_def)
  moreover have "pool_of ?w1 i b = (if b = j then with_ctx pl (Some (popped pl)) (top_ctx pl) else pool_of w i b)" for b
    using assms(1) f(3) by (simp add: pool_of_upd pl_def with_ctx_def top_ctx_def)
  ultimately show ?thesis using frame_pool by (intro exI [of _ ?w1]) simp
qed

text \<open>The routes of a request whose servers are \<open>ps\<close>: a slab without a server takes its context from the pool of its position.\<close>

definition read_route :: "(nat \<times> nat \<Rightarrow> bool) \<Rightarrow> nat \<times> nat \<Rightarrow> route" where
  "read_route live p = (if live p then the_route p else None)"

lemma acquire_routes:
  assumes "distinct (map fst ps)" "conn_id q = i" "\<forall>k<length ps. live (ps ! k) \<or> fst (ps ! k) = j + k"
    and "\<forall>p\<in>set ps. has_pool w i (fst p) \<and> pool_free (pl p) \<and> pool_of w i (fst p) = pl p \<and> (live p \<longrightarrow> chunk_at w (Some p) = Inr (ch p))"
  shows "\<exists>w'. foldE (acquire c r q offset ln wr cnt) (enumerate j (map (read_route live) ps)) (as, w) =
      Inr (as @ map (\<lambda>p. (i, fst p, top_id (pl p))) ps, w') \<and> frame w w' \<and> net w' = net w \<and> reqs w' = reqs w \<and> cnts w' = cnts w \<and>
    (\<forall>p\<in>set ps. \<exists>n. pool_of w' i (fst p) = with_ctx (pl p) (Some (popped (pl p)))
      (if live p then filled c r offset ln wr cnt p (ch p) n (top_ctx (pl p)) else top_ctx (pl p))) \<and>
    (\<forall>b. b \<notin> fst ` set ps \<longrightarrow> pool_of w' i b = pool_of w i b)"
  using assms
proof (induction ps arbitrary: j as w)
  case (Cons p ps)
  let ?a = "\<lambda>p. (i, fst p, top_id (pl p))" and ?x = "\<lambda>p n. if live p then filled c r offset ln wr cnt p (ch p) n (top_ctx (pl p)) else top_ctx (pl p)"
  have p: "has_pool w i (fst p)" "pool_free (pool_of w i (fst p))" "pool_of w i (fst p) = pl p" "live p \<longrightarrow> chunk_at w (Some p) = Inr (ch p)" "live p \<or> fst p = j"
    using Cons.prems(3,4) by auto
  have "\<exists>w1. acquire c r q offset ln wr cnt (j, read_route live p) (as, w) = Inr (as @ [?a p], w1) \<and>
      frame w w1 \<and> net w1 = net w \<and> reqs w1 = reqs w \<and> cnts w1 = cnts w \<and>
      (\<forall>b. pool_of w1 i b = (if b = fst p then with_ctx (pl p) (Some (popped (pl p))) (?x p j) else pool_of w i b))"
  proof (cases "live p")
    case True
    with acquire_step [OF p(1,2) _ Cons.prems(2), of "ch p" c r offset ln wr cnt j as, unfolded p(3)] p(4) show ?thesis by (simp add: read_route_def)
  next
    case False
    then have "fst p = j" using p(5) by simp
    with False acquire_unmapped [OF p(1,2) Cons.prems(2), of c r offset ln wr cnt as] p(3) show ?thesis by (auto simp: read_route_def)
  qed
  then obtain w1 where w1: "acquire c r q offset ln wr cnt (j, read_route live p) (as, w) = Inr (as @ [?a p], w1)"
    and f1: "frame w w1" "net w1 = net w" "reqs w1 = reqs w" "cnts w1 = cnts w"
    and p1: "\<forall>b. pool_of w1 i b = (if b = fst p then with_ctx (pl p) (Some (popped (pl p))) (?x p j) else pool_of w i b)" by blast
  have ne: "fst p' \<noteq> fst p" if "p' \<in> set ps" for p' using Cons.prems(1) that by (auto simp: image_iff)
  have pre: "\<forall>p'\<in>set ps. has_pool w1 i (fst p') \<and> pool_free (pl p') \<and> pool_of w1 i (fst p') = pl p' \<and> (live p' \<longrightarrow> chunk_at w1 (Some p') = Inr (ch p'))"
    using Cons.prems(4) p1 ne chunk_at_frame [OF f1(1)] frameD(5) [OF f1(1)] by simp
  have pos: "\<forall>k<length ps. live (ps ! k) \<or> fst (ps ! k) = Suc j + k" using Cons.prems(3) by fastforce
  from Cons.IH [OF _ Cons.prems(2) pos pre, of "as @ [?a p]"] Cons.prems(1) obtain w' where
    w': "foldE (acquire c r q offset ln wr cnt) (enumerate (Suc j) (map (read_route live) ps)) (as @ [?a p], w1) = Inr ((as @ [?a p]) @ map ?a ps, w')"
    and f': "frame w1 w'" "net w' = net w1" "reqs w' = reqs w1" "cnts w' = cnts w1"
    and p': "\<forall>p\<in>set ps. \<exists>n. pool_of w' i (fst p) = with_ctx (pl p) (Some (popped (pl p))) (?x p n)" "\<forall>b. b \<notin> fst ` set ps \<longrightarrow> pool_of w' i b = pool_of w1 i b"
    by auto
  have "pool_of w' i (fst p) = with_ctx (pl p) (Some (popped (pl p))) (?x p j)" using p'(2) p1 Cons.prems(1) by simp
  then have got: "\<forall>p'\<in>set (p # ps). \<exists>n. pool_of w' i (fst p') = with_ctx (pl p') (Some (popped (pl p'))) (?x p' n)" using p'(1) by fastforce
  have oth: "\<forall>b. b \<notin> fst ` set (p # ps) \<longrightarrow> pool_of w' i b = pool_of w i b" using p'(2) p1 by simp
  have run: "foldE (acquire c r q offset ln wr cnt) (enumerate j (map (read_route live) (p # ps))) (as, w) = Inr (as @ map ?a (p # ps), w')" using w1 w' by simp
  show ?case
    by (intro exI [of _ w'] conjI) (use run frame_trans [OF f1(1) f'(1)] f1 f' got oth in \<open>simp_all only:\<close>)
qed simp

text \<open>The contexts of a request, one per replica.\<close>

definition ctx_addrs :: "nat \<Rightarrow> 'n world \<Rightarrow> (nat \<times> nat) list \<Rightarrow> ctx_addr list" where
  "ctx_addrs i w ps = map (\<lambda>p. (i, fst p, top_id (pool_of w i (fst p)))) ps"

lemma acquire_all:
  assumes "distinct (map fst ps)" "conn_id q = i"
    and "\<forall>p\<in>set ps. has_pool w i (fst p) \<and> pool_free (pool_of w i (fst p)) \<and> chunk_at w (Some p) = Inr (ch p)"
  shows "\<exists>w'. foldE (acquire c r q offset ln wr cnt) (enumerate j (map the_route ps)) (as, w) = Inr (as @ ctx_addrs i w ps, w') \<and>
    frame w w' \<and> net w' = net w \<and> reqs w' = reqs w \<and> cnts w' = cnts w \<and>
    (\<forall>p\<in>set ps. \<exists>n. pool_of w' i (fst p) = with_ctx (pool_of w i (fst p)) (Some (popped (pool_of w i (fst p))))
      (filled c r offset ln wr cnt p (ch p) n (top_ctx (pool_of w i (fst p))))) \<and>
    (\<forall>b. b \<notin> fst ` set ps \<longrightarrow> pool_of w' i b = pool_of w i b)"
proof -
  have "read_route (\<lambda>_. True) = the_route" by (simp add: fun_eq_iff read_route_def)
  then show ?thesis
    using acquire_routes [OF assms(1,2), of "\<lambda>_. True" j w "\<lambda>p. pool_of w i (fst p)" ch c r offset ln wr cnt as] assms(3) by (simp add: ctx_addrs_def)
qed

section \<open>Steps on one server\<close>

lemma upd_ctx_frame [simp]:
  "reqs (upd_ctx a f w) = reqs w" "cnts (upd_ctx a f w) = cnts w" "net (upd_ctx a f w) = net w" "has_pool (upd_ctx a f w) i b = has_pool w i b"
  by (cases a; simp add: upd_ctx.simps)+

lemma frame_ctx: "frame w (upd_ctx a f w)"
  by (cases a) (simp add: upd_ctx.simps frame_pool)

lemma net_pool [simp]:
  "pool_of (w\<lparr>net := n\<rparr>) i b = pool_of w i b" "has_pool (w\<lparr>net := n\<rparr>) i b = has_pool w i b"
  "pool_of (w\<lparr>cnts := l\<rparr>) i b = pool_of w i b" "has_pool (w\<lparr>cnts := l\<rparr>) i b = has_pool w i b"
  "pool_of (upd_req r h w) i b = pool_of w i b" "has_pool (upd_req r h w) i b = has_pool w i b"
  by (simp_all add: pool_of_def has_pool_def upd_req_def)

lemma req_simps [simp]:
  "reqs (upd_req r h w) = (reqs w)(r := map_option h (reqs w r))" "cnts (upd_req r h w) = cnts w" "net (upd_req r h w) = net w" "sess (upd_req r h w) = sess w"
  by (simp_all add: upd_req_def)

lemma copy_in_ok:
  assumes hp: "has_pool w i b" and pl: "pool_of w i b = with_ctx pl f x" "top_id pl < length (ctx_pool pl)"
    and d: "page_ctx x" "length d = IS_PAGE_SIZE"
  shows "copy_in 0 d (i, b, top_id pl) w = Inr (upd_ctx (i, b, top_id pl) (\<lambda>x. x\<lparr>ctx_rdma_buf := Some d\<rparr>) w)"
  using d ctx_at_with [OF hp pl] by (auto simp: copy_in_def buf_of_def memcpy_def page_ctx_def split: option.splits)

lemma post_ctx_ok:
  assumes rel: "reliable tr mem cqe" and hp: "has_pool w i b" and pl: "pool_of w i b = with_ctx pl f x" "top_id pl < length (ctx_pool pl)"
    and x: "ctx_rdma_buf x = Some d" "ctx_opcode x = (if wr then IB_WR_RDMA_WRITE else IB_WR_RDMA_READ)"
  shows "\<exists>n. post_ctx tr b (i, b, top_id pl) w = Inr (0, w\<lparr>net := n\<rparr>) \<and>
    mem n = (mem (net w))(b := if wr then mem_write (ctx_rkey x) (ctx_remote_addr x) (take (sg_length x) d) (mem (net w) b) else mem (net w) b) \<and>
    cqe n = (cqe (net w))(b := cqe (net w) b @ [if wr then OP_WRITE (i, b, top_id pl)
      else OP_READ (i, b, top_id pl) (mem_read (ctx_rkey x) (ctx_remote_addr x) (sg_length x) (mem (net w) b))])"
proof -
  let ?a = "(i, b, top_id pl)"
  let ?s = "tp_send tr b (if wr then WR_WRITE ?a (ctx_rkey x) (ctx_remote_addr x) (take (sg_length x) d)
    else WR_READ ?a (ctx_rkey x) (ctx_remote_addr x) (sg_length x)) (net w)"
  have "fst ?s = 0" using rel by (simp add: reliable_def)
  moreover have "post_ctx tr b ?a w = Inr (fst ?s, w\<lparr>net := snd ?s\<rparr>)"
    using ctx_at_with [OF hp pl] x by (cases wr) (simp_all add: post_ctx_def buf_of_def split: prod.splits)
  moreover have "mem (snd ?s) = (mem (net w))(b := if wr then mem_write (ctx_rkey x) (ctx_remote_addr x) (take (sg_length x) d) (mem (net w) b) else mem (net w) b)"
    using rel by (simp add: reliable_def)
  moreover have "cqe (snd ?s) = (cqe (net w))(b := cqe (net w) b @ [if wr then OP_WRITE ?a
      else OP_READ ?a (mem_read (ctx_rkey x) (ctx_remote_addr x) (sg_length x) (mem (net w) b))])"
    using rel by (simp add: reliable_def)
  ultimately show ?thesis by (intro exI [of _ "snd ?s"]) simp
qed

text \<open>The server behind control block \<open>b\<close> takes part.\<close>

definition alive :: "IS_session \<Rightarrow> nat \<Rightarrow> bool" where
  "alive s b \<longleftrightarrow> (case cb_at s (int b) of Inl _ \<Rightarrow> False | Inr cb \<Rightarrow> state cb \<noteq> ERROR) \<and> cb_state_list s ! b \<noteq> CB_FAIL"

lemma alive_frame: "frame w w' \<Longrightarrow> alive (sess w') b = alive (sess w) b"
  by (simp add: alive_def frameD)

lemma poll_ok:
  assumes "reliable tr mem cqe" "alive (sess w) b" "cqe (net w) b = op # ops" "\<forall>m l. op \<noteq> OP_RECV m l"
  shows "\<exists>n. rdma_cq_event_handler c tr b w = handle_completion c tr b op (deliver b op (w\<lparr>net := n\<rparr>)) \<and>
    mem n = mem (net w) \<and> cqe n = (cqe (net w))(b := ops)"
proof -
  from assms(1,3) obtain n where n: "tp_poll tr b (net w) = Some (WC_SUCCESS, op, n)" "mem n = mem (net w)" "cqe n = (cqe (net w))(b := ops)"
    unfolding reliable_def by blast
  have "cb_state_list (sess (deliver b op (w\<lparr>net := n\<rparr>))) = cb_state_list (sess w)"
    using assms(4) by (cases op) (auto simp: frameD(2) [OF frame_ctx])
  then have "rdma_cq_event_handler c tr b w = handle_completion c tr b op (deliver b op (w\<lparr>net := n\<rparr>))"
    using n(1) assms(2) by (auto simp: rdma_cq_event_handler_def alive_def Let_def split: sum.splits)
  with n show ?thesis by blast
qed

lemma client_write_done_ok:
  assumes hp: "has_pool w i b" and pl: "pool_of w i b = with_ctx pl (Some (popped pl)) x" "pool_free pl"
    and x: "ctx_req x = Some r" "ctx_cnt x = Some cnt" "cnt < length (cnts w)"
  shows "\<exists>w'. client_write_done (i, b, top_id pl) w = Inr w' \<and> frame w w' \<and> net w' = net w \<and>
    cnts w' = (cnts w)[cnt := cnts w ! cnt - 1] \<and>
    reqs w' = (if cnts w ! cnt = 1 then (reqs w)(r := map_option (\<lambda>q. q\<lparr>rq_end := Some 0\<rparr>) (reqs w r)) else reqs w) \<and>
    (\<forall>b'. pool_of w' i b' = (if b' = b then with_ctx pl (free_ctxs pl) (reset_ctx (x\<lparr>ctx_in_flight := CTX_IDLE\<rparr>)) else pool_of w i b'))"
proof -
  let ?a = "(i, b, top_id pl)"
  have t: "top_id pl < length (ctx_pool pl)" by (rule pool_free_take [OF pl(2)])
  let ?w1 = "upd_ctx ?a (\<lambda>x. x\<lparr>ctx_in_flight := CTX_IDLE\<rparr>) w"
  let ?w2 = "?w1\<lparr>cnts := (cnts w)[cnt := cnts w ! cnt - 1]\<rparr>"
  let ?w3 = "if cnts w ! cnt = 1 then end_request r 0 ?w2 else ?w2"
  let ?w4 = "upd_ctx ?a reset_ctx ?w3"
  have run: "client_write_done ?a w = give_back ?a ?w4"
    using x ctx_at_with [OF hp pl(1) t] by (simp add: client_write_done_def dec_and_test_def)
  have p1: "pool_of ?w1 i b' = (if b' = b then with_ctx pl (Some (popped pl)) (x\<lparr>ctx_in_flight := CTX_IDLE\<rparr>) else pool_of w i b')" for b'
    using upd_ctx_with [OF hp pl(1) t] by simp
  have p3: "pool_of ?w3 i b' = pool_of ?w1 i b'" "has_pool ?w3 i b' = has_pool w i b'" for b' by (simp_all add: end_request_def)
  have p4: "pool_of ?w4 i b' = (if b' = b then with_ctx pl (Some (popped pl)) (reset_ctx (x\<lparr>ctx_in_flight := CTX_IDLE\<rparr>)) else pool_of w i b')" for b'
    using upd_ctx_with [of ?w3 i b pl "Some (popped pl)" "x\<lparr>ctx_in_flight := CTX_IDLE\<rparr>" reset_ctx b'] hp t by (simp only: p3 p1) simp
  have f3: "frame w ?w3" by (simp add: end_request_def) (metis frame_ctx frame_net(2,4) frame_trans)
  have f4: "frame w ?w4" by (rule frame_trans [OF f3 frame_ctx])
  have hp4: "has_pool ?w4 i b" using frameD(5) [OF f4] hp by simp
  from give_back_with [OF hp4 _ pl(2), of "reset_ctx (x\<lparr>ctx_in_flight := CTX_IDLE\<rparr>)"] p4 obtain w' where
    w': "give_back ?a ?w4 = Inr w'" "frame ?w4 w'" "net w' = net ?w4" "reqs w' = reqs ?w4" "cnts w' = cnts ?w4"
    "\<And>b'. pool_of w' i b' = (if b' = b then with_ctx pl (free_ctxs pl) (reset_ctx (x\<lparr>ctx_in_flight := CTX_IDLE\<rparr>)) else pool_of ?w4 i b')" by auto
  show ?thesis
  proof (intro exI [of _ w'] conjI allI)
    show "client_write_done ?a w = Inr w'" using run w'(1) by simp
    show "frame w w'" by (rule frame_trans [OF f4 w'(2)])
    show "net w' = net w" "cnts w' = (cnts w)[cnt := cnts w ! cnt - 1]" using w'(3,5) by (simp_all add: end_request_def)
    show "reqs w' = (if cnts w ! cnt = 1 then (reqs w)(r := map_option (\<lambda>q. q\<lparr>rq_end := Some 0\<rparr>) (reqs w r)) else reqs w)"
      using w'(4) by (simp add: end_request_def)
    show "pool_of w' i b' = (if b' = b then with_ctx pl (free_ctxs pl) (reset_ctx (x\<lparr>ctx_in_flight := CTX_IDLE\<rparr>)) else pool_of w i b')" for b'
      using w'(6) [of b'] p4 [of b'] by simp
  qed
qed

section \<open>A write\<close>

lemma zip_maps: "zip (map f xs) (map g xs) = map (\<lambda>x. (f x, g x)) xs"
  by (induction xs) simp_all

text \<open>A loop with early returns that meets none.\<close>

definition proceed :: "(int \<times> 's) res \<Rightarrow> 's res" where
  "proceed r = bindE r (\<lambda>(ret, s). if ret = 0 then Inr s else Inl Die)"

lemma whileE_proceed: "foldE (\<lambda>x s. proceed (f x s)) xs s = Inr s' \<Longrightarrow> whileE f xs s = Inr (0, s')"
  by (induction xs arbitrary: s) (auto simp: proceed_def bindE_Inr split: if_splits)

definition srv_ready :: "nat \<Rightarrow> ('n \<Rightarrow> nat \<Rightarrow> completion list) \<Rightarrow> 'n world \<Rightarrow> nat \<Rightarrow> bool" where
  "srv_ready i cqe w b \<longleftrightarrow> has_pool w i b \<and> pool_free (pool_of w i b) \<and> alive (sess w) b \<and> cqe (net w) b = []"

text \<open>A loop that updates the context of one server per step.\<close>

lemma foldE_upd_ctx:
  assumes step: "\<And>y u n. y \<in> set ys \<Longrightarrow> J u \<Longrightarrow> has_pool u i (srv y) \<Longrightarrow> pool_of u i (srv y) = with_ctx (pl y) (g y) (x y n) \<Longrightarrow>
      f y u = Inr (upd_ctx (i, srv y, top_id (pl y)) (h y) u)"
    and keep: "\<And>a k u. J u \<Longrightarrow> J (upd_ctx a k u)"
    and ys: "distinct (map srv ys)" "J w" "\<forall>y\<in>set ys. has_pool w i (srv y) \<and> pool_free (pl y) \<and>
      (\<exists>n. pool_of w i (srv y) = with_ctx (pl y) (g y) (x y n))"
  shows "\<exists>w'. foldE f ys w = Inr w' \<and> J w' \<and> frame w w' \<and> net w' = net w \<and> reqs w' = reqs w \<and> cnts w' = cnts w \<and>
    (\<forall>y\<in>set ys. \<exists>n. pool_of w' i (srv y) = with_ctx (pl y) (g y) (h y (x y n)))"
proof -
  let ?I = "\<lambda>w'. J w' \<and> frame w w' \<and> net w' = net w \<and> reqs w' = reqs w \<and> cnts w' = cnts w"
  let ?v = "\<lambda>b w. pool_of w i b"
  let ?P = "\<lambda>y v. \<exists>n. v = with_ctx (pl y) (g y) (x y n)"
  let ?Q = "\<lambda>y v. \<exists>n. v = with_ctx (pl y) (g y) (h y (x y n))"
  have "\<exists>w'. foldE f ys w = Inr w' \<and> ?I w' \<and> (\<forall>y\<in>set ys. ?Q y (?v (srv y) w')) \<and> (\<forall>b. b \<notin> srv ` set ys \<longrightarrow> ?v b w' = ?v b w)"
  proof (rule foldE_servers [where P = ?P])
    fix y u assume y: "y \<in> set ys" and I: "?I u" and "?P y (?v (srv y) u)"
    then obtain n where n: "pool_of u i (srv y) = with_ctx (pl y) (g y) (x y n)" by blast
    have hp: "has_pool u i (srv y)" using ys(3) y I frameD(5) [of w u i "srv y"] by auto
    have t: "top_id (pl y) < length (ctx_pool (pl y))" by (rule pool_free_take [of "pl y"]) (use ys(3) y in auto)
    let ?u = "upd_ctx (i, srv y, top_id (pl y)) (h y) u"
    have "f y u = Inr ?u" using step [OF y _ hp n] I by blast
    moreover have "?I ?u" using I keep frame_trans [OF _ frame_ctx] by auto
    moreover have "?v b ?u = (if b = srv y then with_ctx (pl y) (g y) (h y (x y n)) else ?v b u)" for b
      by (rule upd_ctx_with [OF hp n t])
    ultimately show "\<exists>u'. f y u = Inr u' \<and> ?I u' \<and> ?Q y (?v (srv y) u') \<and> (\<forall>b. b \<noteq> srv y \<longrightarrow> ?v b u' = ?v b u)"
      by (intro exI [of _ ?u]) auto
  qed (use ys in auto)
  then show ?thesis by blast
qed

lemma copy_in_all:
  assumes ps: "distinct (map fst ps)" "\<forall>p\<in>set ps. has_pool w i (fst p) \<and> pool_free (pl p) \<and>
      (\<exists>n. pool_of w i (fst p) = with_ctx (pl p) (Some (popped (pl p))) (x p n)) \<and> (\<forall>n. page_ctx (x p n))"
    and d: "length d = IS_PAGE_SIZE"
  shows "\<exists>w'. foldE (\<lambda>p. copy_in 0 d (i, fst p, top_id (pl p))) ps w = Inr w' \<and> frame w w' \<and> net w' = net w \<and> reqs w' = reqs w \<and> cnts w' = cnts w \<and>
    (\<forall>p\<in>set ps. \<exists>n. pool_of w' i (fst p) = with_ctx (pl p) (Some (popped (pl p))) ((x p n)\<lparr>ctx_rdma_buf := Some d\<rparr>))"
proof -
  have step: "copy_in 0 d (i, fst p, top_id (pl p)) u = Inr (upd_ctx (i, fst p, top_id (pl p)) (\<lambda>x. x\<lparr>ctx_rdma_buf := Some d\<rparr>) u)"
    if "p \<in> set ps" "has_pool u i (fst p)" "pool_of u i (fst p) = with_ctx (pl p) (Some (popped (pl p))) (x p n)" for p u n
  proof (rule copy_in_ok [OF that(2,3) _ _ d])
    show "top_id (pl p) < length (ctx_pool (pl p))" by (rule pool_free_take [of "pl p"]) (use ps(2) that(1) in auto)
  qed (use ps(2) that(1) in auto)
  have "\<exists>w'. foldE (\<lambda>p. copy_in 0 d (i, fst p, top_id (pl p))) ps w = Inr w' \<and> True \<and> frame w w' \<and> net w' = net w \<and> reqs w' = reqs w \<and> cnts w' = cnts w \<and>
      (\<forall>p\<in>set ps. \<exists>n. pool_of w' i (fst p) = with_ctx (pl p) (Some (popped (pl p))) ((\<lambda>_ x. x\<lparr>ctx_rdma_buf := Some d\<rparr>) p (x p n)))"
    by (rule foldE_upd_ctx) (use step ps in auto)
  then show ?thesis by simp
qed

lemma post_all:
  assumes rel: "reliable tr mem cqe" and ps: "distinct (map fst ps)" "\<forall>p\<in>set ps. has_pool w i (fst p) \<and> pool_free (pl p) \<and> cqe (net w) (fst p) = [] \<and>
      (\<exists>n. pool_of w i (fst p) = with_ctx (pl p) (Some (popped (pl p))) (x p n)) \<and>
      (\<forall>n. ctx_opcode (x p n) = IB_WR_RDMA_WRITE \<and> ctx_rkey (x p n) = key p \<and> ctx_remote_addr (x p n) = ra p \<and>
        sg_length (x p n) = length d \<and> ctx_rdma_buf (x p n) = Some d)"
  shows "\<exists>w'. whileE (\<lambda>(rt, a) w. case rt of None \<Rightarrow> Inr (0, w) | Some (b, _) \<Rightarrow> post_ctx tr b a w)
      (map (\<lambda>p. (the_route p, (i, fst p, top_id (pl p)))) ps) w = Inr (0, w') \<and> frame w w' \<and> reqs w' = reqs w \<and> cnts w' = cnts w \<and>
    (\<forall>p\<in>set ps. (\<exists>n. pool_of w' i (fst p) = with_ctx (pl p) (Some (popped (pl p))) (x p n)) \<and>
      mem (net w') (fst p) = mem_write (key p) (ra p) d (mem (net w) (fst p)) \<and> cqe (net w') (fst p) = [OP_WRITE (i, fst p, top_id (pl p))]) \<and>
    (\<forall>b. b \<notin> fst ` set ps \<longrightarrow> pool_of w' i b = pool_of w i b \<and> mem (net w') b = mem (net w) b \<and> cqe (net w') b = cqe (net w) b)"
proof -
  let ?f = "\<lambda>(rt, a) w. case rt of None \<Rightarrow> Inr (0, w) | Some (b, _) \<Rightarrow> post_ctx tr b a w"
  let ?it = "\<lambda>p. (the_route p, (i, fst p, top_id (pl p)))"
  let ?I = "\<lambda>w'. frame w w' \<and> reqs w' = reqs w \<and> cnts w' = cnts w"
  let ?v = "\<lambda>b w. (pool_of w i b, mem (net w) b, cqe (net w) b)"
  let ?P = "\<lambda>p v. \<exists>n. v = (with_ctx (pl p) (Some (popped (pl p))) (x p n), mem (net w) (fst p), [])"
  let ?Q = "\<lambda>p v. \<exists>n. v = (with_ctx (pl p) (Some (popped (pl p))) (x p n), mem_write (key p) (ra p) d (mem (net w) (fst p)),
    [OP_WRITE (i, fst p, top_id (pl p))])"
  have "\<exists>w'. foldE (\<lambda>p w. proceed (?f (?it p) w)) ps w = Inr w' \<and> ?I w' \<and> (\<forall>p\<in>set ps. ?Q p (?v (fst p) w')) \<and>
      (\<forall>b. b \<notin> fst ` set ps \<longrightarrow> ?v b w' = ?v b w)"
  proof (rule foldE_servers [where P = ?P])
    fix p u assume p: "p \<in> set ps" and I: "?I u" and "?P p (?v (fst p) u)"
    then obtain n where n: "pool_of u i (fst p) = with_ctx (pl p) (Some (popped (pl p))) (x p n)"
      and m: "mem (net u) (fst p) = mem (net w) (fst p)" "cqe (net u) (fst p) = []" by auto
    have hp: "has_pool u i (fst p)" using ps(2) p I frameD(5) [of w u i "fst p"] by auto
    have t: "top_id (pl p) < length (ctx_pool (pl p))" by (rule pool_free_take [of "pl p"]) (use ps(2) p in auto)
    have xp: "ctx_opcode (x p n) = IB_WR_RDMA_WRITE" "ctx_rkey (x p n) = key p" "ctx_remote_addr (x p n) = ra p" "sg_length (x p n) = length d"
      "ctx_rdma_buf (x p n) = Some d" using ps(2) p by auto
    obtain n' where post: "post_ctx tr (fst p) (i, fst p, top_id (pl p)) u = Inr (0, u\<lparr>net := n'\<rparr>)"
      "mem n' = (mem (net u))(fst p := mem_write (key p) (ra p) d (mem (net u) (fst p)))"
      "cqe n' = (cqe (net u))(fst p := cqe (net u) (fst p) @ [OP_WRITE (i, fst p, top_id (pl p))])"
      using post_ctx_ok [OF rel hp n t xp(5), of True] xp by auto
    show "\<exists>u'. proceed (?f (?it p) u) = Inr u' \<and> ?I u' \<and> ?Q p (?v (fst p) u') \<and> (\<forall>b. b \<noteq> fst p \<longrightarrow> ?v b u' = ?v b u)"
      by (intro exI [of _ "u\<lparr>net := n'\<rparr>"]) (use post m n I frame_trans [OF _ frame_net(1)] in \<open>auto simp: proceed_def the_route_def\<close>)
  qed (use ps in auto)
  then obtain w' where "foldE (\<lambda>p w. proceed (?f (?it p) w)) ps w = Inr w'" and rest: "?I w'" "\<forall>p\<in>set ps. ?Q p (?v (fst p) w')"
      "\<forall>b. b \<notin> fst ` set ps \<longrightarrow> ?v b w' = ?v b w" by blast
  then have "whileE ?f (map ?it ps) w = Inr (0, w')"
    by (intro whileE_proceed) (simp add: foldE_map)
  with rest show ?thesis by (intro exI [of _ w']) auto
qed

lemma poll_write:
  assumes rel: "reliable tr mem cqe" and al: "alive (sess w) b" and hp: "has_pool w i b"
    and pl: "pool_of w i b = with_ctx pl (Some (popped pl)) x" "pool_free pl"
    and x: "ctx_req x = Some r" "ctx_cnt x = Some cnt" "cnt < length (cnts w)" and cq: "cqe (net w) b = [OP_WRITE (i, b, top_id pl)]"
  shows "\<exists>w'. rdma_cq_event_handler c tr b w = Inr w' \<and> frame w w' \<and> mem (net w') = mem (net w) \<and> cqe (net w') = (cqe (net w))(b := []) \<and>
    cnts w' = (cnts w)[cnt := cnts w ! cnt - 1] \<and>
    reqs w' = (if cnts w ! cnt = 1 then (reqs w)(r := map_option (\<lambda>q. q\<lparr>rq_end := Some 0\<rparr>) (reqs w r)) else reqs w) \<and>
    (\<forall>b'. pool_of w' i b' = (if b' = b then with_ctx pl (free_ctxs pl) (reset_ctx (x\<lparr>ctx_in_flight := CTX_IDLE\<rparr>)) else pool_of w i b'))"
proof -
  obtain n where n: "rdma_cq_event_handler c tr b w = client_write_done (i, b, top_id pl) (w\<lparr>net := n\<rparr>)"
    "mem n = mem (net w)" "cqe n = (cqe (net w))(b := [])"
    using poll_ok [OF rel al cq] by (auto simp: handle_completion_def)
  have e: "cnts (w\<lparr>net := n\<rparr>) = cnts w" "reqs (w\<lparr>net := n\<rparr>) = reqs w" "net (w\<lparr>net := n\<rparr>) = n" by simp_all
  have hp': "has_pool (w\<lparr>net := n\<rparr>) i b" and pl': "pool_of (w\<lparr>net := n\<rparr>) i b = with_ctx pl (Some (popped pl)) x"
    and cnt': "cnt < length (cnts (w\<lparr>net := n\<rparr>))" using hp pl x by simp_all
  obtain w' where w': "client_write_done (i, b, top_id pl) (w\<lparr>net := n\<rparr>) = Inr w'" "frame (w\<lparr>net := n\<rparr>) w'" "net w' = n"
    "cnts w' = (cnts w)[cnt := cnts w ! cnt - 1]"
    "reqs w' = (if cnts w ! cnt = 1 then (reqs w)(r := map_option (\<lambda>q. q\<lparr>rq_end := Some 0\<rparr>) (reqs w r)) else reqs w)"
    "\<forall>b'. pool_of w' i b' = (if b' = b then with_ctx pl (free_ctxs pl) (reset_ctx (x\<lparr>ctx_in_flight := CTX_IDLE\<rparr>)) else pool_of w i b')"
    using client_write_done_ok [OF hp' pl' pl(2) x(1,2) cnt'] unfolding e net_pool by blast
  show ?thesis
    by (intro exI [of _ w'] conjI) (use n w' frame_trans [OF frame_net(1) w'(2)] in simp_all)
qed

text \<open>The contexts that come back after the request has ended.\<close>

lemma poll_rest:
  assumes rel: "reliable tr mem cqe" and cnt: "cnt < length (cnts w)" "cnts w ! cnt \<le> 0"
    and ps: "distinct (map fst ps)" "\<forall>p\<in>set ps. has_pool w i (fst p) \<and> pool_free (pl p) \<and> alive (sess w) (fst p) \<and>
      cqe (net w) (fst p) = [OP_WRITE (i, fst p, top_id (pl p))] \<and>
      (\<exists>n. pool_of w i (fst p) = with_ctx (pl p) (Some (popped (pl p))) (x p n)) \<and>
      (\<forall>n. ctx_req (x p n) = Some r \<and> ctx_cnt (x p n) = Some cnt \<and> page_ctx (x p n))"
  shows "\<exists>w'. foldE (\<lambda>(rt, a) w. case rt of None \<Rightarrow> give_back a w | Some (b, _) \<Rightarrow> rdma_cq_event_handler c tr b w)
      (map (\<lambda>p. (the_route p, (i, fst p, top_id (pl p)))) ps) w = Inr w' \<and> frame w w' \<and> reqs w' = reqs w \<and> mem (net w') = mem (net w) \<and>
    (\<forall>p\<in>set ps. pool_free (pool_of w' i (fst p)) \<and> cqe (net w') (fst p) = []) \<and>
    (\<forall>b. b \<notin> fst ` set ps \<longrightarrow> pool_of w' i b = pool_of w i b \<and> cqe (net w') b = cqe (net w) b)"
proof -
  let ?f = "\<lambda>(rt, a) w. case rt of None \<Rightarrow> give_back a w | Some (b, _) \<Rightarrow> rdma_cq_event_handler c tr b w"
  let ?it = "\<lambda>p. (the_route p, (i, fst p, top_id (pl p)))"
  let ?I = "\<lambda>u. frame w u \<and> reqs u = reqs w \<and> mem (net u) = mem (net w) \<and> cnt < length (cnts u) \<and> cnts u ! cnt \<le> 0"
  let ?v = "\<lambda>b w. (pool_of w i b, cqe (net w) b)"
  let ?P = "\<lambda>p v. \<exists>n. v = (with_ctx (pl p) (Some (popped (pl p))) (x p n), [OP_WRITE (i, fst p, top_id (pl p))])"
  let ?Q = "\<lambda>p v. pool_free (fst v) \<and> snd v = []"
  have "\<exists>w'. foldE (\<lambda>p. ?f (?it p)) ps w = Inr w' \<and> ?I w' \<and> (\<forall>p\<in>set ps. ?Q p (?v (fst p) w')) \<and> (\<forall>b. b \<notin> fst ` set ps \<longrightarrow> ?v b w' = ?v b w)"
  proof (rule foldE_servers [where P = ?P])
    fix p u assume p: "p \<in> set ps" and I: "?I u" and "?P p (?v (fst p) u)"
    then obtain n where n: "pool_of u i (fst p) = with_ctx (pl p) (Some (popped (pl p))) (x p n)"
      and q: "cqe (net u) (fst p) = [OP_WRITE (i, fst p, top_id (pl p))]" by auto
    have hp: "has_pool u i (fst p)" and al: "alive (sess u) (fst p)"
      using ps(2) p I frameD(5) [of w u i "fst p"] alive_frame [of w u "fst p"] by auto
    have pf: "pool_free (pl p)" and xp: "ctx_req (x p n) = Some r" "ctx_cnt (x p n) = Some cnt" "page_ctx (x p n)" using ps(2) p by auto
    obtain u' where u': "rdma_cq_event_handler c tr (fst p) u = Inr u'" "frame u u'" "mem (net u') = mem (net u)" "cqe (net u') = (cqe (net u))(fst p := [])"
      "cnts u' = (cnts u)[cnt := cnts u ! cnt - 1]" "reqs u' = reqs u"
      "\<forall>b'. pool_of u' i b' = (if b' = fst p then with_ctx (pl p) (free_ctxs (pl p)) (reset_ctx ((x p n)\<lparr>ctx_in_flight := CTX_IDLE\<rparr>)) else pool_of u i b')"
      using poll_write [OF rel al hp n pf xp(1,2) _ q, of c] I by auto
    have "page_ctx (reset_ctx ((x p n)\<lparr>ctx_in_flight := CTX_IDLE\<rparr>))" using xp(3) by (simp add: page_ctx_def reset_ctx_def)
    from pool_free_back [OF pf this] have "pool_free (pool_of u' i (fst p))" using u'(7) by simp
    then show "\<exists>u'. ?f (?it p) u = Inr u' \<and> ?I u' \<and> ?Q p (?v (fst p) u') \<and> (\<forall>b. b \<noteq> fst p \<longrightarrow> ?v b u' = ?v b u)"
      by (intro exI [of _ u']) (use u' I frame_trans [OF _ u'(2)] in \<open>auto simp: the_route_def\<close>)
  qed (use ps cnt in auto)
  then show ?thesis by (simp add: foldE_map) blast
qed

lemma filled_simps:
  "ctx_req (filled c r offset ln wr cnt p ch n x) = Some r" "ctx_cnt (filled c r offset ln wr cnt p ch n x) = Some cnt"
  "page_ctx (filled c r offset ln wr cnt p ch n x) = page_ctx x" "ctx_rkey (filled c r offset ln wr cnt p ch n x) = remote_rkey ch"
  "ctx_opcode (filled c r offset ln wr cnt p ch n x) = (if wr then IB_WR_RDMA_WRITE else IB_WR_RDMA_READ)"
  "ctx_rdma_buf (filled c r offset ln wr cnt p ch n x) = ctx_rdma_buf x"
  "NDATAS c = 1 \<Longrightarrow> sg_length (filled c r offset ln wr cnt p ch n x) = ln"
  "NDATAS c = 1 \<Longrightarrow> ctx_remote_addr (filled c r offset ln wr cnt p ch n x) = remote_addr ch + of_nat offset"
  by (simp_all add: filled_def fill_wr_def page_ctx_def)

lemma page_top: "pool_free pl \<Longrightarrow> page_ctx (top_ctx pl)"
  by (rule pool_free_take [of pl]) (simp_all add: page_ctx_def)

lemma rdma_write_ok:
  assumes rel: "reliable tr mem cqe" and c: "NDATAS c = 1"
    and q: "reqs w r = Some q" "rq_bios q = [d]" "length d = IS_PAGE_SIZE" "conn_id q = i"
    and ps: "ps \<noteq> []" "distinct (map fst ps)" and srv: "\<forall>p\<in>set ps. srv_ready i cqe w (fst p) \<and> chunk_at w (Some p) = Inr (ch p)"
  shows "\<exists>w'. IS_rdma_write c tr (map the_route ps) offset IS_PAGE_SIZE r w = Inr (0, w') \<and> frame w w' \<and>
    reqs w' = (reqs w)(r \<mapsto> q\<lparr>rq_end := Some 0\<rparr>) \<and>
    (\<forall>p\<in>set ps. srv_ready i cqe w' (fst p) \<and>
      mem (net w') (fst p) = mem_write (remote_rkey (ch p)) (remote_addr (ch p) + of_nat offset) d (mem (net w) (fst p)))"
proof -
  define cnt where "cnt = length (cnts w)"
  define pl where "pl p = pool_of w i (fst p)" for p :: "nat \<times> nat"
  define x where "x p n = filled c r offset IS_PAGE_SIZE True cnt p (ch p) n (top_ctx (pl p))" for p n
  let ?y = "\<lambda>p n. (x p n)\<lparr>ctx_rdma_buf := Some d\<rparr>"
  let ?w0 = "w\<lparr>cnts := cnts w @ [1]\<rparr>"
  have sr: "has_pool w i (fst p)" "pool_free (pl p)" "alive (sess w) (fst p)" "cqe (net w) (fst p) = []" "chunk_at w (Some p) = Inr (ch p)"
    if "p \<in> set ps" for p using srv that by (auto simp: srv_ready_def pl_def)
  have as: "ctx_addrs i ?w0 ps = map (\<lambda>p. (i, fst p, top_id (pl p))) ps" by (simp add: ctx_addrs_def pl_def)
  have fr: "frame w ?w0" by simp
  have pre0: "\<forall>p\<in>set ps. has_pool ?w0 i (fst p) \<and> pool_free (pool_of ?w0 i (fst p)) \<and> chunk_at ?w0 (Some p) = Inr (ch p)"
    using sr chunk_at_frame [OF fr] by (simp add: pl_def)
  obtain w1 where acq: "foldE (acquire c r q offset IS_PAGE_SIZE True cnt) (enumerate 0 (map the_route ps)) ([], ?w0) =
      Inr (map (\<lambda>p. (i, fst p, top_id (pl p))) ps, w1)"
    and f1: "frame ?w0 w1" "net w1 = net w" "reqs w1 = reqs w" "cnts w1 = cnts w @ [1]"
    and p1: "\<forall>p\<in>set ps. \<exists>n. pool_of w1 i (fst p) = with_ctx (pl p) (Some (popped (pl p))) (x p n)"
    using acquire_all [OF ps(2) q(4) pre0, of c r offset IS_PAGE_SIZE True cnt 0 "[]"] by (auto simp: as pl_def x_def)
  have g1: "frame w w1" by (rule frame_trans [OF fr f1(1)])
  have pg: "page_ctx (x p n)" if "p \<in> set ps" for p n using page_top [OF sr(2) [OF that]] by (simp add: x_def filled_simps)
  have pre1: "\<forall>p\<in>set ps. has_pool w1 i (fst p) \<and> pool_free (pl p) \<and>
      (\<exists>n. pool_of w1 i (fst p) = with_ctx (pl p) (Some (popped (pl p))) (x p n)) \<and> (\<forall>n. page_ctx (x p n))"
    using sr pg p1 frameD(5) [OF g1] by auto
  obtain w2 where cp: "foldE (\<lambda>p. copy_in 0 d (i, fst p, top_id (pl p))) ps w1 = Inr w2"
    and f2: "frame w1 w2" "net w2 = net w1" "reqs w2 = reqs w1" "cnts w2 = cnts w1"
    and p2: "\<forall>p\<in>set ps. \<exists>n. pool_of w2 i (fst p) = with_ctx (pl p) (Some (popped (pl p))) (?y p n)"
    using copy_in_all [OF ps(2) pre1 q(3)] by auto
  have g2: "frame w w2" by (rule frame_trans [OF g1 f2(1)])
  have pre2: "\<forall>p\<in>set ps. has_pool w2 i (fst p) \<and> pool_free (pl p) \<and> cqe (net w2) (fst p) = [] \<and>
      (\<exists>n. pool_of w2 i (fst p) = with_ctx (pl p) (Some (popped (pl p))) (?y p n)) \<and>
      (\<forall>n. ctx_opcode (?y p n) = IB_WR_RDMA_WRITE \<and> ctx_rkey (?y p n) = remote_rkey (ch p) \<and>
        ctx_remote_addr (?y p n) = remote_addr (ch p) + of_nat offset \<and> sg_length (?y p n) = length d \<and> ctx_rdma_buf (?y p n) = Some d)"
    using sr p2 frameD(5) [OF g2] f2(2) f1(2) c q(3) by (simp add: x_def filled_simps)
  obtain w3 where post: "whileE (\<lambda>(rt, a) w. case rt of None \<Rightarrow> Inr (0, w) | Some (b, _) \<Rightarrow> post_ctx tr b a w)
      (map (\<lambda>p. (the_route p, (i, fst p, top_id (pl p)))) ps) w2 = Inr (0, w3)"
    and f3: "frame w2 w3" "reqs w3 = reqs w2" "cnts w3 = cnts w2"
    and p3: "\<forall>p\<in>set ps. (\<exists>n. pool_of w3 i (fst p) = with_ctx (pl p) (Some (popped (pl p))) (?y p n)) \<and>
      mem (net w3) (fst p) = mem_write (remote_rkey (ch p)) (remote_addr (ch p) + of_nat offset) d (mem (net w2) (fst p)) \<and>
      cqe (net w3) (fst p) = [OP_WRITE (i, fst p, top_id (pl p))]"
    using post_all [OF rel ps(2) pre2] by blast
  have g3: "frame w w3" by (rule frame_trans [OF g2 f3(1)])
  have c3: "cnts w3 = cnts w @ [1]" using f3(3) f2(4) f1(4) by simp
  obtain p0 ps' where ps': "ps = p0 # ps'" using ps(1) by (cases ps) auto
  obtain n0 where n0: "pool_of w3 i (fst p0) = with_ctx (pl p0) (Some (popped (pl p0))) (?y p0 n0)"
    "cqe (net w3) (fst p0) = [OP_WRITE (i, fst p0, top_id (pl p0))]" using p3 ps' by auto
  have y0: "ctx_req (?y p0 n0) = Some r" "ctx_cnt (?y p0 n0) = Some cnt" "cnt < length (cnts w3)"
    by (simp_all add: x_def filled_simps c3 cnt_def)
  have al0: "alive (sess w3) (fst p0)" and hp0: "has_pool w3 i (fst p0)"
    using sr [of p0] ps' alive_frame [OF g3] frameD(5) [OF g3] by simp_all
  obtain w4 where poll: "rdma_cq_event_handler c tr (fst p0) w3 = Inr w4" and f4: "frame w3 w4" "mem (net w4) = mem (net w3)"
    "cqe (net w4) = (cqe (net w3))(fst p0 := [])" "cnts w4 = (cnts w3)[cnt := 0]" "reqs w4 = (reqs w)(r \<mapsto> q\<lparr>rq_end := Some 0\<rparr>)"
    and p4: "\<forall>b. pool_of w4 i b = (if b = fst p0 then with_ctx (pl p0) (free_ctxs (pl p0)) (reset_ctx ((?y p0 n0)\<lparr>ctx_in_flight := CTX_IDLE\<rparr>)) else pool_of w3 i b)"
    using poll_write [OF rel al0 hp0 n0(1) _ y0 n0(2), of c] sr(2) [of p0] ps' f3(2) f2(3) f1(3) q(1) c3 by (auto simp: cnt_def)
  have g4: "frame w w4" by (rule frame_trans [OF g3 f4(1)])
  have ne: "fst p \<noteq> fst p0" if "p \<in> set ps'" for p using ps(2) ps' that by (auto simp: image_iff)
  have pre4: "\<forall>p\<in>set ps'. has_pool w4 i (fst p) \<and> pool_free (pl p) \<and> alive (sess w4) (fst p) \<and>
      cqe (net w4) (fst p) = [OP_WRITE (i, fst p, top_id (pl p))] \<and>
      (\<exists>n. pool_of w4 i (fst p) = with_ctx (pl p) (Some (popped (pl p))) (?y p n)) \<and>
      (\<forall>n. ctx_req (?y p n) = Some r \<and> ctx_cnt (?y p n) = Some cnt \<and> page_ctx (?y p n))"
    using sr p3 p4 ne ps' f4(3) frameD(5) [OF g4] alive_frame [OF g4] q(3) by (auto simp: x_def filled_simps page_ctx_def)
  have c4: "cnt < length (cnts w4)" "cnts w4 ! cnt \<le> 0" "distinct (map fst ps')" using f4(4) y0(3) ps(2) ps' by simp_all
  obtain w5 where rest: "foldE (\<lambda>(rt, a) w. case rt of None \<Rightarrow> give_back a w | Some (b, _) \<Rightarrow> rdma_cq_event_handler c tr b w)
      (map (\<lambda>p. (the_route p, (i, fst p, top_id (pl p)))) ps') w4 = Inr w5"
    and f5: "frame w4 w5" "reqs w5 = reqs w4" "mem (net w5) = mem (net w4)"
    and p5: "\<forall>p\<in>set ps'. pool_free (pool_of w5 i (fst p)) \<and> cqe (net w5) (fst p) = []"
      "\<forall>b. b \<notin> fst ` set ps' \<longrightarrow> pool_of w5 i b = pool_of w4 i b \<and> cqe (net w5) b = cqe (net w4) b"
    using poll_rest [OF rel c4(1,2,3) pre4] by blast
  have g5: "frame w w5" by (rule frame_trans [OF g4 f5(1)])
  have run: "IS_rdma_write c tr (map the_route ps) offset IS_PAGE_SIZE r w = Inr (0, w5)"
  proof -
    have all: "foldE (\<lambda>(rt, a) w. case rt of None \<Rightarrow> give_back a w | Some (b, _) \<Rightarrow> rdma_cq_event_handler c tr b w)
      (map (\<lambda>p. (the_route p, (i, fst p, top_id (pl p)))) ps) w3 = Inr w5"
      using poll rest unfolding ps' by (simp add: the_route_def)
    have "foldE (copy_in 0 d) (map (\<lambda>p. (i, fst p, top_id (pl p))) ps) w1 = Inr w2" using cp by (simp add: foldE_map)
    with all acq post q c show ?thesis
      by (simp add: IS_rdma_write_def req_at_def new_counter_def cnt_def zip_maps)
  qed
  have "fst p0 \<notin> fst ` set ps'" using ps(2) ps' by simp
  then have "pool_of w5 i (fst p0) = pool_of w4 i (fst p0)" "cqe (net w5) (fst p0) = []" using p5(2) f4(3) by auto
  moreover have "pool_free (pool_of w4 i (fst p0))"
    using pool_free_back [OF sr(2), of p0 "reset_ctx ((?y p0 n0)\<lparr>ctx_in_flight := CTX_IDLE\<rparr>)"] ps' p4 q(3) by (simp add: page_ctx_def reset_ctx_def)
  ultimately have "srv_ready i cqe w5 (fst p)" if "p \<in> set ps" for p
    using that ps' p5(1) sr [OF that] frameD(5) [OF g5] alive_frame [OF g5] by (auto simp: srv_ready_def)
  moreover have "mem (net w5) (fst p) = mem_write (remote_rkey (ch p)) (remote_addr (ch p) + of_nat offset) d (mem (net w) (fst p))" if "p \<in> set ps" for p
    using p3 that f5(3) f4(2) f2(2) f1(2) by simp
  ultimately show ?thesis using run g5 f5(2) f4(5) by (intro exI [of _ w5]) simp
qed

end
