(* ===== verification/Read_Path.thy ===== *)
theory Read_Path
  imports Read_Write
begin

text \<open>
  Reads of a replicated device, step by step: which replica is read, what its completion copies into the request, and how the
  contexts go back. The first replica may be unmapped; then the next one is read, and the request is answered from the buffer of the
  context that stood for the first.
\<close>

section \<open>A read\<close>

lemma enumerate_map: "enumerate j (map h xs) = map (\<lambda>(k, x). (k, h x)) (enumerate j xs)"
  by (induction xs arbitrary: j) simp_all

lemma fold_foldE: "foldE (\<lambda>x s. Inr (f x s)) xs s = Inr (fold f xs s)"
  by (induction xs arbitrary: s) simp_all

lemma inject_none:
  assumes "inject_fault (fault_injection (sess w)) \<noteq> 1"
  shows "inject c tr (j, rt, a) w = Inr (upd_ctx a (\<lambda>x. x\<lparr>ctx_fault := 0\<rparr>) w)"
proof -
  have "upd_sess (\<lambda>s. s\<lparr>fault_injection := fault_injection (sess w)\<rparr>) w = w" by (simp add: upd_sess_def)
  then show ?thesis using assms by (simp add: inject_def IS_fault_injection_inject_fault_def Let_def)
qed

lemma upd_ctx_inject: "inject_fault (fault_injection (sess (upd_ctx a f w))) = inject_fault (fault_injection (sess w))"
  by (cases a) (simp add: upd_ctx.simps upd_pool_def upd_sess_def)

lemma give_back_all:
  assumes ps: "distinct (map fst ps)" "\<forall>p\<in>set ps. has_pool w i (fst p) \<and> pool_free (pl p) \<and>
      pool_of w i (fst p) = with_ctx (pl p) (Some (popped (pl p))) (y p)"
  shows "\<exists>w'. foldE give_back (map (\<lambda>p. (i, fst p, top_id (pl p))) ps) w = Inr w' \<and> frame w w' \<and> net w' = net w \<and> reqs w' = reqs w \<and>
    (\<forall>p\<in>set ps. pool_of w' i (fst p) = with_ctx (pl p) (free_ctxs (pl p)) (y p))"
proof -
  let ?I = "\<lambda>w'. frame w w' \<and> net w' = net w \<and> reqs w' = reqs w"
  let ?v = "\<lambda>b w. pool_of w i b"
  let ?P = "\<lambda>p v. v = with_ctx (pl p) (Some (popped (pl p))) (y p)" and ?Q = "\<lambda>p v. v = with_ctx (pl p) (free_ctxs (pl p)) (y p)"
  have "\<exists>w'. foldE (\<lambda>p. give_back (i, fst p, top_id (pl p))) ps w = Inr w' \<and> ?I w' \<and> (\<forall>p\<in>set ps. ?Q p (?v (fst p) w')) \<and>
      (\<forall>b. b \<notin> fst ` set ps \<longrightarrow> ?v b w' = ?v b w)"
  proof (rule foldE_servers [where P = ?P])
    fix p u assume p: "p \<in> set ps" and I: "?I u" and n: "?P p (?v (fst p) u)"
    have hp: "has_pool u i (fst p)" and pf: "pool_free (pl p)" using ps(2) p I frameD(5) [of w u i "fst p"] by auto
    from give_back_with [OF hp n pf] obtain u' where "give_back (i, fst p, top_id (pl p)) u = Inr u'" "frame u u'" "net u' = net u" "reqs u' = reqs u"
      "\<forall>b. pool_of u' i b = (if b = fst p then with_ctx (pl p) (free_ctxs (pl p)) (y p) else pool_of u i b)" by blast
    with I frame_trans [of w u u'] show "\<exists>u'. give_back (i, fst p, top_id (pl p)) u = Inr u' \<and> ?I u' \<and> ?Q p (?v (fst p) u') \<and> (\<forall>b. b \<noteq> fst p \<longrightarrow> ?v b u' = ?v b u)"
      by (intro exI [of _ u']) auto
  qed (use ps in auto)
  then show ?thesis by (simp add: foldE_map) blast
qed

text \<open>
  The completion of a read on \<open>pm\<close>: what is copied out is the buffer of the first context without a fault, which need not be the
  one that was read into.
\<close>

lemma read_done_ok:
  assumes c: "NDATAS c = 1" "NDISKS c = length ps" and ps: "ps = p0 # ps'" "distinct (map fst ps)" and pm: "pm \<in> set ps"
    and pools: "\<forall>p\<in>set ps. has_pool w i (fst p) \<and> pool_free (pl p) \<and> pool_of w i (fst p) = with_ctx (pl p) (Some (popped (pl p))) (y p)"
    and ym: "ctx_req (y pm) = Some r" "ctx_cnt (y pm) = Some cnt" "ctx_ctxs (y pm) = map (\<lambda>p. (i, fst p, top_id (pl p))) ps"
      "cnt < length (cnts w)" "cnts w ! cnt = 1"
    and y0: "ctx_fault (y p0) = 0" "ctx_rdma_buf (y p0) = Some d" "length d = IS_PAGE_SIZE"
    and q: "reqs w r = Some q" "\<not> rq_multi q" "rq_bios q = [d0]" "length d0 = IS_PAGE_SIZE"
  shows "\<exists>w'. client_read_done c (i, fst pm, top_id (pl pm)) w = Inr w' \<and> frame w w' \<and> net w' = net w \<and>
    reqs w' = (reqs w)(r \<mapsto> q\<lparr>rq_bios := [d], rq_end := Some 0\<rparr>) \<and>
    (\<forall>p\<in>set ps. pool_of w' i (fst p) = with_ctx (pl p) (free_ctxs (pl p)) (if p = pm then reset_ctx (y p) else y p))"
proof -
  let ?a = "\<lambda>p. (i, fst p, top_id (pl p))" and ?y = "\<lambda>p. if p = pm then reset_ctx (y p) else y p"
  have sp: "has_pool w i (fst p)" "pool_free (pl p)" "pool_of w i (fst p) = with_ctx (pl p) (Some (popped (pl p))) (y p)" if "p \<in> set ps" for p
    using pools that by auto
  have t: "top_id (pl p) < length (ctx_pool (pl p))" if "p \<in> set ps" for p by (rule pool_free_take [OF sp(2) [OF that]])
  have inj: "fst p = fst p' \<longleftrightarrow> p = p'" if "p \<in> set ps" "p' \<in> set ps" for p p'
    using ps(2) that by (auto simp: distinct_map inj_on_def)
  let ?w1 = "upd_ctx (?a pm) reset_ctx w"
  let ?w2 = "?w1\<lparr>cnts := (cnts w)[cnt := 0]\<rparr>"
  let ?w3 = "upd_req r (\<lambda>q. q\<lparr>rq_bios := (rq_bios q)[0 := d]\<rparr>) ?w2"
  let ?w4 = "end_request r 0 ?w3"
  have p2: "pool_of ?w2 i (fst p) = with_ctx (pl p) (Some (popped (pl p))) (?y p)" "has_pool ?w2 i (fst p)" if "p \<in> set ps" for p
    using upd_ctx_with [OF sp(1,3) [OF pm] t [OF pm], of reset_ctx "fst p"] sp [OF that] inj [OF that pm] by auto
  have p0: "p0 \<in> set ps" using ps(1) by simp
  have "ctx_at ?w2 (?a p0) = Inr (?y p0)" by (rule ctx_at_with [OF p2(2) [OF p0] p2(1) [OF p0] t [OF p0]])
  then have good: "good_ctx ?w2 (map ?a ps) 0 = Inr (?y p0)" using y0(1) ps(1) by (cases "p0 = pm") (auto simp: good_ctx_def reset_ctx_def)
  have "copy_block c (map ?a ps) r 0 0 ?w2 = Inr ?w3"
    using good c(1) y0 q by (cases "p0 = pm") (auto simp: copy_block_def req_at_def buf_of_def memcpy_def reset_ctx_def)
  then have out: "copy_out c (map ?a ps) r ?w2 = Inr ?w3" using q c(1) by (simp add: copy_out_def req_at_def)
  have at: "ctx_at w (?a pm) = Inr (y pm)" by (rule ctx_at_with [OF sp(1,3) [OF pm] t [OF pm]])
  have run: "client_read_done c (?a pm) w = foldE give_back (map ?a ps) ?w4"
    using at ym out c(2) by (simp add: client_read_done_def dec_and_test_def)
  have f4: "frame w ?w4" unfolding end_request_def by (rule frame_trans [OF frame_ctx frame_trans [OF frame_net(2) frame_trans [OF frame_net(4) frame_net(4)]]])
  have "\<forall>p\<in>set ps. has_pool ?w4 i (fst p) \<and> pool_free (pl p) \<and> pool_of ?w4 i (fst p) = with_ctx (pl p) (Some (popped (pl p))) (?y p)"
    using p2 sp by (simp add: end_request_def)
  from give_back_all [OF ps(2) this] obtain w' where w': "foldE give_back (map ?a ps) ?w4 = Inr w'" "frame ?w4 w'" "net w' = net ?w4" "reqs w' = reqs ?w4"
    "\<forall>p\<in>set ps. pool_of w' i (fst p) = with_ctx (pl p) (free_ctxs (pl p)) (?y p)" by blast
  have "net ?w4 = net w" "reqs ?w4 = (reqs w)(r \<mapsto> q\<lparr>rq_bios := [d], rq_end := Some 0\<rparr>)" using q(1,3) by (simp_all add: end_request_def)
  with run w' frame_trans [OF f4 w'(2)] show ?thesis by (intro exI [of _ w']) simp
qed

text \<open>Every context learns the others, and draws no fault.\<close>

lemma read_mark:
  assumes ps: "distinct (map fst ps)" and fi: "inject_fault (fault_injection (sess w)) \<noteq> 1"
    and srv: "\<forall>p\<in>set ps. has_pool w i (fst p) \<and> pool_free (pl p) \<and> (\<exists>n. pool_of w i (fst p) = with_ctx (pl p) (Some (popped (pl p))) (x p n))"
  defines "as \<equiv> map (\<lambda>p. (i, fst p, top_id (pl p))) ps"
  shows "\<exists>w'. foldE (inject c tr) (enumerate 0 (zip (map rt ps) as)) (fold (\<lambda>a. upd_ctx a (\<lambda>x. x\<lparr>ctx_ctxs := as\<rparr>)) as w) = Inr w' \<and>
    frame w w' \<and> net w' = net w \<and> reqs w' = reqs w \<and> cnts w' = cnts w \<and>
    (\<forall>p\<in>set ps. \<exists>n. pool_of w' i (fst p) = with_ctx (pl p) (Some (popped (pl p))) ((x p n)\<lparr>ctx_ctxs := as, ctx_fault := 0\<rparr>))"
proof -
  let ?a = "\<lambda>p. (i, fst p, top_id (pl p))" and ?g = "\<lambda>p. Some (popped (pl p))"
  let ?J = "\<lambda>u. inject_fault (fault_injection (sess u)) \<noteq> 1"
  have "\<exists>w2. foldE (\<lambda>p u. Inr (upd_ctx (?a p) (\<lambda>x. x\<lparr>ctx_ctxs := as\<rparr>) u)) ps w = Inr w2 \<and> ?J w2 \<and> frame w w2 \<and> net w2 = net w \<and> reqs w2 = reqs w \<and> cnts w2 = cnts w \<and>
      (\<forall>p\<in>set ps. \<exists>n. pool_of w2 i (fst p) = with_ctx (pl p) (?g p) ((\<lambda>_ x. x\<lparr>ctx_ctxs := as\<rparr>) p (x p n)))"
    by (rule foldE_upd_ctx [where h = "\<lambda>_ x. x\<lparr>ctx_ctxs := as\<rparr>" and x = x]) (use ps srv fi in \<open>auto simp: upd_ctx_inject\<close>)
  then obtain w2 where w2: "fold (\<lambda>a. upd_ctx a (\<lambda>x. x\<lparr>ctx_ctxs := as\<rparr>)) as w = w2" "?J w2" "frame w w2" "net w2 = net w" "reqs w2 = reqs w" "cnts w2 = cnts w"
    and p2: "\<forall>p\<in>set ps. \<exists>n. pool_of w2 i (fst p) = with_ctx (pl p) (?g p) ((x p n)\<lparr>ctx_ctxs := as\<rparr>)"
    by (auto simp: fold_foldE fold_map as_def comp_def)
  let ?ys = "enumerate 0 ps"
  have ds: "distinct (map (\<lambda>y. fst (snd y)) ?ys)"
  proof -
    have "map fst (map snd ?ys) = map fst ps" by (simp only: map_snd_enumerate)
    then have "map (\<lambda>y. fst (snd y)) ?ys = map fst ps" by (simp only: map_map comp_def)
    then show ?thesis using ps by simp
  qed
  have mem: "snd y \<in> set ps" if "y \<in> set ?ys" for y using that by (metis image_eqI map_snd_enumerate set_map)
  have pre2: "\<forall>y\<in>set ?ys. has_pool w2 i (fst (snd y)) \<and> pool_free (pl (snd y)) \<and>
      (\<exists>n. pool_of w2 i (fst (snd y)) = with_ctx (pl (snd y)) (?g (snd y)) ((x (snd y) n)\<lparr>ctx_ctxs := as\<rparr>))"
    using mem p2 srv frameD(5) [OF w2(3)] by simp
  have "\<exists>w3. foldE (\<lambda>y. inject c tr (fst y, rt (snd y), ?a (snd y))) ?ys w2 = Inr w3 \<and> ?J w3 \<and> frame w2 w3 \<and> net w3 = net w2 \<and> reqs w3 = reqs w2 \<and>
      cnts w3 = cnts w2 \<and> (\<forall>y\<in>set ?ys. \<exists>n. pool_of w3 i (fst (snd y)) = with_ctx (pl (snd y)) (?g (snd y)) ((\<lambda>_ x. x\<lparr>ctx_fault := 0\<rparr>) y ((x (snd y) n)\<lparr>ctx_ctxs := as\<rparr>)))"
    by (rule foldE_upd_ctx [where srv = "\<lambda>y. fst (snd y)" and h = "\<lambda>_ x. x\<lparr>ctx_fault := 0\<rparr>" and x = "\<lambda>y n. (x (snd y) n)\<lparr>ctx_ctxs := as\<rparr>"])
      (use ds pre2 w2(2) in \<open>auto simp: inject_none upd_ctx_inject\<close>)
  then obtain w3 where w3: "foldE (\<lambda>y. inject c tr (fst y, rt (snd y), ?a (snd y))) ?ys w2 = Inr w3" "frame w2 w3" "net w3 = net w2" "reqs w3 = reqs w2"
      "cnts w3 = cnts w2"
    and p3: "\<forall>y\<in>set ?ys. \<exists>n. pool_of w3 i (fst (snd y)) = with_ctx (pl (snd y)) (?g (snd y)) ((x (snd y) n)\<lparr>ctx_ctxs := as, ctx_fault := 0\<rparr>)"
    by auto
  have p3': "\<forall>p\<in>set ps. \<exists>n. pool_of w3 i (fst p) = with_ctx (pl p) (?g p) ((x p n)\<lparr>ctx_ctxs := as, ctx_fault := 0\<rparr>)"
  proof
    fix p assume "p \<in> set ps"
    then obtain y where "y \<in> set ?ys" "snd y = p" by (metis imageE map_snd_enumerate set_map)
    with p3 show "\<exists>n. pool_of w3 i (fst p) = with_ctx (pl p) (?g p) ((x p n)\<lparr>ctx_ctxs := as, ctx_fault := 0\<rparr>)" by blast
  qed
  have "foldE (inject c tr) (enumerate 0 (zip (map rt ps) as)) w2 = Inr w3"
    using w3(1) by (simp add: as_def zip_maps enumerate_map foldE_map case_prod_unfold)
  then show ?thesis
    by (intro exI [of _ w3] conjI) (use w2 w3 p3' frame_trans [OF w2(3) w3(2)] in simp_all)
qed

text \<open>
  The contexts of a read before anything is posted. \<open>up\<close> tells whether the first slab is mapped; without a server its
  context comes from the pool of the slab's position, and is not filled in.
\<close>

definition read_ctx :: "bool \<Rightarrow> is_config \<Rightarrow> nat \<Rightarrow> nat \<Rightarrow> nat \<Rightarrow> nat \<Rightarrow> ctx_addr list \<Rightarrow> nat \<times> nat \<Rightarrow> remote_chunk_g \<Rightarrow> nat \<Rightarrow> rdma_ctx \<Rightarrow> rdma_ctx" where
  "read_ctx m c r offset ln cnt as p ch n x =
     (if m then filled c r offset ln False cnt p ch n x else x)\<lparr>ctx_ctxs := as, ctx_fault := 0\<rparr>"

lemma read_prepare:
  assumes q: "conn_id q = i" and ps: "distinct (map fst ps)" and pos: "\<forall>k<length ps. live (ps ! k) \<or> fst (ps ! k) = k" and fi: "inject_fault (fault_injection (sess w)) \<noteq> 1"
    and srv: "\<forall>p\<in>set ps. has_pool w i (fst p) \<and> pool_free (pl p) \<and> pool_of w i (fst p) = pl p \<and> (live p \<longrightarrow> chunk_at w (Some p) = Inr (ch p))"
  defines "as \<equiv> map (\<lambda>p. (i, fst p, top_id (pl p))) ps"
  shows "\<exists>w1 w2. foldE (acquire c r q offset ln False cnt) (enumerate 0 (map (read_route live) ps)) ([], w) = Inr (as, w1) \<and>
    frame w (fold (\<lambda>a. upd_ctx a (\<lambda>x. x\<lparr>ctx_ctxs := as\<rparr>)) as w1) \<and>
    foldE (inject c tr) (enumerate 0 (zip (map (read_route live) ps) as)) (fold (\<lambda>a. upd_ctx a (\<lambda>x. x\<lparr>ctx_ctxs := as\<rparr>)) as w1) = Inr w2 \<and>
    frame w w2 \<and> net w2 = net w \<and> reqs w2 = reqs w \<and> cnts w2 = cnts w \<and>
    (\<forall>p\<in>set ps. \<exists>n. pool_of w2 i (fst p) = with_ctx (pl p) (Some (popped (pl p))) (read_ctx (live p) c r offset ln cnt as p (ch p) n (top_ctx (pl p))))"
proof -
  let ?x = "\<lambda>p n. if live p then filled c r offset ln False cnt p (ch p) n (top_ctx (pl p)) else top_ctx (pl p)"
  obtain w1 where acq: "foldE (acquire c r q offset ln False cnt) (enumerate 0 (map (read_route live) ps)) ([], w) = Inr (as, w1)"
    and f1: "frame w w1" "net w1 = net w" "reqs w1 = reqs w" "cnts w1 = cnts w"
    and p1: "\<forall>p\<in>set ps. \<exists>n. pool_of w1 i (fst p) = with_ctx (pl p) (Some (popped (pl p))) (?x p n)"
    using acquire_routes [OF ps q _ srv, of 0 c r offset ln False cnt "[]"] pos unfolding as_def by auto
  have fi1: "inject_fault (fault_injection (sess w1)) \<noteq> 1" using frameD(7) [OF f1(1)] fi by simp
  have pre1: "\<forall>p\<in>set ps. has_pool w1 i (fst p) \<and> pool_free (pl p) \<and> (\<exists>n. pool_of w1 i (fst p) = with_ctx (pl p) (Some (popped (pl p))) (?x p n))"
    using p1 srv frameD(5) [OF f1(1)] by simp
  obtain w2 where "foldE (inject c tr) (enumerate 0 (zip (map (read_route live) ps) as)) (fold (\<lambda>a. upd_ctx a (\<lambda>x. x\<lparr>ctx_ctxs := as\<rparr>)) as w1) = Inr w2"
    "frame w1 w2" "net w2 = net w1" "reqs w2 = reqs w1" "cnts w2 = cnts w1"
    "\<forall>p\<in>set ps. \<exists>n. pool_of w2 i (fst p) = with_ctx (pl p) (Some (popped (pl p))) (read_ctx (live p) c r offset ln cnt as p (ch p) n (top_ctx (pl p)))"
    using read_mark [OF ps fi1 pre1, of c tr "read_route live"] unfolding as_def read_ctx_def by blast
  moreover have "frame w1 (fold (\<lambda>a. upd_ctx a (\<lambda>x. x\<lparr>ctx_ctxs := as\<rparr>)) bs w1)" for bs
    by (induction bs rule: rev_induct) (auto intro: frame_trans frame_ctx)
  ultimately show ?thesis using acq f1
    by (intro exI [of _ w1] exI [of _ w2]) (use frame_trans [OF f1(1)] in auto)
qed

lemma read_ctx_simps:
  "ctx_req (read_ctx True c r offset ln cnt as p ch n x) = Some r" "ctx_cnt (read_ctx True c r offset ln cnt as p ch n x) = Some cnt"
  "ctx_ctxs (read_ctx m c r offset ln cnt as p ch n x) = as" "ctx_fault (read_ctx m c r offset ln cnt as p ch n x) = 0"
  "page_ctx (read_ctx m c r offset ln cnt as p ch n x) = page_ctx x" "ctx_rkey (read_ctx True c r offset ln cnt as p ch n x) = remote_rkey ch"
  "ctx_opcode (read_ctx True c r offset ln cnt as p ch n x) = IB_WR_RDMA_READ" "ctx_rdma_buf (read_ctx m c r offset ln cnt as p ch n x) = ctx_rdma_buf x"
  "sg_length (read_ctx True c r offset ln cnt as p ch n x) = ln div NDATAS c"
  "ctx_remote_addr (read_ctx True c r offset ln cnt as p ch n x) = remote_addr ch + of_nat (offset div NDATAS c)"
  "ctx_in_flight (read_ctx True c r offset ln cnt as p ch n x) = CTX_R_IN_FLIGHT"
  using filled_simps [of c r offset ln False cnt p ch n x]
  by (simp_all add: read_ctx_def page_ctx_def) (simp_all add: filled_def fill_wr_def)

text \<open>One read is posted, on the first usable replica, and the loop that awaits it polls that server only.\<close>

definition await_reads :: "is_config \<Rightarrow> 'n transport \<Rightarrow> (route \<times> ctx_addr) list \<Rightarrow> 'n world \<Rightarrow> 'n world res" where
  "await_reads c tr = foldE (\<lambda>(rt, a) w. bindE (usable w (rt, a)) (\<lambda>u. case rt of
     Some (b, _) \<Rightarrow> if u then rdma_cq_event_handler c tr b w else Inr w | None \<Rightarrow> Inr w))"

lemma read_posted:
  assumes rel: "reliable tr mem cqe" and c: "NDATAS c = 1" and hp: "has_pool w i (fst pm)"
    and pl: "pool_of w i (fst pm) = with_ctx plm (Some (popped plm)) x" "pool_free plm"
    and x: "ctx_fault x = 0" "ctx_opcode x = IB_WR_RDMA_READ" "sg_length x = IS_PAGE_SIZE" "page_ctx x" and cq: "cqe (net w) (fst pm) = []"
    and rts: "rts = (if up then [] else [(None, i, b0, k0)]) @ (the_route pm, (i, fst pm, top_id plm)) # rts'"
    and a0: "\<not> up \<Longrightarrow> has_pool w i b0 \<and> k0 < length (ctx_pool (pool_of w i b0))"
  defines "data \<equiv> mem_read (ctx_rkey x) (ctx_remote_addr x) IS_PAGE_SIZE (mem (net w) (fst pm))"
  shows "\<exists>j w'. whileE (read_step c tr rts) [0..<NDATAS c] (0, w) = Inr (0, j, w') \<and> frame w w' \<and> reqs w' = reqs w \<and> cnts w' = cnts w \<and>
    mem (net w') = mem (net w) \<and> cqe (net w') = (cqe (net w))(fst pm := [OP_READ (i, fst pm, top_id plm) data]) \<and>
    (\<forall>b. pool_of w' i b = pool_of w i b) \<and> await_reads c tr (take (NDATAS c + j) rts) w' = rdma_cq_event_handler c tr (fst pm) w'"
proof -
  let ?a = "(i, fst pm, top_id plm)"
  have t: "top_id plm < length (ctx_pool plm)" by (rule pool_free_take [OF pl(2)])
  obtain d where d: "ctx_rdma_buf x = Some d" using x(4) by (auto simp: page_ctx_def split: option.splits)
  have at: "ctx_at w ?a = Inr x" by (rule ctx_at_with [OF hp pl(1) t])
  obtain n where post: "post_ctx tr (fst pm) ?a w = Inr (0, w\<lparr>net := n\<rparr>)" "mem n = mem (net w)" "cqe n = (cqe (net w))(fst pm := [OP_READ ?a data])"
    using post_ctx_ok [OF rel hp pl(1) t d, of False] x cq by (auto simp: data_def)
  let ?k = "if up then 0 else 1 :: nat"
  let ?w = "upd_sess (\<lambda>s. s\<lparr>fault_injection := IS_fault_injection_access (fault_injection s) ?k\<rparr>) (w\<lparr>net := n\<rparr>)"
  have same: "pool_of ?w i b = pool_of w i b" "has_pool ?w i b = has_pool w i b" for b by (simp_all add: pool_of_def has_pool_def upd_sess_def)
  have rt: "the_route pm = Some (fst pm, int (snd pm), Some pm)" by (simp add: the_route_def)
  have z: "\<exists>x0. ctx_at w (i, b0, k0) = Inr x0 \<and> ctx_at ?w (i, b0, k0) = Inr x0" if "\<not> up" using a0 [OF that] same by (simp add: ctx_at_of)
  have us: "usable w (the_route pm, ?a) = Inr True" using at x(1) by (simp add: usable_def rt)
  have u0: "usable w (rts ! 0) = Inr up" using us z by (cases up) (auto simp: rts usable_def)
  have np: "next_parity w rts 1 = Inr 1" if "\<not> up"
    using us that upt_conv_Cons [of 1 "length rts"] by (simp add: next_parity_def rts)
  have "post_read tr rts ?k w = Inr (0, ?w)" using post(1) by (cases up) (simp_all add: post_read_def rts rt)
  then have "read_step c tr rts 0 (0, w) = Inr (0, ?k, ?w)"
    using c u0 np by (cases up) (simp_all add: read_step_def)
  then have "whileE (read_step c tr rts) [0..<NDATAS c] (0, w) = Inr (0, ?k, ?w)" using c by simp
  note loop = this
  have "ctx_at ?w ?a = Inr x" by (rule ctx_at_with [OF _ _ t]) (use same hp pl in simp_all)
  then have "usable ?w (the_route pm, ?a) = Inr True" using x(1) by (simp add: usable_def rt)
  moreover have "usable ?w (None, i, b0, k0) = Inr False" if "\<not> up" using z [OF that] by (auto simp: usable_def)
  ultimately have "await_reads c tr (take (NDATAS c + ?k) rts) ?w = rdma_cq_event_handler c tr (fst pm) ?w"
    using c by (cases up; cases "rdma_cq_event_handler c tr (fst pm) ?w") (simp_all add: await_reads_def rts rt)
  moreover have "frame w ?w" by (rule frame_trans [OF frame_net(1) frame_fi]) (simp add: IS_fault_injection_access_def)
  moreover have "reqs ?w = reqs w" "cnts ?w = cnts w" "net ?w = n" by (simp_all add: upd_sess_def)
  ultimately show ?thesis using loop post same by (intro exI [of _ ?k] exI [of _ ?w]) simp
qed

text \<open>The completion of the posted read ends the request with the data of the first replica's context.\<close>

lemma read_polled:
  assumes rel: "reliable tr mem cqe" and c: "NDATAS c = 1" "NDISKS c = length ps"
    and ps: "ps = p0 # ps'" "distinct (map fst ps)" and pm: "pm \<in> set ps" "alive (sess w) (fst pm)"
    and pools: "\<forall>p\<in>set ps. has_pool w i (fst p) \<and> pool_free (pl p) \<and> pool_of w i (fst p) = with_ctx (pl p) (Some (popped (pl p))) (y p) \<and>
      page_ctx (y p) \<and> ctx_fault (y p) = 0"
    and ym: "ctx_req (y pm) = Some r" "ctx_cnt (y pm) = Some cnt" "ctx_ctxs (y pm) = map (\<lambda>p. (i, fst p, top_id (pl p))) ps"
      "cnt < length (cnts w)" "cnts w ! cnt = 1"
    and data: "cqe (net w) (fst pm) = [OP_READ (i, fst pm, top_id (pl pm)) data]" "length data = IS_PAGE_SIZE"
    and q: "reqs w r = Some q" "\<not> rq_multi q" "rq_bios q = [d0]" "length d0 = IS_PAGE_SIZE"
  shows "\<exists>w'. rdma_cq_event_handler c tr (fst pm) w = Inr w' \<and> frame w w' \<and> mem (net w') = mem (net w) \<and> cqe (net w') = (cqe (net w))(fst pm := []) \<and>
    reqs w' = (reqs w)(r \<mapsto> q\<lparr>rq_bios := [if pm = p0 then data else the (ctx_rdma_buf (y p0))], rq_end := Some 0\<rparr>) \<and>
    (\<forall>p\<in>set ps. pool_of w' i (fst p) = with_ctx (pl p) (free_ctxs (pl p)) (if p = pm then reset_ctx ((y p)\<lparr>ctx_rdma_buf := Some data\<rparr>) else y p))"
proof -
  let ?a = "\<lambda>p. (i, fst p, top_id (pl p))" and ?y = "\<lambda>p. if p = pm then (y p)\<lparr>ctx_rdma_buf := Some data\<rparr> else y p"
  let ?h = "\<lambda>x. x\<lparr>ctx_rdma_buf := map_option (overlay data) (ctx_rdma_buf x)\<rparr>"
  obtain n where poll: "rdma_cq_event_handler c tr (fst pm) w = client_read_done c (?a pm) (deliver (fst pm) (OP_READ (?a pm) data) (w\<lparr>net := n\<rparr>))"
    and n: "mem n = mem (net w)" "cqe n = (cqe (net w))(fst pm := [])"
    using poll_ok [OF rel pm(2) data(1), of c] by (auto simp: handle_completion_def)
  define w1 where "w1 = upd_ctx (?a pm) ?h (w\<lparr>net := n\<rparr>)"
  have t: "top_id (pl pm) < length (ctx_pool (pl pm))" using pools pm(1) by (auto elim: pool_free_take)
  have m: "pool_of (w\<lparr>net := n\<rparr>) i (fst pm) = with_ctx (pl pm) (Some (popped (pl pm))) (y pm)" "has_pool (w\<lparr>net := n\<rparr>) i (fst pm)"
    using pools pm(1) by simp_all
  obtain b0 where "ctx_rdma_buf (y pm) = Some b0" "length b0 = IS_PAGE_SIZE" using pools pm(1) by (auto simp: page_ctx_def split: option.splits)
  then have h: "?h (y pm) = (y pm)\<lparr>ctx_rdma_buf := Some data\<rparr>" using data(2) by (simp add: overlay_def)
  have inj: "fst p = fst pm \<longleftrightarrow> p = pm" if "p \<in> set ps" for p using ps(2) that pm(1) by (auto simp: distinct_map inj_on_def)
  have pools1: "\<forall>p\<in>set ps. has_pool w1 i (fst p) \<and> pool_free (pl p) \<and> pool_of w1 i (fst p) = with_ctx (pl p) (Some (popped (pl p))) (?y p)"
    using upd_ctx_with [OF m(2,1) t, of ?h] inj pools h by (auto simp: w1_def)
  have w1: "reqs w1 = reqs w" "cnts w1 = cnts w" "net w1 = n" "frame w w1"
    using frame_trans [OF frame_net(1) frame_ctx] by (simp_all add: w1_def)
  have ym1: "ctx_req (?y pm) = Some r" "ctx_cnt (?y pm) = Some cnt" "ctx_ctxs (?y pm) = map ?a ps" "cnt < length (cnts w1)" "cnts w1 ! cnt = 1"
    using ym w1 by simp_all
  have p0: "p0 \<in> set ps" using ps(1) by simp
  obtain d where d: "ctx_rdma_buf (?y p0) = Some d" "length d = IS_PAGE_SIZE" "d = (if pm = p0 then data else the (ctx_rdma_buf (y p0)))"
    using pools p0 data(2) by (auto simp: page_ctx_def split: option.splits)
  have f0: "ctx_fault (?y p0) = 0" using pools p0 by auto
  obtain w' where w': "client_read_done c (?a pm) w1 = Inr w'" "frame w1 w'" "net w' = net w1" "reqs w' = (reqs w1)(r \<mapsto> q\<lparr>rq_bios := [d], rq_end := Some 0\<rparr>)"
    "\<forall>p\<in>set ps. pool_of w' i (fst p) = with_ctx (pl p) (free_ctxs (pl p)) (if p = pm then reset_ctx (?y p) else ?y p)"
    using read_done_ok [OF c ps pm(1) pools1 ym1 f0 d(1,2) _ q(2-4)] q(1) w1(1) by auto
  have "rdma_cq_event_handler c tr (fst pm) w = Inr w'" using poll w'(1) by (simp add: w1_def)
  moreover have "mem (net w') = mem (net w)" "cqe (net w') = (cqe (net w))(fst pm := [])" "frame w w'"
    using w'(3) w1(3) n frame_trans [OF w1(4) w'(2)] by simp_all
  moreover have "reqs w' = (reqs w)(r \<mapsto> q\<lparr>rq_bios := [if pm = p0 then data else the (ctx_rdma_buf (y p0))], rq_end := Some 0\<rparr>)"
    using w'(4) w1(1) d(3) by simp
  moreover have "\<forall>p\<in>set ps. pool_of w' i (fst p) = with_ctx (pl p) (free_ctxs (pl p)) (if p = pm then reset_ctx ((y p)\<lparr>ctx_rdma_buf := Some data\<rparr>) else y p)"
    using w'(5) by simp
  ultimately show ?thesis by blast
qed

text \<open>What a read does, with and without a server behind its first slab.\<close>

lemma rdma_read_from:
  assumes rel: "reliable tr mem cqe" and c: "NDATAS c = 1" "NDISKS c = length ps"
    and q: "reqs w r = Some q" "\<not> rq_multi q" "rq_bios q = [d0]" "length d0 = IS_PAGE_SIZE" "conn_id q = i"
    and ps: "ps = p0 # ps'" "distinct (map fst ps)" and up: "\<not> up \<Longrightarrow> fst p0 = 0 \<and> ps' \<noteq> []"
    and srv: "\<forall>p\<in>set ps. has_pool w i (fst p) \<and> pool_free (pool_of w i (fst p)) \<and>
      (p \<noteq> p0 \<or> up \<longrightarrow> alive (sess w) (fst p) \<and> cqe (net w) (fst p) = [] \<and> chunk_at w (Some p) = Inr (ch p))"
    and fi: "inject_fault (fault_injection (sess w)) \<noteq> 1"
  defines "pm \<equiv> if up then p0 else hd ps'"
  shows "\<exists>w'. IS_rdma_read c tr (map (read_route (\<lambda>p. p \<noteq> p0 \<or> up)) ps) offset IS_PAGE_SIZE r w = Inr (0, w') \<and> frame w w' \<and>
    reqs w' = (reqs w)(r \<mapsto> q\<lparr>rq_bios := [if up then mem_read (remote_rkey (ch p0)) (remote_addr (ch p0) + of_nat offset) IS_PAGE_SIZE (mem (net w) (fst p0))
      else the (ctx_rdma_buf (top_ctx (pool_of w i (fst p0))))], rq_end := Some 0\<rparr>) \<and> mem (net w') = mem (net w) \<and> cqe (net w') = cqe (net w) \<and>
    (\<forall>p\<in>set ps. \<exists>x. pool_of w' i (fst p) = with_ctx (pool_of w i (fst p)) (free_ctxs (pool_of w i (fst p))) x \<and> page_ctx x \<and>
      (p \<noteq> p0 \<and> p \<noteq> pm \<longrightarrow> ctx_in_flight x = CTX_R_IN_FLIGHT \<and> ctx_req x = Some r))"
proof -
  define cnt where "cnt = length (cnts w)"
  define pl where "pl p = pool_of w i (fst p)" for p :: "nat \<times> nat"
  define data where "data = mem_read (remote_rkey (ch pm)) (remote_addr (ch pm) + of_nat offset) IS_PAGE_SIZE (mem (net w) (fst pm))"
  let ?live = "\<lambda>p. p \<noteq> p0 \<or> up" let ?a = "\<lambda>p. (i, fst p, top_id (pl p))" let ?as = "map ?a ps"
  let ?w0 = "w\<lparr>cnts := cnts w @ [1]\<rparr>" let ?rts = "map (\<lambda>p. (read_route ?live p, ?a p)) ps"
  have fr: "frame w ?w0" by simp
  have pm: "pm \<in> set ps" "pm \<noteq> p0 \<or> up" "pm = p0 \<longleftrightarrow> up" using ps up by (cases ps'; auto simp: pm_def)+
  have sr: "has_pool w i (fst p)" "pool_free (pl p)" if "p \<in> set ps" for p using srv that by (auto simp: pl_def)
  have srm: "alive (sess w) (fst pm)" "cqe (net w) (fst pm) = []" using srv pm by auto
  have pre0: "\<forall>p\<in>set ps. has_pool ?w0 i (fst p) \<and> pool_free (pl p) \<and> pool_of ?w0 i (fst p) = pl p \<and> (p \<noteq> p0 \<or> up \<longrightarrow> chunk_at ?w0 (Some p) = Inr (ch p))"
    using srv chunk_at_frame [OF fr] by (simp add: pl_def)
  have pos: "\<forall>k<length ps. ?live (ps ! k) \<or> fst (ps ! k) = k" using ps up by (auto simp: nth_Cons split: nat.splits)
  obtain w1 w2 where acq: "foldE (acquire c r q offset IS_PAGE_SIZE False cnt) (enumerate 0 (map (read_route ?live) ps)) ([], ?w0) = Inr (?as, w1)"
    and inj: "foldE (inject c tr) (enumerate 0 (zip (map (read_route ?live) ps) ?as)) (fold (\<lambda>a. upd_ctx a (\<lambda>x. x\<lparr>ctx_ctxs := ?as\<rparr>)) ?as w1) = Inr w2"
    and f2: "frame ?w0 w2" "net w2 = net w" "reqs w2 = reqs w" "cnts w2 = cnts w @ [1]"
    and p2: "\<forall>p\<in>set ps. \<exists>n. pool_of w2 i (fst p) = with_ctx (pl p) (Some (popped (pl p))) (read_ctx (?live p) c r offset IS_PAGE_SIZE cnt ?as p (ch p) n (top_ctx (pl p)))"
    using read_prepare [OF q(5) ps(2) pos _ pre0, of c r offset IS_PAGE_SIZE cnt tr] fi by auto
  obtain n where n: "\<forall>p\<in>set ps. pool_of w2 i (fst p) = with_ctx (pl p) (Some (popped (pl p))) (read_ctx (?live p) c r offset IS_PAGE_SIZE cnt ?as p (ch p) (n p) (top_ctx (pl p)))"
    using bchoice [OF p2] by blast
  define y where "y p = read_ctx (?live p) c r offset IS_PAGE_SIZE cnt ?as p (ch p) (n p) (top_ctx (pl p))" for p
  have g2: "frame w w2" by (rule frame_trans [OF fr f2(1)])
  have pools2: "has_pool w2 i (fst p)" "pool_of w2 i (fst p) = with_ctx (pl p) (Some (popped (pl p))) (y p)" "page_ctx (y p)" "ctx_fault (y p) = 0"
    "ctx_rdma_buf (y p) = ctx_rdma_buf (top_ctx (pl p))" if "p \<in> set ps" for p
    using sr [OF that] frameD(5) [OF g2] n that page_top [OF sr(2) [OF that]] by (simp_all add: y_def read_ctx_simps)
  have ym: "ctx_opcode (y pm) = IB_WR_RDMA_READ" "sg_length (y pm) = IS_PAGE_SIZE" "ctx_req (y pm) = Some r" "ctx_cnt (y pm) = Some cnt" "ctx_ctxs (y pm) = ?as"
    "mem_read (ctx_rkey (y pm)) (ctx_remote_addr (y pm)) IS_PAGE_SIZE (mem (net w2) (fst pm)) = data"
    using pm(2) c(1) f2(2) by (simp_all add: y_def read_ctx_simps data_def)
  have cq2: "cqe (net w2) (fst pm) = []" using srm(2) f2(2) by simp
  have rts: "?rts = (if up then [] else [(None, ?a p0)]) @ (the_route pm, ?a pm) # (if up then map (\<lambda>p. (read_route ?live p, ?a p)) ps' else map (\<lambda>p. (read_route ?live p, ?a p)) (tl ps'))"
    using ps up by (cases ps') (auto simp: pm_def read_route_def)
  have a0: "has_pool w2 i (fst p0) \<and> top_id (pl p0) < length (ctx_pool (pool_of w2 i (fst p0)))"
    using pools2(1,2) [of p0] sr(2) [of p0] ps(1) by (auto elim: pool_free_take)
  obtain j w3 where post: "whileE (read_step c tr ?rts) [0..<NDATAS c] (0, w2) = Inr (0, j, w3)" and f3: "frame w2 w3" "reqs w3 = reqs w2" "cnts w3 = cnts w2"
    "mem (net w3) = mem (net w2)" "cqe (net w3) = (cqe (net w2))(fst pm := [OP_READ (?a pm) data])" "\<forall>b. pool_of w3 i b = pool_of w2 i b"
    and wait: "await_reads c tr (take (NDATAS c + j) ?rts) w3 = rdma_cq_event_handler c tr (fst pm) w3"
    using read_posted [OF rel c(1) pools2(1,2) [OF pm(1)] sr(2) [OF pm(1)] pools2(4) [OF pm(1)] ym(1,2) pools2(3) [OF pm(1)] cq2 rts a0] unfolding ym(6) by blast
  have g3: "frame w w3" by (rule frame_trans [OF g2 f3(1)])
  have pools3: "\<forall>p\<in>set ps. has_pool w3 i (fst p) \<and> pool_free (pl p) \<and> pool_of w3 i (fst p) = with_ctx (pl p) (Some (popped (pl p))) (y p) \<and>
      page_ctx (y p) \<and> ctx_fault (y p) = 0"
    using pools2 sr(2) f3(6) frameD(5) [OF f3(1)] by simp
  have al3: "alive (sess w3) (fst pm)" using srm(1) alive_frame [OF g3] by simp
  have cn3: "cnt < length (cnts w3)" "cnts w3 ! cnt = 1" using f3(3) f2(4) by (simp_all add: cnt_def)
  have cq3: "cqe (net w3) (fst pm) = [OP_READ (?a pm) data]" "length data = IS_PAGE_SIZE" using f3(5) by (simp_all add: data_def mem_read_def)
  have q3: "reqs w3 r = Some q" using f3(2) f2(3) q(1) by simp
  obtain w4 where hd: "rdma_cq_event_handler c tr (fst pm) w3 = Inr w4" and f4: "frame w3 w4" "mem (net w4) = mem (net w3)" "cqe (net w4) = (cqe (net w3))(fst pm := [])"
      "reqs w4 = (reqs w3)(r \<mapsto> q\<lparr>rq_bios := [if pm = p0 then data else the (ctx_rdma_buf (y p0))], rq_end := Some 0\<rparr>)"
    and p4: "\<forall>p\<in>set ps. pool_of w4 i (fst p) = with_ctx (pl p) (free_ctxs (pl p)) (if p = pm then reset_ctx ((y p)\<lparr>ctx_rdma_buf := Some data\<rparr>) else y p)"
    using read_polled [OF rel c ps pm(1) al3 pools3 ym(3-5) cn3 cq3 q3 q(2-4)] by blast
  have "new_counter (int (NDATAS c)) w = (cnt, ?w0)" using c(1) by (simp add: new_counter_def cnt_def)
  then have "IS_rdma_read c tr (map (read_route ?live) ps) offset IS_PAGE_SIZE r w = Inr (0, w4)"
    using acq inj post wait hd q(1) by (simp add: IS_rdma_read_def req_at_def zip_maps Let_def await_reads_def)
  moreover have "reqs w4 = (reqs w)(r \<mapsto> q\<lparr>rq_bios := [if up then mem_read (remote_rkey (ch p0)) (remote_addr (ch p0) + of_nat offset) IS_PAGE_SIZE (mem (net w) (fst p0))
      else the (ctx_rdma_buf (top_ctx (pool_of w i (fst p0))))], rq_end := Some 0\<rparr>)"
    using f4(4) f3(2) f2(3) pm(3) pools2(5) [of p0] ps(1) by (cases up) (simp_all add: data_def pl_def)
  moreover have "mem (net w4) = mem (net w)" "cqe (net w4) = cqe (net w)" using f4(2,3) f3(4,5) f2(2) srm(2) by auto
  moreover have "\<exists>x. pool_of w4 i (fst p) = with_ctx (pl p) (free_ctxs (pl p)) x \<and> page_ctx x \<and> (p \<noteq> p0 \<and> p \<noteq> pm \<longrightarrow> ctx_in_flight x = CTX_R_IN_FLIGHT \<and> ctx_req x = Some r)"
    if "p \<in> set ps" for p
    using p4 that pools2(3) [OF that] cq3(2)
    by (intro exI [of _ "if p = pm then reset_ctx ((y p)\<lparr>ctx_rdma_buf := Some data\<rparr>) else y p"]) (simp add: y_def read_ctx_simps page_ctx_def reset_ctx_def)
  ultimately show ?thesis using frame_trans [OF g3 f4(1)] unfolding pl_def by blast
qed

end
