(* ===== verification/Replication.thy ===== *)
theory Replication
  imports Read_Path
begin

text \<open>
  Block requests on a replicated device: what \<open>IS_request\<close> guarantees about the data, over the placement that the
  session represents, and two situations in which the code does not keep it.
\<close>

section \<open>Where a request goes\<close>

definition group_of :: "is_config \<Rightarrow> request \<Rightarrow> nat" where
  "group_of c q = rq_pos q * 512 div 2 ^ SLAB_SHIFT c"

definition offset_of :: "is_config \<Rightarrow> request \<Rightarrow> nat" where
  "offset_of c q = rq_pos q * 512 mod 2 ^ SLAB_SHIFT c"

text \<open>The chunks \<open>ps\<close> are the replicas of group \<open>g\<close>.\<close>

definition replicas :: "is_config \<Rightarrow> IS_session \<Rightarrow> nat \<Rightarrow> (nat \<times> nat) list \<Rightarrow> bool" where
  "replicas c s g ps \<longleftrightarrow> length ps = NDISKS c \<and> distinct (map fst ps) \<and> (\<forall>j<NDISKS c. placement s (g * NDISKS c + j) = Some (ps ! j))"

definition descriptor :: "IS_session \<Rightarrow> nat \<times> nat \<Rightarrow> remote_chunk_g" where
  "descriptor s p = chunk_list (remote_chunk (the (cb_list s ! fst p))) ! snd p"

text \<open>The page that a request addresses on a replica.\<close>

definition remote_page :: "is_config \<Rightarrow> ('n \<Rightarrow> nat \<Rightarrow> memory) \<Rightarrow> 'n world \<Rightarrow> request \<Rightarrow> nat \<times> nat \<Rightarrow> u8 list" where
  "remote_page c mem w q p = mem_read (remote_rkey (descriptor (sess w) p)) (remote_addr (descriptor (sess w) p) + of_nat (offset_of c q))
     IS_PAGE_SIZE (mem (net w) (fst p))"

lemma placement_route:
  assumes "maps_ok c s" "placement s x = Some p"
  shows "route_of s x = Inr (the_route p)" "bindE (cb_at s (int (fst p))) (\<lambda>cb. aload (chunk_list (remote_chunk cb)) (int (snd p))) = Inr (descriptor s p)"
proof -
  from assms have x: "x < length (cb_index_map s)" "cb_index_map s ! x \<noteq> NO_CB_MAPPED" "length (chunk_map_cb_chunk s) = length (cb_index_map s)"
    by (auto simp: placement_def maps_ok_def tables_ok_def split: if_splits)
  with assms(1) obtain b i where l: "linked s x b i" by (auto simp: maps_ok_def tables_ok_def)
  with placement_linked [OF l x(1)] assms(2) have p: "p = (b, i)" by simp
  from l obtain cb where cb: "cb_list s ! b = Some cb" "b < length (cb_list s)" "rc_ok (remote_chunk cb)" "i < MAX_MR_SIZE_GB"
    "cb_index_map s ! x = int b" "chunk_map_cb_chunk s ! x = int i" by (auto simp: linked_def)
  have at: "cb_at s (int b) = Inr cb" by (rule cb_at_Some [OF cb(2,1)])
  show "route_of s x = Inr (the_route p)" using x cb at by (simp add: route_of_def p the_route_def NO_CB_MAPPED_def)
  show "bindE (cb_at s (int (fst p))) (\<lambda>cb. aload (chunk_list (remote_chunk cb)) (int (snd p))) = Inr (descriptor s p)"
    using at cb by (simp add: p descriptor_def rc_ok_def)
qed

lemma foldE_collect:
  assumes "\<And>i. i \<in> set is \<Longrightarrow> f i = Inr (g i)"
  shows "foldE (\<lambda>i rs. bindE (f i) (\<lambda>x. Inr (rs @ [x]))) is rs = Inr (rs @ map g is)"
  using assms by (induction "is" arbitrary: rs) simp_all

lemma request_routes:
  assumes "maps_ok c (sess w)" "reqs w r = Some q" "replicas c (sess w) (group_of c q) ps"
  shows "IS_request c tr r w = IS_transfer_chunk c tr (map the_route ps) (offset_of c q) (rq_bytes q) (rq_write q) r w"
    and "p \<in> set ps \<Longrightarrow> chunk_at w (Some p) = Inr (descriptor (sess w) p)"
proof -
  let ?g = "group_of c q"
  have pl: "placement (sess w) (?g * NDISKS c + j) = Some (ps ! j)" if "j < NDISKS c" for j using assms(3) that by (simp add: replicas_def)
  have len: "length ps = NDISKS c" using assms(3) by (simp add: replicas_def)
  have "foldE (\<lambda>i rs. bindE (route_of (sess w) (?g * NDISKS c + i)) (\<lambda>x. Inr (rs @ [x]))) [0..<NDISKS c] [] = Inr ([] @ map (\<lambda>j. the_route (ps ! j)) [0..<NDISKS c])"
    by (rule foldE_collect) (use placement_route(1) [OF assms(1) pl] in auto)
  moreover have "map (\<lambda>j. the_route (ps ! j)) [0..<NDISKS c] = map the_route ps" using len by (intro nth_equalityI) simp_all
  ultimately show "IS_request c tr r w = IS_transfer_chunk c tr (map the_route ps) (offset_of c q) (rq_bytes q) (rq_write q) r w"
    using assms(2) by (simp add: IS_request_def req_at_def Let_def group_of_def offset_of_def)
  assume "p \<in> set ps"
  then obtain j where "j < NDISKS c" "p = ps ! j" using len by (auto simp: in_set_conv_nth)
  with placement_route(2) [OF assms(1) pl] show "chunk_at w (Some p) = Inr (descriptor (sess w) p)"
    by (simp add: chunk_at_def split_beta)
qed

text \<open>The tables survive the data path.\<close>

lemma frame_placement:
  assumes "frame w w'"
  shows "placement (sess w') = placement (sess w)" "maps_ok c (sess w') = maps_ok c (sess w)" "descriptor (sess w') = descriptor (sess w)"
    "session_inv c (sess w') = session_inv c (sess w)" "replicas c (sess w') g ps = replicas c (sess w) g ps"
proof -
  from assms obtain cs fi where s: "sess w' = (sess w)\<lparr>IS_conns := cs, fault_injection := fi\<rparr>" by (auto simp: frame_def)
  show p: "placement (sess w') = placement (sess w)" by (simp add: s placement_def fun_eq_iff)
  have "linked (sess w') = linked (sess w)" by (simp add: s linked_def fun_eq_iff)
  then show m: "maps_ok c (sess w') = maps_ok c (sess w)" by (simp add: maps_ok_def tables_ok_def back_ok_def s unmapped_def)
  show "descriptor (sess w') = descriptor (sess w)" by (simp add: s descriptor_def fun_eq_iff)
  show "session_inv c (sess w') = session_inv c (sess w)" unfolding session_inv_def m server_ok_def p by (simp add: s)
  show "replicas c (sess w') g ps = replicas c (sess w) g ps" by (simp add: replicas_def p)
qed

section \<open>Requests\<close>

definition page_request :: "bool \<Rightarrow> u8 list \<Rightarrow> request \<Rightarrow> bool" where
  "page_request wr d q \<longleftrightarrow> rq_write q = wr \<and> rq_bytes q = IS_PAGE_SIZE \<and> rq_bios q = [d] \<and> length d = IS_PAGE_SIZE \<and> \<not> rq_multi q"

definition device_ready :: "is_config \<Rightarrow> ('n \<Rightarrow> nat \<Rightarrow> completion list) \<Rightarrow> 'n world \<Rightarrow> nat \<Rightarrow> (nat \<times> nat) list \<Rightarrow> bool" where
  "device_ready c cqe w i ps \<longleftrightarrow> maps_ok c (sess w) \<and> (\<forall>p\<in>set ps. srv_ready i cqe w (fst p)) \<and> inject_fault (fault_injection (sess w)) \<noteq> 1"

lemma write_request:
  assumes rel: "reliable tr mem cqe" and c: "NDATAS c = 1" "0 < NDISKS c" and q: "reqs w r = Some q" "page_request True d q"
    and dev: "replicas c (sess w) (group_of c q) ps" "device_ready c cqe w (conn_id q) ps"
  shows "\<exists>w'. IS_request c tr r w = Inr (0, w') \<and> frame w w' \<and> reqs w' = (reqs w)(r \<mapsto> q\<lparr>rq_end := Some 0\<rparr>) \<and>
    device_ready c cqe w' (conn_id q) ps \<and> (\<forall>p\<in>set ps. remote_page c mem w' q p = d)"
proof -
  have ok: "maps_ok c (sess w)" using dev(2) by (simp add: device_ready_def)
  have ps: "ps \<noteq> []" "distinct (map fst ps)" using dev(1) c(2) by (auto simp: replicas_def)
  note routes = request_routes [OF ok q(1) dev(1)]
  have srv: "\<forall>p\<in>set ps. srv_ready (conn_id q) cqe w (fst p) \<and> chunk_at w (Some p) = Inr (descriptor (sess w) p)"
    using dev(2) routes(2) by (simp add: device_ready_def)
  have d: "rq_bios q = [d]" "length d = IS_PAGE_SIZE" using q(2) by (simp_all add: page_request_def)
  obtain w' where w': "IS_rdma_write c tr (map the_route ps) (offset_of c q) IS_PAGE_SIZE r w = Inr (0, w')" "frame w w'"
    "reqs w' = (reqs w)(r \<mapsto> q\<lparr>rq_end := Some 0\<rparr>)"
    and p: "\<forall>p\<in>set ps. srv_ready (conn_id q) cqe w' (fst p) \<and> mem (net w') (fst p) =
      mem_write (remote_rkey (descriptor (sess w) p)) (remote_addr (descriptor (sess w) p) + of_nat (offset_of c q)) d (mem (net w) (fst p))"
    using rdma_write_ok [OF rel c(1) q(1) d _ ps srv, of "offset_of c q"] by blast
  have "remote_page c mem w' q p = d" if "p \<in> set ps" for p
    using p that frame_placement(3) [OF w'(2)] mem_read_write [OF d(2)] by (simp add: remote_page_def IS_PAGE_SIZE_def)
  moreover have "device_ready c cqe w' (conn_id q) ps"
    using p dev(2) frame_placement(2) [OF w'(2)] frameD(7) [OF w'(2)] by (simp add: device_ready_def)
  moreover have "IS_request c tr r w = Inr (0, w')" using routes(1) w'(1) q(2) by (simp add: IS_transfer_chunk_def page_request_def)
  ultimately show ?thesis using w' by blast
qed

lemma read_request:
  assumes rel: "reliable tr mem cqe" and c: "NDATAS c = 1" "0 < NDISKS c" and q: "reqs w r = Some q" "page_request False d0 q"
    and dev: "replicas c (sess w) (group_of c q) ps" "device_ready c cqe w (conn_id q) ps"
  shows "\<exists>w'. IS_request c tr r w = Inr (0, w') \<and> frame w w' \<and> device_ready c cqe w' (conn_id q) ps \<and>
    reqs w' = (reqs w)(r \<mapsto> q\<lparr>rq_bios := [remote_page c mem w q (hd ps)], rq_end := Some 0\<rparr>) \<and> mem (net w') = mem (net w) \<and>
    (\<forall>p\<in>set ps. \<exists>x. pool_of w' (conn_id q) (fst p) = with_ctx (pool_of w (conn_id q) (fst p)) (free_ctxs (pool_of w (conn_id q) (fst p))) x \<and>
      (p \<noteq> hd ps \<longrightarrow> ctx_in_flight x = CTX_R_IN_FLIGHT \<and> ctx_req x = Some r))"
proof -
  let ?i = "conn_id q"
  have ok: "maps_ok c (sess w)" and fi: "inject_fault (fault_injection (sess w)) \<noteq> 1" using dev(2) by (simp_all add: device_ready_def)
  obtain p0 ps' where ps: "ps = p0 # ps'" "distinct (map fst ps)" and n: "NDISKS c = length ps" using dev(1) c(2) by (cases ps) (auto simp: replicas_def)
  note routes = request_routes [OF ok q(1) dev(1)]
  have srv: "\<forall>p\<in>set ps. has_pool w ?i (fst p) \<and> pool_free (pool_of w ?i (fst p)) \<and>
      (p \<noteq> p0 \<or> True \<longrightarrow> alive (sess w) (fst p) \<and> cqe (net w) (fst p) = [] \<and> chunk_at w (Some p) = Inr (descriptor (sess w) p))"
    using dev(2) routes(2) by (simp add: device_ready_def srv_ready_def)
  have d: "\<not> rq_multi q" "rq_bios q = [d0]" "length d0 = IS_PAGE_SIZE" using q(2) by (simp_all add: page_request_def)
  have rt: "read_route (\<lambda>_. True) = the_route" by (simp add: read_route_def fun_eq_iff)
  obtain w' where w': "IS_rdma_read c tr (map the_route ps) (offset_of c q) IS_PAGE_SIZE r w = Inr (0, w')" "frame w w'"
    "reqs w' = (reqs w)(r \<mapsto> q\<lparr>rq_bios := [remote_page c mem w q p0], rq_end := Some 0\<rparr>)" "mem (net w') = mem (net w)" "cqe (net w') = cqe (net w)"
    and p: "\<forall>p\<in>set ps. \<exists>x. pool_of w' ?i (fst p) = with_ctx (pool_of w ?i (fst p)) (free_ctxs (pool_of w ?i (fst p))) x \<and> page_ctx x \<and>
      (p \<noteq> p0 \<longrightarrow> ctx_in_flight x = CTX_R_IN_FLIGHT \<and> ctx_req x = Some r)"
    using rdma_read_from [OF rel c(1) n q(1) d refl ps _ srv fi, of "offset_of c q"] by (auto simp: remote_page_def rt)
  have "srv_ready ?i cqe w' (fst p)" if "p \<in> set ps" for p
    using p that srv pool_free_back frameD(5) [OF w'(2)] alive_frame [OF w'(2)] w'(5) by (fastforce simp: srv_ready_def)
  then have "device_ready c cqe w' ?i ps"
    using ok fi frame_placement(2) [OF w'(2)] frameD(7) [OF w'(2)] by (simp add: device_ready_def)
  moreover have "IS_request c tr r w = Inr (0, w')" using routes(1) w'(1) q(2) by (simp add: IS_transfer_chunk_def page_request_def)
  moreover have "hd ps = p0" using ps(1) by simp
  ultimately show ?thesis using w' p by blast
qed

text \<open>
  A group whose first slab is unmapped, as a disconnect leaves it. The context that stands for that slab comes from pool 0,
  which the remaining replicas \<open>ps\<close> do not use.
\<close>

definition degraded :: "is_config \<Rightarrow> IS_session \<Rightarrow> nat \<Rightarrow> (nat \<times> nat) list \<Rightarrow> bool" where
  "degraded c s g ps \<longleftrightarrow> Suc (length ps) = NDISKS c \<and> ps \<noteq> [] \<and> distinct (map fst ps) \<and> 0 \<notin> fst ` set ps \<and>
     g * NDISKS c < length (cb_index_map s) \<and> placement s (g * NDISKS c) = None \<and>
     (\<forall>j<length ps. placement s (g * NDISKS c + Suc j) = Some (ps ! j))"

lemma degraded_routes:
  assumes "maps_ok c (sess w)" "reqs w r = Some q" "degraded c (sess w) (group_of c q) ps"
  shows "IS_request c tr r w = IS_transfer_chunk c tr (None # map the_route ps) (offset_of c q) (rq_bytes q) (rq_write q) r w"
    and "p \<in> set ps \<Longrightarrow> chunk_at w (Some p) = Inr (descriptor (sess w) p)"
proof -
  let ?g = "group_of c q"
  define x where "x j = (case j of 0 \<Rightarrow> None | Suc k \<Rightarrow> the_route (ps ! k))" for j
  have pl: "placement (sess w) (?g * NDISKS c + Suc j) = Some (ps ! j)" if "j < length ps" for j using assms(3) that by (simp add: degraded_def)
  have n: "NDISKS c = Suc (length ps)" "placement (sess w) (?g * NDISKS c) = None" "?g * NDISKS c < length (cb_index_map (sess w))"
    using assms(3) by (simp_all add: degraded_def)
  have "route_of (sess w) (?g * NDISKS c + j) = Inr (x j)" if "j < NDISKS c" for j
  proof (cases j)
    case 0
    then show ?thesis using n(2,3) by (simp add: x_def route_of_def placement_def split: if_splits del: of_nat_mult)
  next
    case (Suc k)
    then show ?thesis using placement_route(1) [OF assms(1) pl] n(1) that by (simp add: x_def)
  qed
  then have "foldE (\<lambda>i rs. bindE (route_of (sess w) (?g * NDISKS c + i)) (\<lambda>x. Inr (rs @ [x]))) [0..<NDISKS c] [] = Inr ([] @ map x [0..<NDISKS c])"
    by (intro foldE_collect) simp
  moreover have "map (\<lambda>j. the_route (ps ! j)) [0..<length ps] = map the_route ps" by (rule nth_equalityI) simp_all
  then have "map x [0..<NDISKS c] = None # map the_route ps" unfolding n(1) map_upt_Suc by (simp add: x_def)
  ultimately show "IS_request c tr r w = IS_transfer_chunk c tr (None # map the_route ps) (offset_of c q) (rq_bytes q) (rq_write q) r w"
    using assms(2) by (simp add: IS_request_def req_at_def Let_def group_of_def offset_of_def)
  assume "p \<in> set ps"
  then obtain j where "j < length ps" "p = ps ! j" by (auto simp: in_set_conv_nth)
  with placement_route(2) [OF assms(1) pl] show "chunk_at w (Some p) = Inr (descriptor (sess w) p)"
    by (simp add: chunk_at_def split_beta)
qed

lemma degraded_read:
  assumes rel: "reliable tr mem cqe" and c: "NDATAS c = 1" and q: "reqs w r = Some q" "page_request False d0 q"
    and dev: "degraded c (sess w) (group_of c q) ps" "device_ready c cqe w (conn_id q) ps"
    and z: "has_pool w (conn_id q) 0" "pool_free (pool_of w (conn_id q) 0)"
  shows "\<exists>w'. IS_request c tr r w = Inr (0, w') \<and>
    reqs w' = (reqs w)(r \<mapsto> q\<lparr>rq_bios := [the (ctx_rdma_buf (top_ctx (pool_of w (conn_id q) 0)))], rq_end := Some 0\<rparr>)"
proof -
  let ?i = "conn_id q" let ?p = "(0, 0) :: nat \<times> nat"
  have ok: "maps_ok c (sess w)" and fi: "inject_fault (fault_injection (sess w)) \<noteq> 1" using dev(2) by (simp_all add: device_ready_def)
  note routes = degraded_routes [OF ok q(1) dev(1)]
  have ps: "?p # ps = ?p # ps" "distinct (map fst (?p # ps))" and n: "NDISKS c = length (?p # ps)" and up: "\<not> False \<Longrightarrow> fst ?p = 0 \<and> ps \<noteq> []" and ne: "?p \<notin> set ps"
    using dev(1) by (force simp: degraded_def)+
  have srv: "\<forall>p\<in>set (?p # ps). has_pool w ?i (fst p) \<and> pool_free (pool_of w ?i (fst p)) \<and>
      (p \<noteq> ?p \<or> False \<longrightarrow> alive (sess w) (fst p) \<and> cqe (net w) (fst p) = [] \<and> chunk_at w (Some p) = Inr (descriptor (sess w) p))"
    using dev(2) routes(2) z by (auto simp: device_ready_def srv_ready_def)
  have d: "\<not> rq_multi q" "rq_bios q = [d0]" "length d0 = IS_PAGE_SIZE" using q(2) by (simp_all add: page_request_def)
  have rt: "map (read_route (\<lambda>p. p \<noteq> ?p \<or> False)) (?p # ps) = None # map the_route ps" using ne by (auto simp: read_route_def)
  obtain w' where "IS_rdma_read c tr (None # map the_route ps) (offset_of c q) IS_PAGE_SIZE r w = Inr (0, w')"
    "reqs w' = (reqs w)(r \<mapsto> q\<lparr>rq_bios := [the (ctx_rdma_buf (top_ctx (pool_of w ?i 0)))], rq_end := Some 0\<rparr>)"
    using rdma_read_from [OF rel c(1) n q(1) d refl ps up srv fi, of "offset_of c q"] unfolding rt if_False fst_conv by blast
  then show ?thesis using routes(1) q(2) by (simp add: IS_transfer_chunk_def page_request_def)
qed

section \<open>Losing a server after a read\<close>

lemma foldE_fails: "foldE f xs s = Inr t \<Longrightarrow> f x t = Inl e \<Longrightarrow> foldE f (xs @ x # ys) s = Inl e"
  by (induction xs arbitrary: s) (auto simp: bindE_def split: sum.splits)

text \<open>One context of the server is marked as a read in flight although it is back in a full pool.\<close>

lemma retry_overflows:
  assumes hp: "has_pool w 0 b" and pl: "length (ctx_pool (pool_of w 0 b)) = IS_QUEUE_DEPTH" "free_ctxs (pool_of w 0 b) = Some f" "IS_insert_ctx k f = None"
    and k: "k < IS_QUEUE_DEPTH" "ctx_in_flight (ctx_pool (pool_of w 0 b) ! k) = CTX_R_IN_FLIGHT"
    and idle: "\<forall>j<k. ctx_in_flight (ctx_pool (pool_of w 0 b) ! j) = CTX_IDLE"
  shows "retry_in_flight c tr b w = Inl Oob"
proof -
  let ?js = "\<lambda>js. map (\<lambda>j. (0 :: nat, j)) js"
  obtain n where n: "length (IS_conns (sess w)) = Suc n" using hp by (cases "IS_conns (sess w)") (auto simp: has_pool_def)
  have at: "ctx_at w (0, b, j) = Inr (ctx_pool (pool_of w 0 b) ! j)" if "j < IS_QUEUE_DEPTH" for j using hp pl(1) that by (simp add: ctx_at_of)
  have skip: "foldE (retry_step c tr b) (?js [0..<k]) (0, w) = Inr (0, w)"
    by (rule foldE_skip) (use at idle k(1) in \<open>auto simp: retry_step_def CTX_IDLE_def CTX_R_IN_FLIGHT_def CTX_W_IN_FLIGHT_def\<close>)
  have fail: "retry_step c tr b (0, k) (0, w) = Inl Oob"
    using at [OF k(1)] k(2) hp pl by (simp add: retry_step_def give_back.simps pool_at_of)
  have "[0..<IS_QUEUE_DEPTH] = [0..<k] @ k # [Suc k..<IS_QUEUE_DEPTH]"
    using upt_add_eq_append [of 0 k "IS_QUEUE_DEPTH - k"] upt_conv_Cons [OF k(1)] k(1) by simp
  then have "concat (map (\<lambda>i. map (\<lambda>j. (i, j)) [0..<IS_QUEUE_DEPTH]) [0..<Suc n]) =
      ?js [0..<k] @ (0, k) # (?js [Suc k..<IS_QUEUE_DEPTH] @ concat (map (\<lambda>i. map (\<lambda>j. (Suc i, j)) [0..<IS_QUEUE_DEPTH]) [0..<n]))"
    by (simp only: map_upt_Suc concat.simps map_append list.map append_assoc append_Cons)
  with foldE_fails [OF skip fail] show ?thesis by (simp only: retry_in_flight_def n)
qed

lemma disconnect_overflows:
  assumes "maps_ok c (sess w)" "placement (sess w) x = Some p" "cb_state_list (sess w) ! fst p = CB_MAPPED"
    and "has_pool w 0 (fst p)" "length (ctx_pool (pool_of w 0 (fst p))) = IS_QUEUE_DEPTH" "free_ctxs (pool_of w 0 (fst p)) = Some f" "IS_insert_ctx k f = None"
    and "k < IS_QUEUE_DEPTH" "ctx_in_flight (ctx_pool (pool_of w 0 (fst p)) ! k) = CTX_R_IN_FLIGHT"
    and "\<forall>j<k. ctx_in_flight (ctx_pool (pool_of w 0 (fst p)) ! j) = CTX_IDLE"
  shows "IS_disconnect_handler c tr (fst p) w = Inl Oob"
proof -
  let ?s = "set_cb_state (fst p) CB_FAIL (sess w)"
  from assms(1,2) have x: "x < length (cb_index_map (sess w))" "cb_index_map (sess w) ! x \<noteq> NO_CB_MAPPED"
    by (auto simp: placement_def split: if_splits)
  with assms(1) obtain b i where l: "linked (sess w) x b i" by (auto simp: maps_ok_def tables_ok_def)
  with placement_linked [OF l x(1)] assms(2) have b: "fst p = b" by simp
  from l obtain cb where cb: "cb_list ?s ! b = Some cb" "b < length (cb_list ?s)" "rc_ok (remote_chunk cb)" by (auto simp: linked_def set_cb_state_def)
  have t: "same_tables (sess w) ?s" by (simp add: same_tables_def set_cb_state_def)
  obtain s1 cb1 where un: "unmap_server b ?s = Inr s1" and s1: "s1 = ?s\<lparr>cb_index_map := unmap_from b (cb_index_map ?s), cb_list := (cb_list ?s)[b := Some cb1]\<rparr>"
    using unmap_server_ok [OF same_tables_maps_ok(1) [OF t assms(1)] cb(2,1,3)] by (auto simp: b)
  have same: "pool_of (w\<lparr>sess := s1\<rparr>) = pool_of w" "has_pool (w\<lparr>sess := s1\<rparr>) = has_pool w"
    by (simp_all add: fun_eq_iff pool_of_def has_pool_def s1 set_cb_state_def)
  have "retry_in_flight c tr b (w\<lparr>sess := s1\<rparr>) = Inl Oob"
    by (rule retry_overflows [where f = f and k = k]) (use assms(4-) b in \<open>simp_all add: same\<close>)
  with un assms(3) b show ?thesis by (simp add: IS_disconnect_handler_def on_sess_def upd_sess_def)
qed

section \<open>A small device\<close>

text \<open>Three servers in one address space each, over a loopback transport; slab \<open>j\<close> is chunk 0 of server \<open>j\<close>.\<close>

type_synonym loop_net = "(nat \<Rightarrow> memory) \<times> (nat \<Rightarrow> completion list)"

definition loopback :: "loop_net transport" where
  "loopback = \<lparr>tp_send = (\<lambda>b wr (m, l). case wr of
       WR_SEND _ \<Rightarrow> (0, m, l(b := l b @ [OP_SEND]))
     | WR_READ a k x n \<Rightarrow> (0, m, l(b := l b @ [OP_READ a (mem_read k x n (m b))]))
     | WR_WRITE a k x d \<Rightarrow> (0, m(b := mem_write k x d (m b)), l(b := l b @ [OP_WRITE a]))),
     tp_recv = (\<lambda>_ n. (0, n)),
     tp_poll = (\<lambda>b (m, l). case l b of [] \<Rightarrow> None | op # ops \<Rightarrow> Some (WC_SUCCESS, op, m, l(b := ops)))\<rparr>"

lemma loopback_reliable: "reliable loopback fst snd"
  by (auto simp: reliable_def loopback_def split: prod.splits)

definition small_pool :: ctx_pool_list where
  "small_pool = \<lparr>ctx_pool = replicate IS_QUEUE_DEPTH (zero_ctx\<lparr>ctx_rdma_buf := Some (replicate IS_PAGE_SIZE 0)\<rparr>),
     free_ctxs = Some \<lparr>len = IS_QUEUE_DEPTH, ctx_list = map Some [0..<IS_QUEUE_DEPTH], head = 0, tail = int IS_QUEUE_DEPTH - 1\<rparr>\<rparr>"

lemma small_pool_free: "pool_free small_pool"
proof -
  have "free_list (the (free_ctxs small_pool)) = [0..<IS_QUEUE_DEPTH]" by (simp add: small_pool_def free_list_def comp_def)
  moreover have "pool_ok (the (free_ctxs small_pool))" by (auto simp: small_pool_def pool_ok_def IS_QUEUE_DEPTH_def)
  ultimately show ?thesis by (auto simp: pool_free_def small_pool_def page_ctx_def zero_ctx_def IS_QUEUE_DEPTH_def split: option.splits)
qed

text \<open>With \<open>lost\<close>, server 0 has disconnected.\<close>

definition small_cb :: "bool \<Rightarrow> nat \<Rightarrow> kernel_cb" where
  "small_cb lost b = zero_cb\<lparr>state := CONNECTED, remote_chunk := (init_remote_chunk (remote_chunk zero_cb))
     \<lparr>chunk_map := (replicate MAX_MR_SIZE_GB (- 1))[0 := if lost \<and> b = 0 then - 1 else int b],
      remote_mapped := (replicate MAX_MR_SIZE_GB CHUNK_UNMAPPED)[0 := CHUNK_MAPPED],
      chunk_list := replicate MAX_MR_SIZE_GB \<lparr>remote_rkey = 7, remote_addr = 0x1000\<rparr>\<rparr>\<rparr>"

definition small_session :: "bool \<Rightarrow> IS_session" where
  "small_session lost = (demo_session demo_injector)\<lparr>cb_list := map (\<lambda>b. Some (small_cb lost b)) [0..<3], cb_num := 3,
     cb_state_list := [if lost then CB_FAIL else CB_MAPPED, CB_MAPPED, CB_MAPPED], IS_conns := [\<lparr>cpu_id = 0, ctx_pools = replicate 3 small_pool\<rparr>],
     cb_index_map := [if lost then - 1 else 0, 1, 2], chunk_map_cb_chunk := [0, 0, 0], unmapped_chunk_list := [0, 0, 0],
     free_chunk_index := if lost then 0 else - 1\<rparr>"

definition small_request :: "bool \<Rightarrow> u8 \<Rightarrow> request" where
  "small_request wr v = \<lparr>rq_write = wr, rq_pos = 8, rq_bytes = IS_PAGE_SIZE, rq_bios = [replicate IS_PAGE_SIZE v], rq_addr = 0x5000,
     rq_multi = False, rq_end = None, rq_errors = 0\<rparr>"

text \<open>The remote memory holds the byte \<open>v\<close> everywhere.\<close>

definition small_world :: "bool \<Rightarrow> u8 \<Rightarrow> loop_net world" where
  "small_world lost v = \<lparr>sess = small_session lost, reqs = [0 \<mapsto> small_request True 42, 1 \<mapsto> small_request False 0], cnts = [], kobjs = (\<lambda>_. []),
     net = (\<lambda>_ _ _. v, \<lambda>_. [])\<rparr>"

lemma less_3: "x < 3 \<longleftrightarrow> x = 0 \<or> x = 1 \<or> x = (2 :: nat)"
  by auto

lemma small_linked: "x < 3 \<Longrightarrow> \<not> (lost \<and> x = 0) \<Longrightarrow> linked (small_session lost) x x 0"
  by (auto simp: linked_def small_session_def small_cb_def rc_ok_def MAX_MR_SIZE_GB_def CHUNK_MAPPED_def init_remote_chunk_def less_3)

lemma small_maps: "maps_ok REP_config (small_session lost)"
proof -
  have "back_ok REP_config (small_session lost) b" if "b < 3" for b
    unfolding back_ok_def
  proof (intro allI impI)
    fix cb i assume cb: "cb_list (small_session lost) ! b = Some cb" "i < length (cmap cb)" "cmap cb ! i \<noteq> - 1"
    with that have "cb = small_cb lost b" by (simp add: small_session_def)
    with cb have "i = 0" "cmap cb ! i = int b" "\<not> (lost \<and> b = 0)" by (auto simp: small_cb_def nth_list_update split: if_splits)
    with small_linked [OF that] that show "\<exists>x<DISKSIZE_G REP_config. cmap cb ! i = int x \<and> linked (small_session lost) x b i"
      by (auto simp: config_defs)
  qed
  moreover have "tables_ok REP_config (small_session lost)"
  proof -
    have "\<exists>b i. linked (small_session lost) x b i" if "x < DISKSIZE_G REP_config" "cb_index_map (small_session lost) ! x \<noteq> NO_CB_MAPPED" for x
    proof -
      from that have "x < 3" "\<not> (lost \<and> x = 0)" by (cases x; auto simp: config_defs small_session_def)+
      from small_linked [OF this] show ?thesis by blast
    qed
    then show ?thesis unfolding tables_ok_def by (intro conjI) (simp_all add: small_session_def config_defs)
  qed
  ultimately show ?thesis by (simp add: maps_ok_def) (simp add: small_session_def unmapped_def NO_CB_MAPPED_def)
qed

definition small_replicas :: "(nat \<times> nat) list" where
  "small_replicas = [(1, 0), (2, 0)]"

lemma small_placement:
  "j < 3 \<Longrightarrow> \<not> (lost \<and> j = 0) \<Longrightarrow> placement (small_session lost) j = Some (j, 0)" "placement (small_session True) 0 = None"
  using placement_linked [OF small_linked] by (simp_all add: small_session_def placement_def NO_CB_MAPPED_def)

lemma small_pools: "b < 3 \<Longrightarrow> has_pool (small_world lost v) 0 b" "b < 3 \<Longrightarrow> pool_of (small_world lost v) 0 b = small_pool"
  by (simp_all add: has_pool_def pool_of_def small_world_def small_session_def)

lemma small_ready:
  assumes "\<forall>p\<in>set ps. fst p < 3 \<and> \<not> (lost \<and> fst p = 0)"
  shows "device_ready REP_config snd (small_world lost v) 0 ps"
proof -
  have "alive (small_session lost) b" if "b < 3" "\<not> (lost \<and> b = 0)" for b
    using that by (auto simp: alive_def cb_at_def aload_def small_session_def small_cb_def less_3)
  then have "srv_ready 0 snd (small_world lost v) b" if "b < 3" "\<not> (lost \<and> b = 0)" for b
    using that small_pools small_pool_free by (simp add: srv_ready_def) (simp add: small_world_def)
  then show ?thesis
    using assms small_maps by (auto simp: device_ready_def small_world_def small_session_def demo_session_def demo_injector_def)
qed

lemma small_groups:
  "replicas REP_config (small_session False) 0 ((0, 0) # small_replicas)" "degraded REP_config (small_session True) 0 small_replicas"
proof -
  have n: "NDISKS REP_config = 3" "length (cb_index_map (small_session True)) = 3" by (simp_all add: REP_config_def small_session_def)
  have "placement (small_session False) j = Some (((0, 0) # small_replicas) ! j)" if "j < 3" for j
    using that small_placement(1) [OF that, of False] by (auto simp: less_3 small_replicas_def)
  then show "replicas REP_config (small_session False) 0 ((0, 0) # small_replicas)" by (simp add: replicas_def n) (simp add: small_replicas_def)
  have "placement (small_session True) (Suc j) = Some (small_replicas ! j)" if "j < 2" for j
    using that small_placement(1) [of "Suc j" True] by (auto simp: less_2_cases_iff small_replicas_def)
  then show "degraded REP_config (small_session True) 0 small_replicas"
    using small_placement(2) by (simp add: degraded_def n) (simp add: small_replicas_def)
qed

lemma small_requests:
  "page_request wr (replicate IS_PAGE_SIZE v) (small_request wr v)" "conn_id (small_request wr v) = 0" "rq_pos (small_request wr v) = 8"
  "group_of REP_config (small_request wr v) = 0"
  "reqs (small_world lost u) 0 = Some (small_request True 42)" "reqs (small_world lost u) 1 = Some (small_request False 0)"
  "sess (small_world lost u) = small_session lost"
  by (simp_all add: page_request_def small_request_def conn_id_def QUEUE_NUM_MASK_def group_of_def REP_config_def small_world_def)

lemma REP_data: "NDATAS REP_config = 1" "0 < NDISKS REP_config"
  by (simp_all add: REP_config_def)

section \<open>Properties\<close>

text \<open>C3: On a device whose replicas are mapped on different live servers, over reliable connections and with no fault injected, a page write
  ends its request with success and leaves the page on every replica, and a later read of the same place ends with success and gives
  the page back.\<close>

theorem write_read_round_trip:
  assumes "reliable tr mem cqe" "NDATAS c = 1" "0 < NDISKS c"
    and "reqs w a = Some qa" "page_request True d qa" "reqs w b = Some qb" "page_request False d0 qb"
    and "a \<noteq> b" "rq_pos qb = rq_pos qa" "conn_id qb = conn_id qa"
    and "replicas c (sess w) (group_of c qa) ps" "device_ready c cqe w (conn_id qa) ps"
  shows "\<exists>w1 w2 q1 q2. IS_request c tr a w = Inr (0, w1) \<and> (\<forall>p\<in>set ps. remote_page c mem w1 qa p = d) \<and>
    reqs w1 a = Some q1 \<and> rq_end q1 = Some 0 \<and>
    IS_request c tr b w1 = Inr (0, w2) \<and> reqs w2 b = Some q2 \<and> rq_end q2 = Some 0 \<and> rq_bios q2 = [d]"
proof -
  obtain w1 where w1: "IS_request c tr a w = Inr (0, w1)" "frame w w1" "reqs w1 = (reqs w)(a \<mapsto> qa\<lparr>rq_end := Some 0\<rparr>)"
    "device_ready c cqe w1 (conn_id qa) ps" "\<forall>p\<in>set ps. remote_page c mem w1 qa p = d"
    using write_request [OF assms(1-5,11,12)] by blast
  have g: "group_of c qb = group_of c qa" "offset_of c qb = offset_of c qa" using assms(9) by (simp_all add: group_of_def offset_of_def)
  have rb: "reqs w1 b = Some qb" using w1(3) assms(6,8) by simp
  have dev: "replicas c (sess w1) (group_of c qb) ps" "device_ready c cqe w1 (conn_id qb) ps"
    using frame_placement(5) [OF w1(2)] assms(10,11) w1(4) g by simp_all
  obtain w2 where w2: "IS_request c tr b w1 = Inr (0, w2)" "reqs w2 = (reqs w1)(b \<mapsto> qb\<lparr>rq_bios := [remote_page c mem w1 qb (hd ps)], rq_end := Some 0\<rparr>)"
    using read_request [OF assms(1-3) rb assms(7) dev] by blast
  have "hd ps \<in> set ps" using assms(3,11) by (cases ps) (auto simp: replicas_def)
  then have "remote_page c mem w1 qb (hd ps) = d" using w1(5) g by (simp add: remote_page_def)
  with w1 w2 show ?thesis by auto
qed

theorem write_read_round_trip_witness:
  "\<exists>w1 w2 q2. IS_request REP_config loopback 0 (small_world False 0) = Inr (0, w1) \<and>
    remote_page REP_config fst w1 (small_request True 42) (2, 0) = replicate IS_PAGE_SIZE 42 \<and>
    IS_request REP_config loopback 1 w1 = Inr (0, w2) \<and> reqs w2 1 = Some q2 \<and> rq_bios q2 = [replicate IS_PAGE_SIZE 42]"
proof -
  let ?ps = "(0, 0) # small_replicas"
  have dev: "device_ready REP_config snd (small_world False 0) 0 ?ps" by (rule small_ready) (simp add: small_replicas_def)
  have "\<exists>w1 w2 q1 q2. IS_request REP_config loopback 0 (small_world False 0) = Inr (0, w1) \<and>
      (\<forall>p\<in>set ?ps. remote_page REP_config fst w1 (small_request True 42) p = replicate IS_PAGE_SIZE 42) \<and>
      reqs w1 0 = Some q1 \<and> rq_end q1 = Some 0 \<and>
      IS_request REP_config loopback 1 w1 = Inr (0, w2) \<and> reqs w2 1 = Some q2 \<and> rq_end q2 = Some 0 \<and> rq_bios q2 = [replicate IS_PAGE_SIZE 42]"
    by (rule write_read_round_trip [OF loopback_reliable REP_data small_requests(5,1,6,1)])
      (simp_all only: small_requests small_groups dev zero_neq_one simp_thms)
  then show ?thesis unfolding small_replicas_def list.set by blast
qed

text \<open>C17: After the first server of a group is lost, a read of the group ends with success and answers with what was left in the buffer of a context
  of pool 0, whatever the remaining replicas hold: the completion copies the buffer of the first context without a fault, and the
  context of the unmapped slab has none.\<close>

theorem degraded_read_is_stale:
  assumes "reliable tr mem cqe" "NDATAS c = 1" "reqs w r = Some q" "page_request False d0 q"
    and "degraded c (sess w) (group_of c q) ps" "device_ready c cqe w (conn_id q) ps"
    and "has_pool w (conn_id q) 0" "pool_free (pool_of w (conn_id q) 0)" "ctx_rdma_buf (top_ctx (pool_of w (conn_id q) 0)) = Some b"
  shows "\<exists>w'. IS_request c tr r w = Inr (0, w') \<and> reqs w' r = Some (q\<lparr>rq_bios := [b], rq_end := Some 0\<rparr>)"
  using degraded_read [OF assms(1-8)] assms(9) by auto

theorem degraded_read_is_stale_witness:
  "remote_page REP_config fst (small_world True 42) (small_request False 0) (1, 0) = replicate IS_PAGE_SIZE 42 \<and>
   remote_page REP_config fst (small_world True 42) (small_request False 0) (2, 0) = replicate IS_PAGE_SIZE 42 \<and>
   (\<exists>w' q'. IS_request REP_config loopback 1 (small_world True 42) = Inr (0, w') \<and> reqs w' 1 = Some q' \<and> rq_end q' = Some 0 \<and>
     rq_bios q' = [replicate IS_PAGE_SIZE 0])"
proof (intro conjI)
  show "remote_page REP_config fst (small_world True 42) (small_request False 0) (1, 0) = replicate IS_PAGE_SIZE 42"
    "remote_page REP_config fst (small_world True 42) (small_request False 0) (2, 0) = replicate IS_PAGE_SIZE 42"
    by (simp_all add: remote_page_def small_world_def mem_read_def map_replicate_trivial map_replicate_const)
  have t: "top_id small_pool < length (ctx_pool small_pool)" by (rule pool_free_take [OF small_pool_free])
  then have b: "ctx_rdma_buf (top_ctx (pool_of (small_world True 42) 0 0)) = Some (replicate IS_PAGE_SIZE 0)"
    by (simp add: small_pools top_ctx_def) (simp add: small_pool_def)
  have dev: "device_ready REP_config snd (small_world True 42) 0 small_replicas" by (rule small_ready) (simp add: small_replicas_def)
  have "\<exists>w'. IS_request REP_config loopback 1 (small_world True 42) = Inr (0, w') \<and>
      reqs w' 1 = Some ((small_request False 0)\<lparr>rq_bios := [replicate IS_PAGE_SIZE 0], rq_end := Some 0\<rparr>)"
    by (rule degraded_read_is_stale [OF loopback_reliable REP_data(1) small_requests(6,1)])
      (use small_groups(2) dev b small_pools small_pool_free in \<open>simp_all only: small_requests zero_less_numeral\<close>)
  then show "\<exists>w' q'. IS_request REP_config loopback 1 (small_world True 42) = Inr (0, w') \<and> reqs w' 1 = Some q' \<and> rq_end q' = Some 0 \<and>
     rq_bios q' = [replicate IS_PAGE_SIZE 0]" by fastforce
qed

text \<open>C18: A read marks the contexts of all replicas as in flight and resets only the one that it read into; the others go back to their free lists
  still marked. When a server of such a replica then disconnects, with nothing of it in use, the handler inserts the context a second
  time: a write past the end of the pool's array.\<close>

theorem disconnect_after_read_overflows:
  assumes "reliable tr mem cqe" "NDATAS c = 1" "0 < NDISKS c" "reqs w r = Some q" "page_request False d0 q" "conn_id q = 0"
    and "replicas c (sess w) (group_of c q) ps" "device_ready c cqe w 0 ps" and p: "p \<in> set ps" "p \<noteq> hd ps"
    and "cb_state_list (sess w) ! fst p = CB_MAPPED" "length (ctx_pool (pool_of w 0 (fst p))) = IS_QUEUE_DEPTH"
    and "\<forall>j<IS_QUEUE_DEPTH. ctx_in_flight (ctx_pool (pool_of w 0 (fst p)) ! j) = CTX_IDLE"
    and "length (free_list (the (free_ctxs (pool_of w 0 (fst p))))) = IS_QUEUE_DEPTH"
  shows "\<exists>w'. IS_request c tr r w = Inr (0, w') \<and> IS_disconnect_handler c tr (fst p) w' = Inl Oob"
proof -
  let ?pl = "pool_of w 0 (fst p)"
  have dev: "device_ready c cqe w (conn_id q) ps" using assms(6,8) by simp
  obtain w' x where w': "IS_request c tr r w = Inr (0, w')" "frame w w'" "device_ready c cqe w' 0 ps"
    and x: "pool_of w' 0 (fst p) = with_ctx ?pl (free_ctxs ?pl) x" "ctx_in_flight x = CTX_R_IN_FLIGHT"
    using read_request [OF assms(1-5,7) dev] p assms(6) by metis
  have free: "pool_free ?pl" "has_pool w' 0 (fst p)" "maps_ok c (sess w')"
    using assms(8) w'(3) p(1) by (auto simp: device_ready_def srv_ready_def)
  obtain f where f: "free_ctxs ?pl = Some f" "top_id ?pl < length (ctx_pool ?pl)" "pool_ok f"
    using free(1) pool_free_take by (metis (no_types, lifting) option.case_eq_if option.collapse option.distinct(1) option.sel pool_free_def)
  have full: "IS_insert_ctx (top_id ?pl) f = None" using f(1,3) assms(14) by (auto simp: IS_insert_ctx_def pool_ok_def free_list_def Let_def min_def split: if_splits)
  obtain j where "j < NDISKS c" "p = ps ! j" using p(1) assms(7) by (auto simp: in_set_conv_nth replicas_def)
  then have pl: "placement (sess w') (group_of c q * NDISKS c + j) = Some p"
    using assms(7) frame_placement(1) [OF w'(2)] by (simp add: replicas_def)
  have "IS_disconnect_handler c tr (fst p) w' = Inl Oob"
    by (rule disconnect_overflows [OF free(3) pl, where f = f and k = "top_id ?pl"])
      (use assms(11-13) x f full free(2) frameD(2) [OF w'(2)] in \<open>auto simp: with_ctx_def\<close>)
  with w'(1) show ?thesis by blast
qed

theorem disconnect_after_read_overflows_witness:
  "\<exists>w'. IS_request REP_config loopback 1 (small_world False 42) = Inr (0, w') \<and> IS_disconnect_handler REP_config loopback 2 w' = Inl Oob"
proof -
  let ?ps = "(0, 0) # small_replicas" and ?p = "(2, 0) :: nat \<times> nat"
  have dev: "device_ready REP_config snd (small_world False 42) 0 ?ps" by (rule small_ready) (simp add: small_replicas_def)
  have pl: "pool_of (small_world False 42) 0 (fst ?p) = small_pool" by (simp add: small_pools)
  have "\<exists>w'. IS_request REP_config loopback 1 (small_world False 42) = Inr (0, w') \<and> IS_disconnect_handler REP_config loopback (fst ?p) w' = Inl Oob"
  proof (rule disconnect_after_read_overflows [OF loopback_reliable REP_data small_requests(6,1,2)])
    show "length (free_list (the (free_ctxs (pool_of (small_world False 42) 0 (fst ?p))))) = IS_QUEUE_DEPTH"
      unfolding pl by (simp add: small_pool_def free_list_def)
  qed (use dev small_groups(1) in \<open>simp_all only: small_requests pl\<close>, simp_all add: small_replicas_def small_world_def small_session_def small_pool_def zero_ctx_def CTX_IDLE_def)
  then show ?thesis by simp
qed

end
