(* ===== verification/Reclaim.thy ===== *)
theory Reclaim
  imports Placement Monitor_Eviction Replication
begin

text \<open>
  Taking chunks back, on both sides: what the loop of \<open>evict_handler\<close> over the marked chunks does to the client's slab
  map and to the answer it prepares, and what \<open>recv_done\<close> does to the chunk tables of the monitor.
\<close>

section \<open>The client\<close>

text \<open>The slab map without the chunks \<open>T\<close> of server \<open>b\<close>.\<close>

definition without_chunks :: "nat \<Rightarrow> (nat \<Rightarrow> bool) \<Rightarrow> (nat \<rightharpoonup> nat \<times> nat) \<Rightarrow> nat \<rightharpoonup> nat \<times> nat" where
  "without_chunks b T p x = (case p x of None \<Rightarrow> None | Some (b', i) \<Rightarrow> if b' = b \<and> T i then None else Some (b', i))"

definition stopped :: "kernel_cb \<Rightarrow> nat \<Rightarrow> bool" where
  "stopped cb i \<longleftrightarrow> evict_chunk_map (remote_chunk cb) ! i = CHR ''s''"

definition stop_upto :: "IS_session \<Rightarrow> nat \<Rightarrow> kernel_cb \<Rightarrow> nat \<Rightarrow> int list \<times> IS_session \<Rightarrow> bool" where
  "stop_upto s0 b cb n z \<longleftrightarrow> (\<exists>cim rk cm. snd z = s0\<lparr>cb_index_map := cim,
       cb_list := (cb_list s0)[b := Some (cb\<lparr>send_buf := (send_buf cb)\<lparr>rkey := rk\<rparr>, remote_chunk := (remote_chunk cb)\<lparr>chunk_map := cm\<rparr>\<rparr>)]\<rparr> \<and>
     length rk = MAX_MR_SIZE_GB \<and> length cm = MAX_MR_SIZE_GB \<and> length cim = length (cb_index_map s0) \<and> length (fst z) = length (cb_index_map s0) \<and>
     (\<forall>i<n. rk ! i = (if stopped cb i then 1 else 0)) \<and>
     (\<forall>i<MAX_MR_SIZE_GB. cm ! i = (if i < n \<and> stopped cb i then - 1 else cmap cb ! i)) \<and>
     (\<forall>x<length cim. cim ! x = (if \<exists>i<n. stopped cb i \<and> cmap cb ! i = int x then NO_CB_MAPPED else cb_index_map s0 ! x) \<and>
        fst z ! x = (if \<exists>i<n. stopped cb i \<and> cmap cb ! i = int x then 1 else - 1)))"

lemma cb_updates: "(cb :: kernel_cb)\<lparr>remote_chunk := rc, send_buf := m\<rparr> = cb\<lparr>send_buf := m, remote_chunk := rc\<rparr>"
  by (cases cb) simp

lemma stop_step_upto:
  assumes b: "b < length (cb_list s0)" "cb_list s0 ! b = Some cb"
    and n: "n < MAX_MR_SIZE_GB" "stopped cb n \<longrightarrow> (\<exists>x<length (cb_index_map s0). cmap cb ! n = int x)"
    and z: "stop_upto s0 b cb n z"
  shows "\<exists>z'. stop_step b n z = Inr z' \<and> stop_upto s0 b cb (Suc n) z'"
proof -
  obtain ev s where zz: "z = (ev, s)" by (cases z)
  let ?cb = "\<lambda>rk cm. cb\<lparr>send_buf := (send_buf cb)\<lparr>rkey := rk\<rparr>, remote_chunk := (remote_chunk cb)\<lparr>chunk_map := cm\<rparr>\<rparr>"
  from z obtain cim rk cm where
    eq: "s = s0\<lparr>cb_index_map := cim, cb_list := (cb_list s0)[b := Some (?cb rk cm)]\<rparr>"
    and len: "length rk = MAX_MR_SIZE_GB" "length cm = MAX_MR_SIZE_GB" "length cim = length (cb_index_map s0)" "length ev = length (cb_index_map s0)"
    and rk: "\<forall>i<n. rk ! i = (if stopped cb i then 1 else 0)"
    and cm: "\<forall>i<MAX_MR_SIZE_GB. cm ! i = (if i < n \<and> stopped cb i then - 1 else cmap cb ! i)"
    and cim: "\<forall>x<length cim. cim ! x = (if \<exists>i<n. stopped cb i \<and> cmap cb ! i = int x then NO_CB_MAPPED else cb_index_map s0 ! x) \<and>
        ev ! x = (if \<exists>i<n. stopped cb i \<and> cmap cb ! i = int x then 1 else - 1)"
    by (auto simp: stop_upto_def zz)
  have at: "cb_at s (int b) = Inr (?cb rk cm)" using b by (simp add: cb_at_def eq)
  have ci: "cb_index_map s = cim" by (simp add: eq)
  show ?thesis
  proof (cases "stopped cb n")
    case True
    then obtain x where x: "x < length cim" "cmap cb ! n = int x" using n(2) len(3) by auto
    have cmn: "cm ! n = int x" using cm n(1) x by simp
    let ?s = "s0\<lparr>cb_index_map := cim[x := NO_CB_MAPPED], cb_list := (cb_list s0)[b := Some (?cb (rk[n := 1]) (cm[n := - 1]))]\<rparr>"
    have "stop_step b n z = Inr (ev[x := 1], upd_cb b (\<lambda>cb. cb\<lparr>send_buf := (send_buf cb)\<lparr>rkey := (rkey (send_buf cb))[n := 1]\<rparr>,
           remote_chunk := (remote_chunk cb)\<lparr>chunk_map := (cmap cb)[n := - 1]\<rparr>\<rparr>) (s\<lparr>cb_index_map := cim[x := NO_CB_MAPPED]\<rparr>))"
      using True x len by (simp add: stop_step_def zz at ci cmn stopped_def)
    also have "\<dots> = Inr (ev[x := 1], ?s)" using b by (simp add: eq upd_cb_def)
    finally have run: "stop_step b n z = Inr (ev[x := 1], ?s)" .
    have "stop_upto s0 b cb (Suc n) (ev[x := 1], ?s)"
      unfolding stop_upto_def
      by (rule exI [of _ "cim[x := NO_CB_MAPPED]"], rule exI [of _ "rk[n := 1]"], rule exI [of _ "cm[n := - 1]"], intro conjI)
        (use len rk cm cim True x n in \<open>auto simp: nth_list_update less_Suc_eq\<close>)
    with run show ?thesis by blast
  next
    case False
    let ?s = "s0\<lparr>cb_index_map := cim, cb_list := (cb_list s0)[b := Some (?cb (rk[n := 0]) cm)]\<rparr>"
    have "stop_step b n z = Inr (ev, upd_cb b (\<lambda>cb. cb\<lparr>send_buf := (send_buf cb)\<lparr>rkey := (rkey (send_buf cb))[n := 0]\<rparr>\<rparr>) s)"
      using False by (simp add: stop_step_def zz at stopped_def)
    also have "\<dots> = Inr (ev, ?s)" using b by (simp add: eq upd_cb_def cb_updates)
    finally have run: "stop_step b n z = Inr (ev, ?s)" .
    have "stop_upto s0 b cb (Suc n) (ev, ?s)"
      unfolding stop_upto_def
      by (rule exI [of _ cim], rule exI [of _ "rk[n := 0]"], rule exI [of _ cm], intro conjI) (use len rk cm cim False n in \<open>auto simp: nth_list_update less_Suc_eq\<close>)
    with run show ?thesis by blast
  qed
qed

lemma slab_stopped:
  assumes maps: "maps_ok c s" and b: "b < length (cb_list s)" "cb_list s ! b = Some cb" "rc_ok (remote_chunk cb)" and x: "placement s x = Some (b', i')"
  shows "(\<exists>i<MAX_MR_SIZE_GB. T i \<and> cmap cb ! i = int x) \<longleftrightarrow> b' = b \<and> T i'"
proof -
  from x maps have "x < length (cb_index_map s)" "x < DISKSIZE_G c" "cb_index_map s ! x \<noteq> NO_CB_MAPPED"
    by (auto simp: placement_def maps_ok_def tables_ok_def split: if_splits)
  with maps obtain b1 i1 where "linked s x b1 i1" by (auto simp: maps_ok_def tables_ok_def)
  with placement_linked [OF this \<open>x < length _\<close>] x have l: "linked s x b' i'" by simp
  show ?thesis
  proof
    assume "\<exists>i<MAX_MR_SIZE_GB. T i \<and> cmap cb ! i = int x"
    then obtain i where i: "i < MAX_MR_SIZE_GB" "T i" "cmap cb ! i = int x" by blast
    have "back_ok c s b" using maps b(1) by (simp add: maps_ok_def)
    from back_okD [OF this b(2), of i] i b(3) obtain y where "cmap cb ! i = int y" "linked s y b i" by (auto simp: rc_ok_def)
    with i linked_unique [OF l, of b i] show "b' = b \<and> T i'" by simp
  next
    assume "b' = b \<and> T i'"
    with l b(2) show "\<exists>i<MAX_MR_SIZE_GB. T i \<and> cmap cb ! i = int x" by (auto simp: linked_def)
  qed
qed

lemma stop_loop_ok:
  assumes maps: "maps_ok c s" and b: "b < length (cb_list s)" "cb_list s ! b = Some cb" "rc_ok (remote_chunk cb)" "length (rkey (send_buf cb)) = MAX_MR_SIZE_GB"
    and held: "\<forall>i<MAX_MR_SIZE_GB. stopped cb i \<longrightarrow> cmap cb ! i \<noteq> - 1"
  shows "\<exists>ev s' cb'. foldE (stop_step b) [0..<MAX_MR_SIZE_GB] (replicate (DISKSIZE_G c) (- 1), s) = Inr (ev, s') \<and> cb_list s' ! b = Some cb' \<and>
    send_buf cb' = (send_buf cb)\<lparr>rkey := map (\<lambda>i. if stopped cb i then 1 else 0) [0..<MAX_MR_SIZE_GB]\<rparr> \<and>
    placement s' = without_chunks b (stopped cb) (placement s) \<and>
    (\<forall>x<DISKSIZE_G c. ev ! x = 1 \<longleftrightarrow> (\<exists>i. placement s x = Some (b, i) \<and> stopped cb i))"
proof -
  let ?z = "(replicate (DISKSIZE_G c) (- 1), s)"
  have tab: "length (cb_index_map s) = DISKSIZE_G c" using maps by (simp add: maps_ok_def tables_ok_def)
  have dom: "stopped cb n \<longrightarrow> (\<exists>x<length (cb_index_map s). cmap cb ! n = int x)" if "n < MAX_MR_SIZE_GB" for n
  proof
    assume "stopped cb n"
    with held that have "cmap cb ! n \<noteq> - 1" "n < length (cmap cb)" using b(3) by (auto simp: rc_ok_def)
    moreover have "back_ok c s b" using maps b(1) by (simp add: maps_ok_def)
    ultimately show "\<exists>x<length (cb_index_map s). cmap cb ! n = int x" using back_okD [OF _ b(2), of c n] tab by metis
  qed
  have same: "(cb_list s)[b := Some cb] = cb_list s" using b(2) list_update_id [of "cb_list s" b] by simp
  have "stop_upto s b cb 0 ?z"
    unfolding stop_upto_def
    by (rule exI [of _ "cb_index_map s"], rule exI [of _ "rkey (send_buf cb)"], rule exI [of _ "cmap cb"]) (use b tab same in \<open>auto simp: rc_ok_def\<close>)
  then obtain z where z: "foldE (stop_step b) [0..<MAX_MR_SIZE_GB] ?z = Inr z" "stop_upto s b cb MAX_MR_SIZE_GB z"
    using foldE_upto [of "stop_upto s b cb" ?z MAX_MR_SIZE_GB "stop_step b"] stop_step_upto [OF b(1,2) _ dom] by blast
  obtain ev s' where zz: "z = (ev, s')" by (cases z)
  from z(2) obtain cim rk cm where
    eq: "s' = s\<lparr>cb_index_map := cim, cb_list := (cb_list s)[b := Some (cb\<lparr>send_buf := (send_buf cb)\<lparr>rkey := rk\<rparr>, remote_chunk := (remote_chunk cb)\<lparr>chunk_map := cm\<rparr>\<rparr>)]\<rparr>"
    and len: "length rk = MAX_MR_SIZE_GB" "length cim = length (cb_index_map s)"
    and rk: "\<forall>i<MAX_MR_SIZE_GB. rk ! i = (if stopped cb i then 1 else 0)"
    and cim: "\<forall>x<length cim. cim ! x = (if \<exists>i<MAX_MR_SIZE_GB. stopped cb i \<and> cmap cb ! i = int x then NO_CB_MAPPED else cb_index_map s ! x) \<and>
        ev ! x = (if \<exists>i<MAX_MR_SIZE_GB. stopped cb i \<and> cmap cb ! i = int x then 1 else - 1)"
    by (auto simp: stop_upto_def zz)
  note st = slab_stopped [OF maps b(1-3), where T = "stopped cb"]
  have rk': "rk = map (\<lambda>i. if stopped cb i then 1 else 0) [0..<MAX_MR_SIZE_GB]" by (rule nth_equalityI) (use len rk in simp_all)
  have out: "ev ! x = 1 \<longleftrightarrow> (\<exists>i. placement s x = Some (b, i) \<and> stopped cb i)" if "x < DISKSIZE_G c" for x
  proof (cases "placement s x")
    case None
    have "\<not> (\<exists>i<MAX_MR_SIZE_GB. stopped cb i \<and> cmap cb ! i = int x)"
    proof
      assume "\<exists>i<MAX_MR_SIZE_GB. stopped cb i \<and> cmap cb ! i = int x"
      then obtain i where i: "i < MAX_MR_SIZE_GB" "cmap cb ! i = int x" by blast
      moreover have "back_ok c s b" using maps b(1) by (simp add: maps_ok_def)
      ultimately have "linked s x b i" using back_okD [OF _ b(2), of c i] b(3) by (auto simp: rc_ok_def)
      with placement_linked [OF this] that tab None show False by simp
    qed
    then show ?thesis using None cim that tab len by simp
  next
    case (Some p)
    then show ?thesis using st [of x "fst p" "snd p"] cim that tab len by (cases p) auto
  qed
  have "placement s' x = without_chunks b (stopped cb) (placement s) x" for x
  proof (cases "placement s x")
    case None
    then show ?thesis using cim len by (auto simp: without_chunks_def placement_def eq split: if_splits)
  next
    case (Some p)
    then have "x < length (cb_index_map s)" by (auto simp: placement_def split: if_splits)
    then show ?thesis using Some st [of x "fst p" "snd p"] cim len by (cases p) (auto simp: without_chunks_def placement_def eq split: if_splits)
  qed
  then have "placement s' = without_chunks b (stopped cb) (placement s)" by (rule ext)
  with z zz out rk' b show ?thesis by (auto simp: eq)
qed

section \<open>The monitor\<close>

text \<open>The chunks tagged in \<open>m\<close> are dropped from the tables, and no others.\<close>

definition dropped :: "message \<Rightarrow> nat \<Rightarrow> rdma_remote_mem \<Rightarrow> rdma_remote_mem \<Rightarrow> bool" where
  "dropped m n r r' \<longleftrightarrow> (\<forall>i<MAX_FREE_MEM_GB. conn_map r' ! i = (if i < n \<and> rkey m ! i \<noteq> 0 then - 1 else conn_map r ! i) \<and>
     malloc_map r' ! i = (if i < n \<and> rkey m ! i \<noteq> 0 then CHUNK_EMPTY else malloc_map r ! i))"

definition lengths_ok :: "rdma_remote_mem \<Rightarrow> bool" where
  "lengths_ok r \<longleftrightarrow> length (mr_list r) = MAX_FREE_MEM_GB \<and> length (conn_map r) = MAX_FREE_MEM_GB \<and>
     length (malloc_map r) = MAX_FREE_MEM_GB \<and> length (conn_chunk_map r) = MAX_FREE_MEM_GB"

lemma drop_loop_maps:
  assumes k: "heap st cid = Some k" "recv_msg k = m" and len: "lengths_ok (rdma_remote (session st))"
    and own: "\<forall>i<MAX_FREE_MEM_GB. rkey m ! i \<noteq> 0 \<longrightarrow> sess_chunk_map k ! i = int i"
  shows "\<exists>st' k'. foldE (drop_chunk cid) [0..<MAX_FREE_MEM_GB] st = Inr st' \<and> heap st' cid = Some k' \<and>
    conn_index k' = conn_index k \<and> conns_state (session st') = conns_state (session st) \<and> dropped m MAX_FREE_MEM_GB (rdma_remote (session st)) (rdma_remote (session st'))"
proof -
  let ?r = "rdma_remote (session st)"
  let ?P = "\<lambda>n (s :: monitor). \<exists>sm. heap s cid = Some (k\<lparr>sess_chunk_map := sm\<rparr>) \<and> (\<forall>i. n \<le> i \<longrightarrow> sm ! i = sess_chunk_map k ! i) \<and>
      conns_state (session s) = conns_state (session st) \<and> lengths_ok (rdma_remote (session s)) \<and> dropped m n ?r (rdma_remote (session s))"
  have "\<exists>s. foldE (drop_chunk cid) [0..<MAX_FREE_MEM_GB] st = Inr s \<and> ?P MAX_FREE_MEM_GB s"
  proof (rule foldE_upto [where P = ?P])
    fix i and s :: monitor assume i: "i < MAX_FREE_MEM_GB" and "?P i s"
    then obtain sm where s: "heap s cid = Some (k\<lparr>sess_chunk_map := sm\<rparr>)" "\<forall>j. i \<le> j \<longrightarrow> sm ! j = sess_chunk_map k ! j"
      "conns_state (session s) = conns_state (session st)" "lengths_ok (rdma_remote (session s))" "dropped m i ?r (rdma_remote (session s))" by blast
    show "\<exists>s'. drop_chunk cid i s = Inr s' \<and> ?P (Suc i) s'"
    proof (cases "rkey m ! i = 0")
      case True
      then have "drop_chunk cid i s = Inr s" using s(1) k(2) by (simp add: drop_chunk_def)
      moreover have "dropped m (Suc i) ?r (rdma_remote (session s))" using s(5) True by (auto simp: dropped_def less_Suc_eq)
      ultimately show ?thesis using s by auto
    next
      case False
      let ?q = "rdma_remote (session s)"
      let ?s = "upd_remote (\<lambda>r. r\<lparr>mr_list := (mr_list ?q)[i := None], conn_map := (conn_map ?q)[i := - 1], malloc_map := (malloc_map ?q)[i := CHUNK_EMPTY],
        conn_chunk_map := (conn_chunk_map ?q)[i := - 1]\<rparr>) (s\<lparr>heap := (heap s)(cid \<mapsto> k\<lparr>sess_chunk_map := sm[i := - 1]\<rparr>)\<rparr>)"
      have "sm ! i = int i" using own i False s(2) by simp
      then have "drop_chunk cid i s = Inr ?s" using s(1,4) k(2) i False by (simp add: drop_chunk_def Let_def lengths_ok_def)
      moreover have "dropped m (Suc i) ?r (rdma_remote (session ?s))" "lengths_ok (rdma_remote (session ?s))"
        using s(4,5) i False by (auto simp: dropped_def lengths_ok_def upd_remote_def nth_list_update less_Suc_eq)
      moreover have "heap ?s cid = Some (k\<lparr>sess_chunk_map := sm[i := - 1]\<rparr>)" "conns_state (session ?s) = conns_state (session st)"
        using s(3) by (simp_all add: upd_remote_def)
      moreover have "\<forall>j. Suc i \<le> j \<longrightarrow> sm[i := - 1] ! j = sess_chunk_map k ! j" using s(2) by simp
      ultimately show ?thesis by blast
    qed
  qed (use k len in \<open>auto simp: dropped_def intro!: exI [of _ "sess_chunk_map k"]\<close>)
  then show ?thesis by fastforce
qed

lemma recv_done_result:
  assumes inv: "monitor_inv st" and k: "heap st cid = Some k" and rel: "release_ok (recv_msg k) k" and env: "post_recv_ret env = 0"
  shows "\<exists>st' k'. recv_done env cid st = Inr st' \<and> monitor_inv st' \<and> heap st' cid = Some k' \<and> conn_index k' = conn_index k \<and>
    dropped (recv_msg k) MAX_FREE_MEM_GB (rdma_remote (session st)) (rdma_remote (session st'))"
proof -
  let ?r = "rdma_remote (session st)" and ?g = "size_gb (recv_msg k)"
  have tab: "table_ok st 0 0" and rem: "remote_ok ?r 0" using inv by (simp_all add: monitor_inv_def inv_off_def)
  from table_ok_conn [OF tab k] obtain c where c: "c < MAX_CLIENT" "conn_index k = int c" by blast
  have len: "lengths_ok ?r" using rem by (simp add: remote_ok2_def lengths_ok_def)
  obtain c0 where "conn_ok ?r c0 0 k" by (rule inv_conn_ok [OF inv k])
  then have own: "\<forall>i<MAX_FREE_MEM_GB. rkey (recv_msg k) ! i \<noteq> 0 \<longrightarrow> sess_chunk_map k ! i = int i"
    using rel by (auto simp: conn_ok_def release_ok_def split: if_splits)
  obtain st1 k1 where st1: "foldE (drop_chunk cid) [0..<MAX_MR_SIZE_GB] st = Inr st1" "heap st1 cid = Some k1" "conn_index k1 = conn_index k"
    "conns_state (session st1) = conns_state (session st)" "dropped (recv_msg k) MAX_FREE_MEM_GB ?r (rdma_remote (session st1))"
    using drop_loop_maps [OF k refl len own] by (auto simp: MAX_FREE_MEM_GB_def MAX_MR_SIZE_GB_def)
  have cs: "length (conns_state (session st)) = MAX_CLIENT" by (rule table_ok_facts(2) [OF tab])
  have "\<exists>st' k'. recv_done env cid st = Inr st' \<and> heap st' cid = Some k' \<and> conn_index k' = conn_index k \<and>
      conn_map (rdma_remote (session st')) = conn_map (rdma_remote (session st1)) \<and> malloc_map (rdma_remote (session st')) = malloc_map (rdma_remote (session st1))"
    using st1 k env c cs
    by (auto simp: recv_done_def Let_def upd_conn_def upd_remote_def post_receives_def astore_def bindE_def)
  then obtain st' k' where st': "recv_done env cid st = Inr st'" "heap st' cid = Some k'" "conn_index k' = conn_index k"
    "conn_map (rdma_remote (session st')) = conn_map (rdma_remote (session st1))" "malloc_map (rdma_remote (session st')) = malloc_map (rdma_remote (session st1))"
    by blast
  have "dropped (recv_msg k) MAX_FREE_MEM_GB ?r (rdma_remote (session st'))" using st1(5) st'(4,5) by (simp add: dropped_def)
  with st' recv_done_inv [OF inv k rel st'(1)] show ?thesis by blast
qed

section \<open>Both sides\<close>

text \<open>What the client has on server \<open>b\<close> is lent by the monitor of that server to the connection \<open>k\<close> of this client.\<close>

definition agrees :: "nat \<Rightarrow> connection \<Rightarrow> rdma_remote_mem \<Rightarrow> IS_session \<Rightarrow> bool" where
  "agrees b k r s \<longleftrightarrow> (\<forall>i. (b, i) \<in> ran (placement s) \<longrightarrow> i < MAX_FREE_MEM_GB \<and> conn_map r ! i = conn_index k)"

text \<open>A STOP message and the loop over the chunks it marks.\<close>

lemma stop_received:
  assumes inv: "session_inv c s" and b: "server_up s b" "cb_list s ! b = Some cb" "CONNECTED \<le> state cb" "length (rkey (send_buf cb)) = MAX_MR_SIZE_GB"
    and m: "mtype m = STOP" "size_gb m \<noteq> 0" and held: "\<forall>i<MAX_MR_SIZE_GB. rkey m ! i \<noteq> 0 \<longrightarrow> (b, i) \<in> ran (placement s)"
  shows "\<exists>s1 ev s2 cb2. receive b m s = Inr s1 \<and> foldE (stop_step b) [0..<MAX_MR_SIZE_GB] (replicate (DISKSIZE_G c) (- 1), s1) = Inr (ev, s2) \<and>
    cb_list s2 ! b = Some cb2 \<and> send_buf cb2 = (send_buf cb)\<lparr>rkey := map (\<lambda>i. if rkey m ! i \<noteq> 0 then 1 else 0) [0..<MAX_MR_SIZE_GB]\<rparr> \<and>
    placement s2 = without_chunks b (\<lambda>i. rkey m ! i \<noteq> 0) (placement s) \<and>
    (\<forall>x<DISKSIZE_G c. ev ! x = 1 \<longleftrightarrow> (\<exists>i. placement s x = Some (b, i) \<and> rkey m ! i \<noteq> 0))"
proof -
  define cb1 where "cb1 = cb\<lparr>recv_buf := m, state := RECV_STOP, remote_chunk := (remote_chunk cb)
    \<lparr>evict_chunk_map := map (\<lambda>i. if rkey m ! i \<noteq> 0 then CHR ''s'' else CHR ''a'') [0..<MAX_MR_SIZE_GB], shrink_size_g := size_gb m, c_state := C_STOP\<rparr>\<rparr>"
  let ?s = "s\<lparr>cb_list := (cb_list s)[b := Some cb1]\<rparr>"
  have bl: "b < length (cb_list s)" and up: "cb_state_list s ! b \<noteq> CB_IDLE" using b(1) by (simp_all add: server_up_def)
  have rc: "rc_ok (remote_chunk cb)" and maps: "maps_ok c s" using inv bl up b(2) by (auto simp: session_inv_def server_ok_def)
  have run: "receive b m s = Inr ?s"
    using bl b(2,3) m by (simp add: receive_def client_recv_def cb_at_def upd_cb_def upd_rc_def set_state_def Let_def client_recv_stop_def cb1_def)
  have v: "rc_view (remote_chunk cb1) = rc_view (remote_chunk cb)" by (simp add: cb1_def rc_view_def)
  have t: "same_tables s ?s" using touch_cb [OF bl b(2) v, of "cb_state_list s"] by simp
  have cbs: "cb_list ?s ! b = Some cb1" "b < length (cb_list ?s)" "rc_ok (remote_chunk cb1)" "length (rkey (send_buf cb1)) = MAX_MR_SIZE_GB"
    using bl rc rc_viewD(4) [OF v] b(4) by (simp_all add: cb1_def)
  have stop: "stopped cb1 i \<longleftrightarrow> rkey m ! i \<noteq> 0" if "i < MAX_MR_SIZE_GB" for i using that by (simp add: stopped_def cb1_def)
  have chunk: "i < MAX_MR_SIZE_GB \<and> cmap cb ! i = int x" if p: "placement s x = Some (b, i)" for x i
  proof -
    from p have x: "x < length (cb_index_map s)" "cb_index_map s ! x \<noteq> NO_CB_MAPPED" by (auto simp: placement_def split: if_splits)
    with maps obtain b1 i1 where l: "linked s x b1 i1" by (auto simp: maps_ok_def tables_ok_def)
    with placement_linked [OF l x(1)] p b(2) show ?thesis by (auto simp: linked_def)
  qed
  have "\<forall>i<MAX_MR_SIZE_GB. stopped cb1 i \<longrightarrow> cmap cb1 ! i \<noteq> - 1"
    using held chunk stop by (fastforce simp: ran_def cb1_def)
  from stop_loop_ok [OF same_tables_maps_ok(1) [OF t maps] cbs(2,1,3,4) this] obtain ev s2 cb2 where
    s2: "foldE (stop_step b) [0..<MAX_MR_SIZE_GB] (replicate (DISKSIZE_G c) (- 1), ?s) = Inr (ev, s2)" "cb_list s2 ! b = Some cb2"
    "send_buf cb2 = (send_buf cb1)\<lparr>rkey := map (\<lambda>i. if stopped cb1 i then 1 else 0) [0..<MAX_MR_SIZE_GB]\<rparr>"
    "placement s2 = without_chunks b (stopped cb1) (placement ?s)"
    "\<forall>x<DISKSIZE_G c. ev ! x = 1 \<longleftrightarrow> (\<exists>i. placement ?s x = Some (b, i) \<and> stopped cb1 i)" by blast
  have "without_chunks b (stopped cb1) (placement ?s) = without_chunks b (\<lambda>i. rkey m ! i \<noteq> 0) (placement s)"
    using stop chunk by (auto simp: fun_eq_iff without_chunks_def split: option.splits)
  moreover have "send_buf cb1 = send_buf cb" by (simp add: cb1_def)
  moreover have "(\<exists>i. placement s x = Some (b, i) \<and> stopped cb1 i) = (\<exists>i. placement s x = Some (b, i) \<and> rkey m ! i \<noteq> 0)" for x
    using stop chunk by blast
  ultimately show ?thesis using run s2 stop by (intro exI [of _ ?s] exI [of _ ev] exI [of _ s2] exI [of _ cb2]) simp
qed

lemma stop_sent:
  assumes inv: "monitor_inv st" and k: "heap st cid = Some k" "connected k" and env: "post_send_ret env = 0"
  shows "\<exists>st'. send_stop env cid n st = Inr st' \<and> monitor_inv st' \<and> session st' = session st \<and>
    heap st' cid = Some (k\<lparr>send_msg := (send_msg k)\<lparr>mtype := STOP, size_gb := n\<rparr>\<rparr>) \<and> last (sent st') = (cid, (send_msg k)\<lparr>mtype := STOP, size_gb := n\<rparr>)"
proof -
  let ?f = "set_msg (\<lambda>m. m\<lparr>mtype := STOP, size_gb := n\<rparr>)"
  let ?st = "st\<lparr>heap := (heap st)(cid \<mapsto> ?f k)\<rparr>"
  have u: "upd_conn cid ?f st = Inr ?st" using k(1) by (simp add: upd_conn_def)
  have i: "monitor_inv ?st" using upd_conn_soft_inv [OF inv _ u] by (simp add: soft_defs)
  have run: "send_stop env cid n st = Inr (?st\<lparr>sent := sent st @ [(cid, send_msg (?f k))]\<rparr>)"
    using k env by (simp add: send_stop_def u send_message_def set_msg_def)
  then have "send_message env cid ?st = Inr (?st\<lparr>sent := sent st @ [(cid, send_msg (?f k))]\<rparr>)" by (simp add: send_stop_def u)
  from send_message_inv [OF _ this] i run show ?thesis by (simp add: monitor_inv_def set_msg_def)
qed

lemma done_received:
  assumes inv: "monitor_inv st" and k: "heap st cid = Some k" and m: "release_ok m k" "mtype m = DONE" and env: "post_recv_ret env = 0"
  shows "\<exists>st' k'. on_completion env cid (WC_RECV m) st = Inr st' \<and> monitor_inv st' \<and> heap st' cid = Some k' \<and> conn_index k' = conn_index k \<and>
    dropped m MAX_FREE_MEM_GB (rdma_remote (session st)) (rdma_remote (session st'))"
proof -
  let ?k1 = "k\<lparr>recv_msg := m\<rparr>" let ?k2 = "set_busy CQ_QP_BUSY ?k1"
  let ?st1 = "st\<lparr>heap := (heap st)(cid \<mapsto> ?k1)\<rparr>" let ?st2 = "?st1\<lparr>heap := (heap ?st1)(cid \<mapsto> ?k2)\<rparr>"
  have u1: "upd_conn cid (\<lambda>c. c\<lparr>recv_msg := m\<rparr>) st = Inr ?st1" using k by (simp add: upd_conn_def)
  have u2: "upd_conn cid (set_busy CQ_QP_BUSY) ?st1 = Inr ?st2" by (simp add: upd_conn_def)
  have "soft (\<lambda>c. c\<lparr>recv_msg := m\<rparr>)" using m(1) by (simp add: soft_def release_ok_def)
  then have i1: "monitor_inv ?st1" using upd_conn_soft_inv [OF inv _ u1] by blast
  have i2: "monitor_inv ?st2" using upd_conn_soft_inv [OF i1 _ u2] by (simp add: soft_defs)
  have h: "heap ?st2 cid = Some ?k2" and r: "release_ok (recv_msg ?k2) ?k2" "recv_msg ?k2 = m" "conn_index ?k2 = conn_index k" "session ?st2 = session st"
    using m(1) by (simp_all add: set_busy_def release_ok_def)
  have "on_completion env cid (WC_RECV m) st = recv_done env cid ?st2"
    using m(2) u1 u2 by (simp add: on_completion_def Let_def)
  with recv_done_result [OF i2 h r(1) env] r(2-4) show ?thesis by simp
qed

section \<open>Properties\<close>



end
