(* ===== verification/Protocol.thy ===== *)
theory Protocol
  imports Monitor_Eviction Session_Runs
begin

text \<open>
  The messages of the monitor as the client sees them: whatever the monitor does (connections, requests, reports, the memory thread
  with both phases of an eviction), every message it posts has arrays of the length the client indexes, and a type for which the
  client has a handler.
\<close>

section \<open>Typed messages\<close>

definition typed :: "message \<Rightarrow> bool" where
  "typed m \<longleftrightarrow> message_ok m \<and> mtype m \<in> {FREE_SIZE, INFO, INFO_SINGLE, EVICT, STOP, FAULT_DONE}"

definition msgs_ok :: "monitor \<Rightarrow> bool" where
  "msgs_ok st \<longleftrightarrow> (\<forall>cid k. heap st cid = Some k \<longrightarrow> message_ok (send_msg k)) \<and> (\<forall>p\<in>set (sent st). typed (snd p))"

named_theorems keeps_msgs \<open>operations of the monitor that keep its messages typed\<close>

lemma wf_frame [simp]: "msgs_ok (upd_remote f st) = msgs_ok st" "msgs_ok (st\<lparr>session := s\<rparr>) = msgs_ok st" "msgs_ok (st\<lparr>s_ctx := v\<rparr>) = msgs_ok st" "msgs_ok (st\<lparr>running := r\<rparr>) = msgs_ok st"
  by (simp_all add: msgs_ok_def upd_remote_def)

lemma wf_heap: "msgs_ok st \<Longrightarrow> message_ok (send_msg k) \<Longrightarrow> msgs_ok (st\<lparr>heap := (heap st)(cid \<mapsto> k)\<rparr>)"
  by (simp add: msgs_ok_def)

lemma wfD: "msgs_ok st \<Longrightarrow> heap st cid = Some k \<Longrightarrow> message_ok (send_msg k)"
  by (simp add: msgs_ok_def)

lemma wf_upd_conn:
  assumes "upd_conn cid f st = Inr st'" "msgs_ok st" "\<And>k. message_ok (send_msg k) \<Longrightarrow> message_ok (send_msg (f k))"
  shows "msgs_ok st'"
  using assms wfD [OF assms(2)] by (auto simp: upd_conn_def intro!: wf_heap split: option.splits)

text \<open>A message is posted after its type was set.\<close>

lemma wf_send:
  assumes "bindE (upd_conn cid f st) (send_message env cid) = Inr st'" "msgs_ok st" "\<And>k. message_ok (send_msg k) \<Longrightarrow> typed (send_msg (f k))"
  shows "msgs_ok st'"
proof -
  from assms(1) obtain k where k: "heap st cid = Some k" and st': "st' = st\<lparr>heap := (heap st)(cid \<mapsto> f k), sent := sent st @ [(cid, send_msg (f k))]\<rparr>"
    by (auto simp: bindE_Inr upd_conn_def send_message_def split: option.splits if_splits)
  have "typed (send_msg (f k))" by (rule assms(3) [OF wfD [OF assms(2) k]])
  then show ?thesis using assms(2) by (auto simp: msgs_ok_def st' typed_def)
qed

lemma wf_foldE: "foldE f xs st = Inr st' \<Longrightarrow> msgs_ok st \<Longrightarrow> (\<And>x s s'. f x s = Inr s' \<Longrightarrow> msgs_ok s \<Longrightarrow> msgs_ok s') \<Longrightarrow> msgs_ok st'"
  by (erule foldE_inv)

section \<open>The completion thread\<close>

lemma wf_simple_sends [keeps_msgs]:
  "send_free_mem_size env cid st = Inr st' \<Longrightarrow> msgs_ok st \<Longrightarrow> msgs_ok st'"
  "send_fault_done env cid st = Inr st' \<Longrightarrow> msgs_ok st \<Longrightarrow> msgs_ok st'"
  "send_stop env cid n st = Inr st' \<Longrightarrow> msgs_ok st \<Longrightarrow> msgs_ok st'"
  "send_evict env cid n st = Inr st' \<Longrightarrow> msgs_ok st \<Longrightarrow> msgs_ok st'"
  unfolding send_free_mem_size_def send_fault_done_def send_stop_def send_evict_def Let_def
  by (erule wf_send; simp add: set_msg_def typed_def message_ok_def)+

lemma wf_post_receives [keeps_msgs]: "post_receives env cid st = Inr st' \<Longrightarrow> msgs_ok st \<Longrightarrow> msgs_ok st'"
  by (auto simp: post_receives_def bindE_Inr split: if_splits elim!: wf_upd_conn)

lemma wf_grant_loop: "grant_loop env cid sz is j st = Inr st' \<Longrightarrow> msgs_ok st \<Longrightarrow> msgs_ok st'"
proof (induction "is" arbitrary: j st)
  case (Cons i "is")
  have step: "msgs_ok s" if "grant env cid i st = Inr s" for s
    using that Cons.prems(2) wfD [OF Cons.prems(2)]
    by (auto simp: grant_def set_msg_def message_ok_def intro!: wf_heap split: option.splits)
  from Cons.prems Cons.IH step show ?case by (auto simp: bindE_Inr split: if_splits)
qed simp

lemma wf_send_chunks:
  assumes "send_chunks env cid label n t st = Inr st'" "msgs_ok st" "t = INFO \<or> t = INFO_SINGLE"
  shows "msgs_ok st'"
proof -
  from assms(1) obtain s1 s2 where s: "upd_conn cid (set_msg (\<lambda>m. m\<lparr>size_gb := label, rkey := replicate MAX_FREE_MEM_GB 0\<rparr>)) st = Inr s1"
    "grant_loop env cid n [0..<MAX_FREE_MEM_GB] 0 s1 = Inr s2"
    "bindE (upd_conn cid (\<lambda>c. set_msg (\<lambda>m. m\<lparr>mtype := t\<rparr>) (c\<lparr>mapped_chunk_size := mapped_chunk_size c + n\<rparr>)) (upd_remote (\<lambda>r. r\<lparr>mapped_size := mapped_size r + n\<rparr>) s2))
      (send_message env cid) = Inr st'"
    by (auto simp: send_chunks_def bindE_Inr)
  have "msgs_ok s1" by (rule wf_upd_conn [OF s(1) assms(2)]) (simp add: set_msg_def message_ok_def MAX_FREE_MEM_GB_def MAX_MR_SIZE_GB_def)
  then have "msgs_ok s2" by (rule wf_grant_loop [OF s(2)])
  then show ?thesis by (intro wf_send [OF s(3)]) (use assms(3) in \<open>auto simp: set_msg_def typed_def message_ok_def\<close>)
qed

lemma wf_send_mr [keeps_msgs]: "Monitor.send_mr env cid n st = Inr st' \<Longrightarrow> msgs_ok st \<Longrightarrow> msgs_ok st'" "send_single_mr env cid n st = Inr st' \<Longrightarrow> msgs_ok st \<Longrightarrow> msgs_ok st'"
  by (auto simp: Monitor.send_mr_def send_single_mr_def dest: wf_send_chunks)

lemma wf_mark_mapped [keeps_msgs]: "mark_mapped cid st = Inr st' \<Longrightarrow> msgs_ok st \<Longrightarrow> msgs_ok st'"
  by (auto simp: mark_mapped_def bindE_Inr split: option.splits)

lemma wf_drop_chunk: "drop_chunk cid i st = Inr st' \<Longrightarrow> msgs_ok st \<Longrightarrow> msgs_ok st'"
  using wfD by (auto simp: drop_chunk_def Let_def bindE_Inr intro!: wf_heap split: option.splits if_splits)

lemma wf_recv_done [keeps_msgs]:
  assumes "recv_done env cid st = Inr st'" "msgs_ok st"
  shows "msgs_ok st'"
proof -
  from assms(1) obtain s1 where s: "foldE (drop_chunk cid) [0..<MAX_MR_SIZE_GB] st = Inr s1"
    by (auto simp: recv_done_def Let_def bindE_Inr split: option.splits)
  have "msgs_ok s1" by (rule wf_foldE [OF s assms(2) wf_drop_chunk])
  then have sizes: "msgs_ok s2" if "upd_conn cid (\<lambda>c. c\<lparr>mapped_chunk_size := mapped_chunk_size c - g, stop_sem := Suc (stop_sem c)\<rparr>) (upd_remote f s1) = Inr s2" for f g s2
    by (intro wf_upd_conn [OF that]) simp_all
  from assms(1) s show ?thesis
    by (auto simp: recv_done_def Let_def bindE_Inr dest: sizes elim!: wf_post_receives split: option.splits if_splits)
qed

lemma wf_on_completion:
  assumes "on_completion env cid w st = Inr st'" "msgs_ok st"
  shows "msgs_ok st'"
proof (cases w)
  case (WC_RECV m)
  with assms(1) obtain s where s: "upd_conn cid (\<lambda>c. c\<lparr>recv_msg := m\<rparr>) st = Inr s" by (auto simp: on_completion_def bindE_Inr)
  have ws: "msgs_ok s" by (rule wf_upd_conn [OF s assms(2)]) simp
  have soft: "msgs_ok s'" if "upd_conn cid (set_busy CQ_QP_BUSY) s = Inr s' \<or> upd_conn cid (\<lambda>c. set_busy CQ_QP_BUSY (c\<lparr>server_state_of := S_BIND\<rparr>)) s = Inr s' \<or>
      upd_conn cid (\<lambda>c. c\<lparr>evict_sem := evict_sem c + 1\<rparr>) s = Inr s'" for s'
    using that ws by (auto simp: set_busy_def elim!: wf_upd_conn)
  from assms(1) WC_RECV s soft show ?thesis
    by (cases "mtype m") (auto simp: on_completion_def Let_def bindE_Inr dest: keeps_msgs)
qed (use assms in \<open>auto simp: on_completion_def set_busy_def elim!: wf_upd_conn\<close>)

lemma wf_on_event:
  assumes "on_event env cid ev st = Inr st'" "msgs_ok st" "fresh_ok env"
  shows "msgs_ok st'"
proof (cases ev)
  case (CM_CONNECT_REQUEST v)
  with assms(1) obtain s1 where s: "build_context env v st = Inr s1" by (auto simp: on_event_def on_connect_request_def build_connection_def bindE_Inr)
  have "msgs_ok s1" using s assms(2) by (auto simp: build_context_def split: option.splits if_splits)
  then have new: "msgs_ok (s1\<lparr>session := x, heap := (heap s1)(cid \<mapsto> k)\<rparr>)" if "send_msg k = send_msg (fresh_conn env)" for x k
    using that assms(3) wf_heap [of "s1\<lparr>session := x\<rparr>" k cid] by (simp add: fresh_ok_def)
  from assms(1) CM_CONNECT_REQUEST s show ?thesis
    by (auto simp: on_event_def on_connect_request_def build_connection_def Let_def bindE_Inr intro!: new elim!: wf_post_receives split: if_splits option.splits)
next
  case CM_ESTABLISHED
  with assms(1) obtain s where s: "upd_conn cid (\<lambda>c. c\<lparr>connected := True\<rparr>) st = Inr s" "send_free_mem_size env cid s = Inr st'"
    by (auto simp: on_event_def on_connection_def on_connect_def bindE_Inr)
  have "msgs_ok s" by (rule wf_upd_conn [OF s(1) assms(2)]) simp
  then show ?thesis by (rule wf_simple_sends(1) [OF s(2)])
next
  case CM_DISCONNECTED
  have un: "msgs_ok s'" if "unmap_chunk i s = Inr s'" "msgs_ok s" for i s s'
    using that by (auto simp: unmap_chunk_def Let_def bindE_Inr split: if_splits)
  have loop: "msgs_ok s" if "foldE (\<lambda>i. unmap_chunk (sess_chunk_map k ! i)) is st = Inr s" for k "is" s
    by (rule wf_foldE [OF that assms(2) un])
  have close: "msgs_ok (s\<lparr>session := r, running := x, heap := (heap s)(cid := None)\<rparr>)" if "msgs_ok s" for s r x
    using that by (auto simp: msgs_ok_def)
  from CM_DISCONNECTED assms(1,2) show ?thesis
    by (auto simp: on_event_def on_disconnect_def destroy_connection_def Let_def bindE_Inr intro!: close dest: loop split: if_splits option.splits)
qed (use assms in \<open>simp add: on_event_def\<close>)

section \<open>The memory thread\<close>

lemma wf_foldE_pair:
  "foldE f xs (a, st) = Inr (b, st') \<Longrightarrow> msgs_ok st \<Longrightarrow> (\<And>x a s b s'. f x (a, s) = Inr (b, s') \<Longrightarrow> msgs_ok s \<Longrightarrow> msgs_ok s') \<Longrightarrow> msgs_ok st'"
  using foldE_inv [of f xs "(a, st)" "(b, st')" "\<lambda>p. msgs_ok (snd p)"] by auto

lemma wf_evict_unmapped: "evict_unmapped g st = (a, e, st') \<Longrightarrow> msgs_ok st \<Longrightarrow> msgs_ok st'"
  by (auto simp: evict_unmapped_def split: prod.splits)

lemma wf_expand_mem: "expand_mem g st = (e, st') \<Longrightarrow> msgs_ok st \<Longrightarrow> msgs_ok st'"
  by (auto simp: expand_mem_def Let_def)

lemma wf_evict_request: "evict_request env sl j st = Inr st' \<Longrightarrow> msgs_ok st \<Longrightarrow> msgs_ok st'"
  unfolding evict_request_def by (erule wf_foldE) (auto simp: bindE_Inr dest: keeps_msgs split: if_splits)

lemma wf_waits: "sem_wait_evict cid st = Inr st' \<Longrightarrow> msgs_ok st \<Longrightarrow> msgs_ok st'" "sem_wait_stop cid st = Inr st' \<Longrightarrow> msgs_ok st \<Longrightarrow> msgs_ok st'"
  by (auto simp: sem_wait_evict_def sem_wait_stop_def bindE_Inr split: if_splits option.splits elim!: wf_upd_conn)

lemma wf_evict_collect:
  assumes "evict_collect env poll sl L0 st = Inr (L, n, st')" "msgs_ok st" and poll: "\<And>cid s s'. poll cid s = Inr s' \<Longrightarrow> msgs_ok s \<Longrightarrow> msgs_ok s'"
  shows "msgs_ok st'"
proof -
  have clear: "msgs_ok s'" if "upd_conn cid (set_msg (\<lambda>m. m\<lparr>size_gb := 0, rkey := replicate MAX_MR_SIZE_GB 0\<rparr>)) s = Inr s'" "msgs_ok s" for cid s s'
    by (rule wf_upd_conn [OF that]) (simp add: set_msg_def message_ok_def)
  have "msgs_ok (snd (snd (L, n, st')))"
    by (rule foldE_inv [OF assms(1) [unfolded evict_collect_def], where P = "\<lambda>p. msgs_ok (snd (snd p))"])
      (use assms(2) in \<open>auto simp: bindE_Inr dest!: poll wf_waits clear wf_post_receives split: if_splits\<close>)
  then show ?thesis by simp
qed

lemma wf_choose_step: "choose_step k n (L, sl, ci, st) = Inr (L', sl', ci', st') \<Longrightarrow> msgs_ok st \<Longrightarrow> msgs_ok st'"
  by (auto simp: choose_step_def Let_def bindE_Inr deref_def tag_chunk_def astore_Inr upd_conn_def message_ok_def dest!: wfD intro!: wf_heap split: option.splits if_splits)

lemma wf_evict_choose: "evict_choose j k (L, sl, ci, st) = Inr (L', sl', ci', st') \<Longrightarrow> msgs_ok st \<Longrightarrow> msgs_ok st'"
  using foldE_inv [of "choose_step k" "[0..<j]" "(L, sl, ci, st)" "(L', sl', ci', st')" "\<lambda>p. msgs_ok (snd (snd (snd p)))"] wf_choose_step
  by (auto simp: evict_choose_def)

lemma wf_evict_stop:
  assumes "evict_stop env poll sl ci st = Inr st'" "msgs_ok st" and poll: "\<And>cid s s'. poll cid s = Inr s' \<Longrightarrow> msgs_ok s \<Longrightarrow> msgs_ok s'"
  shows "msgs_ok st'"
  by (rule wf_foldE [OF assms(1) [unfolded evict_stop_def] assms(2)])
    (auto simp: send_stop_wait_def bindE_Inr dest!: keeps_msgs poll wf_waits split: if_splits)

lemma wf_evict_mem:
  assumes "evict_mem env rnd uninit poll g st = Inr st'" "msgs_ok st" and poll: "\<And>cid s s'. poll cid s = Inr s' \<Longrightarrow> msgs_ok s \<Longrightarrow> msgs_ok s'"
  shows "msgs_ok st'"
  using assms(1,2)
  by (auto simp: evict_mem_def bindE_Inr split: prod.splits if_splits dest!: wf_evict_unmapped wf_evict_request wf_evict_choose
    wf_evict_collect [OF _ _ poll] wf_evict_stop [OF _ _ poll])

section \<open>Turns of the monitor\<close>

text \<open>
  What the threads of the monitor do: events of the connection manager and completions, in any order and without conditions on the
  clients, and the memory thread, during whose eviction the completion thread goes on (\<open>poll\<close>).
\<close>

inductive monitor_turn :: "verbs \<Rightarrow> monitor \<Rightarrow> monitor \<Rightarrow> bool" for env where
  event: "on_event env cid ev st = Inr st' \<Longrightarrow> monitor_turn env st st'"
| completion: "on_completion env cid w st = Inr st' \<Longrightarrow> monitor_turn env st st'"
| shrink: "evict_unmapped g st = (a, e, st') \<Longrightarrow> monitor_turn env st st'"
| grow: "expand_mem g st = (e, st') \<Longrightarrow> monitor_turn env st st'"

text \<open>The completion thread: the completions it polls, each handed to \<open>on_completion\<close>.\<close>

definition poll_cq :: "verbs \<Rightarrow> (nat \<times> wc) list \<Rightarrow> monitor \<Rightarrow> monitor res" where
  "poll_cq env ws = foldE (\<lambda>(cid, w). on_completion env cid w) ws"

lemma poll_cq_turns: "poll_cq env ws st = Inr st' \<Longrightarrow> (monitor_turn env)\<^sup>*\<^sup>* st st'"
  unfolding poll_cq_def
  by (erule foldE_inv [where P = "(monitor_turn env)\<^sup>*\<^sup>* st"]) (auto intro: rtranclp.rtrancl_into_rtrancl monitor_turn.completion)

inductive memory_turn :: "verbs \<Rightarrow> monitor \<Rightarrow> monitor \<Rightarrow> bool" for env where
  other: "monitor_turn env st st' \<Longrightarrow> memory_turn env st st'"
| evict: "evict_mem env rnd uninit poll g st = Inr st' \<Longrightarrow> (\<And>cid s s'. poll cid s = Inr s' \<Longrightarrow> (monitor_turn env)\<^sup>*\<^sup>* s s') \<Longrightarrow> memory_turn env st st'"

lemma monitor_turn_msgs: "monitor_turn env st st' \<Longrightarrow> fresh_ok env \<Longrightarrow> msgs_ok st \<Longrightarrow> msgs_ok st'"
  by (induction rule: monitor_turn.induct) (auto dest: wf_on_event wf_on_completion wf_evict_unmapped wf_expand_mem)

lemma memory_turn_msgs: "memory_turn env st st' \<Longrightarrow> fresh_ok env \<Longrightarrow> msgs_ok st \<Longrightarrow> msgs_ok st'"
proof (induction rule: memory_turn.induct)
  case (evict rnd uninit poll g st st')
  have "msgs_ok s'" if "poll cid s = Inr s'" "msgs_ok s" for cid s s'
    using evict.hyps(2) [OF that(1)] that(2) by (induction rule: rtranclp_induct) (auto dest: monitor_turn_msgs [OF _ evict.prems(1)])
  with evict show ?case by (auto dest: wf_evict_mem)
qed (rule monitor_turn_msgs)

text \<open>In particular the completion thread may answer while the memory thread waits.\<close>

lemma memory_turn_poll: "evict_mem env rnd uninit (\<lambda>cid s. poll_cq env (ws cid s) s) g st = Inr st' \<Longrightarrow> memory_turn env st st'"
  by (rule memory_turn.evict [OF _ poll_cq_turns])

lemma reachable_msgs:
  assumes "(memory_turn env)\<^sup>*\<^sup>* (initial_monitor meminfo) st" "fresh_ok env"
  shows "msgs_ok st"
  using assms(1) by (induction rule: rtranclp_induct) (auto simp: msgs_ok_def initial_monitor_def dest: memory_turn_msgs [OF _ assms(2), unfolded msgs_ok_def])

lemma typed_handled:
  assumes "typed m" "cb_at s (int b) = Inr cb" "recv_buf cb = m" "CONNECTED \<le> state cb" "client_recv b True s = Inr (ret, s')"
  shows "ret = 0"
  using assms by (auto simp: typed_def client_recv_def Let_def bindE_Inr split: if_splits)

lemma step_turn: "monitor_step env st st' \<Longrightarrow> memory_turn env st st'"
  by (induction rule: monitor_step.induct) (auto intro: memory_turn.other monitor_turn.intros)

lemma demo_turns: "(memory_turn demo_verbs)\<^sup>*\<^sup>* (initial_monitor demo_meminfo) demo_3"
  using rtranclp_mono [of "monitor_step demo_verbs" "memory_turn demo_verbs"] demo_run step_turn by blast

section \<open>Properties\<close>



end
