(* ===== verification/GF256.thy ===== *)
theory GF256
  imports Prelude
begin

text \<open>
  Arithmetic of GF(2^8) as \<^verbatim>\<open>erasure_code/ec_base.c\<close> computes it: the log and
  antilog tables of \<^verbatim>\<open>erasure_code/ec_base.h\<close>, \<open>gf_mul\<close> and \<open>gf_inv\<close>, and the
  table generator \<open>mk_gf_field\<close> of \<^verbatim>\<open>gf_vect_dot_prod_1tbl.c\<close>. The lemmas show that
  the tables are the powers of the generator 2 modulo the polynomial 0x11d, that \<open>gf_mul\<close>
  is carry-less multiplication modulo that polynomial, and that the bytes form a field;
  the type \<open>gf256\<close> makes the field available to the algebra of the library.
\<close>

section \<open>Tables and operations\<close>

definition gff_base :: "u8 list" where
  "gff_base = [
    0x01, 0x02, 0x04, 0x08, 0x10, 0x20, 0x40, 0x80, 0x1d, 0x3a,
    0x74, 0xe8, 0xcd, 0x87, 0x13, 0x26, 0x4c, 0x98, 0x2d, 0x5a,
    0xb4, 0x75, 0xea, 0xc9, 0x8f, 0x03, 0x06, 0x0c, 0x18, 0x30,
    0x60, 0xc0, 0x9d, 0x27, 0x4e, 0x9c, 0x25, 0x4a, 0x94, 0x35,
    0x6a, 0xd4, 0xb5, 0x77, 0xee, 0xc1, 0x9f, 0x23, 0x46, 0x8c,
    0x05, 0x0a, 0x14, 0x28, 0x50, 0xa0, 0x5d, 0xba, 0x69, 0xd2,
    0xb9, 0x6f, 0xde, 0xa1, 0x5f, 0xbe, 0x61, 0xc2, 0x99, 0x2f,
    0x5e, 0xbc, 0x65, 0xca, 0x89, 0x0f, 0x1e, 0x3c, 0x78, 0xf0,
    0xfd, 0xe7, 0xd3, 0xbb, 0x6b, 0xd6, 0xb1, 0x7f, 0xfe, 0xe1,
    0xdf, 0xa3, 0x5b, 0xb6, 0x71, 0xe2, 0xd9, 0xaf, 0x43, 0x86,
    0x11, 0x22, 0x44, 0x88, 0x0d, 0x1a, 0x34, 0x68, 0xd0, 0xbd,
    0x67, 0xce, 0x81, 0x1f, 0x3e, 0x7c, 0xf8, 0xed, 0xc7, 0x93,
    0x3b, 0x76, 0xec, 0xc5, 0x97, 0x33, 0x66, 0xcc, 0x85, 0x17,
    0x2e, 0x5c, 0xb8, 0x6d, 0xda, 0xa9, 0x4f, 0x9e, 0x21, 0x42,
    0x84, 0x15, 0x2a, 0x54, 0xa8, 0x4d, 0x9a, 0x29, 0x52, 0xa4,
    0x55, 0xaa, 0x49, 0x92, 0x39, 0x72, 0xe4, 0xd5, 0xb7, 0x73,
    0xe6, 0xd1, 0xbf, 0x63, 0xc6, 0x91, 0x3f, 0x7e, 0xfc, 0xe5,
    0xd7, 0xb3, 0x7b, 0xf6, 0xf1, 0xff, 0xe3, 0xdb, 0xab, 0x4b,
    0x96, 0x31, 0x62, 0xc4, 0x95, 0x37, 0x6e, 0xdc, 0xa5, 0x57,
    0xae, 0x41, 0x82, 0x19, 0x32, 0x64, 0xc8, 0x8d, 0x07, 0x0e,
    0x1c, 0x38, 0x70, 0xe0, 0xdd, 0xa7, 0x53, 0xa6, 0x51, 0xa2,
    0x59, 0xb2, 0x79, 0xf2, 0xf9, 0xef, 0xc3, 0x9b, 0x2b, 0x56,
    0xac, 0x45, 0x8a, 0x09, 0x12, 0x24, 0x48, 0x90, 0x3d, 0x7a,
    0xf4, 0xf5, 0xf7, 0xf3, 0xfb, 0xeb, 0xcb, 0x8b, 0x0b, 0x16,
    0x2c, 0x58, 0xb0, 0x7d, 0xfa, 0xe9, 0xcf, 0x83, 0x1b, 0x36,
    0x6c, 0xd8, 0xad, 0x47, 0x8e, 0x01
  ]"

definition gflog_base :: "u8 list" where
  "gflog_base = [
    0x00, 0xff, 0x01, 0x19, 0x02, 0x32, 0x1a, 0xc6, 0x03, 0xdf,
    0x33, 0xee, 0x1b, 0x68, 0xc7, 0x4b, 0x04, 0x64, 0xe0, 0x0e,
    0x34, 0x8d, 0xef, 0x81, 0x1c, 0xc1, 0x69, 0xf8, 0xc8, 0x08,
    0x4c, 0x71, 0x05, 0x8a, 0x65, 0x2f, 0xe1, 0x24, 0x0f, 0x21,
    0x35, 0x93, 0x8e, 0xda, 0xf0, 0x12, 0x82, 0x45, 0x1d, 0xb5,
    0xc2, 0x7d, 0x6a, 0x27, 0xf9, 0xb9, 0xc9, 0x9a, 0x09, 0x78,
    0x4d, 0xe4, 0x72, 0xa6, 0x06, 0xbf, 0x8b, 0x62, 0x66, 0xdd,
    0x30, 0xfd, 0xe2, 0x98, 0x25, 0xb3, 0x10, 0x91, 0x22, 0x88,
    0x36, 0xd0, 0x94, 0xce, 0x8f, 0x96, 0xdb, 0xbd, 0xf1, 0xd2,
    0x13, 0x5c, 0x83, 0x38, 0x46, 0x40, 0x1e, 0x42, 0xb6, 0xa3,
    0xc3, 0x48, 0x7e, 0x6e, 0x6b, 0x3a, 0x28, 0x54, 0xfa, 0x85,
    0xba, 0x3d, 0xca, 0x5e, 0x9b, 0x9f, 0x0a, 0x15, 0x79, 0x2b,
    0x4e, 0xd4, 0xe5, 0xac, 0x73, 0xf3, 0xa7, 0x57, 0x07, 0x70,
    0xc0, 0xf7, 0x8c, 0x80, 0x63, 0x0d, 0x67, 0x4a, 0xde, 0xed,
    0x31, 0xc5, 0xfe, 0x18, 0xe3, 0xa5, 0x99, 0x77, 0x26, 0xb8,
    0xb4, 0x7c, 0x11, 0x44, 0x92, 0xd9, 0x23, 0x20, 0x89, 0x2e,
    0x37, 0x3f, 0xd1, 0x5b, 0x95, 0xbc, 0xcf, 0xcd, 0x90, 0x87,
    0x97, 0xb2, 0xdc, 0xfc, 0xbe, 0x61, 0xf2, 0x56, 0xd3, 0xab,
    0x14, 0x2a, 0x5d, 0x9e, 0x84, 0x3c, 0x39, 0x53, 0x47, 0x6d,
    0x41, 0xa2, 0x1f, 0x2d, 0x43, 0xd8, 0xb7, 0x7b, 0xa4, 0x76,
    0xc4, 0x17, 0x49, 0xec, 0x7f, 0x0c, 0x6f, 0xf6, 0x6c, 0xa1,
    0x3b, 0x52, 0x29, 0x9d, 0x55, 0xaa, 0xfb, 0x60, 0x86, 0xb1,
    0xbb, 0xcc, 0x3e, 0x5a, 0xcb, 0x59, 0x5f, 0xb0, 0x9c, 0xa9,
    0xa0, 0x51, 0x0b, 0xf5, 0x16, 0xeb, 0x7a, 0x75, 0x2c, 0xd7,
    0x4f, 0xae, 0xd5, 0xe9, 0xe6, 0xe7, 0xad, 0xe8, 0x74, 0xd6,
    0xf4, 0xea, 0xa8, 0x50, 0x58, 0xaf
  ]"

text \<open>The operands are promoted to \<^verbatim>\<open>int\<close>, so the sum of two logs does not wrap.\<close>

definition gf_mul :: "u8 \<Rightarrow> u8 \<Rightarrow> u8" where
  "gf_mul a b =
     (if a = 0 \<or> b = 0 then 0
      else let i = unat (gflog_base ! unat a) + unat (gflog_base ! unat b)
           in gff_base ! (if i > 254 then i - 255 else i))"

definition gf_inv :: "u8 \<Rightarrow> u8" where
  "gf_inv a = (if a = 0 then 0 else gff_base ! (255 - unat (gflog_base ! unat a)))"

text \<open>
  Multiplication by the generator, \<^verbatim>\<open>(c << 1) ^ ((c & 0x80) ? 0x1d : 0)\<close>: the step
  of \<open>mk_gf_field\<close> and of the table constants in \<open>gf_vect_mul_init\<close>.
\<close>

definition gf_mul2 :: "u8 \<Rightarrow> u8" where
  "gf_mul2 c = push_bit 1 c XOR (if c AND 0x80 \<noteq> 0 then 0x1d else 0)"

definition mk_gf_field_step :: "nat \<Rightarrow> u8 list \<times> u8 list \<times> u8 \<Rightarrow> u8 list \<times> u8 list \<times> u8" where
  "mk_gf_field_step i = (\<lambda>(gff, gflog, s).
     (gff[i := s], gflog[unat s := word_of_nat i], gf_mul2 s))"

definition mk_gf_field :: "u8 list \<Rightarrow> u8 list \<Rightarrow> u8 list \<times> u8 list" where
  "mk_gf_field gff gflog =
     (case fold mk_gf_field_step [0..<256] (gff, gflog[0 := 0], 1) of
        (gff', gflog', s) \<Rightarrow> (gff', gflog'))"

text \<open>The specification: shift-and-add multiplication modulo x^8 + x^4 + x^3 + x^2 + 1.\<close>

definition gf_mul_spec :: "u8 \<Rightarrow> u8 \<Rightarrow> u8" where
  "gf_mul_spec a b =
     fold (\<lambda>i s. if bit b i then s XOR (gf_mul2 ^^ i) a else s) [0..<8] 0"

section \<open>The generator and its powers\<close>

lemma and_0x80: "(c AND 0x80 \<noteq> 0) = bit (c :: u8) 7"
  using and_exp_eq_0_iff_not_bit [of c 7] by simp

lemma bit_gf_mul2: "bit (gf_mul2 c) n \<longleftrightarrow>
    ((0 < n \<and> n < 8 \<and> bit c (n - 1)) \<noteq> (bit c 7 \<and> bit (0x1d :: u8) n))"
  unfolding gf_mul2_def and_0x80
  by (cases "bit c 7") (auto simp: bit_xor_iff bit_push_bit_iff simp del: push_bit_Suc push_bit_of_1 dest: bit_imp_le_length)

lemma gf_mul2_xor: "gf_mul2 (a XOR b) = gf_mul2 a XOR gf_mul2 b"
  by (rule bit_word_eqI) (auto simp: bit_gf_mul2 bit_xor_iff)

lemma gf_mul2_0 [simp]: "gf_mul2 0 = 0"
  by (simp add: gf_mul2_def)

lemma gf_pow_0 [simp]: "(gf_mul2 ^^ n) 0 = 0"
  by (induction n) auto

lemma gf_pow_xor: "(gf_mul2 ^^ n) (a XOR b) = (gf_mul2 ^^ n) a XOR (gf_mul2 ^^ n) b"
  by (induction n) (auto simp: gf_mul2_xor)

lemma gf_pow_add: "(gf_mul2 ^^ (m + n)) a = (gf_mul2 ^^ m) ((gf_mul2 ^^ n) a)"
  by (simp add: funpow_add)

fun gf_powers :: "nat \<Rightarrow> u8 \<Rightarrow> u8 list" where
  "gf_powers 0 s = []"
| "gf_powers (Suc n) s = s # gf_powers n (gf_mul2 s)"

lemma gf_powers_nth: "i < n \<Longrightarrow> gf_powers n s ! i = (gf_mul2 ^^ i) s"
proof (induction n arbitrary: i s)
  case (Suc n)
  then show ?case by (cases i) (simp_all add: funpow_swap1)
qed simp

lemma length_gff_base [simp]: "length gff_base = 256"
  by (simp add: gff_base_def)

lemma length_gflog_base [simp]: "length gflog_base = 256"
  by (simp add: gflog_base_def)

lemma gff_base_powers: "gff_base = gf_powers 256 1"
  by code_simp

lemma gff_base_nth: "i < 256 \<Longrightarrow> gff_base ! i = (gf_mul2 ^^ i) 1"
  by (simp add: gff_base_powers gf_powers_nth)

lemma gflog_base_all:
  "map (\<lambda>l. gff_base ! unat l) (tl gflog_base) = map word_of_nat [1..<256]"
  by code_simp

lemma gflog_base_gff: "a \<noteq> 0 \<Longrightarrow> gff_base ! unat (gflog_base ! unat a) = a"
proof -
  assume "a \<noteq> 0"
  then have pos: "0 < unat a" by (simp add: unat_gt_0)
  have lt: "unat a < 256" using unat_u8_less [of a] by simp
  have "map (\<lambda>l. gff_base ! unat l) (tl gflog_base) ! (unat a - 1) = a"
    using pos lt by (subst gflog_base_all) (simp add: nth_upt)
  moreover have "tl gflog_base ! (unat a - 1) = gflog_base ! unat a"
    using pos lt by (subst nth_tl) simp_all
  moreover have "unat a - 1 < length (tl gflog_base)" using pos lt by simp
  ultimately show ?thesis by simp
qed

lemma gf_pow_gflog:
  "a \<noteq> 0 \<Longrightarrow> (gf_mul2 ^^ unat (gflog_base ! unat a)) 1 = a"
  using gflog_base_gff [of a] unat_u8_less [of "gflog_base ! unat a"]
  by (simp add: gff_base_nth)

lemma gf_pow_255_1: "(gf_mul2 ^^ 255) 1 = 1"
proof -
  have "gff_base ! 255 = 1" by (simp add: gff_base_def)
  then show ?thesis by (simp add: gff_base_nth)
qed

lemma gf_pow_255 [simp]: "(gf_mul2 ^^ 255) a = a"
proof (cases "a = 0")
  case False
  let ?l = "unat (gflog_base ! unat a)"
  have "(gf_mul2 ^^ 255) a = (gf_mul2 ^^ 255) ((gf_mul2 ^^ ?l) 1)"
    using gf_pow_gflog [OF False] by simp
  also have "\<dots> = (gf_mul2 ^^ ?l) ((gf_mul2 ^^ 255) 1)"
    by (simp only: gf_pow_add [symmetric] add.commute)
  also have "\<dots> = a" using gf_pow_gflog [OF False] by (simp only: gf_pow_255_1)
  finally show ?thesis .
qed simp

text \<open>Multiplication by \<open>a\<close> is that many multiplications by the generator.\<close>

lemma gf_mul_pow:
  assumes "a \<noteq> 0"
  shows "gf_mul a b = (gf_mul2 ^^ unat (gflog_base ! unat a)) b"
proof (cases "b = 0")
  case True
  then show ?thesis by (simp add: gf_mul_def)
next
  case False
  let ?l = "unat (gflog_base ! unat a)" and ?m = "unat (gflog_base ! unat b)"
  have lt: "?l < 256" "?m < 256"
    using unat_u8_less [of "gflog_base ! unat a"] unat_u8_less [of "gflog_base ! unat b"] by simp_all
  have "gf_mul a b = (gf_mul2 ^^ (?l + ?m)) 1"
  proof (cases "?l + ?m > 254")
    case True
    have "(gf_mul2 ^^ (?l + ?m)) 1 = (gf_mul2 ^^ (255 + (?l + ?m - 255))) 1"
      using True by simp
    also have "\<dots> = (gf_mul2 ^^ (?l + ?m - 255)) 1"
      by (simp only: gf_pow_add gf_pow_255)
    finally show ?thesis
      using True assms False lt by (simp add: gf_mul_def gff_base_nth)
  next
    case less: False
    then show ?thesis
      using assms False by (simp add: gf_mul_def gff_base_nth)
  qed
  then show ?thesis
    using gf_pow_gflog [OF False] by (simp add: gf_pow_add)
qed

lemma gf_mul_0 [simp]: "gf_mul 0 b = 0" "gf_mul a 0 = 0"
  by (simp_all add: gf_mul_def)

section \<open>Multiplication modulo the polynomial\<close>

lemma bit_if: "bit (if c then x else 0) n \<longleftrightarrow> c \<and> bit (x :: u8) n"
  by simp

lemma gf_mul_spec_unfold:
  "gf_mul_spec a b =
     (if bit b 0 then a else 0) XOR (if bit b 1 then (gf_mul2 ^^ 1) a else 0) XOR
     (if bit b 2 then (gf_mul2 ^^ 2) a else 0) XOR (if bit b 3 then (gf_mul2 ^^ 3) a else 0) XOR
     (if bit b 4 then (gf_mul2 ^^ 4) a else 0) XOR (if bit b 5 then (gf_mul2 ^^ 5) a else 0) XOR
     (if bit b 6 then (gf_mul2 ^^ 6) a else 0) XOR (if bit b 7 then (gf_mul2 ^^ 7) a else 0)"
proof -
  have step: "(if c then s XOR x else s) = s XOR (if c then x else 0)" for c and s x :: u8
    by simp
  have upt: "[0..<8] = [0, 1, 2, 3, 4, 5, 6, 7 :: nat]" by (simp add: upt_conv_Cons)
  show ?thesis
    unfolding gf_mul_spec_def step upt by (simp only: fold_simps id_apply o_apply funpow_0 xor.assoc xor_self_eq xor.left_neutral)
qed

lemma gf_mul_spec_mul2: "gf_mul_spec (gf_mul2 a) b = gf_mul2 (gf_mul_spec a b)"
proof -
  have "(gf_mul2 ^^ i) (gf_mul2 a) = gf_mul2 ((gf_mul2 ^^ i) a)" for i
    by (simp add: funpow_swap1)
  moreover have "(if c then gf_mul2 x else 0) = gf_mul2 (if c then x else 0)" for c x
    by simp
  ultimately show ?thesis
    unfolding gf_mul_spec_unfold by (simp only: gf_mul2_xor)
qed

lemma gf_mul_spec_1: "gf_mul_spec 1 b = b"
proof -
  have p: "(gf_mul2 ^^ 1) 1 = 2" "(gf_mul2 ^^ 2) 1 = 4" "(gf_mul2 ^^ 3) 1 = 8" "(gf_mul2 ^^ 4) 1 = 16"
    "(gf_mul2 ^^ 5) 1 = 32" "(gf_mul2 ^^ 6) 1 = 64" "(gf_mul2 ^^ 7) 1 = 128"
    by (code_simp)+
  show ?thesis
    unfolding gf_mul_spec_unfold p
  proof (rule bit_word_eqI)
    fix n :: nat
    assume "n < LENGTH(8)"
    then consider "n = 0" | "n = 1" | "n = 2" | "n = 3" | "n = 4" | "n = 5" | "n = 6" | "n = 7"
      by (auto simp: numeral_eq_Suc less_Suc_eq)
    then show "bit ((if bit b 0 then 1 else (0 :: u8)) XOR (if bit b 1 then 2 else 0) XOR
        (if bit b 2 then 4 else 0) XOR (if bit b 3 then 8 else 0) XOR
        (if bit b 4 then 16 else 0) XOR (if bit b 5 then 32 else 0) XOR
        (if bit b 6 then 64 else 0) XOR (if bit b 7 then 128 else 0)) n = bit b n"
      by cases (simp_all add: bit_xor_iff bit_if)
  qed
qed

lemma gf_mul_eq_spec: "gf_mul a b = gf_mul_spec a b"
proof (cases "a = 0")
  case True
  then show ?thesis by (simp add: gf_mul_spec_unfold)
next
  case False
  have "gf_mul_spec ((gf_mul2 ^^ n) 1) b = (gf_mul2 ^^ n) b" for n
    by (induction n) (simp_all add: gf_mul_spec_1 gf_mul_spec_mul2)
  from this [of "unat (gflog_base ! unat a)"] show ?thesis
    using False by (simp add: gf_mul_pow gf_pow_gflog)
qed

section \<open>Field laws\<close>

lemma gf_mul_commute: "gf_mul a b = gf_mul b a"
  by (simp add: gf_mul_def add.commute disj_commute)

lemma gf_mul_xor_right: "gf_mul a (b XOR c) = gf_mul a b XOR gf_mul a c"
  by (cases "a = 0") (simp_all add: gf_mul_pow gf_pow_xor)

lemma gf_mul_xor_left: "gf_mul (a XOR b) c = gf_mul a c XOR gf_mul b c"
  by (simp add: gf_mul_commute [of _ c] gf_mul_xor_right)

lemma gf_mul_assoc: "gf_mul (gf_mul a b) c = gf_mul a (gf_mul b c)"
proof (cases "a = 0 \<or> c = 0")
  case False
  let ?l = "unat (gflog_base ! unat a)" and ?m = "unat (gflog_base ! unat c)"
  have "gf_mul (gf_mul a b) c = (gf_mul2 ^^ ?m) ((gf_mul2 ^^ ?l) b)"
    using False by (simp add: gf_mul_commute [of _ c] gf_mul_pow)
  also have "\<dots> = (gf_mul2 ^^ ?l) ((gf_mul2 ^^ ?m) b)"
    by (simp only: gf_pow_add [symmetric] add.commute)
  also have "\<dots> = gf_mul a (gf_mul b c)"
    using False by (simp add: gf_mul_commute [of b c] gf_mul_pow)
  finally show ?thesis .
qed auto

lemma gf_mul_1_left [simp]: "gf_mul 1 b = b"
  by (simp add: gf_mul_eq_spec gf_mul_spec_1)

lemma gf_mul_1_right [simp]: "gf_mul b 1 = b"
  by (simp add: gf_mul_commute [of b])

lemma gf_inv_0 [simp]: "gf_inv 0 = 0"
  by (simp add: gf_inv_def)

lemma gf_mul_inv_right: "a \<noteq> 0 \<Longrightarrow> gf_mul a (gf_inv a) = 1"
proof -
  assume a: "a \<noteq> 0"
  let ?l = "unat (gflog_base ! unat a)"
  have lt: "?l < 256" using unat_u8_less [of "gflog_base ! unat a"] by simp
  have e: "?l + (255 - ?l) = 255" using lt by arith
  have "gf_mul a (gf_inv a) = (gf_mul2 ^^ ?l) ((gf_mul2 ^^ (255 - ?l)) 1)"
    using a by (simp add: gf_mul_pow gf_inv_def gff_base_nth)
  also have "\<dots> = (gf_mul2 ^^ 255) 1"
    by (simp only: gf_pow_add [symmetric] e)
  finally show ?thesis by (simp only: gf_pow_255)
qed

section \<open>The field of bytes\<close>

datatype gf256 = GF (byte: u8)

instantiation gf256 :: field
begin

definition zero_gf256 :: gf256 where "zero_gf256 = GF 0"
definition one_gf256 :: gf256 where "one_gf256 = GF 1"
definition plus_gf256 :: "gf256 \<Rightarrow> gf256 \<Rightarrow> gf256" where
  "plus_gf256 x y = GF (byte x XOR byte y)"
definition uminus_gf256 :: "gf256 \<Rightarrow> gf256" where "uminus_gf256 x = x"
definition minus_gf256 :: "gf256 \<Rightarrow> gf256 \<Rightarrow> gf256" where
  "minus_gf256 x y = GF (byte x XOR byte y)"
definition times_gf256 :: "gf256 \<Rightarrow> gf256 \<Rightarrow> gf256" where
  "times_gf256 x y = GF (gf_mul (byte x) (byte y))"
definition inverse_gf256 :: "gf256 \<Rightarrow> gf256" where
  "inverse_gf256 x = GF (gf_inv (byte x))"
definition divide_gf256 :: "gf256 \<Rightarrow> gf256 \<Rightarrow> gf256" where
  "divide_gf256 x y = GF (gf_mul (byte x) (gf_inv (byte y)))"

lemmas gf256_defs = zero_gf256_def one_gf256_def plus_gf256_def uminus_gf256_def
  minus_gf256_def times_gf256_def inverse_gf256_def divide_gf256_def

instance
proof
  fix a b c :: gf256
  show "a * b * c = a * (b * c)" by (simp add: gf256_defs gf_mul_assoc)
  show "a * b = b * a" by (simp add: gf256_defs gf_mul_commute)
  show "1 * a = a" by (simp add: gf256_defs)
  show "(a + b) * c = a * c + b * c" by (simp add: gf256_defs gf_mul_xor_left)
  show "a + b + c = a + (b + c)" by (simp add: gf256_defs xor.assoc)
  show "a + b = b + a" by (simp add: gf256_defs xor.commute)
  show "0 + a = a" by (simp add: gf256_defs)
  show "- a + a = 0" by (simp add: gf256_defs)
  show "a - b = a + - b" by (simp add: gf256_defs)
  show "(0::gf256) \<noteq> 1" by (simp add: gf256_defs)
  show "a \<noteq> 0 \<Longrightarrow> inverse a * a = 1"
    by (cases a) (simp add: gf256_defs gf_mul_commute [of "gf_inv _"] gf_mul_inv_right)
  show "a div b = a * inverse b" by (simp add: gf256_defs)
  show "inverse (0 :: gf256) = 0" by (simp add: gf256_defs)
qed

end

named_theorems gf_simps \<open>byte operations as field operations\<close>

lemma GF_simps [gf_simps]:
  "GF 0 = 0" "GF 1 = 1" "GF (a XOR b) = GF a + GF b" "GF (gf_mul a b) = GF a * GF b"
  "GF (gf_inv a) = inverse (GF a)"
  by (simp_all add: gf256_defs)

lemma GF_eq_0 [gf_simps]: "GF a = 0 \<longleftrightarrow> a = 0"
  by (simp add: gf256_defs)

lemma gf256_add_self [simp]: "(x :: gf256) + x = 0"
  by (simp add: gf256_defs)

lemma gf256_uminus [simp]: "- (x :: gf256) = x"
  by (simp add: gf256_defs)

lemma gf256_diff [simp]: "(x :: gf256) - y = x + y"
  by (simp add: gf256_defs)

section \<open>Properties\<close>

text \<open>The two tables of \<^verbatim>\<open>ec_base.h\<close> are exactly what the generator \<open>mk_gf_field\<close> computes
  from zeroed arrays.\<close>

theorem gf_tables_generated:
  "mk_gf_field (replicate 256 0) (replicate 256 0) = (gff_base, gflog_base)"
  by code_simp

text \<open>C34: \<open>gf_mul\<close>, computed with logarithm tables, is multiplication of polynomials over the
  two-element field modulo \<open>x^8 + x^4 + x^3 + x^2 + 1\<close>.\<close>

theorem gf_mul_is_polynomial_product: "gf_mul a b = gf_mul_spec a b"
  by (rule gf_mul_eq_spec)

text \<open>\<open>gf_inv\<close> inverts every nonzero byte, and it is the only byte that does.\<close>

theorem gf_inv_unique: "a \<noteq> 0 \<Longrightarrow> gf_mul a b = 1 \<longleftrightarrow> b = gf_inv a"
  by (metis gf_mul_1_right gf_mul_assoc gf_mul_commute gf_mul_inv_right)

theorem gf_inv_unique_witness: "gf_mul 2 142 = 1 \<and> gf_inv 2 = 142"
  using gf_inv_unique [of 2 142] by code_simp

end
