(* ===== verification/GF_Matrix.thy ===== *)
theory GF_Matrix
  imports GF256
begin

text \<open>
  The matrix routines of \<^verbatim>\<open>erasure_code/ec_base.c\<close>: the Reed-Solomon and Cauchy
  generator matrices and the Gauss-Jordan inversion. A matrix is the flat row-major byte
  array of the C code; \<open>ent n M r c\<close> reads entry (r, c) of an n-column array as a field
  element, and square matrices are compared on their first n rows and columns.
\<close>

section \<open>The routines\<close>

text \<open>\<^verbatim>\<open>memset(a, 0, n)\<close> on a byte array.\<close>

definition memset0 :: "nat \<Rightarrow> u8 list \<Rightarrow> u8 list" where
  "memset0 n a = fold (\<lambda>p a. a[p := 0]) [0..<n] a"

definition set_identity :: "nat \<Rightarrow> u8 list \<Rightarrow> u8 list" where
  "set_identity k a = fold (\<lambda>i a. a[k * i + i := 1]) [0..<k] a"

definition gf_gen_rs_matrix :: "u8 list \<Rightarrow> nat \<Rightarrow> nat \<Rightarrow> u8 list" where
  "gf_gen_rs_matrix a m k =
     fst (fold (\<lambda>i (a, gen).
         let (a, p) = fold (\<lambda>j (a, p). (a[k * i + j := p], gf_mul p gen)) [0..<k] (a, 1)
         in (a, gf_mul gen 2))
       [k..<m] (set_identity k (memset0 (k * m) a), 1))"

text \<open>
  \<^verbatim>\<open>i ^ j\<close> is computed on \<^verbatim>\<open>int\<close> and truncated to the \<^verbatim>\<open>unsigned char\<close> argument of
  \<open>gf_inv\<close>. The write pointer \<open>p\<close> starts at \<^verbatim>\<open>&a[k * k]\<close>.
\<close>

definition gf_gen_cauchy1_matrix :: "u8 list \<Rightarrow> nat \<Rightarrow> nat \<Rightarrow> u8 list" where
  "gf_gen_cauchy1_matrix a m k =
     fst (fold (\<lambda>i s. fold (\<lambda>j (a, p). (a[p := gf_inv (word_of_nat (i XOR j))], p + 1)) [0..<k] s)
       [k..<m] (set_identity k (memset0 (k * m) a), k * k))"

definition swap_rows :: "nat \<Rightarrow> nat \<Rightarrow> nat \<Rightarrow> u8 list \<Rightarrow> u8 list" where
  "swap_rows n i j M = fold (\<lambda>k M. let temp = M ! (i * n + k)
     in M[i * n + k := M ! (j * n + k), j * n + k := temp]) [0..<n] M"

definition scale_row :: "nat \<Rightarrow> nat \<Rightarrow> u8 \<Rightarrow> u8 list \<Rightarrow> u8 list" where
  "scale_row n i temp M =
     fold (\<lambda>j M. M[i * n + j := gf_mul (M ! (i * n + j)) temp]) [0..<n] M"

definition add_row :: "nat \<Rightarrow> nat \<Rightarrow> nat \<Rightarrow> u8 \<Rightarrow> u8 list \<Rightarrow> u8 list" where
  "add_row n i j temp M =
     fold (\<lambda>k M. M[j * n + k := M ! (j * n + k) XOR gf_mul temp (M ! (i * n + k))]) [0..<n] M"

definition eliminate :: "nat \<Rightarrow> nat \<Rightarrow> u8 list \<times> u8 list \<Rightarrow> u8 list \<times> u8 list" where
  "eliminate n i = fold (\<lambda>j (in_mat, out_mat).
     if j = i then (in_mat, out_mat)
     else let temp = in_mat ! (j * n + i)
          in (add_row n i j temp in_mat, add_row n i j temp out_mat)) [0..<n]"

text \<open>The scan for a row with a non-zero in column \<open>i\<close>; \<open>None\<close> is \<^verbatim>\<open>j == n\<close>.\<close>

definition find_pivot :: "nat \<Rightarrow> nat \<Rightarrow> u8 list \<Rightarrow> nat option" where
  "find_pivot n i in_mat = find (\<lambda>j. in_mat ! (j * n + i) \<noteq> 0) [i + 1..<n]"

definition pivot_step :: "nat \<Rightarrow> nat \<Rightarrow> u8 list \<times> u8 list \<Rightarrow> (u8 list \<times> u8 list) option" where
  "pivot_step n i s = (case s of (in_mat, out_mat) \<Rightarrow>
     if in_mat ! (i * n + i) = 0
     then (case find_pivot n i in_mat of
             None \<Rightarrow> None
           | Some j \<Rightarrow> Some (swap_rows n i j in_mat, swap_rows n i j out_mat))
     else Some (in_mat, out_mat))"

definition invert_step :: "nat \<Rightarrow> nat \<Rightarrow> u8 list \<times> u8 list \<Rightarrow> u8 list \<times> u8 list" where
  "invert_step n i s = (case s of (in_mat, out_mat) \<Rightarrow>
     let temp = gf_inv (in_mat ! (i * n + i))
     in eliminate n i (scale_row n i temp in_mat, scale_row n i temp out_mat))"

fun invert_loop :: "nat \<Rightarrow> nat list \<Rightarrow> u8 list \<times> u8 list \<Rightarrow> int \<times> u8 list \<times> u8 list" where
  "invert_loop n [] s = (0, s)"
| "invert_loop n (i # is) s =
     (case pivot_step n i s of
        None \<Rightarrow> (- 1, s)
      | Some s' \<Rightarrow> invert_loop n is (invert_step n i s'))"

text \<open>The result is the return value with the final contents of both arrays.\<close>

definition gf_invert_matrix :: "u8 list \<Rightarrow> u8 list \<Rightarrow> nat \<Rightarrow> int \<times> u8 list \<times> u8 list" where
  "gf_invert_matrix in_mat out_mat n =
     invert_loop n [0..<n] (in_mat, set_identity n (memset0 (n * n) out_mat))"

section \<open>Square matrices over the field\<close>

type_synonym mat = "nat \<Rightarrow> nat \<Rightarrow> gf256"

definition ent :: "nat \<Rightarrow> u8 list \<Rightarrow> mat" where
  "ent n M r c = GF (M ! (r * n + c))"

definition idm :: mat where
  "idm r c = (if r = c then 1 else 0)"

definition mmul :: "nat \<Rightarrow> mat \<Rightarrow> mat \<Rightarrow> mat" where
  "mmul n A B r c = (\<Sum>k<n. A r k * B k c)"

definition meq :: "nat \<Rightarrow> mat \<Rightarrow> mat \<Rightarrow> bool" where
  "meq n A B \<longleftrightarrow> (\<forall>r<n. \<forall>c<n. A r c = B r c)"

definition mvec :: "nat \<Rightarrow> mat \<Rightarrow> (nat \<Rightarrow> gf256) \<Rightarrow> nat \<Rightarrow> gf256" where
  "mvec n A x r = (\<Sum>k<n. A r k * x k)"

text \<open>A matrix with a non-trivial kernel.\<close>

definition singular :: "nat \<Rightarrow> mat \<Rightarrow> bool" where
  "singular n A \<longleftrightarrow> (\<exists>x. (\<exists>c<n. x c \<noteq> 0) \<and> (\<forall>r<n. mvec n A x r = 0))"

lemma meqI: "(\<And>r c. r < n \<Longrightarrow> c < n \<Longrightarrow> A r c = B r c) \<Longrightarrow> meq n A B"
  by (simp add: meq_def)

lemma meqD: "meq n A B \<Longrightarrow> r < n \<Longrightarrow> c < n \<Longrightarrow> A r c = B r c"
  by (simp add: meq_def)

lemma meq_refl [simp]: "meq n A A"
  by (simp add: meq_def)

lemma meq_sym: "meq n A B \<Longrightarrow> meq n B A"
  by (simp add: meq_def)

lemma meq_trans [trans]: "meq n A B \<Longrightarrow> meq n B C \<Longrightarrow> meq n A C"
  by (simp add: meq_def)

lemma mmul_assoc: "mmul n (mmul n A B) C = mmul n A (mmul n B C)"
proof (intro ext)
  fix r c
  have "mmul n (mmul n A B) C r c = (\<Sum>k<n. \<Sum>l<n. A r l * B l k * C k c)"
    by (simp add: mmul_def sum_distrib_right)
  also have "\<dots> = (\<Sum>l<n. \<Sum>k<n. A r l * B l k * C k c)"
    by (rule sum.swap)
  also have "\<dots> = mmul n A (mmul n B C) r c"
    by (simp add: mmul_def sum_distrib_left mult.assoc)
  finally show "mmul n (mmul n A B) C r c = mmul n A (mmul n B C) r c" .
qed

lemma mvec_mmul: "mvec n (mmul n A B) x r = mvec n A (mvec n B x) r"
  using fun_cong [OF fun_cong [OF mmul_assoc [of n A B "\<lambda>k _. x k"]], of r 0]
  by (simp add: mmul_def mvec_def)

lemma mmul_cong: "meq n A A' \<Longrightarrow> meq n B B' \<Longrightarrow> meq n (mmul n A B) (mmul n A' B')"
  by (auto simp: meq_def mmul_def intro!: sum.cong)

lemma mvec_cong:
  "meq n A A' \<Longrightarrow> (\<And>k. k < n \<Longrightarrow> x k = y k) \<Longrightarrow> r < n \<Longrightarrow> mvec n A x r = mvec n A' y r"
  by (auto simp: meq_def mvec_def intro!: sum.cong)

lemma mmul_idm_left: "r < n \<Longrightarrow> mmul n idm B r c = B r c"
  by (simp add: mmul_def idm_def if_distrib [of "\<lambda>x. x * _"] sum.delta cong: if_cong)

lemma mmul_idm_right: "c < n \<Longrightarrow> mmul n B idm r c = B r c"
  by (simp add: mmul_def idm_def if_distrib [of "\<lambda>x. _ * x"] sum.delta' cong: if_cong)

lemma mvec_idm: "r < n \<Longrightarrow> mvec n idm x r = x r"
  by (simp add: mvec_def idm_def if_distrib [of "\<lambda>x. x * _"] sum.delta cong: if_cong)

lemma left_inverse_not_singular:
  assumes "meq n (mmul n B A) idm"
  shows "\<not> singular n A"
proof
  assume "singular n A"
  then obtain x c where x: "c < n" "x c \<noteq> 0" "\<And>r. r < n \<Longrightarrow> mvec n A x r = 0"
    by (auto simp: singular_def)
  have "x c = mvec n (mmul n B A) x c"
    using x(1) assms by (subst mvec_cong [where A' = idm and y = x]) (simp_all add: mvec_idm)
  also have "\<dots> = 0"
    using x(3) by (simp add: mvec_mmul mvec_def [of n B])
  finally show False using x(2) by simp
qed

section \<open>Elementary row operations\<close>

definition swapm :: "nat \<Rightarrow> nat \<Rightarrow> mat" where
  "swapm i j r = idm (if r = i then j else if r = j then i else r)"

definition scalem :: "nat \<Rightarrow> gf256 \<Rightarrow> mat" where
  "scalem i t r c = (if r = i then t * idm r c else idm r c)"

definition addm :: "nat \<Rightarrow> nat \<Rightarrow> gf256 \<Rightarrow> mat" where
  "addm i j t r c = idm r c + (if r = j then t * idm i c else 0)"

lemma mmul_swapm:
  "i < n \<Longrightarrow> j < n \<Longrightarrow> r < n \<Longrightarrow>
     mmul n (swapm i j) B r c = B (if r = i then j else if r = j then i else r) c"
  using mmul_idm_left [of "if r = i then j else if r = j then i else r" n B c]
  by (simp add: mmul_def swapm_def)

lemma mmul_scalem:
  "r < n \<Longrightarrow> mmul n (scalem i t) B r c = (if r = i then t * B r c else B r c)"
  using mmul_idm_left [of r n B c]
  by (auto simp: mmul_def scalem_def mult.assoc sum_distrib_left [symmetric])

lemma mmul_addm:
  "r < n \<Longrightarrow> i < n \<Longrightarrow>
     mmul n (addm i j t) B r c = B r c + (if r = j then t * B i c else 0)"
  using mmul_idm_left [of r n B c] mmul_idm_left [of i n B c]
  by (simp add: mmul_def addm_def distrib_right sum.distrib mult.assoc
      sum_distrib_left [symmetric])

lemma swapm_self_inverse:
  "i < n \<Longrightarrow> j < n \<Longrightarrow> meq n (mmul n (swapm i j) (swapm i j)) idm"
  by (rule meqI) (auto simp: mmul_swapm swapm_def)

lemma scalem_inverse: "t \<noteq> 0 \<Longrightarrow> meq n (mmul n (scalem i (inverse t)) (scalem i t)) idm"
  by (rule meqI) (simp add: mmul_scalem scalem_def mult.assoc [symmetric])

lemma addm_self_inverse:
  "i < n \<Longrightarrow> i \<noteq> j \<Longrightarrow> meq n (mmul n (addm i j t) (addm i j t)) idm"
  by (rule meqI) (simp add: mmul_addm addm_def add.assoc)

text \<open>
  The relation the inversion keeps between the original matrix \<open>A\<close> and the two working
  matrices: both are images of \<open>A\<close> and of the identity under the same invertible
  sequence of row operations.
\<close>

definition row_equiv :: "nat \<Rightarrow> mat \<Rightarrow> mat \<Rightarrow> mat \<Rightarrow> bool" where
  "row_equiv n A X Y \<longleftrightarrow> meq n (mmul n Y A) X \<and>
     (\<exists>F. meq n (mmul n F X) A \<and> meq n (mmul n F Y) idm)"

lemma row_equiv_init: "meq n Y idm \<Longrightarrow> row_equiv n A A Y"
proof -
  assume Y: "meq n Y idm"
  have "meq n (mmul n Y A) A"
    using mmul_cong [OF Y meq_refl [of n A]] by (simp add: meq_def mmul_idm_left)
  moreover have "meq n (mmul n idm A) A" "meq n (mmul n idm Y) idm"
    using Y by (simp_all add: meq_def mmul_idm_left)
  ultimately show ?thesis unfolding row_equiv_def by blast
qed

lemma row_equiv_step:
  assumes eq: "row_equiv n A X Y" and E: "meq n (mmul n E' E) idm"
    and X': "meq n X' (mmul n E X)" and Y': "meq n Y' (mmul n E Y)"
  shows "row_equiv n A X' Y'"
proof -
  from eq obtain F where F: "meq n (mmul n F X) A" "meq n (mmul n F Y) idm"
    and YA: "meq n (mmul n Y A) X" by (auto simp: row_equiv_def)
  have pull: "meq n (mmul n (mmul n F E') Z') (mmul n F Z)"
    if "meq n Z' (mmul n E Z)" for Z Z'
  proof -
    have "meq n (mmul n (mmul n F E') Z') (mmul n (mmul n F E') (mmul n E Z))"
      using that by (intro mmul_cong) simp_all
    also have "mmul n (mmul n F E') (mmul n E Z) = mmul n F (mmul n (mmul n E' E) Z)"
      by (simp add: mmul_assoc)
    also have "meq n \<dots> (mmul n F (mmul n idm Z))"
      using E by (intro mmul_cong) simp_all
    also have "meq n \<dots> (mmul n F Z)"
      by (intro mmul_cong meq_refl meqI) (simp add: mmul_idm_left)
    finally show ?thesis .
  qed
  have "meq n (mmul n Y' A) (mmul n (mmul n E Y) A)"
    using Y' by (intro mmul_cong) simp_all
  also have "mmul n (mmul n E Y) A = mmul n E (mmul n Y A)" by (rule mmul_assoc)
  also have "meq n \<dots> (mmul n E X)" using YA by (intro mmul_cong) simp_all
  also have "meq n \<dots> X'" using X' by (rule meq_sym)
  finally have "meq n (mmul n Y' A) X'" .
  with pull [OF X'] pull [OF Y'] F show ?thesis
    unfolding row_equiv_def by (blast intro: meq_trans)
qed

section \<open>The array loops perform the row operations\<close>

lemma index_less: "r < n \<Longrightarrow> c < n \<Longrightarrow> n * n \<le> L \<Longrightarrow> r * n + c < (L :: nat)"
proof -
  assume a: "r < n" "c < n" "n * n \<le> L"
  then have "r * n + c < Suc r * n" by simp
  also have "\<dots> \<le> n * n" using a by (intro mult_le_mono1) simp
  finally show ?thesis using a by simp
qed

lemma index_eq: "c < n \<Longrightarrow> c' < n \<Longrightarrow> r * n + c = r' * n + c' \<longleftrightarrow> r = r' \<and> (c :: nat) = c'"
proof -
  assume a: "c < n" "c' < n"
  have "r = (r * n + c) div n" "c = (r * n + c) mod n"
    "r' = (r' * n + c') div n" "c' = (r' * n + c') mod n" using a by simp_all
  then show ?thesis by metis
qed

lemma index_eq':
  "c < n \<Longrightarrow> c' < n \<Longrightarrow> n * r + c = n * r' + c' \<longleftrightarrow> r = r' \<and> (c :: nat) = c'"
  using index_eq [of c n c' r r'] by (simp add: mult.commute)

lemma index_in_row:
  "c < n \<Longrightarrow> i * n \<le> r * n + c \<and> r * n + c < i * n + n \<longleftrightarrow> r = (i :: nat)"
proof
  assume c: "c < n" and *: "i * n \<le> r * n + c \<and> r * n + c < i * n + n"
  then have "i * n < Suc r * n" "r * n < Suc i * n" by auto
  then show "r = i" using mult_less_cancel2 by (metis less_Suc_eq_le le_antisym)
qed auto

lemma length_swap_rows [arr_simps]: "length (swap_rows n i j M) = length M"
  unfolding swap_rows_def by (rule fold_inv) (auto simp: Let_def)

lemma length_scale_row [arr_simps]: "length (scale_row n i t M) = length M"
  unfolding scale_row_def by (rule fold_inv) auto

lemma length_add_row [arr_simps]: "length (add_row n i j t M) = length M"
  unfolding add_row_def by (rule fold_inv) auto

lemma length_memset0 [arr_simps]: "length (memset0 n a) = length a"
  unfolding memset0_def by (rule fold_inv) auto

lemma length_set_identity [arr_simps]: "length (set_identity n a) = length a"
  unfolding set_identity_def by (rule fold_inv) auto

lemma memset0_nth: "n \<le> length a \<Longrightarrow> memset0 n a ! p = (if p < n then 0 else a ! p)"
  unfolding memset0_def
  by (simp add: fold_fill_row)

lemma ent_swap_rows:
  assumes "n * n \<le> length M" "i < n" "j < n" "i \<noteq> j"
  shows "meq n (ent n (swap_rows n i j M)) (mmul n (swapm i j) (ent n M))"
proof -
  let ?s = "\<lambda>r. if r = i then j else if r = j then i else r"
  let ?P = "\<lambda>k M'. length M' = length M \<and>
    (\<forall>r<n. \<forall>c<n. M' ! (r * n + c) = M ! ((if c < k then ?s r else r) * n + c))"
  have "?P n (swap_rows n i j M)"
    unfolding swap_rows_def
  proof (rule fold_upto_inv [where P = ?P])
    fix k M' assume k: "k < n" and P: "?P k M'"
    then have lt: "i * n + k < length M'" "j * n + k < length M'"
      using assms by (simp_all add: index_less)
    let ?M = "M'[i * n + k := M' ! (j * n + k), j * n + k := M' ! (i * n + k)]"
    have "?M ! (r * n + c) = M ! ((if c < Suc k then ?s r else r) * n + c)"
      if "r < n" "c < n" for r c
      using that k P assms lt by (simp add: nth_list_update index_eq less_Suc_eq)
    with P show "?P (Suc k) (let temp = M' ! (i * n + k)
        in M'[i * n + k := M' ! (j * n + k), j * n + k := temp])"
      by (simp add: Let_def)
  qed simp
  then show ?thesis
    using assms by (auto simp: meq_def ent_def mmul_swapm)
qed

lemma ent_scale_row:
  assumes "n * n \<le> length M" "i < n"
  shows "meq n (ent n (scale_row n i t M)) (mmul n (scalem i (GF t)) (ent n M))"
proof -
  have len: "i * n + n \<le> length M"
  proof -
    have "Suc i * n \<le> n * n" using assms by (intro mult_le_mono1) simp
    with assms show ?thesis by simp
  qed
  have nth: "scale_row n i t M ! p =
      (if i * n \<le> p \<and> p < i * n + n then gf_mul (M ! (i * n + (p - i * n))) t else M ! p)" for p
    unfolding scale_row_def by (rule fold_block_upd) (use len in auto)
  show ?thesis
  proof (rule meqI)
    fix r c assume rc: "r < n" "c < n"
    then show "ent n (scale_row n i t M) r c = mmul n (scalem i (GF t)) (ent n M) r c"
      by (cases "r = i") (auto simp: ent_def nth index_in_row mmul_scalem gf_simps mult.commute [of "GF t"])
  qed
qed

lemma ent_add_row:
  assumes "n * n \<le> length M" "i < n" "j < n" "i \<noteq> j"
  shows "meq n (ent n (add_row n i j t M)) (mmul n (addm i j (GF t)) (ent n M))"
proof -
  have len: "j * n + n \<le> length M"
  proof -
    have "Suc j * n \<le> n * n" using assms by (intro mult_le_mono1) simp
    with assms show ?thesis by simp
  qed
  have other: "\<not> (j * n \<le> i * n + k \<and> i * n + k < j * n + l)" if "k < n" "l \<le> n" for k l
    using that assms index_in_row [of k n j i] by auto
  have nth: "add_row n i j t M ! p =
      (if j * n \<le> p \<and> p < j * n + n
       then M ! (j * n + (p - j * n)) XOR gf_mul t (M ! (i * n + (p - j * n))) else M ! p)" for p
    unfolding add_row_def
  proof (rule fold_block_upd [OF _ len])
    fix k ys
    assume "k < n" and "\<And>p. \<not> (j * n \<le> p \<and> p < j * n + k) \<Longrightarrow> ys ! p = M ! p"
    then show "ys ! (j * n + k) XOR gf_mul t (ys ! (i * n + k)) =
        M ! (j * n + k) XOR gf_mul t (M ! (i * n + k))"
      using other [of k k] by simp
  qed
  show ?thesis
  proof (rule meqI)
    fix r c assume rc: "r < n" "c < n"
    then show "ent n (add_row n i j t M) r c = mmul n (addm i j (GF t)) (ent n M) r c"
      using assms
      by (cases "r = j") (auto simp: ent_def nth index_in_row mmul_addm gf_simps)
  qed
qed

lemma ent_set_identity:
  assumes "n * n \<le> length M"
  shows "meq n (ent n (set_identity n (memset0 (n * n) M))) idm"
proof -
  let ?P = "\<lambda>k M'. length M' = length M \<and>
    (\<forall>r<n. \<forall>c<n. M' ! (r * n + c) = (if r = c \<and> r < k then 1 else 0))"
  have "?P n (set_identity n (memset0 (n * n) M))"
    unfolding set_identity_def
  proof (rule fold_upto_inv [where P = ?P])
    show "?P 0 (memset0 (n * n) M)"
      using assms by (auto simp: arr_simps memset0_nth index_less)
  next
    fix k M' assume k: "k < n" and P: "?P k M'"
    then show "?P (Suc k) (M'[n * k + k := 1])"
      using assms index_less [of k n k "length M'"]
      by (auto simp: nth_list_update index_eq mult.commute [of n k] less_Suc_eq)
  qed
  then show ?thesis
    by (auto simp: meq_def ent_def idm_def gf_simps)
qed

section \<open>Gauss-Jordan elimination\<close>

text \<open>After \<open>i\<close> steps the first \<open>i\<close> columns of the input array are unit vectors.\<close>

definition invert_inv :: "nat \<Rightarrow> mat \<Rightarrow> nat \<Rightarrow> u8 list \<times> u8 list \<Rightarrow> bool" where
  "invert_inv n A i = (\<lambda>(X, Y). n * n \<le> length X \<and> n * n \<le> length Y \<and>
     row_equiv n A (ent n X) (ent n Y) \<and> (\<forall>r<n. \<forall>c<i. ent n X r c = idm r c))"

lemma pivot_step_Some:
  assumes inv: "invert_inv n A i s" and i: "i < n" and step: "pivot_step n i s = Some s'"
  shows "invert_inv n A i s' \<and> ent n (fst s') i i \<noteq> 0"
proof (cases s)
  case (Pair X Y)
  show ?thesis
  proof (cases "X ! (i * n + i) = 0")
    case False
    with inv step Pair show ?thesis
      by (auto simp: pivot_step_def ent_def gf_simps)
  next
    case True
    with step Pair obtain j where j: "find_pivot n i X = Some j"
      and s': "s' = (swap_rows n i j X, swap_rows n i j Y)"
      by (auto simp: pivot_step_def split: option.splits)
    from j have ij: "i < j" "j < n" "X ! (j * n + i) \<noteq> 0"
      by (auto simp: find_pivot_def find_Some_iff)
    have X: "meq n (ent n (swap_rows n i j X)) (mmul n (swapm i j) (ent n X))"
      and Y: "meq n (ent n (swap_rows n i j Y)) (mmul n (swapm i j) (ent n Y))"
      using inv Pair i ij by (auto simp: invert_inv_def intro!: ent_swap_rows)
    have entX: "ent n (swap_rows n i j X) r c =
        ent n X (if r = i then j else if r = j then i else r) c" if "r < n" "c < n" for r c
      using meqD [OF X that] mmul_swapm [of i n j r] i ij that by simp
    have "row_equiv n A (ent n (swap_rows n i j X)) (ent n (swap_rows n i j Y))"
      using inv Pair i ij
      by (intro row_equiv_step [OF _ swapm_self_inverse X Y]) (auto simp: invert_inv_def)
    moreover have "ent n (swap_rows n i j X) r c = idm r c" if "r < n" "c < i" for r c
      using inv Pair i ij that by (auto simp: entX invert_inv_def idm_def)
    moreover have "ent n (swap_rows n i j X) i i \<noteq> 0"
      using i ij by (simp add: entX) (simp add: ent_def gf_simps)
    ultimately show ?thesis
      using inv Pair s' by (auto simp: invert_inv_def arr_simps)
  qed
qed

text \<open>Without a pivot, column \<open>i\<close> is a combination of the unit columns before it.\<close>

lemma pivot_step_None:
  assumes inv: "invert_inv n A i s" and i: "i < n" and step: "pivot_step n i s = None"
  shows "singular n A"
proof -
  obtain X Y where s: "s = (X, Y)" by (cases s)
  from step s have zero: "X ! (j * n + i) = 0" if "i \<le> j" "j < n" for j
    using that by (cases "j = i")
      (auto simp: pivot_step_def find_pivot_def find_None_iff split: if_splits option.splits)
  from inv s obtain F where F: "meq n (mmul n F (ent n X)) A"
    by (auto simp: invert_inv_def row_equiv_def)
  let ?x = "\<lambda>k. if k < i then ent n X k i else if k = i then 1 else 0"
  have "mvec n (ent n X) ?x r = 0" if r: "r < n" for r
  proof -
    have "mvec n (ent n X) ?x r = (\<Sum>k<n. (if k < i then idm r k * ent n X k i else 0) +
        (if k = i then ent n X r i else 0))"
      using inv s r i by (auto simp: mvec_def invert_inv_def intro!: sum.cong)
    also have "\<dots> = (\<Sum>k<n. (if k = r then (if r < i then ent n X r i else 0) else 0) +
        (if k = i then ent n X r i else 0))"
      by (rule sum.cong) (auto simp: idm_def)
    also have "\<dots> = (if r < i then ent n X r i else 0) + ent n X r i"
      using r i by (simp add: sum.distrib)
    also have "\<dots> = 0"
      using zero [of r] r by (auto simp: ent_def gf_simps)
    finally show ?thesis .
  qed
  then have "mvec n A ?x r = 0" if "r < n" for r
    using that mvec_cong [OF F, of ?x ?x r] by (simp add: mvec_mmul mvec_def [of n F])
  then show ?thesis
    using i by (auto simp: singular_def intro!: exI [of _ ?x] exI [of _ i])
qed

lemma eliminate_ent:
  assumes len: "n * n \<le> length X" "n * n \<le> length Y" and i: "i < n"
    and eq: "row_equiv n A (ent n X) (ent n Y)"
  obtains X' Y' where "eliminate n i (X, Y) = (X', Y')"
    "n * n \<le> length X'" "n * n \<le> length Y'" "row_equiv n A (ent n X') (ent n Y')"
    "\<And>r c. r < n \<Longrightarrow> c < n \<Longrightarrow> ent n X' r c =
      (if r \<noteq> i then ent n X r c + ent n X r i * ent n X i c else ent n X r c)"
proof -
  let ?P = "\<lambda>j (X', Y'). n * n \<le> length X' \<and> n * n \<le> length Y' \<and>
    row_equiv n A (ent n X') (ent n Y') \<and> (\<forall>r<n. \<forall>c<n. ent n X' r c =
      (if r \<noteq> i \<and> r < j then ent n X r c + ent n X r i * ent n X i c else ent n X r c))"
  have "?P n (eliminate n i (X, Y))"
    unfolding eliminate_def
  proof (rule fold_upto_inv [where P = ?P])
    fix j s assume j: "j < n" and P: "?P j s"
    obtain X' Y' where s: "s = (X', Y')" by (cases s)
    show "?P (Suc j) ((case s of (in_mat, out_mat) \<Rightarrow> if j = i then (in_mat, out_mat)
        else let temp = in_mat ! (j * n + i)
             in (add_row n i j temp in_mat, add_row n i j temp out_mat)))"
    proof (cases "j = i")
      case True
      with P s show ?thesis by (auto simp: less_Suc_eq)
    next
      case False
      let ?t = "X' ! (j * n + i)"
      have t: "GF ?t = ent n X j i" using P s j i False by (auto simp: ent_def)
      have A1: "meq n (ent n (add_row n i j ?t X')) (mmul n (addm i j (GF ?t)) (ent n X'))"
        and A2: "meq n (ent n (add_row n i j ?t Y')) (mmul n (addm i j (GF ?t)) (ent n Y'))"
        using P s i j False by (auto intro!: ent_add_row)
      have "row_equiv n A (ent n (add_row n i j ?t X')) (ent n (add_row n i j ?t Y'))"
        using P s i False by (intro row_equiv_step [OF _ addm_self_inverse A1 A2]) auto
      moreover have "ent n (add_row n i j ?t X') r c = (if r \<noteq> i \<and> r < Suc j
          then ent n X r c + ent n X r i * ent n X i c else ent n X r c)" if "r < n" "c < n" for r c
        using meqD [OF A1 that] P s t that i j False by (auto simp: mmul_addm less_Suc_eq)
      ultimately show ?thesis
        using P s False by (simp add: Let_def arr_simps)
    qed
  qed (use len eq in auto)
  then show ?thesis
    by (cases "eliminate n i (X, Y)") (auto intro: that)
qed

lemma invert_step_inv:
  assumes inv: "invert_inv n A i s" and i: "i < n" and piv: "ent n (fst s) i i \<noteq> 0"
  shows "invert_inv n A (Suc i) (invert_step n i s)"
proof -
  obtain X Y where s: "s = (X, Y)" by (cases s)
  let ?t = "gf_inv (X ! (i * n + i))"
  have t: "GF ?t = inverse (ent n X i i)" by (simp add: ent_def gf_simps)
  have nz: "ent n X i i \<noteq> 0" using piv s by simp
  let ?X = "scale_row n i ?t X" and ?Y = "scale_row n i ?t Y"
  have X: "meq n (ent n ?X) (mmul n (scalem i (GF ?t)) (ent n X))"
    and Y: "meq n (ent n ?Y) (mmul n (scalem i (GF ?t)) (ent n Y))"
    using inv s i by (auto simp: invert_inv_def intro!: ent_scale_row)
  have E: "meq n (mmul n (scalem i (inverse (GF ?t))) (scalem i (GF ?t))) idm"
    using nz by (intro scalem_inverse) (simp add: t)
  have eq: "row_equiv n A (ent n ?X) (ent n ?Y)"
    using inv s by (intro row_equiv_step [OF _ E X Y]) (auto simp: invert_inv_def)
  have entX: "ent n ?X r c = (if r = i then inverse (ent n X i i) * ent n X r c else ent n X r c)"
    if "r < n" "c < n" for r c
    using meqD [OF X that] mmul_scalem [of r n i "GF ?t"] that t by simp
  obtain X' Y' where el: "eliminate n i (?X, ?Y) = (X', Y')"
    "n * n \<le> length X'" "n * n \<le> length Y'" "row_equiv n A (ent n X') (ent n Y')"
    and ent': "\<And>r c. r < n \<Longrightarrow> c < n \<Longrightarrow> ent n X' r c =
      (if r \<noteq> i then ent n ?X r c + ent n ?X r i * ent n ?X i c else ent n ?X r c)"
    by (rule eliminate_ent [OF _ _ i eq]) (use inv s in \<open>auto simp: invert_inv_def arr_simps\<close>)
  have "ent n X' r c = idm r c" if r: "r < n" and c: "c < Suc i" for r c
  proof (cases "c = i")
    case True
    with r i nz show ?thesis by (simp add: ent' entX idm_def)
  next
    case False
    with c i have ci: "c < i" "c < n" by auto
    with inv s r i have "ent n X r c = idm r c" "ent n X i c = 0"
      by (auto simp: invert_inv_def idm_def)
    with r i ci show ?thesis by (auto simp: ent' entX idm_def)
  qed
  with el show ?thesis
    by (simp add: invert_inv_def invert_step_def s Let_def)
qed

lemma invert_loop_correct:
  assumes "invert_inv n A i s" "i \<le> n" "invert_loop n [i..<n] s = (ret, s')"
  shows "(ret = 0 \<and> invert_inv n A n s') \<or> (ret = - 1 \<and> singular n A)"
  using assms
proof (induction "n - i" arbitrary: i s)
  case 0
  then show ?case by simp
next
  case (Suc m)
  then have i: "i < n" "[i..<n] = i # [Suc i..<n]" by (auto simp: upt_conv_Cons)
  show ?case
  proof (cases "pivot_step n i s")
    case None
    with Suc.prems i show ?thesis by (auto dest: pivot_step_None)
  next
    case (Some s1)
    then have "invert_inv n A (Suc i) (invert_step n i s1)"
      using pivot_step_Some [OF Suc.prems(1) i(1) Some] i(1) by (auto intro: invert_step_inv)
    moreover have "invert_loop n [Suc i..<n] (invert_step n i s1) = (ret, s')"
      using Suc.prems(3) i(2) Some by simp
    ultimately show ?thesis
      using Suc.hyps(1) [of "Suc i"] Suc.hyps(2) i(1) by simp
  qed
qed

theorem gf_invert_matrix_cases:
  assumes "n * n \<le> length in_mat" "n * n \<le> length out_mat"
    and run: "gf_invert_matrix in_mat out_mat n = (ret, in', out')"
  obtains "ret = 0" "meq n (ent n in') idm"
      "meq n (mmul n (ent n out') (ent n in_mat)) idm"
      "meq n (mmul n (ent n in_mat) (ent n out')) idm" "n * n \<le> length out'"
    | "ret = - 1" "singular n (ent n in_mat)"
proof -
  have "invert_inv n (ent n in_mat) 0 (in_mat, set_identity n (memset0 (n * n) out_mat))"
    using assms ent_set_identity [of n out_mat]
    by (simp add: invert_inv_def arr_simps row_equiv_init)
  from invert_loop_correct [OF this _ run [unfolded gf_invert_matrix_def]]
  consider "ret = 0" "invert_inv n (ent n in_mat) n (in', out')"
    | "ret = - 1" "singular n (ent n in_mat)" by auto
  then show thesis
  proof cases
    case 1
    then have id: "meq n (ent n in') idm" and len: "n * n \<le> length out'"
      and eq: "row_equiv n (ent n in_mat) (ent n in') (ent n out')"
      by (auto simp: invert_inv_def meq_def)
    from eq obtain F where YA: "meq n (mmul n (ent n out') (ent n in_mat)) (ent n in')"
      and F: "meq n (mmul n F (ent n in')) (ent n in_mat)" "meq n (mmul n F (ent n out')) idm"
      by (auto simp: row_equiv_def)
    have "meq n F (mmul n F idm)" by (rule meqI) (simp add: mmul_idm_right)
    also have "meq n \<dots> (mmul n F (ent n in'))"
      using id by (intro mmul_cong) (simp_all add: meq_sym)
    also have "meq n \<dots> (ent n in_mat)" by (rule F)
    finally have "meq n (mmul n (ent n in_mat) (ent n out')) (mmul n F (ent n out'))"
      by (intro mmul_cong) (simp_all add: meq_sym)
    also have "meq n \<dots> idm" by (rule F)
    finally show thesis
      using that(1) 1(1) id len meq_trans [OF YA id] by blast
  qed (rule that(2))
qed

section \<open>The generator matrices\<close>

lemma fold_identity_top:
  assumes "k * k \<le> length a"
  shows "length (set_identity k a) = length a \<and>
    (\<forall>p. set_identity k a ! p = (if \<exists>i<k. p = k * i + i then 1 else a ! p))"
proof -
  let ?P = "\<lambda>m a'. length a' = length a \<and>
    (\<forall>p. a' ! p = (if \<exists>i<m. p = k * i + i then 1 else a ! p))"
  have "?P k (set_identity k a)"
    unfolding set_identity_def
  proof (rule fold_upto_inv [where P = ?P])
    fix m a' assume m: "m < k" and P: "?P m a'"
    have "k * m + m < length a'"
      using m P assms index_less [of m k m "length a"] by (simp add: mult.commute)
    with P show "?P (Suc m) (a'[k * m + m := 1])"
      by (auto simp: nth_list_update less_Suc_eq)
  qed simp
  then show ?thesis .
qed

lemma set_identity_top:
  assumes "k \<le> m" "k * m \<le> length a" "r < k" "c < k"
  shows "set_identity k (memset0 (k * m) a) ! (r * k + c) = (if r = c then 1 else 0)"
proof -
  have kk: "k * k \<le> length a" using assms by (meson le_trans mult_le_mono2)
  have "r * k + c < k * m"
    using index_less [of r k c "k * m"] assms by simp
  moreover have "(r * k + c = k * i + i) = (r = i \<and> c = i)" if "i < k" for i
    using index_eq [of c k i r i] assms that by (simp add: mult.commute)
  then have "(\<exists>i<k. r * k + c = k * i + i) = (r = c)" using assms by auto
  ultimately show ?thesis
    using assms kk fold_identity_top [of k "memset0 (k * m) a"]
    by (simp add: arr_simps memset0_nth)
qed

lemma set_identity_top':
  "k \<le> m \<Longrightarrow> k * m \<le> length a \<Longrightarrow> r < k \<Longrightarrow> c < k \<Longrightarrow>
     set_identity k (memset0 (k * m) a) ! (k * r + c) = (if r = c then 1 else 0)"
  using set_identity_top [of k m a r c] by (simp add: mult.commute [of k r])

lemma cauchy_loop:
  fixes f :: "nat \<Rightarrow> nat \<Rightarrow> u8"
  assumes "k \<le> m" "k * m \<le> length a"
  defines "s \<equiv> fold (\<lambda>i s. fold (\<lambda>j (a, p). (a[p := f i j], p + 1)) [0..<k] s)
      [k..<m] (a, k * k)"
  shows "length (fst s) = length a"
    and "r < k \<Longrightarrow> c < k \<Longrightarrow> fst s ! (r * k + c) = a ! (r * k + c)"
    and "k \<le> r \<Longrightarrow> r < m \<Longrightarrow> c < k \<Longrightarrow> fst s ! (r * k + c) = f r c"
proof -
  let ?P = "\<lambda>i (a', p). p = k * i \<and> length a' = length a \<and>
    (\<forall>r<m. \<forall>c<k. a' ! (r * k + c) = (if k \<le> r \<and> r < i then f r c else a ! (r * k + c)))"
  have row: "?P (Suc i) (fold (\<lambda>j (a, p). (a[p := f i j], p + 1)) [0..<k] s)"
    if i: "k \<le> i" "i < m" and Pi: "?P i s" for i s
  proof -
    let ?Q = "\<lambda>j (a', p). p = k * i + j \<and> length a' = length a \<and>
      (\<forall>r<m. \<forall>c<k. a' ! (r * k + c) =
        (if k \<le> r \<and> r < i \<or> r = i \<and> c < j then f r c else a ! (r * k + c)))"
    have "?Q k (fold (\<lambda>j (a, p). (a[p := f i j], p + 1)) [0..<k] s)"
    proof (rule fold_upto_inv [where P = ?Q])
      fix j s assume j: "j < k" and Q: "?Q j s"
      obtain a' p where s: "s = (a', p)" by (cases s)
      have "i * k + j < Suc i * k" using j by simp
      also have "\<dots> \<le> m * k" using i by (intro mult_le_mono1) simp
      finally have "i * k + j < length a'" using Q s assms by (simp add: mult.commute)
      with Q s j show "?Q (Suc j) (case s of (a, p) \<Rightarrow> (a[p := f i j], p + 1))"
        by (auto simp: nth_list_update mult.commute [of k] index_eq less_Suc_eq)
    qed (use Pi in auto)
    then show ?thesis using i by (auto simp: less_Suc_eq)
  qed
  have "l \<le> m - k \<Longrightarrow> ?P (k + l) (fold (\<lambda>i s. fold (\<lambda>j (a, p). (a[p := f i j], p + 1)) [0..<k] s)
      [k..<k + l] (a, k * k))" for l
    by (induction l) (use assms row in \<open>auto simp: upt_Suc_append\<close>)
  from this [of "m - k"] assms have "?P m s" by (simp add: s_def)
  then show "length (fst s) = length a"
    and "r < k \<Longrightarrow> c < k \<Longrightarrow> fst s ! (r * k + c) = a ! (r * k + c)"
    and "k \<le> r \<Longrightarrow> r < m \<Longrightarrow> c < k \<Longrightarrow> fst s ! (r * k + c) = f r c"
    using assms(1) by (auto split: prod.splits)
qed

lemma length_cauchy1: "k \<le> m \<Longrightarrow> k * m \<le> length a \<Longrightarrow>
    length (gf_gen_cauchy1_matrix a m k) = length a"
  unfolding gf_gen_cauchy1_matrix_def
  by (subst cauchy_loop) (simp_all add: arr_simps)

lemma cauchy1_top:
  "k \<le> m \<Longrightarrow> k * m \<le> length a \<Longrightarrow> r < k \<Longrightarrow> c < k \<Longrightarrow>
     ent k (gf_gen_cauchy1_matrix a m k) r c = idm r c"
  unfolding gf_gen_cauchy1_matrix_def ent_def
  by (subst cauchy_loop(2))
    (simp_all add: arr_simps set_identity_top idm_def gf_simps)

lemma cauchy1_bottom:
  "k \<le> m \<Longrightarrow> k * m \<le> length a \<Longrightarrow> k \<le> r \<Longrightarrow> r < m \<Longrightarrow> c < k \<Longrightarrow>
     ent k (gf_gen_cauchy1_matrix a m k) r c = inverse (GF (word_of_nat r) + GF (word_of_nat c))"
  unfolding gf_gen_cauchy1_matrix_def ent_def
  by (subst cauchy_loop(3))
    (simp_all add: arr_simps gf_simps of_nat_xor_eq)

text \<open>The parity rows of the Reed-Solomon matrix are the powers of successive generators.\<close>

lemma rs_row:
  fixes gen :: u8
  assumes i: "k * i + k \<le> length a"
  defines "s \<equiv> fold (\<lambda>j (a, p). (a[k * i + j := p], gf_mul p gen)) [0..<k] (a, 1)"
  shows "length (fst s) = length a"
    and "c < k \<Longrightarrow> GF (fst s ! (k * i + c)) = GF gen ^ c"
    and "r \<noteq> i \<Longrightarrow> c < k \<Longrightarrow> fst s ! (k * r + c) = a ! (k * r + c)"
proof -
  let ?P = "\<lambda>j (a', p). length a' = length a \<and> GF p = GF gen ^ j \<and>
    (\<forall>r. \<forall>c<k. (r = i \<and> c < j \<longrightarrow> GF (a' ! (k * r + c)) = GF gen ^ c) \<and>
      (\<not> (r = i \<and> c < j) \<longrightarrow> a' ! (k * r + c) = a ! (k * r + c)))"
  have "?P k s"
    unfolding s_def
  proof (rule fold_upto_inv [where P = ?P])
    fix j s assume "j < k" "?P j s"
    then show "?P (Suc j) (case s of (a, p) \<Rightarrow> (a[k * i + j := p], gf_mul p gen))"
      using i by (auto simp: nth_list_update index_eq' less_Suc_eq gf_simps)
  qed (simp add: gf_simps)
  then show "length (fst s) = length a"
    and "c < k \<Longrightarrow> GF (fst s ! (k * i + c)) = GF gen ^ c"
    and "r \<noteq> i \<Longrightarrow> c < k \<Longrightarrow> fst s ! (k * r + c) = a ! (k * r + c)"
    by (auto split: prod.splits)
qed

lemma rs_matrix_entries:
  assumes km: "k \<le> m" "k * m \<le> length a"
  shows "length (gf_gen_rs_matrix a m k) = length a"
    and "r < k \<Longrightarrow> c < k \<Longrightarrow> ent k (gf_gen_rs_matrix a m k) r c = idm r c"
    and "k \<le> r \<Longrightarrow> r < m \<Longrightarrow> c < k \<Longrightarrow>
      ent k (gf_gen_rs_matrix a m k) r c = (GF 2 ^ (r - k)) ^ c"
proof -
  let ?a = "set_identity k (memset0 (k * m) a)"
  let ?f = "\<lambda>i (a, gen). let (a, p) = fold (\<lambda>j (a, p). (a[k * i + j := p], gf_mul p gen)) [0..<k] (a, 1)
         in (a, gf_mul gen 2)"
  let ?P = "\<lambda>l (a', gen). length a' = length a \<and> GF gen = GF 2 ^ l \<and>
    (\<forall>r<m. \<forall>c<k. GF (a' ! (k * r + c)) =
      (if k \<le> r \<and> r < k + l then (GF 2 ^ (r - k)) ^ c else GF (?a ! (k * r + c))))"
  have P: "l \<le> m - k \<Longrightarrow> ?P l (fold ?f [k..<k + l] (?a, 1))" for l
  proof (induction l)
    case 0
    then show ?case by (auto simp: arr_simps gf_simps)
  next
    case (Suc l)
    obtain a' gen where s: "fold ?f [k..<k + l] (?a, 1) = (a', gen)"
      by (cases "fold ?f [k..<k + l] (?a, 1)")
    have len: "k * (k + l) + k \<le> length a'"
    proof -
      have "k * Suc (k + l) \<le> k * m" using Suc.prems km by (intro mult_le_mono2) simp
      then show ?thesis using Suc s km by simp
    qed
    let ?r = "fold (\<lambda>j (a, p). (a[k * (k + l) + j := p], gf_mul p gen)) [0..<k] (a', 1)"
    have eq: "fold ?f [k..<k + Suc l] (?a, 1) = (fst ?r, gf_mul gen 2)"
      by (simp only: add_Suc_right upt_Suc_append le_add1 fold_append fold_simps o_apply id_apply s)
        (simp split: prod.split)
    have "GF (fst ?r ! (k * r + c)) =
        (if k \<le> r \<and> r < k + Suc l then (GF 2 ^ (r - k)) ^ c else GF (?a ! (k * r + c)))"
      if "r < m" "c < k" for r c
      using Suc s that rs_row(2) [OF len, of c gen] rs_row(3) [OF len, of r c gen]
      by (cases "r = k + l") auto
    then show ?case
      using Suc s rs_row(1) [OF len, of gen] by (simp only: eq) (simp add: gf_simps)
  qed
  from P [of "m - k"] km
  have "length (fst (fold ?f [k..<m] (?a, 1))) = length a \<and>
      (\<forall>r<m. \<forall>c<k. GF (fst (fold ?f [k..<m] (?a, 1)) ! (k * r + c)) =
      (if k \<le> r then (GF 2 ^ (r - k)) ^ c else GF (?a ! (k * r + c))))"
    by (auto split: prod.splits)
  then show "length (gf_gen_rs_matrix a m k) = length a"
    and "r < k \<Longrightarrow> c < k \<Longrightarrow> ent k (gf_gen_rs_matrix a m k) r c = idm r c"
    and "k \<le> r \<Longrightarrow> r < m \<Longrightarrow> c < k \<Longrightarrow>
      ent k (gf_gen_rs_matrix a m k) r c = (GF 2 ^ (r - k)) ^ c"
    using km by (simp_all add: gf_gen_rs_matrix_def ent_def mult.commute [of _ k]
        set_identity_top' idm_def gf_simps)
qed

section \<open>Properties\<close>

text \<open>C9: \<open>gf_invert_matrix\<close> either returns 0 and leaves a two-sided inverse of the input in
  \<open>out_mat\<close>, or returns -1, and then the input is singular.\<close>

theorem gf_invert_matrix_correct:
  assumes "n * n \<le> length in_mat" "n * n \<le> length out_mat"
  shows "case gf_invert_matrix in_mat out_mat n of (ret, in', out') \<Rightarrow>
    (if singular n (ent n in_mat) then ret = - 1
     else ret = 0 \<and> meq n (mmul n (ent n out') (ent n in_mat)) idm \<and>
       meq n (mmul n (ent n in_mat) (ent n out')) idm)"
proof -
  obtain ret in' out' where run: "gf_invert_matrix in_mat out_mat n = (ret, in', out')"
    by (cases "gf_invert_matrix in_mat out_mat n")
  from assms run show ?thesis
    by (rule gf_invert_matrix_cases) (auto simp: run dest: left_inverse_not_singular)
qed

theorem gf_invert_matrix_correct_witness:
  "fst (gf_invert_matrix [0, 1, 2, 3] [9, 9, 9, 9] 2) = 0 \<and>
   meq 2 (mmul 2 (ent 2 [0, 1, 2, 3]) (ent 2 (snd (snd (gf_invert_matrix [0, 1, 2, 3] [9, 9, 9, 9] 2))))) idm"
proof -
  have "gf_invert_matrix [0, 1, 2, 3] [9, 9, 9, 9] 2 = (0, [1, 0, 0, 1], [0x8f, 0x8e, 1, 0])"
    by code_simp
  with gf_invert_matrix_correct [of 2 "[0, 1, 2, 3]" "[9, 9, 9, 9]"] show ?thesis
    by (simp split: if_splits)
qed

end
