(* ===== verification/Erasure_Code.thy ===== *)
theory Erasure_Code
  imports GF_Matrix
begin

text \<open>
  The encoding routines of \<^verbatim>\<open>erasure_code/ec_base.c\<close>, their aliases in
  \<^verbatim>\<open>ec_base_aliases.c\<close>, the row dispatcher \<open>ec_encode_data_avx\<close> of
  \<^verbatim>\<open>ec_highlevel_func.c\<close> and the AVX dot-product kernels it calls. Buffers are byte
  lists, an array of buffers is a list of byte lists, and source and destination buffers
  are distinct objects. The lemmas show that every routine computes the matrix product
  over the field, so the optimised and the reference encoders agree.
\<close>

section \<open>Expanded multiplication tables\<close>

text \<open>The bytes of a 64-bit store on a little-endian machine.\<close>

definition u64_bytes :: "u64 \<Rightarrow> u8 list" where
  "u64_bytes w = map (\<lambda>i. ucast (drop_bit (8 * i) w)) [0..<8]"

text \<open>The \<^verbatim>\<open>__x86_64__\<close> branch: four 64-bit stores.\<close>

definition gf_vect_mul_init :: "u8 \<Rightarrow> u8 list" where
  "gf_vect_mul_init c =
     (let c2 = gf_mul2 c; c4 = gf_mul2 c2; c8 = gf_mul2 c4;
          v1 = ucast c * 0x0100010001000100;
          v2 = ucast c2 * 0x0101000001010000;
          v4 = ucast c4 * 0x0101010100000000;
          v8 = ucast c8 * 0x0101010101010101;
          v4 = v1 XOR v2 XOR v4;
          t0 = v4; t1 = v8 XOR v4;
          c17 = gf_mul2 c8; c18 = gf_mul2 c17; c20 = gf_mul2 c18; c24 = gf_mul2 c20;
          v10 = ucast c17 * 0x0100010001000100;
          v20 = ucast c18 * 0x0101000001010000;
          v40 = ucast c20 * 0x0101010100000000;
          v80 = ucast c24 * 0x0101010101010101;
          v40 = v10 XOR v20 XOR v40;
          t2 = v40; t3 = v80 XOR v40
      in u64_bytes t0 @ u64_bytes t1 @ u64_bytes t2 @ u64_bytes t3)"

text \<open>The byte-wise branch for other targets.\<close>

definition gf_vect_mul_init_generic :: "u8 \<Rightarrow> u8 list" where
  "gf_vect_mul_init_generic c =
     (let c2 = gf_mul2 c; c4 = gf_mul2 c2; c8 = gf_mul2 c4;
          c3 = c2 XOR c; c5 = c4 XOR c; c6 = c4 XOR c2; c7 = c4 XOR c3;
          c9 = c8 XOR c; c10 = c8 XOR c2; c11 = c8 XOR c3; c12 = c8 XOR c4;
          c13 = c8 XOR c5; c14 = c8 XOR c6; c15 = c8 XOR c7;
          c17 = gf_mul2 c8; c18 = gf_mul2 c17; c19 = c18 XOR c17; c20 = gf_mul2 c18;
          c21 = c20 XOR c17; c22 = c20 XOR c18; c23 = c20 XOR c19; c24 = gf_mul2 c20;
          c25 = c24 XOR c17; c26 = c24 XOR c18; c27 = c24 XOR c19; c28 = c24 XOR c20;
          c29 = c24 XOR c21; c30 = c24 XOR c22; c31 = c24 XOR c23
      in [0, c, c2, c3, c4, c5, c6, c7, c8, c9, c10, c11, c12, c13, c14, c15,
          0, c17, c18, c19, c20, c21, c22, c23, c24, c25, c26, c27, c28, c29, c30, c31])"

text \<open>A block store, and the table expansion with its two moving pointers.\<close>

definition store_at :: "nat \<Rightarrow> 'a list \<Rightarrow> 'a list \<Rightarrow> 'a list" where
  "store_at off xs d = take off d @ xs @ drop (off + length xs) d"

definition ec_init_tables :: "nat \<Rightarrow> nat \<Rightarrow> u8 list \<Rightarrow> u8 list \<Rightarrow> u8 list" where
  "ec_init_tables k rows a g_tbls =
     fst (fold (\<lambda>i s. fold (\<lambda>j (g, p, off).
         (store_at off (gf_vect_mul_init (a ! p)) g, p + 1, off + 32)) [0..<k] s)
       [0..<rows] (g_tbls, 0, 0))"

section \<open>Reference encoders\<close>

definition gf_vect_dot_prod_base ::
  "nat \<Rightarrow> nat \<Rightarrow> u8 list \<Rightarrow> u8 list list \<Rightarrow> u8 list \<Rightarrow> u8 list" where
  "gf_vect_dot_prod_base len vlen v src dest =
     fold (\<lambda>i dest. dest[i :=
       fold (\<lambda>j s. s XOR gf_mul (src ! j ! i) (v ! (j * 32 + 1))) [0..<vlen] 0]) [0..<len] dest"

definition gf_vect_mad_base ::
  "nat \<Rightarrow> nat \<Rightarrow> nat \<Rightarrow> u8 list \<Rightarrow> u8 list \<Rightarrow> u8 list \<Rightarrow> u8 list" where
  "gf_vect_mad_base len vec vec_i v src dest =
     fold (\<lambda>i dest. dest[i := dest ! i XOR gf_mul (src ! i) (v ! (vec_i * 32 + 1))])
       [0..<len] dest"

definition ec_encode_data_base ::
  "nat \<Rightarrow> nat \<Rightarrow> nat \<Rightarrow> u8 list \<Rightarrow> u8 list list \<Rightarrow> u8 list list \<Rightarrow> u8 list list" where
  "ec_encode_data_base len srcs dests v src dest =
     fold (\<lambda>l dest. dest[l := fold (\<lambda>i d. d[i :=
         fold (\<lambda>j s. s XOR gf_mul (src ! j ! i) (v ! (j * 32 + l * srcs * 32 + 1))) [0..<srcs] 0])
         [0..<len] (dest ! l)]) [0..<dests] dest"

definition ec_encode_data_update_base ::
  "nat \<Rightarrow> nat \<Rightarrow> nat \<Rightarrow> nat \<Rightarrow> u8 list \<Rightarrow> u8 list \<Rightarrow> u8 list list \<Rightarrow> u8 list list" where
  "ec_encode_data_update_base len k rows vec_i v data dest =
     fold (\<lambda>l dest. dest[l := fold (\<lambda>i d. d[i :=
         d ! i XOR gf_mul (data ! i) (v ! (vec_i * 32 + l * k * 32 + 1))])
         [0..<len] (dest ! l)]) [0..<rows] dest"

definition gf_vect_mul_base :: "nat \<Rightarrow> u8 list \<Rightarrow> u8 list \<Rightarrow> u8 list \<Rightarrow> u8 list" where
  "gf_vect_mul_base len a src dest =
     (let c = a ! 1 in fold (\<lambda>i dest. dest[i := gf_mul c (src ! i)]) [0..<len] dest)"

text \<open>The aliases of \<^verbatim>\<open>ec_base_aliases.c\<close>.\<close>

definition gf_vect_dot_prod where "gf_vect_dot_prod = gf_vect_dot_prod_base"
definition gf_vect_mad where "gf_vect_mad = gf_vect_mad_base"
definition ec_encode_data where "ec_encode_data = ec_encode_data_base"
definition ec_encode_data_update where "ec_encode_data_update = ec_encode_data_update_base"
definition gf_vect_mul :: "nat \<Rightarrow> u8 list \<Rightarrow> u8 list \<Rightarrow> u8 list \<Rightarrow> int \<times> u8 list" where
  "gf_vect_mul len a src dest = (0, gf_vect_mul_base len a src dest)"

section \<open>The single-table variant\<close>

text \<open>\<^verbatim>\<open>gf_vect_dot_prod_1tbl.c\<close> compares a lookup in one 64 KB table with the reference.\<close>

definition mk_gf_mul_table :: "u8 list \<Rightarrow> u8 list" where
  "mk_gf_mul_table table =
     fold (\<lambda>i t. fold (\<lambda>j t. t[i * 256 + j := gf_mul (word_of_nat i) (word_of_nat j)]) [0..<256] t)
       [0..<256] table"

definition gf_vect_dot_prod_ref :: "nat \<Rightarrow> nat \<Rightarrow> u8 list \<Rightarrow> u8 list list \<Rightarrow> u8 list \<Rightarrow> u8 list" where
  "gf_vect_dot_prod_ref len vlen v src dest =
     fold (\<lambda>i d. d[i := fold (\<lambda>j s. s XOR gf_mul (src ! j ! i) (v ! j)) [0..<vlen] 0]) [0..<len] dest"

definition gf_vect_dot_prod_1tbl ::
  "nat \<Rightarrow> nat \<Rightarrow> u8 list \<Rightarrow> u8 list \<Rightarrow> u8 list list \<Rightarrow> u8 list \<Rightarrow> u8 list" where
  "gf_vect_dot_prod_1tbl len vlen table v src dest =
     fold (\<lambda>i d. d[i := fold (\<lambda>j s. s XOR table ! (unat (v ! j) * 256 + unat (src ! j ! i)))
         [0..<vlen] 0]) [0..<len] dest"

section \<open>AVX kernels and the row dispatcher\<close>

text \<open>
  One byte of one output row: for every source, the two 16-entry table halves are looked
  up with the nibbles of the source byte (\<^verbatim>\<open>vpand\<close>, \<^verbatim>\<open>vpsraw 4\<close>, \<^verbatim>\<open>vpand\<close>,
  \<^verbatim>\<open>vpshufb\<close>) and XORed in. The source loop tests its bound at the end, so it runs at
  least once.
\<close>

definition avx_byte :: "nat \<Rightarrow> u8 list \<Rightarrow> nat \<Rightarrow> u8 list list \<Rightarrow> nat \<Rightarrow> u8" where
  "avx_byte vec g off src p =
     fold (\<lambda>v s. let x = src ! v ! p in
         s XOR (g ! (off + 32 * v + 16 + unat (drop_bit 4 x AND 0x0f)) XOR
                g ! (off + 32 * v + unat (x AND 0x0f)))) [0..<max 1 vec] 0"

definition avx_block ::
  "nat \<Rightarrow> nat \<Rightarrow> u8 list \<Rightarrow> nat \<Rightarrow> u8 list list \<Rightarrow> nat \<Rightarrow> nat \<Rightarrow> u8 list list \<Rightarrow> u8 list list" where
  "avx_block n vec g off src cof pos coding =
     fold (\<lambda>r c. c[cof + r := fold (\<lambda>t d. d[pos + t := avx_byte vec g (off + r * vec * 32) src (pos + t)])
         [0..<16] (c ! (cof + r))]) [0..<n] coding"

text \<open>
  The 16-byte loop with the overlapped last pass at \<^verbatim>\<open>len - 16\<close>. It is entered with
  \<open>pos \<le> len - 16\<close>, so the first branch is never taken.
\<close>

function avx_loop16 ::
  "nat \<Rightarrow> nat \<Rightarrow> nat \<Rightarrow> u8 list \<Rightarrow> nat \<Rightarrow> u8 list list \<Rightarrow> nat \<Rightarrow> nat \<Rightarrow> u8 list list \<Rightarrow> u8 list list" where
  "avx_loop16 n len vec g off src cof pos coding =
     (if len < pos + 16 then coding
      else let coding = avx_block n vec g off src cof pos coding; pos' = pos + 16
           in if pos' \<le> len - 16 then avx_loop16 n len vec g off src cof pos' coding
              else if pos' = len then coding
              else avx_loop16 n len vec g off src cof (len - 16) coding)"
  by pat_completeness auto
termination
  by (relation "measure (\<lambda>(n, len, vec, g, off, src, cof, pos, coding). len - pos)") auto

declare avx_loop16.simps [simp del]

definition gf_nvect_dot_prod_avx ::
  "nat \<Rightarrow> nat \<Rightarrow> nat \<Rightarrow> u8 list \<Rightarrow> nat \<Rightarrow> u8 list list \<Rightarrow> nat \<Rightarrow> u8 list list \<Rightarrow> int \<times> u8 list list" where
  "gf_nvect_dot_prod_avx n len vec g off src cof coding =
     (if len < 16 then (1, coding) else (0, avx_loop16 n len vec g off src cof 0 coding))"

definition gf_vect_dot_prod_avx where "gf_vect_dot_prod_avx = gf_nvect_dot_prod_avx 1"
definition gf_2vect_dot_prod_avx where "gf_2vect_dot_prod_avx = gf_nvect_dot_prod_avx 2"
definition gf_3vect_dot_prod_avx where "gf_3vect_dot_prod_avx = gf_nvect_dot_prod_avx 3"
definition gf_4vect_dot_prod_avx where "gf_4vect_dot_prod_avx = gf_nvect_dot_prod_avx 4"

text \<open>The \<^verbatim>\<open>while (rows >= 4)\<close> loop moves the table pointer and the row pointer.\<close>

fun avx_rows ::
  "nat \<Rightarrow> nat \<Rightarrow> nat \<Rightarrow> u8 list \<Rightarrow> nat \<Rightarrow> u8 list list \<Rightarrow> nat \<Rightarrow> u8 list list \<Rightarrow> u8 list list" where
  "avx_rows len k rows g off data cof coding =
     (if rows \<ge> 4
      then avx_rows len k (rows - 4) g (off + 4 * k * 32) data (cof + 4)
             (snd (gf_4vect_dot_prod_avx len k g off data cof coding))
      else if rows = 3 then snd (gf_3vect_dot_prod_avx len k g off data cof coding)
      else if rows = 2 then snd (gf_2vect_dot_prod_avx len k g off data cof coding)
      else if rows = 1 then snd (gf_vect_dot_prod_avx len k g off data cof coding)
      else coding)"

declare avx_rows.simps [simp del]

definition ec_encode_data_avx ::
  "nat \<Rightarrow> nat \<Rightarrow> nat \<Rightarrow> u8 list \<Rightarrow> u8 list list \<Rightarrow> u8 list list \<Rightarrow> u8 list list" where
  "ec_encode_data_avx len k rows g_tbls data coding =
     (if len < 16 then ec_encode_data_base len k rows g_tbls data coding
      else avx_rows len k rows g_tbls 0 data 0 coding)"

section \<open>Contents of the expanded tables\<close>

lemma u64_bytes_xor: "u64_bytes (a XOR b) = map2 (XOR) (u64_bytes a) (u64_bytes b)"
  by (simp add: u64_bytes_def unsigned_xor_eq upt_conv_Cons)

lemma byte_of_mul:
  assumes K: "K * 255 < 2 ^ 64" and low: "255 * (K mod 2 ^ (8 * i)) < 2 ^ (8 * i)"
  shows "(ucast (drop_bit (8 * i) (ucast c * word_of_nat K :: u64)) :: u8) =
     c * word_of_nat (K div 2 ^ (8 * i))"
proof -
  let ?n = "unat c" and ?m = "(2 :: nat) ^ (8 * i)"
  have n: "?n \<le> 255" using unat_u8_less [of c] by simp
  have nK: "?n * K < 2 ^ 64"
    using le_less_trans [OF mult_le_mono2 [OF n, of K] K] by (simp only: mult.commute)
  have "unat (ucast c * word_of_nat K :: u64) = ?n * K"
  proof -
    have "(ucast c * word_of_nat K :: u64) = word_of_nat (?n * K)" by simp
    then show ?thesis using nK by (simp only: unat_of_nat) (simp del: of_nat_mult)
  qed
  moreover have "?n * K div ?m = ?n * (K div ?m)"
  proof -
    have "?n * K = ?n * (K div ?m) * ?m + ?n * (K mod ?m)"
      by (metis div_mult_mod_eq distrib_left mult.assoc)
    moreover have "?n * (K mod ?m) < ?m"
      using low mult_le_mono1 [OF n, of "K mod ?m"] by linarith
    ultimately show ?thesis by (simp add: div_mult_self3)
  qed
  ultimately have "drop_bit (8 * i) (unat (ucast c * word_of_nat K :: u64)) = ?n * (K div ?m)"
    by (simp add: drop_bit_eq_div)
  then have "unat (drop_bit (8 * i) (ucast c * word_of_nat K :: u64)) = ?n * (K div ?m)"
    by (simp add: unat_drop_bit_eq)
  then have "(ucast (drop_bit (8 * i) (ucast c * word_of_nat K :: u64)) :: u8) =
      word_of_nat (?n * (K div ?m))"
    by (metis of_nat_unat)
  then show ?thesis by simp
qed

lemma u64_bytes_mul:
  assumes "K * 255 < 2 ^ 64" "list_all (\<lambda>i. 255 * (K mod 2 ^ (8 * i)) < 2 ^ (8 * i)) [0..<8]"
  shows "u64_bytes (ucast c * word_of_nat K) =
     map (\<lambda>i. c * word_of_nat (K div 2 ^ (8 * i) mod 256)) [0..<8]"
proof -
  have m: "word_of_nat (x mod 256) = (word_of_nat x :: u8)" for x
    by (simp add: word_of_nat_eq_iff take_bit_eq_mod)
  show ?thesis
    unfolding u64_bytes_def m
    using assms by (intro map_cong refl byte_of_mul) (simp_all add: list_all_iff)
qed

lemma u64_bytes_patterns:
  "u64_bytes (ucast c * 0x0100010001000100) = [0, c, 0, c, 0, c, 0, c]"
  "u64_bytes (ucast c * 0x0101000001010000) = [0, 0, c, c, 0, 0, c, c]"
  "u64_bytes (ucast c * 0x0101010100000000) = [0, 0, 0, 0, c, c, c, c]"
  "u64_bytes (ucast c * 0x0101010101010101) = [c, c, c, c, c, c, c, c]"
  using u64_bytes_mul [of "0x0100010001000100" c] u64_bytes_mul [of "0x0101000001010000" c]
    u64_bytes_mul [of "0x0101010100000000" c] u64_bytes_mul [of "0x0101010101010101" c]
  by (simp_all add: upt_conv_Cons)

theorem gf_vect_mul_init_eq_generic: "gf_vect_mul_init c = gf_vect_mul_init_generic c"
  by (simp add: gf_vect_mul_init_def gf_vect_mul_init_generic_def Let_def u64_bytes_xor
      u64_bytes_patterns xor.commute xor.left_commute)

lemma length_gf_vect_mul_init [simp]: "length (gf_vect_mul_init c) = 32"
  by (simp add: gf_vect_mul_init_eq_generic gf_vect_mul_init_generic_def Let_def)

theorem gf_vect_mul_init_table:
  "gf_vect_mul_init c =
     map (\<lambda>i. gf_mul c (word_of_nat i)) [0..<16] @ map (\<lambda>i. gf_mul c (word_of_nat (16 * i))) [0..<16]"
proof -
  have m: "gf_mul c b = gf_mul_spec c b" for b by (rule gf_mul_eq_spec)
  have "gf_vect_mul_init_generic c =
     map (\<lambda>i. gf_mul c (word_of_nat i)) [0..<16] @ map (\<lambda>i. gf_mul c (word_of_nat (16 * i))) [0..<16]"
    by (simp add: gf_vect_mul_init_generic_def Let_def upt_conv_Cons m gf_mul_spec_unfold
        numeral_eq_Suc xor.commute xor.left_commute)
  then show ?thesis by (simp only: gf_vect_mul_init_eq_generic)
qed

section \<open>The reference encoders compute the matrix product\<close>

lemma GF_xor_fold:
  "GF (fold (\<lambda>j s. s XOR f j) [0..<n] 0) = (\<Sum>j<n. GF (f j))"
  by (induction n) (simp_all add: gf_simps)

text \<open>Coefficient (l, j) of an expanded table: entry 1 of block \<open>l * k + j\<close>.\<close>

definition coeff :: "nat \<Rightarrow> u8 list \<Rightarrow> mat" where
  "coeff k v l j = GF (v ! (j * 32 + l * k * 32 + 1))"

text \<open>The value an encoder must store at position \<open>i\<close> of row \<open>l\<close>.\<close>

definition encoded :: "nat \<Rightarrow> mat \<Rightarrow> u8 list list \<Rightarrow> nat \<Rightarrow> nat \<Rightarrow> gf256" where
  "encoded k C src l i = (\<Sum>j<k. GF (src ! j ! i) * C l j)"

text \<open>Rows \<open>cof\<close> to \<open>cof + n\<close> of the result hold \<open>F\<close> in their first \<open>q\<close> bytes, the rest is kept.\<close>

definition rows_filled ::
  "nat \<Rightarrow> nat \<Rightarrow> nat \<Rightarrow> (nat \<Rightarrow> nat \<Rightarrow> u8) \<Rightarrow> u8 list list \<Rightarrow> u8 list list \<Rightarrow> bool" where
  "rows_filled cof n q F D D' \<longleftrightarrow> length D' = length D \<and>
     (\<forall>x. length (D' ! x) = length (D ! x)) \<and>
     (\<forall>x p. D' ! x ! p = (if cof \<le> x \<and> x < cof + n \<and> p < q then F (x - cof) p else D ! x ! p))"

definition room :: "nat \<Rightarrow> nat \<Rightarrow> u8 list list \<Rightarrow> bool" where
  "room rows len D \<longleftrightarrow> rows \<le> length D \<and> (\<forall>x<rows. len \<le> length (D ! x))"

lemma rows_filled_unique:
  assumes "rows_filled cof n q F D D1" "rows_filled cof n q G D D2"
    and "\<And>l p. l < n \<Longrightarrow> p < q \<Longrightarrow> F l p = G l p"
  shows "D1 = D2"
proof (rule nth_equalityI)
  show "length D1 = length D2" using assms by (simp add: rows_filled_def)
next
  fix x assume "x < length D1"
  show "D1 ! x = D2 ! x"
    by (rule nth_equalityI) (use assms in \<open>auto simp: rows_filled_def\<close>)
qed

lemma fill_rows:
  assumes "cof + n \<le> length D" "\<And>l. l < n \<Longrightarrow> q \<le> length (D ! (cof + l))" "b + w = q"
    and "\<And>l p. l < n \<Longrightarrow> p < b \<Longrightarrow> D ! (cof + l) ! p = F l p"
  shows "rows_filled cof n q F D (fold (\<lambda>l D. D[cof + l :=
     fold (\<lambda>i d. d[b + i := F l (b + i)]) [0..<w] (D ! (cof + l))]) [0..<n] D)"
    (is "rows_filled cof n q F D ?D")
proof -
  have row: "?D ! x = (if cof \<le> x \<and> x < cof + n
      then fold (\<lambda>i d. d[b + i := F (x - cof) (b + i)]) [0..<w] (D ! x) else D ! x)" for x
    using assms(1) by (rule fold_map_block)
  have "D ! x ! p = F (x - cof) p" if "cof \<le> x" "x < cof + n" "p < b" for x p
    using assms(4) [of "x - cof" p] that by auto
  moreover have "q \<le> length (D ! x)" if "cof \<le> x" "x < cof + n" for x
    using assms(2) [of "x - cof"] that by auto
  ultimately show ?thesis
    unfolding rows_filled_def
    using assms(3) by (auto simp: arr_simps row fold_fill_block)
qed

lemma ec_encode_data_base_fills:
  assumes "room dests len dest"
  shows "rows_filled 0 dests len
     (\<lambda>l i. fold (\<lambda>j s. s XOR gf_mul (src ! j ! i) (v ! (j * 32 + l * srcs * 32 + 1))) [0..<srcs] 0)
     dest (ec_encode_data_base len srcs dests v src dest)"
  unfolding ec_encode_data_base_def
  using fill_rows [of 0 dests dest len 0 len] assms by (simp add: room_def)

theorem ec_encode_data_base_correct:
  assumes "room dests len dest" "l < dests" "i < len"
  shows "GF (ec_encode_data_base len srcs dests v src dest ! l ! i) =
     encoded srcs (coeff srcs v) src l i"
  using ec_encode_data_base_fills [OF assms(1), of src v srcs] assms(2,3)
  by (simp add: rows_filled_def GF_xor_fold encoded_def coeff_def gf_simps)

lemma gf_vect_dot_prod_base_correct:
  assumes "len \<le> length dest" "i < len"
  shows "GF (gf_vect_dot_prod_base len vlen v src dest ! i) = encoded vlen (coeff vlen v) src 0 i"
  unfolding gf_vect_dot_prod_base_def
  using assms by (simp add: fold_fill_row GF_xor_fold encoded_def coeff_def gf_simps)

lemma gf_vect_mad_base_nth:
  assumes "len \<le> length dest"
  shows "gf_vect_mad_base len vec vec_i v src dest ! i =
     (if i < len then dest ! i XOR gf_mul (src ! i) (v ! (vec_i * 32 + 1)) else dest ! i)"
  unfolding gf_vect_mad_base_def
  using assms by (rule fold_map_row)

lemma gf_vect_mul_base_nth:
  assumes "len \<le> length dest"
  shows "gf_vect_mul_base len a src dest ! i = (if i < len then gf_mul (a ! 1) (src ! i) else dest ! i)"
  unfolding gf_vect_mul_base_def Let_def
  using assms by (rule fold_fill_row)

section \<open>Incremental encoding\<close>

lemma ec_encode_data_update_base_fills:
  assumes "room rows len dest"
  shows "rows_filled 0 rows len
     (\<lambda>l i. dest ! l ! i XOR gf_mul (data ! i) (v ! (vec_i * 32 + l * k * 32 + 1)))
     dest (ec_encode_data_update_base len k rows vec_i v data dest)" (is "rows_filled 0 rows len ?F dest ?D")
proof -
  have row: "fold (\<lambda>i d. d[i := d ! i XOR gf_mul (data ! i) w]) [0..<len] d ! p =
      (if p < len then d ! p XOR gf_mul (data ! p) w else d ! p)" if "len \<le> length d" for w d p
    using that by (rule fold_map_row)
  have D: "?D ! x = (if x < rows then fold (\<lambda>i d. d[i := d ! i XOR gf_mul (data ! i)
      (v ! (vec_i * 32 + x * k * 32 + 1))]) [0..<len] (dest ! x) else dest ! x)" for x
    unfolding ec_encode_data_update_base_def
    by (rule fold_map_row) (use assms in \<open>simp add: room_def\<close>)
  show ?thesis
    unfolding rows_filled_def D
    using assms by (auto simp: ec_encode_data_update_base_def arr_simps row room_def)
qed

lemma room_rows_filled: "rows_filled cof n q F D D' \<Longrightarrow> room rows len D' = room rows len D"
  by (auto simp: rows_filled_def room_def)

text \<open>Feeding the sources one at a time into zeroed rows gives the full encoding.\<close>

definition encode_incrementally ::
  "nat \<Rightarrow> nat \<Rightarrow> nat \<Rightarrow> u8 list \<Rightarrow> u8 list list \<Rightarrow> u8 list list \<Rightarrow> u8 list list" where
  "encode_incrementally len k rows v src dest =
     fold (\<lambda>j dest. ec_encode_data_update_base len k rows j v (src ! j) dest) [0..<k] dest"

theorem encode_incrementally_eq:
  assumes room: "room rows len dest"
    and zero: "\<And>l i. l < rows \<Longrightarrow> i < len \<Longrightarrow> dest ! l ! i = 0"
  shows "encode_incrementally len k rows v src dest = ec_encode_data_base len k rows v src dest"
proof -
  let ?F = "\<lambda>m l i. fold (\<lambda>j s. s XOR gf_mul (src ! j ! i) (v ! (j * 32 + l * k * 32 + 1))) [0..<m] 0"
  have "rows_filled 0 rows len (?F k) dest (encode_incrementally len k rows v src dest)"
    unfolding encode_incrementally_def
  proof (rule fold_upto_inv [where P = "\<lambda>m D. rows_filled 0 rows len (?F m) dest D"])
    show "rows_filled 0 rows len (?F 0) dest dest"
      using zero by (simp add: rows_filled_def)
  next
    fix m D assume m: "m < k" and D: "rows_filled 0 rows len (?F m) dest D"
    have "rows_filled 0 rows len
      (\<lambda>l i. D ! l ! i XOR gf_mul (src ! m ! i) (v ! (m * 32 + l * k * 32 + 1)))
      D (ec_encode_data_update_base len k rows m v (src ! m) D)"
      using room room_rows_filled [OF D] by (intro ec_encode_data_update_base_fills) simp
    with D show "rows_filled 0 rows len (?F (Suc m)) dest
      (ec_encode_data_update_base len k rows m v (src ! m) D)"
      by (auto simp: rows_filled_def)
  qed
  then show ?thesis
    using rows_filled_unique ec_encode_data_base_fills [OF room, of src v k] by blast
qed

section \<open>Table expansion\<close>

lemma length_store_at: "off + length xs \<le> length d \<Longrightarrow> length (store_at off xs d) = length d"
  by (simp add: store_at_def)

lemma store_at_nth:
  "off + length xs \<le> length d \<Longrightarrow> store_at off xs d ! p =
     (if off \<le> p \<and> p < off + length xs then xs ! (p - off) else d ! p)"
  by (auto simp: store_at_def nth_append)

definition expanded :: "nat \<Rightarrow> u8 list \<Rightarrow> u8 list \<Rightarrow> bool" where
  "expanded m a g \<longleftrightarrow> (\<forall>p<m. \<forall>t<32. g ! (32 * p + t) = gf_vect_mul_init (a ! p) ! t)"

lemma block_neq: "t < 32 \<Longrightarrow> p < q \<Longrightarrow> \<not> (32 * q \<le> 32 * p + t \<and> 32 * p + t < 32 * q + (32 :: nat))"
  by auto

lemma expanded_store:
  assumes "expanded m a g" "32 * m + 32 \<le> length g"
  shows "expanded (Suc m) a (store_at (32 * m) (gf_vect_mul_init (a ! m)) g)"
  unfolding expanded_def
proof (intro allI impI)
  fix p t :: nat assume p: "p < Suc m" and t: "t < 32"
  show "store_at (32 * m) (gf_vect_mul_init (a ! m)) g ! (32 * p + t) = gf_vect_mul_init (a ! p) ! t"
  proof (cases "p = m")
    case True
    with assms t show ?thesis by (simp add: store_at_nth)
  next
    case False
    with p have "p < m" by simp
    with assms t show ?thesis by (simp add: store_at_nth block_neq expanded_def)
  qed
qed

theorem ec_init_tables_expanded:
  assumes "32 * (rows * k) \<le> length g_tbls"
  shows "expanded (rows * k) a (ec_init_tables k rows a g_tbls) \<and>
    length (ec_init_tables k rows a g_tbls) = length g_tbls"
proof -
  let ?f = "\<lambda>j (g, p, off). (store_at off (gf_vect_mul_init (a ! p)) g, p + 1, off + (32 :: nat))"
  let ?P = "\<lambda>m (g, p, off). p = m \<and> off = 32 * m \<and> length g = length g_tbls \<and> expanded m a g"
  have step: "?P (Suc m) (?f j s)" if "m < rows * k" "?P m s" for m j s
  proof -
    have "32 * m + 32 \<le> length g_tbls" using that(1) assms by linarith
    with that(2) show ?thesis by (auto simp: length_store_at expanded_store)
  qed
  have "?P (rows * k) (fold (\<lambda>i s. fold ?f [0..<k] s) [0..<rows] (g_tbls, 0, 0))"
  proof (rule fold_upto_inv [where P = "\<lambda>i. ?P (i * k)"])
    show "?P (0 * k) (g_tbls, 0, 0)" by (simp add: expanded_def)
  next
    fix i s assume i: "i < rows" and s: "?P (i * k) s"
    have "Suc i * k \<le> rows * k" using i by (intro mult_le_mono1) simp
    then have le: "i * k + k \<le> rows * k" by simp
    have "?P (i * k + k) (fold ?f [0..<k] s)"
    proof (rule fold_upto_inv [where P = "\<lambda>j. ?P (i * k + j)"])
      show "?P (i * k + 0) s" using s by simp
    next
      fix j t assume j: "j < k" and t: "?P (i * k + j) t"
      have "i * k + j < rows * k" using j le by simp
      from step [OF this t] show "?P (i * k + Suc j) (?f j t)" by (simp only: add_Suc_right)
    qed
    then show "?P (Suc i * k) (fold ?f [0..<k] s)" by (simp add: add.commute)
  qed
  then show ?thesis by (auto simp: ec_init_tables_def split: prod.splits)
qed

lemma gf_vect_mul_init_1: "gf_vect_mul_init c ! 1 = c"
  by (simp add: gf_vect_mul_init_eq_generic gf_vect_mul_init_generic_def Let_def)

lemma expanded_coeff:
  assumes "expanded (rows * k) a g" "l < rows" "j < k"
  shows "coeff k g l j = ent k a l j"
proof -
  have "l * k + j < Suc l * k" using assms by simp
  also have "\<dots> \<le> rows * k" using assms by (intro mult_le_mono1) simp
  finally have "g ! (32 * (l * k + j) + 1) = a ! (l * k + j)"
    using assms(1) [unfolded expanded_def, rule_format, of "l * k + j" 1]
    by (simp only: gf_vect_mul_init_1)
  then show ?thesis by (simp add: coeff_def ent_def algebra_simps)
qed

section \<open>The AVX encoder\<close>

lemma nibbles: "push_bit 4 (drop_bit 4 x AND 0x0f) XOR (x AND 0x0f) = (x :: u8)"
proof -
  have m: "(0x0f :: u8) = mask 4" by (simp add: mask_eq_exp_minus_1)
  show ?thesis
    unfolding m by (rule bit_word_eqI) (auto simp: bit_simps)
qed

lemma nibble_less: "unat (x AND 0x0f :: u8) < 16"
proof -
  have "x AND 0x0f \<le> 0x0f" by (rule word_and_le1)
  then have "unat (x AND 0x0f) \<le> unat (0x0f :: u8)" by (simp only: word_le_nat_alt)
  then show ?thesis by simp
qed

lemma table_lookup:
  "gf_vect_mul_init c ! (16 + unat (drop_bit 4 x AND 0x0f)) XOR
     gf_vect_mul_init c ! unat (x AND 0x0f) = gf_mul x c"
proof -
  let ?h = "drop_bit 4 x AND 0x0f" and ?l = "x AND 0x0f"
  have "gf_vect_mul_init c ! unat ?l = gf_mul c ?l"
    using nibble_less [of x] by (simp add: gf_vect_mul_init_table nth_append)
  moreover have "gf_vect_mul_init c ! (16 + unat ?h) = gf_mul c (push_bit 4 ?h)"
    using nibble_less [of "drop_bit 4 x"]
    by (simp add: gf_vect_mul_init_table nth_append push_bit_eq_mult mult.commute)
  ultimately show ?thesis
    using nibbles [of x] by (simp add: gf_mul_xor_right [symmetric] gf_mul_commute [of x])
qed

lemma avx_byte_correct:
  assumes "expanded (rows * k) a g" "0 < k" "l < rows"
  shows "GF (avx_byte k g (l * k * 32) src p) = encoded k (ent k a) src l p"
proof -
  have lookup: "g ! (l * k * 32 + 32 * v + 16 + unat (drop_bit 4 x AND 0x0f)) XOR
      g ! (l * k * 32 + 32 * v + unat (x AND 0x0f)) = gf_mul x (a ! (l * k + v))"
    if "v < k" for v x
  proof -
    have "l * k + v < Suc l * k" using that by simp
    also have "\<dots> \<le> rows * k" using assms by (intro mult_le_mono1) simp
    finally have e: "g ! (32 * (l * k + v) + t) = gf_vect_mul_init (a ! (l * k + v)) ! t"
      if "t < 32" for t
      using assms(1) [unfolded expanded_def, rule_format, of "l * k + v" t] that by simp
    have idx: "l * k * 32 + 32 * v = 32 * (l * k + v)" by (simp add: algebra_simps)
    show ?thesis
      unfolding idx
      using e [of "unat (x AND 0x0f)"] e [of "16 + unat (drop_bit 4 x AND 0x0f)"]
        nibble_less [of x] nibble_less [of "drop_bit 4 x"] table_lookup [of "a ! (l * k + v)" x]
      by (simp add: add.assoc)
  qed
  have "avx_byte k g (l * k * 32) src p =
      fold (\<lambda>v s. s XOR gf_mul (src ! v ! p) (a ! (l * k + v))) [0..<k] 0"
    unfolding avx_byte_def Let_def
    using assms(2) lookup by (intro fold_cong) (auto simp: max_def)
  then show ?thesis
    by (simp add: GF_xor_fold encoded_def ent_def gf_simps)
qed

lemma avx_block_fills:
  assumes D: "rows_filled cof n q F D D1" "pos \<le> q" "q \<le> pos + 16"
    and F: "F = (\<lambda>r p. avx_byte vec g (off + r * vec * 32) src p)"
    and room: "room (cof + n) (pos + 16) D"
  shows "rows_filled cof n (pos + 16) F D (avx_block n vec g off src cof pos D1)"
proof -
  have "rows_filled cof n (pos + 16) F D1 (avx_block n vec g off src cof pos D1)"
    unfolding avx_block_def F
    by (rule fill_rows) (use D F room in \<open>auto simp: rows_filled_def room_def\<close>)
  with D show ?thesis by (auto simp: rows_filled_def)
qed

lemma room_mono: "room rows len D \<Longrightarrow> rows' \<le> rows \<Longrightarrow> len' \<le> len \<Longrightarrow> room rows' len' D"
  unfolding room_def by (meson le_trans less_le_trans)

lemma avx_loop16_fills:
  assumes F: "F = (\<lambda>r p. avx_byte vec g (off + r * vec * 32) src p)"
    and room: "room (cof + n) len D"
    and D: "rows_filled cof n q F D D1" "pos \<le> q" "q \<le> pos + 16" "pos + 16 \<le> len"
  shows "rows_filled cof n len F D (avx_loop16 n len vec g off src cof pos D1)"
  using D
proof (induction "len - pos" arbitrary: pos q D1 rule: less_induct)
  case less
  let ?D = "avx_block n vec g off src cof pos D1"
  have fill: "rows_filled cof n (pos + 16) F D ?D"
    using less.prems F room by (intro avx_block_fills) (auto intro: room_mono)
  consider "pos + 16 \<le> len - 16" | "\<not> pos + 16 \<le> len - 16" "pos + 16 = len"
    | "\<not> pos + 16 \<le> len - 16" "pos + 16 \<noteq> len" by blast
  then show ?case
  proof cases
    case 1
    have "rows_filled cof n len F D (avx_loop16 n len vec g off src cof (pos + 16) ?D)"
      by (rule less.hyps [OF _ fill]) (use 1 less.prems in auto)
    with 1 less.prems show ?thesis
      by (subst avx_loop16.simps) (simp add: Let_def)
  next
    case 2
    with fill show ?thesis by (subst avx_loop16.simps) (simp add: Let_def)
  next
    case 3
    have "rows_filled cof n len F D (avx_loop16 n len vec g off src cof (len - 16) ?D)"
      by (rule less.hyps [OF _ fill]) (use 3 less.prems in auto)
    with 3 less.prems show ?thesis
      by (subst avx_loop16.simps) (simp add: Let_def)
  qed
qed

lemma rows_filled_0: "rows_filled cof n 0 F D D"
  by (simp add: rows_filled_def)

lemma nvect_fills:
  assumes "F = (\<lambda>r p. avx_byte vec g (off + r * vec * 32) src p)"
    and "room (cof + n) len D" "16 \<le> len"
  shows "rows_filled cof n len F D (snd (gf_nvect_dot_prod_avx n len vec g off src cof D))"
  unfolding gf_nvect_dot_prod_avx_def
  using avx_loop16_fills [OF assms(1,2) rows_filled_0, of 0] assms(3) by simp

lemma rows_filled_append:
  assumes "rows_filled cof m q F D D1" "rows_filled (cof + m) n q (\<lambda>r. F (m + r)) D1 D2"
  shows "rows_filled cof (m + n) q F D D2"
proof -
  have "D2 ! x ! p = (if cof \<le> x \<and> x < cof + (m + n) \<and> p < q then F (x - cof) p else D ! x ! p)"
    for x p
  proof (cases "cof + m \<le> x")
    case True
    then have "m + (x - (cof + m)) = x - cof" by simp
    with True assms show ?thesis by (auto simp: rows_filled_def)
  next
    case False
    with assms show ?thesis by (auto simp: rows_filled_def)
  qed
  with assms show ?thesis by (simp add: rows_filled_def)
qed

lemma avx_rows_fills:
  assumes "16 \<le> len" "room (cof + rows) len D"
  shows "rows_filled cof rows len (\<lambda>r p. avx_byte k g (off + r * k * 32) src p) D
     (avx_rows len k rows g off src cof D)"
  using assms
proof (induction rows arbitrary: off cof D rule: less_induct)
  case (less rows)
  note step = nvect_fills [OF refl, where vec = k and g = g and off = off and src = src and cof = cof]
  show ?case
  proof (cases "rows \<ge> 4")
    case False
    then consider "rows = 0" | "rows = 1" | "rows = 2" | "rows = 3" by linarith
    then show ?thesis
    proof cases
      case 1
      then show ?thesis by (subst avx_rows.simps) (auto simp: rows_filled_def)
    next
      case 2
      with less.prems step [of 1 len D] show ?thesis
        by (subst avx_rows.simps) (simp add: gf_vect_dot_prod_avx_def)
    next
      case 3
      with less.prems step [of 2 len D] show ?thesis
        by (subst avx_rows.simps) (simp add: gf_2vect_dot_prod_avx_def)
    next
      case 4
      with less.prems step [of 3 len D] show ?thesis
        by (subst avx_rows.simps) (simp add: gf_3vect_dot_prod_avx_def)
    qed
  next
    case True
    let ?D = "snd (gf_4vect_dot_prod_avx len k g off src cof D)"
    have one: "rows_filled cof 4 len (\<lambda>r p. avx_byte k g (off + r * k * 32) src p) D ?D"
      unfolding gf_4vect_dot_prod_avx_def
      by (rule step) (use less.prems True in \<open>auto intro: room_mono\<close>)
    have shift: "off + 4 * k * 32 + r * k * 32 = off + (4 + r) * k * 32" for r
      by (simp add: algebra_simps)
    have "rows_filled (cof + 4) (rows - 4) len
       (\<lambda>r p. avx_byte k g (off + 4 * k * 32 + r * k * 32) src p) ?D
       (avx_rows len k (rows - 4) g (off + 4 * k * 32) src (cof + 4) ?D)"
      by (rule less.IH) (use less.prems True one in \<open>auto simp: room_rows_filled\<close>)
    then have "rows_filled (cof + 4) (rows - 4) len
       (\<lambda>r p. avx_byte k g (off + (4 + r) * k * 32) src p) ?D (avx_rows len k rows g off src cof D)"
      using True by (simp only: shift) (simp add: avx_rows.simps [of len k rows])
    from rows_filled_append [OF one this] True show ?thesis by simp
  qed
qed

theorem ec_encode_data_avx_eq_base:
  assumes "expanded (rows * k) a g" "0 < k" "room rows len coding"
  shows "ec_encode_data_avx len k rows g data coding = ec_encode_data_base len k rows g data coding"
proof (cases "len < 16")
  case True
  then show ?thesis by (simp add: ec_encode_data_avx_def)
next
  case False
  then have "rows_filled 0 rows len (\<lambda>r p. avx_byte k g (r * k * 32) data p) coding
     (ec_encode_data_avx len k rows g data coding)"
    using avx_rows_fills [of len 0 rows coding k g 0 data] assms(3)
    by (simp add: ec_encode_data_avx_def)
  moreover have "avx_byte k g (l * k * 32) data p =
      fold (\<lambda>j s. s XOR gf_mul (data ! j ! p) (g ! (j * 32 + l * k * 32 + 1))) [0..<k] 0"
    if "l < rows" for l p
  proof -
    have "GF (avx_byte k g (l * k * 32) data p) = encoded k (coeff k g) data l p"
      using avx_byte_correct [OF assms(1,2) that] expanded_coeff [OF assms(1) that]
      by (simp add: encoded_def)
    then have "GF (avx_byte k g (l * k * 32) data p) =
        GF (fold (\<lambda>j s. s XOR gf_mul (data ! j ! p) (g ! (j * 32 + l * k * 32 + 1))) [0..<k] 0)"
      by (simp only: GF_xor_fold encoded_def coeff_def GF_simps)
    then show ?thesis by simp
  qed
  ultimately show ?thesis
    using rows_filled_unique [OF _ ec_encode_data_base_fills [OF assms(3), of data g k]] by blast
qed

section \<open>Properties\<close>

text \<open>C10: The vectorised encoder, run on the tables that \<open>ec_init_tables\<close> expands from a
  coefficient matrix \<open>a\<close>, stores what the reference encoder stores, and byte \<open>i\<close> of row \<open>l\<close> is the
  product of row \<open>l\<close> of \<open>a\<close> with byte \<open>i\<close> of the sources.\<close>

theorem ec_encode_data_avx_correct:
  assumes "0 < k" "32 * (rows * k) \<le> length g" "room rows len coding"
  shows "ec_encode_data_avx len k rows (ec_init_tables k rows a g) data coding =
      ec_encode_data_base len k rows (ec_init_tables k rows a g) data coding \<and>
    (\<forall>l<rows. \<forall>i<len. GF (ec_encode_data_avx len k rows (ec_init_tables k rows a g) data coding ! l ! i) =
      (\<Sum>j<k. ent k a l j * GF (data ! j ! i)))"
proof -
  have ex: "expanded (rows * k) a (ec_init_tables k rows a g)"
    using ec_init_tables_expanded [OF assms(2)] by simp
  have eq: "ec_encode_data_avx len k rows (ec_init_tables k rows a g) data coding =
      ec_encode_data_base len k rows (ec_init_tables k rows a g) data coding"
    by (rule ec_encode_data_avx_eq_base [OF ex assms(1,3)])
  show ?thesis
    unfolding eq
    by (simp add: ec_encode_data_base_correct [OF assms(3)] encoded_def expanded_coeff [OF ex] mult.commute)
qed

theorem ec_encode_data_avx_correct_witness:
  "GF (ec_encode_data_avx 17 2 1 (ec_init_tables 2 1 [3, 7] (replicate 64 0))
      [replicate 17 5, replicate 17 9] [replicate 17 0] ! 0 ! 16) =
    (\<Sum>j<2. ent 2 [3, 7] 0 j * GF ([replicate 17 5, replicate 17 9] ! j ! 16))"
  by (rule conjunct2 [OF ec_encode_data_avx_correct, rule_format]) (simp_all add: room_def)

text \<open>Encoding one source at a time with \<open>ec_encode_data_update\<close> into zeroed parity rows
  gives the same rows as encoding all sources at once.\<close>

theorem ec_encode_data_update_complete:
  assumes "room rows len dest" "\<forall>l<rows. \<forall>i<len. dest ! l ! i = 0"
  shows "fold (\<lambda>j dest. ec_encode_data_update len k rows j v (src ! j) dest) [0..<k] dest =
    ec_encode_data len k rows v src dest"
  using encode_incrementally_eq [OF assms(1), of k v src] assms(2)
  by (simp add: ec_encode_data_def ec_encode_data_update_def encode_incrementally_def)

theorem ec_encode_data_update_complete_witness:
  "fold (\<lambda>j dest. ec_encode_data_update 2 2 1 j [0, 3, 0, 7] ([[5, 6], [8, 9]] ! j) dest) [0..<2] [[0, 0]] =
    ec_encode_data 2 2 1 [0, 3, 0, 7] [[5, 6], [8, 9]] [[0, 0]]"
  by (rule ec_encode_data_update_complete) (auto simp: room_def less_Suc_eq numeral_2_eq_2)

text \<open>The 64-bit construction of a multiplication table agrees with the portable one, and the table
  holds the products of the coefficient with every low and every high nibble.\<close>

theorem gf_vect_mul_init_products:
  "gf_vect_mul_init c = gf_vect_mul_init_generic c \<and>
   gf_vect_mul_init c = map (\<lambda>i. gf_mul c (word_of_nat i)) [0..<16] @
     map (\<lambda>i. gf_mul c (word_of_nat (16 * i))) [0..<16]"
  using gf_vect_mul_init_eq_generic gf_vect_mul_init_table by blast

lemma mk_gf_mul_table_nth:
  assumes "length table = 256 * 256"
  shows "mk_gf_mul_table table ! (unat a * 256 + unat b) = gf_mul a b"
proof -
  let ?f = "\<lambda>i j. gf_mul (word_of_nat i) (word_of_nat j)"
  have "fold (\<lambda>i t. fold (\<lambda>j t. t[256 * i + j := ?f i j]) [0..<256] t) [0..<256] table ! (256 * unat a + unat b) =
      ?f (unat a) (unat b)"
    by (subst fold_grid(2)) (simp_all add: assms unat_u8_less)
  then show ?thesis by (simp add: mk_gf_mul_table_def mult.commute [of _ "256 :: nat"])
qed

text \<open>The functional test of the single-table program passes on every input: the product taken from
  the one table equals the reference product.\<close>

theorem gf_vect_dot_prod_1tbl_correct:
  assumes "length table = 256 * 256"
  shows "gf_vect_dot_prod_1tbl len vlen (mk_gf_mul_table table) v src dest =
    gf_vect_dot_prod_ref len vlen v src dest"
  by (simp add: gf_vect_dot_prod_1tbl_def gf_vect_dot_prod_ref_def mk_gf_mul_table_nth [OF assms]
      gf_mul_commute)

theorem gf_vect_dot_prod_1tbl_correct_witness:
  "gf_vect_dot_prod_1tbl 1 2 (mk_gf_mul_table (replicate (256 * 256) 0)) [3, 7] [[5], [9]] [0] =
    gf_vect_dot_prod_ref 1 2 [3, 7] [[5], [9]] [0]"
  by (rule gf_vect_dot_prod_1tbl_correct) simp

end
