(* ===== verification/Erasure_Decode.thy ===== *)
theory Erasure_Decode
  imports Erasure_Code
begin

text \<open>
  Construction of the decoding matrix, \<open>gf_gen_decode_matrix\<close> of \<^verbatim>\<open>is_main.c\<close> (the
  \<^verbatim>\<open>#ifdef EC\<close> part), and the property it exists for: with the generator matrix of
  \<open>gf_gen_cauchy1_matrix\<close>, every pattern of at most \<open>m - k\<close> erasures is recovered from
  the surviving blocks.
\<close>

section \<open>The routine\<close>

text \<open>\<^verbatim>\<open>while (src_in_err[r]) r++;\<close> where \<open>None\<close> is a read past the end of the array.\<close>

function next_ok :: "u8 list \<Rightarrow> nat \<Rightarrow> nat option" where
  "next_ok src_in_err r =
     (if r < length src_in_err
      then if src_in_err ! r \<noteq> 0 then next_ok src_in_err (r + 1) else Some r
      else None)"
  by pat_completeness auto
termination
  by (relation "measure (\<lambda>(e, r). length e - r)") auto

declare next_ok.simps [simp del]

definition copy_row :: "nat \<Rightarrow> nat \<Rightarrow> nat \<Rightarrow> u8 list \<Rightarrow> u8 list \<Rightarrow> u8 list" where
  "copy_row k i r encode_matrix b =
     fold (\<lambda>j b. b[k * i + j := encode_matrix ! (k * r + j)]) [0..<k] b"

text \<open>Matrix \<open>b\<close> without the error rows; \<open>decode_index\<close> records the surviving rows.\<close>

fun build_b :: "nat list \<Rightarrow> nat \<Rightarrow> u8 list \<Rightarrow> u8 list \<Rightarrow> nat \<Rightarrow> u8 list \<times> u8 list \<times> nat list \<Rightarrow>
    (u8 list \<times> u8 list \<times> nat list) option" where
  "build_b [] k enc err r s = Some s"
| "build_b (i # is) k enc err r (b, backup, decode_index) =
     (case next_ok err r of
        None \<Rightarrow> None
      | Some r' \<Rightarrow> build_b is k enc err (r' + 1)
          (copy_row k i r' enc b, copy_row k i r' enc backup, decode_index[i := r']))"

definition NO_INVERT_MATRIX :: int where "NO_INVERT_MATRIX = - 2"

lemma incr_grows:
  "incr \<le> fold (\<lambda>i incr. if P i incr then incr + 1 else incr) xs (incr :: nat)"
proof (induction xs arbitrary: incr)
  case (Cons x xs)
  have "incr \<le> (if P x incr then incr + 1 else incr)" by simp
  also have "\<dots> \<le> fold (\<lambda>i incr. if P i incr then incr + 1 else incr) xs
      (if P x incr then incr + 1 else incr)" by (rule Cons.IH)
  finally show ?case by simp
qed simp

lemma incr_pos:
  "fold (\<lambda>i incr. if P i incr then incr + 1 else incr) xs (incr + 1 :: nat) > 0"
  using incr_grows [of "incr + 1" P xs] by linarith

text \<open>
  The retry loop. \<open>d\<close> is the current \<^verbatim>\<open>decode_index[k - 1]\<close>, the only entry the loop
  reads and writes; it grows in every iteration and stays below \<open>m\<close>.
\<close>

function invert_retry :: "u8 list \<Rightarrow> u8 list \<Rightarrow> nat \<Rightarrow> nat \<Rightarrow> nat \<Rightarrow> nat \<Rightarrow> u8 list \<Rightarrow>
    nat \<Rightarrow> u8 list \<Rightarrow> u8 list \<Rightarrow> nat list \<Rightarrow> nat \<Rightarrow> int \<times> u8 list \<times> nat list" where
  "invert_retry enc errl nerrs nsrcerrs k m backup incr b ivt di d =
     (case gf_invert_matrix b ivt k of (ret, b', ivt') \<Rightarrow>
        if ret \<ge> 0 then (0, ivt', di)
        else if nerrs = m - k then (NO_INVERT_MATRIX, ivt', di)
        else let incr = incr + 1;
                 incr = fold (\<lambda>i incr. if unat (errl ! i) = d + incr then incr + 1 else incr)
                          [nsrcerrs..<nerrs - nsrcerrs] incr
             in if d + incr \<ge> m then (NO_INVERT_MATRIX, ivt', di)
                else let d = d + incr
                     in invert_retry enc errl nerrs nsrcerrs k m backup incr
                          (copy_row k (k - 1) d enc backup) ivt' (di[k - 1 := d]) d)"
  by pat_completeness auto

termination
  by (relation "measure (\<lambda>(enc, errl, nerrs, nsrcerrs, k, m, backup, incr, b, ivt, di, d). m - d)")
    (auto intro!: diff_less_mono2 simp: incr_pos [simplified])

declare invert_retry.simps [simp del]

definition decode_rows :: "nat \<Rightarrow> u8 list \<Rightarrow> nat \<Rightarrow> u8 list \<Rightarrow> u8 list \<Rightarrow> u8 list" where
  "decode_rows k src_err_list nsrcerrs invert_matrix decode_matrix =
     fold (\<lambda>i D. fold (\<lambda>j D. D[k * i + j := invert_matrix ! (k * unat (src_err_list ! i) + j)]) [0..<k] D)
       [0..<nsrcerrs] decode_matrix"

definition decode_parity_rows ::
  "nat \<Rightarrow> u8 list \<Rightarrow> nat \<Rightarrow> nat \<Rightarrow> u8 list \<Rightarrow> u8 list \<Rightarrow> u8 list \<Rightarrow> u8 list" where
  "decode_parity_rows k src_err_list nsrcerrs nerrs encode_matrix invert_matrix decode_matrix =
     fold (\<lambda>p D. fold (\<lambda>i D. D[k * p + i :=
         fold (\<lambda>j s. s XOR gf_mul (invert_matrix ! (j * k + i))
             (encode_matrix ! (k * unat (src_err_list ! p) + j))) [0..<k] 0]) [0..<k] D)
       [nsrcerrs..<nerrs] decode_matrix"

text \<open>
  The locals \<open>b\<close> and \<open>backup\<close> of size \<^verbatim>\<open>NDISKS*NDATAS\<close> start with the stack contents
  \<open>junk\<close>. The result is the return value with the three output arrays; \<open>None\<close> is a read
  past the end of \<open>src_in_err\<close>.
\<close>

definition gf_gen_decode_matrix ::
  "u8 list \<Rightarrow> u8 list \<Rightarrow> u8 list \<Rightarrow> u8 list \<Rightarrow> nat list \<Rightarrow> u8 list \<Rightarrow> u8 list \<Rightarrow> nat \<Rightarrow> nat \<Rightarrow> nat \<Rightarrow> nat \<Rightarrow>
   (int \<times> u8 list \<times> u8 list \<times> nat list) option" where
  "gf_gen_decode_matrix junk encode_matrix decode_matrix invert_matrix decode_index
       src_err_list src_in_err nerrs nsrcerrs k m =
     (case build_b [0..<k] k encode_matrix src_in_err 0 (junk, junk, decode_index) of
        None \<Rightarrow> None
      | Some (b, backup, di) \<Rightarrow>
          (case invert_retry encode_matrix src_err_list nerrs nsrcerrs k m backup 0 b
                  invert_matrix di (di ! (k - 1)) of
             (ret, ivt, di') \<Rightarrow>
               if ret \<noteq> 0 then Some (ret, decode_matrix, ivt, di')
               else Some (0, decode_parity_rows k src_err_list nsrcerrs nerrs encode_matrix ivt
                           (decode_rows k src_err_list nsrcerrs ivt decode_matrix), ivt, di')))"

section \<open>Cauchy systems have only the trivial solution\<close>

lemma cauchy_kernel:
  fixes x :: "'a::field \<Rightarrow> 'a"
  assumes "finite U" "finite T" "card T = card U" "T \<inter> U = {}"
    and "\<And>t. t \<in> T \<Longrightarrow> (\<Sum>c\<in>U. x c / (t - c)) = 0"
  shows "\<forall>c\<in>U. x c = 0"
  using assms
proof (induction U arbitrary: T x rule: finite_induct)
  case empty
  then show ?case by simp
next
  case (insert u U)
  then obtain t0 where t0: "t0 \<in> T" by (metis card.empty card_insert_disjoint ex_in_conv nat.distinct(1))
  let ?T = "T - {t0}" and ?x = "\<lambda>c. x c * (c - u) / (t0 - c)"
  have clear: "(\<Sum>c\<in>U. x c) + x u + (\<Sum>c\<in>U. x c * (c - u) / (t - c)) = 0" if t: "t \<in> T" for t
  proof -
    have ne: "t - c \<noteq> 0" if "c \<in> insert u U" for c using insert.prems(3) t that by auto
    have "0 = (t - u) * (\<Sum>c\<in>insert u U. x c / (t - c))" using insert.prems(4) [OF t] by simp
    also have "\<dots> = (t - u) * (x u / (t - u)) + (\<Sum>c\<in>U. (t - u) * (x c / (t - c)))"
      using insert.hyps by (simp add: distrib_left sum_distrib_left)
    also have "(t - u) * (x u / (t - u)) = x u" using ne [of u] by simp
    also have "(\<Sum>c\<in>U. (t - u) * (x c / (t - c))) = (\<Sum>c\<in>U. x c + x c * (c - u) / (t - c))"
    proof (rule sum.cong)
      fix c assume "c \<in> U"
      then have "t - c \<noteq> 0" using ne by simp
      moreover have "(t - u) * x c = (t - c) * x c + x c * (c - u)" by (simp add: algebra_simps)
      ultimately show "(t - u) * (x c / (t - c)) = x c + x c * (c - u) / (t - c)"
        by (simp add: field_simps)
    qed simp
    finally show ?thesis by (simp add: sum.distrib ac_simps)
  qed
  have "(\<Sum>c\<in>U. ?x c / (t - c)) = 0" if t: "t \<in> ?T" for t
  proof -
    have ne: "t - c \<noteq> 0" "t0 - c \<noteq> 0" if "c \<in> U" for c
      using insert.prems(3) t t0 that by auto
    have "(t0 - t) * (\<Sum>c\<in>U. ?x c / (t - c)) =
        (\<Sum>c\<in>U. x c * (c - u) / (t - c) - x c * (c - u) / (t0 - c))"
      unfolding sum_distrib_left
    proof (rule sum.cong)
      fix c assume "c \<in> U"
      with ne show "(t0 - t) * (?x c / (t - c)) = x c * (c - u) / (t - c) - x c * (c - u) / (t0 - c)"
        by (simp add: divide_simps) (simp add: algebra_simps)
    qed simp
    also have "\<dots> = 0"
      using clear [of t] clear [OF t0] t by (simp add: sum_subtractf) (metis add_left_cancel)
    finally show ?thesis using t by auto
  qed
  moreover have "finite ?T" "card ?T = card U" "?T \<inter> U = {}"
    using insert t0 by auto
  ultimately have x': "\<forall>c\<in>U. ?x c = 0" by (intro insert.IH) auto
  have xU: "x c = 0" if "c \<in> U" for c
  proof -
    have "c - u \<noteq> 0" "t0 - c \<noteq> 0" using that insert.hyps insert.prems(3) t0 by auto
    with x' that show ?thesis by auto
  qed
  moreover have "x u = 0"
    using insert.prems(4) [OF t0] insert.hyps insert.prems(3) t0 xU by auto
  ultimately show ?case by simp
qed

lemma unat_of_nat_u8: "n < 256 \<Longrightarrow> unat (word_of_nat n :: u8) = n"
  by (simp add: unat_of_nat take_bit_eq_mod)

text \<open>Any \<open>k\<close> distinct rows of the Cauchy generator matrix are independent.\<close>

theorem cauchy1_rows_independent:
  assumes km: "k \<le> m" "m \<le> 256" "k * m \<le> length a"
    and sel: "inj_on sel {..<k}" "\<And>i. i < k \<Longrightarrow> sel i < m"
  shows "\<not> singular k (\<lambda>i. ent k (gf_gen_cauchy1_matrix a m k) (sel i))"
proof
  let ?E = "ent k (gf_gen_cauchy1_matrix a m k)" and ?e = "\<lambda>n. GF (word_of_nat n)"
  assume "singular k (\<lambda>i. ?E (sel i))"
  then obtain x c where x: "c < k" "x c \<noteq> 0"
    and ker: "\<And>i. i < k \<Longrightarrow> (\<Sum>j<k. ?E (sel i) j * x j) = 0"
    by (auto simp: singular_def mvec_def)
  define R where "R = sel ` {..<k}"
  define U where "U = {..<k} - R"
  define T where "T = R - {..<k}"
  have finR: "finite R" and cardR: "card R = k" using sel(1) by (simp_all add: R_def card_image)
  have zero: "x j = 0" if "j \<in> R \<inter> {..<k}" for j
  proof -
    from that obtain i where i: "i < k" "sel i = j" "j < k" by (auto simp: R_def)
    have "x j = (\<Sum>l<k. if l = j then x l else 0)" using i by simp
    also have "\<dots> = (\<Sum>l<k. ?E (sel i) l * x l)"
      using i km by (intro sum.cong) (auto simp: cauchy1_top idm_def)
    finally show ?thesis using ker [OF i(1)] by simp
  qed
  have inj: "inj_on ?e {..<256}"
    by (rule inj_onI) (metis gf256.inject lessThan_iff unat_of_nat_u8)
  have sub: "T \<subseteq> {..<256}" "U \<subseteq> {..<256}" "T \<inter> U = {}"
    using sel(2) km by (fastforce simp: T_def R_def, auto simp: U_def T_def)
  have "card T = card U"
  proof -
    have "card R = card (R \<inter> {..<k}) + card T"
      using finR by (simp add: T_def card_Int_Diff)
    moreover have "card {..<k} = card ({..<k} \<inter> R) + card U"
      unfolding U_def by (rule card_Int_Diff) simp
    ultimately show ?thesis using cardR by (simp add: Int_commute)
  qed
  then have card: "card (?e ` T) = card (?e ` U)"
    using sub inj by (metis card_image inj_on_subset)
  have disj: "?e ` T \<inter> ?e ` U = {}"
    using sub inj by (auto simp: inj_on_def) (metis IntI empty_iff lessThan_iff subsetD)
  let ?x = "\<lambda>g. x (unat (byte g))"
  have sys: "(\<Sum>g\<in>?e ` U. ?x g / (t - g)) = 0" if t: "t \<in> ?e ` T" for t
  proof -
    from t obtain r where tr: "t = ?e r" "r \<in> T" by blast
    then obtain i where "i < k" "r = sel i" "k \<le> r" by (auto simp: T_def R_def)
    with tr sel(2) have r: "t = ?e r" "k \<le> r" "r < m" "i < k" "r = sel i" by auto
    have "(\<Sum>g\<in>?e ` U. ?x g / (t - g)) = (\<Sum>j\<in>U. x j / (?e r - ?e j))"
      using sub inj r by (subst sum.reindex) (auto intro: inj_on_subset intro!: sum.cong simp: unat_of_nat_u8)
    also have "\<dots> = (\<Sum>j\<in>U. ?E (sel i) j * x j)"
      using r km by (intro sum.cong) (auto simp: U_def cauchy1_bottom divide_inverse mult.commute)
    also have "\<dots> = (\<Sum>j<k. ?E (sel i) j * x j)"
      using zero by (intro sum.mono_neutral_left) (auto simp: U_def)
    finally show ?thesis using ker [OF r(4)] by simp
  qed
  have "\<forall>g\<in>?e ` U. ?x g = 0"
    by (rule cauchy_kernel [OF _ _ card disj sys])
      (use finR in \<open>simp_all add: U_def T_def\<close>)
  then have "x j = 0" if "j \<in> U" for j
  proof -
    have "j < 256" using that sub by auto
    moreover have "?x (?e j) = 0" using \<open>\<forall>g\<in>?e ` U. ?x g = 0\<close> that by blast
    ultimately show ?thesis by (simp add: unat_of_nat_u8)
  qed
  with x zero show False by (auto simp: U_def)
qed

section \<open>Rows that survive\<close>

definition surviving :: "u8 list \<Rightarrow> nat list" where
  "surviving err = filter (\<lambda>r. err ! r = 0) [0..<length err]"

lemma surviving_set: "i < length (surviving err) \<Longrightarrow>
    surviving err ! i < length err \<and> err ! (surviving err ! i) = 0"
  using nth_mem [of i "surviving err"] by (simp add: surviving_def)

lemma distinct_surviving: "distinct (surviving err)"
  by (simp add: surviving_def)

lemma next_ok_filter:
  assumes "filter (\<lambda>r. err ! r = 0) [r..<length err] = x # xs"
  shows "next_ok err r = Some x \<and> filter (\<lambda>r. err ! r = 0) [x + 1..<length err] = xs"
  using assms
proof (induction err r rule: next_ok.induct)
  case (1 err r)
  then have r: "r < length err" by (cases "r < length err") auto
  then have "[r..<length err] = r # [r + 1..<length err]" by (simp add: upt_conv_Cons)
  with 1 r show ?case by (subst next_ok.simps) (auto split: if_splits)
qed

lemma length_copy_row [arr_simps]: "length (copy_row k i r enc b) = length b"
  by (simp add: copy_row_def arr_simps)

lemma copy_row_nth:
  assumes "i < k" "k * k \<le> length b" "c < k"
  shows "copy_row k i r enc b ! (k * l + c) = (if l = i then enc ! (k * r + c) else b ! (k * l + c))"
proof -
  have "k * i + k \<le> length b"
    using mult_le_mono2 [of "Suc i" k k] assms by simp
  then have "copy_row k i r enc b ! (k * l + c) =
      (if k * i \<le> k * l + c \<and> k * l + c < k * i + k then enc ! (k * r + (k * l + c - k * i)) else b ! (k * l + c))"
    unfolding copy_row_def by (rule fold_fill_block)
  moreover have "k * i \<le> k * l + c \<and> k * l + c < k * i + k \<longleftrightarrow> l = i"
    using index_in_row [of c k i l] assms by (simp add: mult.commute)
  ultimately show ?thesis by simp
qed

definition rows_built ::
  "nat \<Rightarrow> u8 list \<Rightarrow> u8 list \<Rightarrow> nat \<Rightarrow> u8 list \<times> u8 list \<times> nat list \<Rightarrow> bool" where
  "rows_built k enc err i = (\<lambda>(b, backup, di). k * k \<le> length b \<and> k * k \<le> length backup \<and> k \<le> length di \<and>
     (\<forall>l<i. di ! l = surviving err ! l \<and> (\<forall>c<k. b ! (k * l + c) = enc ! (k * (surviving err ! l) + c))))"

lemma build_b_rows:
  assumes "drop i (surviving err) = filter (\<lambda>r. err ! r = 0) [r..<length err]"
    and "k \<le> length (surviving err)" "i \<le> k" "rows_built k enc err i s"
  shows "\<exists>s'. build_b [i..<k] k enc err r s = Some s' \<and> rows_built k enc err k s'"
  using assms
proof (induction "k - i" arbitrary: i r s)
  case 0
  then show ?case by simp
next
  case (Suc n)
  then have i: "i < k" "[i..<k] = i # [Suc i..<k]" by (auto simp: upt_conv_Cons)
  let ?x = "surviving err ! i"
  have "drop i (surviving err) = ?x # drop (Suc i) (surviving err)"
    using i Suc.prems(2) by (simp add: Cons_nth_drop_Suc)
  then have "filter (\<lambda>r. err ! r = 0) [r..<length err] = ?x # drop (Suc i) (surviving err)"
    using Suc.prems(1) by simp
  from next_ok_filter [OF this] have nx: "next_ok err r = Some ?x"
    and rest: "drop (Suc i) (surviving err) = filter (\<lambda>r. err ! r = 0) [?x + 1..<length err]"
    by simp_all
  obtain b backup di where s: "s = (b, backup, di)" by (cases s)
  have "rows_built k enc err (Suc i)
      (copy_row k i ?x enc b, copy_row k i ?x enc backup, di[i := ?x])"
    using Suc.prems(4) i s by (auto simp: rows_built_def arr_simps copy_row_nth less_Suc_eq nth_list_update)
  from Suc.hyps(1) [OF _ rest Suc.prems(2) _ this] Suc.hyps(2) i nx s show ?case by simp
qed

section \<open>Decoding recovers the erased blocks\<close>

text \<open>
  The error lists as the callers build them: \<open>src_in_err\<close> marks the erased blocks and
  leaves at least \<open>k\<close> survivors; \<open>src_err_list\<close> lists erased blocks, data blocks first.
\<close>

definition err_lists :: "nat \<Rightarrow> nat \<Rightarrow> u8 list \<Rightarrow> u8 list \<Rightarrow> nat \<Rightarrow> nat \<Rightarrow> bool" where
  "err_lists k m src_in_err src_err_list nerrs nsrcerrs \<longleftrightarrow>
     length src_in_err = m \<and> k \<le> length (surviving src_in_err) \<and>
     nsrcerrs \<le> nerrs \<and> nerrs \<le> m - k \<and>
     (\<forall>p<nsrcerrs. unat (src_err_list ! p) < k) \<and> (\<forall>p<nerrs. unat (src_err_list ! p) < m)"

text \<open>Block \<open>r\<close> of the codeword of the data vector \<open>x\<close>.\<close>

definition codeword :: "nat \<Rightarrow> u8 list \<Rightarrow> (nat \<Rightarrow> gf256) \<Rightarrow> nat \<Rightarrow> gf256" where
  "codeword k enc x r = (\<Sum>c<k. ent k enc r c * x c)"

lemma build_b_survivors:
  assumes "err_lists k m err errl nerrs nsrcerrs" "k * k \<le> length junk" "k \<le> length decode_index"
  obtains b backup di where
    "build_b [0..<k] k enc err 0 (junk, junk, decode_index) = Some (b, backup, di)"
    "k * k \<le> length b" "\<And>i. i < k \<Longrightarrow> di ! i = surviving err ! i"
    "meq k (ent k b) (\<lambda>i. ent k enc (surviving err ! i))"
proof -
  have "\<exists>s'. build_b [0..<k] k enc err 0 (junk, junk, decode_index) = Some s' \<and>
      rows_built k enc err k s'"
    by (rule build_b_rows) (use assms in \<open>auto simp: surviving_def rows_built_def err_lists_def\<close>)
  then obtain b backup di where
    run: "build_b [0..<k] k enc err 0 (junk, junk, decode_index) = Some (b, backup, di)"
    and built: "rows_built k enc err k (b, backup, di)" by auto
  have "ent k M r c = GF (M ! (k * r + c))" for M r c
    by (simp add: ent_def mult.commute)
  then show thesis
    by (intro that [OF run]) (use built in \<open>simp_all add: rows_built_def meq_def\<close>)
qed

lemma survivors_invertible:
  assumes dim: "k \<le> m" "m \<le> 256" "k * m \<le> length a"
    and errs: "err_lists k m err errl nerrs nsrcerrs"
    and b: "meq k (ent k b) (\<lambda>i. ent k (gf_gen_cauchy1_matrix a m k) (surviving err ! i))"
    and len: "k * k \<le> length b" "k * k \<le> length ivt"
  obtains b' ivt' where "gf_invert_matrix b ivt k = (0, b', ivt')"
    "meq k (mmul k (ent k ivt') (ent k b)) idm"
proof -
  have "\<not> singular k (\<lambda>i. ent k (gf_gen_cauchy1_matrix a m k) (surviving err ! i))"
  proof (rule cauchy1_rows_independent [OF dim])
    show "inj_on ((!) (surviving err)) {..<k}"
      using distinct_surviving errs by (auto simp: inj_on_def err_lists_def nth_eq_iff_index_eq)
  next
    fix i assume "i < k"
    then show "surviving err ! i < m"
      using surviving_set [of i err] errs by (auto simp: err_lists_def)
  qed
  then have nonsing: "\<not> singular k (ent k b)"
    using b by (auto simp: singular_def mvec_def meq_def)
  obtain ret b' ivt' where inv: "gf_invert_matrix b ivt k = (ret, b', ivt')"
    by (cases "gf_invert_matrix b ivt k")
  show thesis
    by (rule gf_invert_matrix_cases [OF len inv]) (use nonsing inv that in auto)
qed

text \<open>The decoding matrix that is computed from the inverse.\<close>

lemma decode_matrix_entries:
  fixes k :: nat
  defines "D enc ivt errl nsrcerrs nerrs D0 \<equiv>
    decode_parity_rows k errl nsrcerrs nerrs enc ivt (decode_rows k errl nsrcerrs ivt D0)"
  assumes le: "nsrcerrs \<le> nerrs" "k * nerrs \<le> length D0"
  shows "length (D enc ivt errl nsrcerrs nerrs D0) = length D0"
    and "p < nsrcerrs \<Longrightarrow> i < k \<Longrightarrow>
      ent k (D enc ivt errl nsrcerrs nerrs D0) p i = ent k ivt (unat (errl ! p)) i"
    and "nsrcerrs \<le> p \<Longrightarrow> p < nerrs \<Longrightarrow> i < k \<Longrightarrow> ent k (D enc ivt errl nsrcerrs nerrs D0) p i =
      (\<Sum>j<k. ent k ivt j i * ent k enc (unat (errl ! p)) j)"
proof -
  have le1: "k * nsrcerrs \<le> length D0"
    using le mult_le_mono2 [of nsrcerrs nerrs k] by linarith
  note g1 = fold_grid [OF le0 le1, where f = "\<lambda>i j. ivt ! (k * unat (errl ! i) + j)",
      folded decode_rows_def]
  have le2: "k * nerrs \<le> length (decode_rows k errl nsrcerrs ivt D0)" using le(2) g1(1) by simp
  note g2 = fold_grid [OF le(1) le2, where f = "\<lambda>p i. fold (\<lambda>j s. s XOR gf_mul (ivt ! (j * k + i))
      (enc ! (k * unat (errl ! p) + j))) [0..<k] 0", folded decode_parity_rows_def]
  show "length (D enc ivt errl nsrcerrs nerrs D0) = length D0"
    using g1(1) g2(1) by (simp add: D_def)
  show "ent k (D enc ivt errl nsrcerrs nerrs D0) p i = ent k ivt (unat (errl ! p)) i"
    if "p < nsrcerrs" "i < k"
    using g2(2) [OF that(2), of p] g1(2) [OF that(2), of p] that(1)
    by (simp add: D_def ent_def mult.commute)
  show "ent k (D enc ivt errl nsrcerrs nerrs D0) p i =
      (\<Sum>j<k. ent k ivt j i * ent k enc (unat (errl ! p)) j)"
    if "nsrcerrs \<le> p" "p < nerrs" "i < k"
    using g2(2) [OF that(3), of p] that(1,2)
    by (simp add: D_def ent_def mult.commute [of _ k] GF_xor_fold gf_simps)
qed

lemma codeword_data:
  assumes "k \<le> m" "k * m \<le> length a" "r < k"
  shows "codeword k (gf_gen_cauchy1_matrix a m k) x r = x r"
proof -
  have "codeword k (gf_gen_cauchy1_matrix a m k) x r = (\<Sum>c<k. if c = r then x c else 0)"
    unfolding codeword_def using assms by (intro sum.cong) (auto simp: cauchy1_top idm_def)
  then show ?thesis using assms by simp
qed

text \<open>Applying the inverse to the surviving blocks yields the data.\<close>

lemma inverse_solves:
  assumes "meq k (mmul k (ent k ivt) (ent k b)) idm" "j < k"
    and "meq k (ent k b) (\<lambda>i. ent k enc (di i))"
  shows "(\<Sum>i<k. ent k ivt j i * codeword k enc x (di i)) = x j"
proof -
  have "(\<Sum>i<k. ent k ivt j i * codeword k enc x (di i)) = mvec k (ent k ivt) (mvec k (ent k b) x) j"
    using assms(3) by (auto simp: mvec_def codeword_def meq_def intro!: sum.cong)
  also have "\<dots> = mvec k (mmul k (ent k ivt) (ent k b)) x j" by (simp add: mvec_mmul)
  also have "\<dots> = x j" using mvec_cong [OF assms(1) refl assms(2)] assms(2) by (simp add: mvec_idm)
  finally show ?thesis .
qed

theorem gf_gen_decode_matrix_recovers:
  fixes a :: "u8 list" and k m :: nat
  defines "enc \<equiv> gf_gen_cauchy1_matrix a m k"
  assumes dim: "k \<le> m" "m \<le> 256" "k * m \<le> length a"
    and errs: "err_lists k m src_in_err src_err_list nerrs nsrcerrs"
    and bufs: "k * k \<le> length junk" "k * k \<le> length invert_matrix" "k \<le> length decode_index"
      "k * nerrs \<le> length decode_matrix"
  obtains D ivt di where
    "gf_gen_decode_matrix junk enc decode_matrix invert_matrix decode_index
       src_err_list src_in_err nerrs nsrcerrs k m = Some (0, D, ivt, di)"
    "length D = length decode_matrix"
    "\<And>i. i < k \<Longrightarrow> di ! i = surviving src_in_err ! i"
    "\<And>x p. p < nerrs \<Longrightarrow> (\<Sum>i<k. ent k D p i * codeword k enc x (surviving src_in_err ! i)) =
       codeword k enc x (unat (src_err_list ! p))"
proof -
  let ?S = "surviving src_in_err" and ?e = "\<lambda>p. unat (src_err_list ! p)"
  from build_b_survivors [OF errs bufs(1,3), of enc] obtain b backup di where
    bb: "build_b [0..<k] k enc src_in_err 0 (junk, junk, decode_index) = Some (b, backup, di)"
    and lb: "k * k \<le> length b" and di: "\<And>i. i < k \<Longrightarrow> di ! i = ?S ! i"
    and B: "meq k (ent k b) (\<lambda>i. ent k enc (?S ! i))" by metis
  from survivors_invertible [OF dim errs B [unfolded enc_def] lb bufs(2)] obtain b' ivt where
    inv: "gf_invert_matrix b invert_matrix k = (0, b', ivt)"
    and left: "meq k (mmul k (ent k ivt) (ent k b)) idm" by metis
  have retry: "invert_retry enc src_err_list nerrs nsrcerrs k m backup 0 b invert_matrix di d = (0, ivt, di)"
    for d by (subst invert_retry.simps) (simp add: inv)
  have le: "nsrcerrs \<le> nerrs" using errs by (simp add: err_lists_def)
  note D = decode_matrix_entries [OF le bufs(4), where enc = enc and ivt = ivt and errl = src_err_list]
  note solve = inverse_solves [OF left _ B]
  show thesis
  proof (rule that)
    show "gf_gen_decode_matrix junk enc decode_matrix invert_matrix decode_index
       src_err_list src_in_err nerrs nsrcerrs k m = Some (0, decode_parity_rows k src_err_list nsrcerrs
         nerrs enc ivt (decode_rows k src_err_list nsrcerrs ivt decode_matrix), ivt, di)"
      by (simp add: gf_gen_decode_matrix_def bb retry)
  next
    fix x p assume p: "p < nerrs"
    show "(\<Sum>i<k. ent k (decode_parity_rows k src_err_list nsrcerrs nerrs enc ivt
        (decode_rows k src_err_list nsrcerrs ivt decode_matrix)) p i * codeword k enc x (?S ! i)) =
        codeword k enc x (?e p)" (is "?l = _")
    proof (cases "p < nsrcerrs")
      case True
      then have e: "?e p < k" using errs by (simp add: err_lists_def)
      then have "codeword k enc x (?e p) = x (?e p)"
        unfolding enc_def using dim by (intro codeword_data) auto
      with True solve [OF e, of x] show ?thesis by (simp add: D)
    next
      case False
      then have "?l = (\<Sum>i<k. \<Sum>j<k. ent k enc (?e p) j * (ent k ivt j i * codeword k enc x (?S ! i)))"
        using p by (simp add: D sum_distrib_right) (simp add: mult.commute mult.left_commute)
      also have "\<dots> = (\<Sum>j<k. ent k enc (?e p) j * (\<Sum>i<k. ent k ivt j i * codeword k enc x (?S ! i)))"
        by (subst sum.swap) (simp add: sum_distrib_left)
      also have "\<dots> = codeword k enc x (?e p)"
        by (simp add: solve) (simp add: codeword_def)
      finally show ?thesis .
    qed
  qed (use D(1) di in simp_all)
qed

section \<open>Properties\<close>

text \<open>C22: Any \<open>k\<close> distinct rows of the matrix of \<open>gf_gen_cauchy1_matrix\<close> are linearly
  independent, for every size up to 256 rows.\<close>

theorem cauchy1_any_rows_invertible:
  assumes "k \<le> m" "m \<le> 256" "k * m \<le> length a" "inj_on sel {..<k}" "\<forall>i<k. sel i < m"
  shows "\<not> singular k (\<lambda>i. ent k (gf_gen_cauchy1_matrix a m k) (sel i))"
  using cauchy1_rows_independent [OF assms(1-4)] assms(5) by blast

theorem cauchy1_any_rows_invertible_witness:
  "\<not> singular 4 (\<lambda>i. ent 4 (gf_gen_cauchy1_matrix (replicate 24 0) 6 4) (i + 2))"
  by (rule cauchy1_any_rows_invertible) (simp_all add: inj_on_def)

text \<open>C8: \<open>gf_gen_decode_matrix\<close> always succeeds on the Cauchy matrix when enough blocks survive,
  and its rows applied to the first \<open>k\<close> surviving blocks give the lost blocks, data and parity alike.\<close>

theorem gf_gen_decode_matrix_correct:
  assumes "k \<le> m" "m \<le> 256" "k * m \<le> length a"
    and "err_lists k m src_in_err src_err_list nerrs nsrcerrs"
    and "k * k \<le> length junk" "k * k \<le> length invert_matrix" "k \<le> length decode_index"
      "k * nerrs \<le> length decode_matrix"
  shows "\<exists>D ivt di. gf_gen_decode_matrix junk (gf_gen_cauchy1_matrix a m k) decode_matrix invert_matrix
       decode_index src_err_list src_in_err nerrs nsrcerrs k m = Some (0, D, ivt, di) \<and>
     (\<forall>x. \<forall>p<nerrs. (\<Sum>i<k. ent k D p i * codeword k (gf_gen_cauchy1_matrix a m k) x (di ! i)) =
        codeword k (gf_gen_cauchy1_matrix a m k) x (unat (src_err_list ! p)))"
  by (rule gf_gen_decode_matrix_recovers [OF assms]) (intro exI conjI, assumption, simp)

theorem gf_gen_decode_matrix_correct_witness:
  "\<exists>D ivt di. gf_gen_decode_matrix (replicate 9 0) (gf_gen_cauchy1_matrix (replicate 6 0) 3 2) (replicate 6 0)
       (replicate 6 0) [0, 0] [0] [1, 0, 0] 1 1 2 3 = Some (0, D, ivt, di) \<and>
     (\<forall>x. \<forall>p<1. (\<Sum>i<2. ent 2 D p i * codeword 2 (gf_gen_cauchy1_matrix (replicate 6 0) 3 2) x (di ! i)) =
        codeword 2 (gf_gen_cauchy1_matrix (replicate 6 0) 3 2) x (unat ([0 :: u8] ! p)))"
  by (rule gf_gen_decode_matrix_correct) (simp_all add: err_lists_def surviving_def upt_conv_Cons)

end
