(* ===== verification/Recovery.thy ===== *)
theory Recovery
  imports Erasure_Decode
begin

text \<open>
  Recovery of a stripe: the scan for failed blocks of \<open>IS_disconnect_handler\<close>, the encoding
  step of \<open>IS_rdma_write\<close> with the tables of \<open>IS_ec_init\<close>, and the decoding step of
  \<open>client_read_done\<close> (all in \<^verbatim>\<open>is_main.c\<close>, erasure-coding configuration). The last theorem
  composes them: whatever at most \<open>m - k\<close> blocks are lost, the data blocks come back.
\<close>

section \<open>Routines\<close>

text \<open>
  \<^verbatim>\<open>for (i = 0, nerrs = 0, nsrcerrs = 0; i < NDISKS && nerrs < NDISKS - NDATAS; i++)\<close>;
  \<open>failed i\<close> is the test on the control block that holds block \<open>i\<close>.
\<close>

fun scan_errs :: "nat \<Rightarrow> nat \<Rightarrow> (nat \<Rightarrow> bool) \<Rightarrow> nat list \<Rightarrow> u8 list \<times> u8 list \<times> nat \<times> nat \<Rightarrow>
    u8 list \<times> u8 list \<times> nat \<times> nat" where
  "scan_errs k m failed [] s = s"
| "scan_errs k m failed (i # is) (src_in_err, src_err_list, nerrs, nsrcerrs) =
     (if nerrs < m - k
      then scan_errs k m failed is
        (if failed i
         then (src_in_err[i := 1], src_err_list[nerrs := word_of_nat i], nerrs + 1,
               if i < k then nsrcerrs + 1 else nsrcerrs)
         else (src_in_err, src_err_list, nerrs, nsrcerrs))
      else (src_in_err, src_err_list, nerrs, nsrcerrs))"

definition scan_failures :: "nat \<Rightarrow> nat \<Rightarrow> (nat \<Rightarrow> bool) \<Rightarrow> u8 list \<Rightarrow> u8 list \<Rightarrow>
    u8 list \<times> u8 list \<times> nat \<times> nat" where
  "scan_failures k m failed src_in_err src_err_list =
     scan_errs k m failed [0..<m] (memset0 m src_in_err, src_err_list, 0, 0)"

text \<open>The matrix and the tables set up for encoding; \<^verbatim>\<open>&encode_matrix[NDATAS * NDATAS]\<close> is a suffix.\<close>

definition ec_init :: "nat \<Rightarrow> nat \<Rightarrow> u8 list \<Rightarrow> u8 list \<Rightarrow> u8 list \<times> u8 list" where
  "ec_init k m encode_matrix encode_tbls =
     (let encode_matrix = gf_gen_cauchy1_matrix encode_matrix m k
      in (encode_matrix, ec_init_tables k (m - k) (drop (k * k) encode_matrix) encode_tbls))"

text \<open>\<^verbatim>\<open>ptrs\<close> holds the \<open>m\<close> block buffers, the parity buffers behind the data buffers.\<close>

definition ec_write :: "nat \<Rightarrow> nat \<Rightarrow> nat \<Rightarrow> u8 list \<Rightarrow> u8 list list \<Rightarrow> u8 list list" where
  "ec_write len k m encode_tbls ptrs =
     take k ptrs @ ec_encode_data_avx len k (m - k) encode_tbls ptrs (drop k ptrs)"

text \<open>
  \<^verbatim>\<open>recov[i]\<close> points to \<^verbatim>\<open>ptrs[src_err_list[i]]\<close> and \<^verbatim>\<open>data[i]\<close> to \<^verbatim>\<open>ptrs[decode_index[i]]\<close>; the
  recovered buffers are stored back where \<^verbatim>\<open>recov\<close> points to.
\<close>

definition ec_recover :: "nat \<Rightarrow> nat \<Rightarrow> nat \<Rightarrow> nat \<Rightarrow> u8 list \<Rightarrow> nat list \<Rightarrow> u8 list \<Rightarrow>
    u8 list list \<Rightarrow> u8 list list" where
  "ec_recover len k nerrs nsrcerrs decode_tbls decode_index src_err_list ptrs =
     (if nsrcerrs > 0
      then let recov = map (\<lambda>i. ptrs ! unat (src_err_list ! i)) [0..<nerrs];
               data = map (\<lambda>i. ptrs ! (decode_index ! i)) [0..<k];
               recov = ec_encode_data_avx len k nerrs decode_tbls data recov
           in fold (\<lambda>i ptrs. ptrs[unat (src_err_list ! i) := recov ! i]) [0..<nerrs] ptrs
      else ptrs)"

section \<open>What the scan collects\<close>

lemma scan_errs_spec:
  assumes "n \<le> m - k" "n + length (take (m - k - n) (filter failed is)) \<le> length el"
  shows "scan_errs k m failed is (ie, el, n, ns) =
    (let G = take (m - k - n) (filter failed is) in
       (fold (\<lambda>i ie. ie[i := 1]) G ie, take n el @ map word_of_nat G @ drop (n + length G) el,
        n + length G, ns + length (filter (\<lambda>i. i < k) G)))"
  using assms
proof (induction "is" arbitrary: ie el n ns)
  case (Cons i "is")
  show ?case
  proof (cases "n < m - k \<and> failed i")
    case True
    define G where "G = take (m - k - Suc n) (filter failed is)"
    from True have hd: "take (m - k - n) (filter failed (i # is)) = i # G"
      by (auto simp: G_def take_Cons' diff_Suc split: nat.splits)
    from Cons.prems(2) have "Suc n + length G \<le> length (el[n := word_of_nat i])" unfolding hd by simp
    with True Cons.IH [of "Suc n" "el[n := word_of_nat i]", folded G_def] show ?thesis
      unfolding hd by (simp add: Let_def take_Suc_conv_app_nth)
    qed (use Cons in \<open>auto simp: Let_def\<close>)
qed simp

definition failures :: "nat \<Rightarrow> (nat \<Rightarrow> bool) \<Rightarrow> nat list" where
  "failures m failed = filter failed [0..<m]"

lemma fold_mark:
  "set G \<subseteq> {..<length ie} \<Longrightarrow> r < length ie \<Longrightarrow>
    fold (\<lambda>i ie. ie[i := v]) G ie ! r = (if r \<in> set G then v else ie ! r)"
  by (induction G arbitrary: ie) (auto simp: nth_list_update)

lemma filter_less_upt: "k \<le> m \<Longrightarrow> filter (\<lambda>i. P i \<and> i < k) [0..<m] = filter P [0..<k]"
proof (induction m)
  case (Suc m)
  then show ?case by (cases "k \<le> m") (auto simp: le_Suc_eq intro: filter_cong)
qed simp

text \<open>With at most \<open>m - k\<close> failures nothing is cut off.\<close>

lemma scan_failures_spec:
  assumes "k \<le> m" "length (failures m failed) \<le> m - k" "m - k \<le> length el" "length ie = m"
  obtains ie' el' where
    "scan_failures k m failed ie el = (ie', el', length (failures m failed), length (failures k failed))"
    "length ie' = m" "\<And>r. r < m \<Longrightarrow> ie' ! r = (if failed r then 1 else 0)"
    "\<And>p. p < length (failures m failed) \<Longrightarrow> el' ! p = word_of_nat (failures m failed ! p)"
proof
  let ?F = "failures m failed"
  let ?ie = "fold (\<lambda>i ie. ie[i := 1]) ?F (memset0 m ie)"
  let ?el = "map word_of_nat ?F @ drop (length ?F) el"
  have lm: "length (memset0 m ie) = m" using assms by (simp add: arr_simps)
  show "scan_failures k m failed ie el = (?ie, ?el, length ?F, length (failures k failed))"
    using assms unfolding scan_failures_def
    by (subst scan_errs_spec) (simp_all add: Let_def failures_def filter_less_upt)
  show "length ?ie = m" by (simp add: length_fold_upd lm)
  show "?ie ! r = (if failed r then 1 else 0)" if "r < m" for r
    using that assms(4) lm by (subst fold_mark) (auto simp: failures_def memset0_nth)
  show "?el ! p = word_of_nat (?F ! p)" if "p < length ?F" for p
    using that by (simp add: nth_append)
qed

lemma scan_err_lists:
  assumes "k \<le> m" "m \<le> 256" "length (failures m failed) \<le> m - k" "length ie = m"
    and ie: "\<And>r. r < m \<Longrightarrow> ie ! r = (if failed r then 1 else 0)"
    and el: "\<And>p. p < length (failures m failed) \<Longrightarrow> el ! p = word_of_nat (failures m failed ! p)"
  shows "err_lists k m ie el (length (failures m failed)) (length (failures k failed))"
    and "p < length (failures m failed) \<Longrightarrow> unat (el ! p) = failures m failed ! p"
proof -
  let ?F = "failures m failed"
  have mem: "?F ! p < m \<and> failed (?F ! p)" if "p < length ?F" for p
    using nth_mem [OF that] by (simp add: failures_def)
  have split: "?F = failures k failed @ filter failed [k..<m]"
    using upt_add_eq_append [of 0 k "m - k"] assms(1) by (simp add: failures_def)
  show un: "unat (el ! p) = ?F ! p" if "p < length ?F" for p
    using mem [OF that] assms(2) that by (simp add: el unat_of_nat_u8)
  have "surviving ie = filter (\<lambda>r. \<not> failed r) [0..<m]"
    using assms(4) by (auto simp: surviving_def ie intro!: filter_cong)
  then have "k \<le> length (surviving ie)"
    using sum_length_filter_compl [of failed "[0..<m]"] assms(1,3) by (simp add: failures_def)
  moreover have "unat (el ! p) < k" if "p < length (failures k failed)" for p
  proof -
    have "p < length ?F" using that by (simp add: split)
    moreover have "?F ! p = failures k failed ! p" using that by (simp add: split nth_append)
    moreover have "failures k failed ! p < k" using nth_mem [OF that] by (simp add: failures_def)
    ultimately show ?thesis by (simp add: un)
  qed
  ultimately show "err_lists k m ie el (length ?F) (length (failures k failed))"
    using assms(3,4) mem by (auto simp: err_lists_def un split)
qed

section \<open>The blocks written are a codeword\<close>

definition stripe :: "nat \<Rightarrow> nat \<Rightarrow> u8 list list \<Rightarrow> bool" where
  "stripe m len ptrs \<longleftrightarrow> length ptrs = m \<and> (\<forall>r<m. len \<le> length (ptrs ! r))"

lemma ent_drop: "k * k \<le> length M \<Longrightarrow> ent k (drop (k * k) M) l j = ent k M (k + l) j"
  by (simp add: ent_def algebra_simps)

lemma ec_write_codeword:
  assumes "0 < k" "k \<le> m" "k * m \<le> length a" "32 * ((m - k) * k) \<le> length g" "stripe m len ptrs"
    and init: "ec_init k m a g = (enc, tbls)"
  shows "stripe m len (ec_write len k m tbls ptrs)"
    and "r < m \<Longrightarrow> i < len \<Longrightarrow> GF (ec_write len k m tbls ptrs ! r ! i) =
      codeword k enc (\<lambda>c. GF (ptrs ! c ! i)) r"
    and "r < k \<Longrightarrow> ec_write len k m tbls ptrs ! r = ptrs ! r"
    and "map length (ec_write len k m tbls ptrs) = map length ptrs"
proof -
  let ?P = "drop (k * k) enc" and ?coding = "drop k ptrs"
  have enc: "enc = gf_gen_cauchy1_matrix a m k" and tb: "tbls = ec_init_tables k (m - k) ?P g"
    using init by (auto simp: ec_init_def Let_def)
  have ex: "expanded ((m - k) * k) ?P tbls"
    using ec_init_tables_expanded [OF assms(4)] by (simp add: tb)
  have kk: "k * k \<le> length enc"
    using assms(2,3) le_trans [OF mult_le_mono2 [OF assms(2), of k] assms(3)]
    by (simp add: enc length_cauchy1)
  have room: "room (m - k) len ?coding" using assms(2,5) by (auto simp: room_def stripe_def)
  note avx = ec_encode_data_avx_eq_base [OF ex assms(1) room]
  have fills: "length (ec_encode_data_avx len k (m - k) tbls ptrs ?coding) = m - k"
    "length (ec_encode_data_avx len k (m - k) tbls ptrs ?coding ! l) = length (?coding ! l)" for l
    using ec_encode_data_base_fills [OF room, of ptrs tbls k] assms(5)
    by (simp_all add: avx rows_filled_def stripe_def)
  show keep: "ec_write len k m tbls ptrs ! r = ptrs ! r" if "r < k" for r
    using that assms(2,5) by (simp add: ec_write_def nth_append stripe_def)
  show "stripe m len (ec_write len k m tbls ptrs)"
    using assms(2,5) fills by (auto simp: stripe_def ec_write_def nth_append)
  show "map length (ec_write len k m tbls ptrs) = map length ptrs"
    by (rule nth_equalityI) (use assms(2,5) fills in \<open>auto simp: ec_write_def nth_append stripe_def\<close>)
  show "GF (ec_write len k m tbls ptrs ! r ! i) = codeword k enc (\<lambda>c. GF (ptrs ! c ! i)) r"
    if "r < m" "i < len" for r i
  proof (cases "r < k")
    case True
    then show ?thesis using assms(2,3) by (simp add: keep enc codeword_data)
  next
    case False
    have "GF (ec_write len k m tbls ptrs ! r ! i) = encoded k (coeff k tbls) ptrs (r - k) i"
      using False that assms(2,5) ec_encode_data_base_correct [OF room, of "r - k" i k tbls ptrs]
      by (simp add: ec_write_def nth_append stripe_def avx)
    also have "\<dots> = codeword k enc (\<lambda>c. GF (ptrs ! c ! i)) r"
      using False that expanded_coeff [OF ex] kk
      by (auto simp: encoded_def codeword_def ent_drop mult.commute intro!: sum.cong)
    finally show ?thesis .
  qed
qed

section \<open>Recovery\<close>

lemma fold_store_other:
  "r \<notin> f ` {..<n} \<Longrightarrow> fold (\<lambda>i ps. ps[f i := g i]) [0..<n] ps ! r = ps ! r"
  by (induction n) (auto simp: lessThan_Suc)

lemma fold_store_row:
  assumes "inj_on f {..<n}" "p < n" "f p < length ps"
  shows "fold (\<lambda>i ps. ps[f i := g i]) [0..<n] ps ! f p = g p"
  using assms
proof (induction n)
  case (Suc n)
  show ?case
  proof (cases "p = n")
    case False
    with Suc.prems have "f p \<noteq> f n" "inj_on f {..<n}"
      by (auto simp: inj_on_def)
    with Suc False show ?thesis by simp
  qed (use Suc in \<open>simp add: length_fold_upd\<close>)
qed simp

text \<open>
  The decoding tables as \<open>IS_disconnect_handler\<close> sets them up after the scan. In this commit the erasure coding setup is disabled and the calls that follow
  the scan are commented out, as are those of \<open>IS_ec_init\<close>; they are modelled as they stand there.
\<close>

definition ec_prepare :: "nat \<Rightarrow> nat \<Rightarrow> (nat \<Rightarrow> bool) \<Rightarrow> u8 list \<Rightarrow> u8 list \<Rightarrow> u8 list \<Rightarrow> u8 list \<Rightarrow>
    u8 list \<Rightarrow> nat list \<Rightarrow> u8 list \<Rightarrow> u8 list \<Rightarrow> (u8 list \<times> nat list \<times> u8 list \<times> nat \<times> nat) option" where
  "ec_prepare k m failed src_in_err src_err_list junk encode_matrix decode_matrix decode_index
       invert_matrix decode_tbls =
     (case scan_failures k m failed src_in_err src_err_list of (src_in_err, src_err_list, nerrs, nsrcerrs) \<Rightarrow>
        (case gf_gen_decode_matrix junk encode_matrix decode_matrix invert_matrix decode_index
                src_err_list src_in_err nerrs nsrcerrs k m of
           Some (ret, decode_matrix, invert_matrix, decode_index) \<Rightarrow>
             if ret \<noteq> 0 then None
             else Some (ec_init_tables k nerrs decode_matrix decode_tbls, decode_index, src_err_list,
                        nerrs, nsrcerrs)
         | None \<Rightarrow> None))"

lemma ec_recover_rows:
  assumes st: "stripe m len ptrs" and el: "\<And>p. p < n \<Longrightarrow> unat (el ! p) = F p"
    and F: "\<And>p. p < n \<Longrightarrow> F p < m" "inj_on F {..<n}"
    and ex: "expanded (n * k) D tbls" and k: "0 < k" and ns: "0 < ns"
  shows "p < n \<Longrightarrow> i < len \<Longrightarrow> GF (ec_recover len k n ns tbls di el ptrs ! F p ! i) =
      (\<Sum>j<k. ent k D p j * GF (ptrs ! (di ! j) ! i))"
    and "\<And>r. r \<notin> F ` {..<n} \<Longrightarrow> ec_recover len k n ns tbls di el ptrs ! r = ptrs ! r"
    and "stripe m len (ec_recover len k n ns tbls di el ptrs)"
proof -
  let ?data = "map (\<lambda>i. ptrs ! (di ! i)) [0..<k]"
  let ?recov = "map (\<lambda>i. ptrs ! unat (el ! i)) [0..<n]"
  let ?out = "ec_encode_data_avx len k n tbls ?data ?recov"
  have room: "room n len ?recov" using st el F(1) by (simp add: room_def stripe_def)
  have "fold (\<lambda>i ptrs. ptrs[unat (el ! i) := ?out ! i]) [0..<n] ptrs =
      fold (\<lambda>i ptrs. ptrs[F i := ?out ! i]) [0..<n] ptrs"
    using el by (intro fold_cong) simp_all
  then have eq: "ec_recover len k n ns tbls di el ptrs =
      fold (\<lambda>i ptrs. ptrs[F i := ?out ! i]) [0..<n] ptrs"
    using ns by (simp add: ec_recover_def)
  show "ec_recover len k n ns tbls di el ptrs ! r = ptrs ! r" if "r \<notin> F ` {..<n}" for r
    unfolding eq using that by (rule fold_store_other)
  have "len \<le> length (?out ! p)" if "p < n" for p
    using ec_encode_data_base_fills [OF room, of ?data tbls k] room that
    by (auto simp: ec_encode_data_avx_eq_base [OF ex k room] rows_filled_def room_def)
  note out = this
  show "stripe m len (ec_recover len k n ns tbls di el ptrs)" unfolding eq
  proof (rule fold_inv [where P = "stripe m len"])
    fix i ps assume "i \<in> set [0..<n]" "stripe m len ps"
    then show "stripe m len (ps[F i := ?out ! i])" using out [of i] F(1) [of i] by (auto simp: stripe_def nth_list_update)
  qed (rule st)
  show "GF (ec_recover len k n ns tbls di el ptrs ! F p ! i) =
      (\<Sum>j<k. ent k D p j * GF (ptrs ! (di ! j) ! i))" if "p < n" "i < len"
  proof -
    have "F p < length ptrs" using F(1) [OF \<open>p < n\<close>] st by (simp add: stripe_def)
    then have row: "ec_recover len k n ns tbls di el ptrs ! F p = ?out ! p"
      unfolding eq using F(2) \<open>p < n\<close> by (intro fold_store_row)
    have "GF (?out ! p ! i) = encoded k (coeff k tbls) ?data p i"
      using ec_encode_data_avx_eq_base [OF ex k room] ec_encode_data_base_correct [OF room that] by simp
    also have "\<dots> = (\<Sum>j<k. ent k D p j * GF (ptrs ! (di ! j) ! i))"
      unfolding encoded_def
      by (rule sum.cong [OF refl]) (simp add: expanded_coeff [OF ex \<open>p < n\<close>] mult.commute)
    finally show ?thesis by (simp add: row)
  qed
qed

text \<open>The sizes the arrays are allocated with.\<close>

definition decode_bufs :: "nat \<Rightarrow> nat \<Rightarrow> u8 list \<Rightarrow> u8 list \<Rightarrow> u8 list \<Rightarrow> u8 list \<Rightarrow> nat list \<Rightarrow> u8 list \<Rightarrow>
    u8 list \<Rightarrow> bool" where
  "decode_bufs k m src_in_err src_err_list junk decode_matrix decode_index invert_matrix decode_tbls \<longleftrightarrow>
     length src_in_err = m \<and> m \<le> length src_err_list \<and> m * k \<le> length junk \<and>
     m * k \<le> length decode_matrix \<and> k \<le> length decode_index \<and> m * k \<le> length invert_matrix \<and>
     32 * ((m - k) * k) \<le> length decode_tbls"

text \<open>The blocks a read fetches: the data blocks that are left, and as many parity blocks as are needed.\<close>

definition read_set :: "nat \<Rightarrow> nat \<Rightarrow> (nat \<Rightarrow> bool) \<Rightarrow> nat list" where
  "read_set k m failed = take k (filter (\<lambda>r. \<not> failed r) [0..<m])"

lemma read_set_data: "r < k \<Longrightarrow> k \<le> m \<Longrightarrow> \<not> failed r \<Longrightarrow> r \<in> set (read_set k m failed)"
proof -
  assume a: "r < k" "k \<le> m" "\<not> failed r"
  let ?f = "\<lambda>r. \<not> failed r"
  have "length (filter ?f [0..<k]) \<le> k" using length_filter_le [of ?f "[0..<k]"] by simp
  moreover have "filter ?f [0..<m] = filter ?f [0..<k] @ filter ?f [k..<m]" using upt_add_eq_append [of 0 k "m - k"] a(2) by simp
  ultimately show ?thesis using a by (simp add: read_set_def)
qed

lemma stripe_recovers:
  assumes dim: "0 < k" "k \<le> m" "m \<le> 256"
    and bufs: "k * m \<le> length a" "32 * ((m - k) * k) \<le> length g" "ec_init k m a g = (enc, tbls)"
      "decode_bufs k m ie el junk dm di ivt dt"
    and few: "length (failures m failed) \<le> m - k"
    and written: "stripe m len ptrs" "stripe m len read"
      "\<And>r i. r \<in> set (read_set k m failed) \<Longrightarrow> i < len \<Longrightarrow> read ! r ! i = ec_write len k m tbls ptrs ! r ! i"
  obtains dt' di' el' n ns where
    "ec_prepare k m failed ie el junk enc dm di ivt dt = Some (dt', di', el', n, ns)"
    "\<And>r i. r < k \<Longrightarrow> i < len \<Longrightarrow> ec_recover len k n ns dt' di' el' read ! r ! i = ptrs ! r ! i"
    "stripe m len (ec_recover len k n ns dt' di' el' read)"
proof -
  let ?F = "failures m failed" and ?n = "length (failures m failed)" and ?ns = "length (failures k failed)"
  have enc: "enc = gf_gen_cauchy1_matrix a m k" using bufs(3) by (auto simp: ec_init_def Let_def)
  have b: "m - k \<le> length el" "length ie = m" using bufs(4) by (auto simp: decode_bufs_def)
  from scan_failures_spec [OF dim(2) few b] obtain ie' el' where
    scan: "scan_failures k m failed ie el = (ie', el', ?n, ?ns)" and lie: "length ie' = m"
    and ie': "\<And>r. r < m \<Longrightarrow> ie' ! r = (if failed r then 1 else 0)"
    and el': "\<And>p. p < ?n \<Longrightarrow> el' ! p = word_of_nat (?F ! p)" by metis
  have errs: "err_lists k m ie' el' ?n ?ns" "\<And>p. p < ?n \<Longrightarrow> unat (el' ! p) = ?F ! p"
    using scan_err_lists [where el = el', OF dim(2,3) few lie] ie' el' by blast+
  have "k * k \<le> m * k" "k * ?n \<le> m * k" "?n * k \<le> (m - k) * k" using dim few by simp_all
  then have sz: "k * k \<le> length junk" "k * k \<le> length ivt" "k \<le> length di" "k * ?n \<le> length dm"
    "32 * (?n * k) \<le> length dt"
    using bufs(4) unfolding decode_bufs_def by linarith+
  obtain D iv di' where
    gen: "gf_gen_decode_matrix junk enc dm ivt di el' ie' ?n ?ns k m = Some (0, D, iv, di')"
    and di': "\<And>i. i < k \<Longrightarrow> di' ! i = surviving ie' ! i"
    and D: "\<And>x p. p < ?n \<Longrightarrow> (\<Sum>i<k. ent k D p i * codeword k enc x (surviving ie' ! i)) =
       codeword k enc x (unat (el' ! p))"
    by (rule gf_gen_decode_matrix_recovers [OF dim(2,3) bufs(1) errs(1) sz(1-4), folded enc]) (rule that)
  let ?dt = "ec_init_tables k ?n D dt"
  have ex: "expanded (?n * k) D ?dt" using ec_init_tables_expanded [OF sz(5)] by simp
  note cw = ec_write_codeword [OF dim(1,2) bufs(1,2) written(1) bufs(3)]
  have "surviving ie' = filter (\<lambda>r. \<not> failed r) [0..<m]" using lie by (auto simp: surviving_def ie' intro!: filter_cong)
  then have rd: "surviving ie' ! j \<in> set (read_set k m failed)" if "j < k" for j
    using that errs(1) by (auto simp: err_lists_def read_set_def in_set_conv_nth)
  have surv: "surviving ie' ! j < m" if "j < k" for j using in_set_takeD [OF rd [OF that, unfolded read_set_def]] by simp
  have mem: "?F ! p < m" if "p < ?n" for p using nth_mem [OF that] by (simp add: failures_def)
  have inj: "inj_on ((!) ?F) {..<?n}" by (simp add: inj_on_nth failures_def)
  have erased: "ec_recover len k ?n ?ns ?dt di' el' read ! (?F ! p) ! i = ptrs ! (?F ! p) ! i"
    if "p < ?n" "?F ! p < k" "i < len" for p i
  proof -
    have "?ns > 0" using nth_mem [OF that(1)] that(2) by (auto simp: failures_def filter_empty_conv)
    then have "GF (ec_recover len k ?n ?ns ?dt di' el' read ! (?F ! p) ! i) =
        (\<Sum>j<k. ent k D p j * GF (read ! (di' ! j) ! i))"
      by (intro ec_recover_rows(1) [OF written(2) errs(2) mem inj ex dim(1)]) (use that in auto)
    also have "\<dots> = (\<Sum>j<k. ent k D p j * codeword k enc (\<lambda>c. GF (ptrs ! c ! i)) (surviving ie' ! j))"
      using that(3) by (intro sum.cong) (simp_all add: di' surv rd written(3) cw(2))
    also have "\<dots> = codeword k enc (\<lambda>c. GF (ptrs ! c ! i)) (?F ! p)"
      by (simp only: D [OF that(1)] errs(2) [OF that(1)])
    also have "\<dots> = GF (ptrs ! (?F ! p) ! i)"
      unfolding enc by (rule codeword_data [OF dim(2) bufs(1) that(2)])
    finally show ?thesis by simp
  qed
  show thesis
  proof (rule that)
    show "ec_prepare k m failed ie el junk enc dm di ivt dt = Some (?dt, di', el', ?n, ?ns)"
      by (simp add: ec_prepare_def scan gen)
    show "stripe m len (ec_recover len k ?n ?ns ?dt di' el' read)"
      using ec_recover_rows(3) [OF written(2) errs(2) mem inj ex dim(1)] written(2)
      by (cases "?ns > 0") (auto simp: ec_recover_def)
  next
    fix r i assume r: "r < k" "i < len"
    show "ec_recover len k ?n ?ns ?dt di' el' read ! r ! i = ptrs ! r ! i"
    proof (cases "failed r")
      case True
      with r dim(2) have "r \<in> set ?F" by (simp add: failures_def)
      then obtain p where "p < ?n" "?F ! p = r" by (auto simp: in_set_conv_nth)
      with erased [of p i] r show ?thesis by simp
    next
      case False
      have "ec_recover len k ?n ?ns ?dt di' el' read ! r = read ! r"
      proof (cases "?ns > 0")
        case True
        have "r \<notin> (!) ?F ` {..<?n}" using False nth_mem [of _ ?F] by (auto simp: failures_def)
        then show ?thesis using r
          by (intro ec_recover_rows(2) [OF written(2) errs(2) mem inj ex dim(1) True]) auto
      qed (simp add: ec_recover_def)
      with False r dim(2) show ?thesis by (simp add: written(3) read_set_data cw(3))
    qed
  qed
qed

section \<open>Properties\<close>



end
