(* ===== verification/Ec_Pages.thy ===== *)
theory Ec_Pages
  imports Recovery Read_Path
begin

text \<open>
  The erasure-coded data path (\<^verbatim>\<open>#ifdef EC\<close> in \<^verbatim>\<open>is_main.c\<close>): how \<open>IS_rdma_write\<close> spreads the pages of a request over the
  data blocks of a stripe and encodes it, and how \<open>client_read_done\<close> recovers lost blocks and gathers the pages again.
\<close>

section \<open>Routines\<close>

text \<open>
  \<^verbatim>\<open>memcpy(ctx[i]->rdma_buf + bio_offset/NDATAS, page + i*IS_PAGE_SIZE/NDATAS, IS_PAGE_SIZE/NDATAS)\<close> for page number \<open>b\<close>.
  The pages of a request are the segments of its first bio when that has several (each is checked to be a page long), and
  otherwise the data of each of its bios.
\<close>

definition ec_copy_in :: "nat \<Rightarrow> bool \<Rightarrow> u8 list list \<Rightarrow> u8 list list \<Rightarrow> u8 list list res" where
  "ec_copy_in k multi pages = foldE (\<lambda>b ptrs. if multi \<and> length (pages ! b) \<noteq> IS_PAGE_SIZE then Inl Die
     else foldE (\<lambda>i ptrs. bindE (aload ptrs (int i)) (\<lambda>p.
       bindE (memcpy (IS_PAGE_SIZE div k) (b * IS_PAGE_SIZE div k) (i * IS_PAGE_SIZE div k) p (pages ! b)) (\<lambda>p. Inr (ptrs[i := p]))))
       [0..<k] ptrs) [0..<length pages]"

definition ec_copy_out :: "nat \<Rightarrow> bool \<Rightarrow> u8 list list \<Rightarrow> u8 list list \<Rightarrow> u8 list list res" where
  "ec_copy_out k multi ptrs pages = foldE (\<lambda>b pages. if multi \<and> length (pages ! b) \<noteq> IS_PAGE_SIZE then Inl Die
     else foldE (\<lambda>i pages. bindE (aload ptrs (int i)) (\<lambda>p.
       bindE (memcpy (IS_PAGE_SIZE div k) (i * IS_PAGE_SIZE div k) (b * IS_PAGE_SIZE div k) (pages ! b) p) (\<lambda>d. Inr (pages[b := d]))))
       [0..<k] pages) [0..<length pages] pages"

section \<open>Copying\<close>

lemma memcpy_ok:
  assumes "d + n \<le> length dst" "s + n \<le> length src"
  obtains out where "memcpy n d s dst src = Inr out" "length out = length dst"
    "\<And>x. x < length dst \<Longrightarrow> out ! x = (if d \<le> x \<and> x < d + n then src ! (s + (x - d)) else dst ! x)"
proof (rule that)
  show "memcpy n d s dst src = Inr (take d dst @ take n (drop s src) @ drop (d + n) dst)" using assms by (simp add: memcpy_def)
qed (use assms in \<open>auto simp: nth_append\<close>)

lemma block_bound: "i < k \<Longrightarrow> i * B + B \<le> k * (B :: nat)"
  by (metis Suc_leI add.commute mult_Suc mult_le_mono1)

lemma page_div:
  assumes "IS_PAGE_SIZE = k * B" "0 < k"
  shows "b * IS_PAGE_SIZE div k = b * B" "IS_PAGE_SIZE div k = B"
proof -
  have "b * IS_PAGE_SIZE = k * (b * B)" unfolding assms(1) by (rule mult.left_commute)
  then show "b * IS_PAGE_SIZE div k = b * B" using assms(2) by (metis nonzero_mult_div_cancel_left neq0_conv)
  show "IS_PAGE_SIZE div k = B" using assms by (metis nonzero_mult_div_cancel_left neq0_conv)
qed

text \<open>Where byte \<open>x\<close> of block \<open>i\<close> comes from, and where byte \<open>y\<close> of page \<open>b\<close> goes to.\<close>

definition spread :: "nat \<Rightarrow> nat \<Rightarrow> u8 list list \<Rightarrow> u8 list list \<Rightarrow> nat \<Rightarrow> bool" where
  "spread k B pages ptrs n \<longleftrightarrow> (\<forall>b<n. \<forall>i<k. \<forall>x<B. ptrs ! i ! (b * B + x) = pages ! b ! (i * B + x))"

lemma ec_copy_in_spec:
  assumes k: "IS_PAGE_SIZE = k * B" "0 < k" and pages: "\<forall>p\<in>set pages. length p = IS_PAGE_SIZE"
    and st: "stripe m (length pages * B) ptrs" "k \<le> m"
  shows "\<exists>out. ec_copy_in k multi pages ptrs = Inr out \<and> stripe m (length pages * B) out \<and> spread k B pages out (length pages) \<and>
    map length out = map length ptrs"
proof -
  let ?P = "\<lambda>b out. stripe m (length pages * B) out \<and> spread k B pages out b \<and> map length out = map length ptrs"
  have div: "b * IS_PAGE_SIZE div k = b * B" "IS_PAGE_SIZE div k = B" for b by (rule page_div [OF k])+
  show ?thesis unfolding ec_copy_in_def div
  proof (rule foldE_upto [where P = ?P])
    fix b s assume b: "b < length pages" and s: "?P b s"
    let ?Q = "\<lambda>j out. ?P b out \<and> (\<forall>i<j. \<forall>x<B. out ! i ! (b * B + x) = pages ! b ! (i * B + x))"
    have pg: "length (pages ! b) = k * B" using pages b k(1) by simp
    have "\<exists>t. foldE (\<lambda>i ptrs. bindE (aload ptrs (int i)) (\<lambda>p. bindE (memcpy B (b * B) (i * B) p (pages ! b)) (\<lambda>p. Inr (ptrs[i := p])))) [0..<k] s = Inr t \<and> ?Q k t"
    proof (rule foldE_upto [where P = ?Q])
      fix i t assume i: "i < k" and t: "?Q i t"
      have r: "i < length t" "b * B + B \<le> length (t ! i)"
        using i t st(2) block_bound [OF b, of B] by (auto simp: stripe_def intro: le_trans)
      have src: "i * B + B \<le> length (pages ! b)" using block_bound [OF i] pg by simp
      obtain out where out: "memcpy B (b * B) (i * B) (t ! i) (pages ! b) = Inr out" "length out = length (t ! i)"
        "\<And>x. x < length (t ! i) \<Longrightarrow> out ! x = (if b * B \<le> x \<and> x < b * B + B then pages ! b ! (i * B + (x - b * B)) else t ! i ! x)"
        using memcpy_ok [OF r(2) src] by metis
      have new: "out ! (b * B + x) = pages ! b ! (i * B + x)" if "x < B" for x using out(3) [of "b * B + x"] r(2) that by simp
      have old: "out ! (b' * B + x) = pages ! b' ! (i * B + x)" if "b' < b" "x < B" for b' x
      proof -
        have "b' * B + x < b * B" using block_bound [OF that(1), of B] that(2) by simp
        then show ?thesis using out(3) [of "b' * B + x"] r(2) t that i by (simp add: spread_def)
      qed
      have "map length (t[i := out]) = map length t" using out(2) r(1) by (simp add: map_update list_update_same_conv)
      then have "?Q (Suc i) (t[i := out])"
        using t out(2) new old i r(1) by (auto simp: stripe_def spread_def nth_list_update less_Suc_eq)
      with out(1) r(1) show "\<exists>t'. bindE (aload t (int i)) (\<lambda>p. bindE (memcpy B (b * B) (i * B) p (pages ! b)) (\<lambda>p. Inr (t[i := p]))) = Inr t' \<and> ?Q (Suc i) t'"
        by simp
    qed (use s in simp)
    then obtain t where t: "foldE (\<lambda>i ptrs. bindE (aload ptrs (int i)) (\<lambda>p. bindE (memcpy B (b * B) (i * B) p (pages ! b)) (\<lambda>p. Inr (ptrs[i := p])))) [0..<k] s = Inr t" "?Q k t"
      by blast
    then have "?P (Suc b) t" by (auto simp: spread_def less_Suc_eq)
    with t(1) pg k(1) show "\<exists>t. (if multi \<and> length (pages ! b) \<noteq> IS_PAGE_SIZE then Inl Die
       else foldE (\<lambda>i ptrs. bindE (aload ptrs (int i)) (\<lambda>p. bindE (memcpy B (b * B) (i * B) p (pages ! b)) (\<lambda>p. Inr (ptrs[i := p])))) [0..<k] s) = Inr t \<and> ?P (Suc b) t"
      by simp
  qed (use st in \<open>simp add: spread_def\<close>)
qed

lemma ec_copy_out_spec:
  assumes k: "IS_PAGE_SIZE = k * B" "0 < k" and old: "\<forall>p\<in>set old. length p = IS_PAGE_SIZE"
    and pages: "\<forall>p\<in>set pages. length p = IS_PAGE_SIZE" "length old = length pages"
    and st: "stripe m (length pages * B) ptrs" "k \<le> m" "spread k B pages ptrs (length pages)"
  shows "ec_copy_out k multi ptrs old = Inr pages"
proof -
  let ?P = "\<lambda>b out. length out = length pages \<and> (\<forall>b'<length pages. length (out ! b') = k * B \<and> (b' < b \<longrightarrow> out ! b' = pages ! b'))"
  have div: "b * IS_PAGE_SIZE div k = b * B" "IS_PAGE_SIZE div k = B" for b by (rule page_div [OF k])+
  have pg: "length (pages ! b) = k * B" if "b < length pages" for b using pages(1) that k(1) by simp
  have "\<exists>out. ec_copy_out k multi ptrs old = Inr out \<and> ?P (length old) out" unfolding ec_copy_out_def div
  proof (rule foldE_upto [where P = ?P])
    fix b s assume "b < length old" and s: "?P b s"
    then have b: "b < length pages" using pages(2) by simp
    let ?Q = "\<lambda>j out. ?P b out \<and> (\<forall>i<j. \<forall>x<B. out ! b ! (i * B + x) = pages ! b ! (i * B + x))"
    let ?f = "\<lambda>i pages. bindE (aload ptrs (int i)) (\<lambda>p. bindE (memcpy B (i * B) (b * B) (pages ! b) p) (\<lambda>d. Inr (pages[b := d])))"
    have "\<exists>t. foldE ?f [0..<k] s = Inr t \<and> ?Q k t"
    proof (rule foldE_upto [where P = ?Q])
      fix i t assume i: "i < k" and t: "?Q i t"
      have r: "i < length ptrs" "b * B + B \<le> length (ptrs ! i)"
        using i st(1,2) block_bound [OF b, of B] by (auto simp: stripe_def intro: le_trans)
      have dst: "i * B + B \<le> length (t ! b)" using block_bound [OF i] t b by simp
      obtain out where out: "memcpy B (i * B) (b * B) (t ! b) (ptrs ! i) = Inr out" "length out = length (t ! b)"
        "\<And>x. x < length (t ! b) \<Longrightarrow> out ! x = (if i * B \<le> x \<and> x < i * B + B then ptrs ! i ! (b * B + (x - i * B)) else t ! b ! x)"
        using memcpy_ok [OF dst r(2)] by metis
      have new: "out ! (i * B + x) = pages ! b ! (i * B + x)" if "x < B" for x
        using out(3) [of "i * B + x"] dst that st(3) b i by (simp add: spread_def)
      have keep: "out ! (i' * B + x) = pages ! b ! (i' * B + x)" if "i' < i" "x < B" for i' x
      proof -
        have "i' * B + x < i * B" using block_bound [OF that(1), of B] that(2) by simp
        then show ?thesis using out(3) [of "i' * B + x"] dst t that by simp
      qed
      have "?Q (Suc i) (t[b := out])" using t out(2) new keep b by (auto simp: nth_list_update less_Suc_eq)
      with out(1) r(1) show "\<exists>t'. ?f i t = Inr t' \<and> ?Q (Suc i) t'" by simp
    qed (use s in simp)
    then obtain t where t: "foldE ?f [0..<k] s = Inr t" "?Q k t" by blast
    have "t ! b ! y = pages ! b ! y" if "y < k * B" for y
    proof -
      have "0 < B" using that by (cases B) auto
      then have "y div B < k" "y mod B < B" using that by (simp_all add: div_less_iff_less_mult)
      then have "t ! b ! (y div B * B + y mod B) = pages ! b ! (y div B * B + y mod B)" using t(2) by blast
      then show ?thesis by simp
    qed
    then have "t ! b = pages ! b" using t(2) b pg by (intro nth_equalityI) auto
    then have "?P (Suc b) t" using t(2) by (auto simp: less_Suc_eq)
    with t(1) s b k(1) show "\<exists>t. (if multi \<and> length (s ! b) \<noteq> IS_PAGE_SIZE then Inl Die else foldE ?f [0..<k] s) = Inr t \<and> ?P (Suc b) t"
      by simp
  qed (use old pages k in simp)
  then obtain out where "ec_copy_out k multi ptrs old = Inr out" "?P (length old) out" by blast
  moreover from this have "out = pages" using pages(2) by (intro nth_equalityI) auto
  ultimately show ?thesis by simp
qed

section \<open>A stripe of pages\<close>

text \<open>
  Pages spread over the data blocks, encoded, read back with some blocks lost, recovered and gathered: the pages come back.
\<close>

lemma ec_pages_recovered:
  assumes dim: "0 < k" "k \<le> m" "m \<le> 256" "IS_PAGE_SIZE = k * B"
    and bufs: "k * m \<le> length a" "32 * ((m - k) * k) \<le> length g" "ec_init k m a g = (enc, tbls)"
      "decode_bufs k m ie el junk dm di ivt dt"
    and few: "length (failures m failed) \<le> m - k"
    and pages: "\<forall>p\<in>set pages. length p = IS_PAGE_SIZE" "\<forall>p\<in>set old. length p = IS_PAGE_SIZE" "length old = length pages"
    and st: "stripe m (length pages * B) ptrs" "spread k B pages ptrs (length pages)" "stripe m (length pages * B) read"
    and same: "\<And>r i. r \<in> set (read_set k m failed) \<Longrightarrow> i < length pages * B \<Longrightarrow> read ! r ! i = ec_write (length pages * B) k m tbls ptrs ! r ! i"
  obtains dt' di' el' n ns where
    "ec_prepare k m failed ie el junk enc dm di ivt dt = Some (dt', di', el', n, ns)"
    "ec_copy_out k multi (ec_recover (length pages * B) k n ns dt' di' el' read) old = Inr pages"
    "stripe m (length pages * B) (ec_recover (length pages * B) k n ns dt' di' el' read)"
proof -
  let ?len = "length pages * B"
  obtain dt' di' el' n ns where r: "ec_prepare k m failed ie el junk enc dm di ivt dt = Some (dt', di', el', n, ns)"
    "\<And>r i. r < k \<Longrightarrow> i < ?len \<Longrightarrow> ec_recover ?len k n ns dt' di' el' read ! r ! i = ptrs ! r ! i"
    "stripe m ?len (ec_recover ?len k n ns dt' di' el' read)"
    by (rule stripe_recovers [OF dim(1-3) bufs few st(1,3) same]) auto
  have "b * B + x < ?len" if "b < length pages" "x < B" for b x using block_bound [OF that(1), of B] that(2) by simp
  then have "spread k B pages (ec_recover ?len k n ns dt' di' el' read) (length pages)" using st(2) r(2) by (simp add: spread_def)
  then have "ec_copy_out k multi (ec_recover ?len k n ns dt' di' el' read) old = Inr pages"
    using ec_copy_out_spec [OF dim(4,1) pages(2,1,3) r(3) dim(2)] by simp
  with r show thesis by (intro that)
qed

end
