(* ===== verification/Ec_Path.thy ===== *)
theory Ec_Path
  imports Ec_Pages Read_Path
begin

text \<open>
  The erasure-coded data path on the state of the driver: the staging of a write in the buffers of its contexts, and the completions of
  a read up to the last one, which recovers the stripe, fills the pages of the request, ends it and returns the contexts.
\<close>

section \<open>Routines\<close>

text \<open>The global tables that \<open>IS_ec_init\<close> and \<open>IS_disconnect_handler\<close> set up.\<close>

record ec_tables =
  encode_tbls :: "u8 list"
  decode_tbls :: "u8 list"
  decode_index :: "nat list"
  src_err_list :: "u8 list"
  nerrs :: nat
  nsrcerrs :: nat

text \<open>The buffers that \<^verbatim>\<open>ptrs[i] = ctxs[i]->rdma_buf\<close> points to, and their contents stored back.\<close>

fun ctx_bufs :: "'n world \<Rightarrow> ctx_addr list \<Rightarrow> u8 list list res" where
  "ctx_bufs w [] = Inr []"
| "ctx_bufs w (a # as) = bindE (ctx_at w a) (\<lambda>x. bindE (buf_of x) (\<lambda>d. bindE (ctx_bufs w as) (\<lambda>ds. Inr (d # ds))))"

definition store_bufs :: "ctx_addr list \<Rightarrow> u8 list list \<Rightarrow> 'n world \<Rightarrow> 'n world" where
  "store_bufs as ds = fold (\<lambda>(a, d). upd_ctx a (\<lambda>x. x\<lparr>ctx_rdma_buf := Some d\<rparr>)) (zip as ds)"

definition ec_stage :: "is_config \<Rightarrow> ec_tables \<Rightarrow> request \<Rightarrow> nat \<Rightarrow> ctx_addr list \<Rightarrow> 'n world \<Rightarrow> 'n world res" where
  "ec_stage c g q ln as w = bindE (ctx_bufs w as) (\<lambda>ptrs. bindE (ec_copy_in (NDATAS c) (rq_multi q) (rq_bios q) ptrs) (\<lambda>ptrs.
     Inr (store_bufs as (ec_write (ln div NDATAS c) (NDATAS c) (NDISKS c) (encode_tbls g) ptrs) w)))"

text \<open>
  \<open>client_read_done\<close> under \<^verbatim>\<open>#ifdef EC\<close>: after the reset of the context, which both setups share, the last completion recovers the stripe when there are
  lost data blocks, copies the pages out, ends the request and returns the contexts.
\<close>

definition client_read_done_ec :: "is_config \<Rightarrow> ec_tables \<Rightarrow> ctx_addr \<Rightarrow> 'n world \<Rightarrow> 'n world res" where
  "client_read_done_ec c g a w = bindE (ctx_at w a) (\<lambda>x. case ctx_req x of None \<Rightarrow> Inl Oob | Some r \<Rightarrow>
     bindE (dec_and_test (ctx_cnt x) (upd_ctx a reset_ctx w)) (\<lambda>(last, w).
       if \<not> last then Inr w
       else let ctxs = take (NDISKS c) (ctx_ctxs x) in
         bindE (req_at w r) (\<lambda>q. bindE (ctx_bufs w ctxs) (\<lambda>ptrs.
         let ptrs = ec_recover (rq_bytes q div NDATAS c) (NDATAS c) (nerrs g) (nsrcerrs g) (decode_tbls g) (decode_index g) (src_err_list g) ptrs in
         bindE (ec_copy_out (NDATAS c) (rq_multi q) ptrs (rq_bios q)) (\<lambda>pages.
           foldE give_back ctxs (end_request r 0 (upd_req r (\<lambda>q. q\<lparr>rq_bios := pages\<rparr>) (store_bufs ctxs ptrs w))))))))"

definition handle_completion_ec :: "is_config \<Rightarrow> ec_tables \<Rightarrow> 'n transport \<Rightarrow> nat \<Rightarrow> completion \<Rightarrow> 'n world \<Rightarrow> 'n world res" where
  "handle_completion_ec c g tr b op w = (case op of OP_READ a d \<Rightarrow> client_read_done_ec c g a w | _ \<Rightarrow> handle_completion c tr b op w)"

definition rdma_cq_event_handler_ec :: "is_config \<Rightarrow> ec_tables \<Rightarrow> 'n transport \<Rightarrow> nat \<Rightarrow> 'n world \<Rightarrow> 'n world res" where
  "rdma_cq_event_handler_ec c g tr b w = bindE (cb_at (sess w) (int b)) (\<lambda>cb.
     if state cb = ERROR then Inr w
     else case tp_poll tr b (net w) of
       None \<Rightarrow> if cb_state_list (sess w) ! b = CB_FAIL then Inr (upd_sess (set_state b ERROR) w) else Inl Blocked
     | Some (st, op, n) \<Rightarrow>
         let w = w\<lparr>net := n\<rparr>; w = (if st = WC_SUCCESS then deliver b op w else w) in
         if cb_state_list (sess w) ! b = CB_FAIL then Inr (upd_sess (set_state b ERROR) w)
         else case st of
           WC_FLUSH \<Rightarrow> Inr w
         | WC_ERROR \<Rightarrow> Inr (upd_sess (set_state b ERROR) w)
         | WC_SUCCESS \<Rightarrow> handle_completion_ec c g tr b op w)"

text \<open>\<open>IS_rdma_write\<close> with the erasure-coding stage between the acquisition of the contexts and the posts.\<close>

definition IS_rdma_write_ec :: "is_config \<Rightarrow> ec_tables \<Rightarrow> 'n transport \<Rightarrow> route list \<Rightarrow> nat \<Rightarrow> nat \<Rightarrow> nat \<Rightarrow> 'n world \<Rightarrow> (int \<times> 'n world) res" where
  "IS_rdma_write_ec c g tr routes offset ln r w = bindE (req_at w r) (\<lambda>q.
     case new_counter (int (NDATAS c)) w of (cnt, w) \<Rightarrow>
     bindE (foldE (acquire c r q offset ln True cnt) (enumerate 0 routes) ([], w)) (\<lambda>(as, w).
     bindE (ec_stage c g q ln as w) (\<lambda>w.
     bindE (whileE (\<lambda>(rt, a) w. case rt of None \<Rightarrow> Inr (0, w) | Some (b, _) \<Rightarrow> post_ctx tr b a w) (zip routes as) w) (\<lambda>(ret, w).
     if ret \<noteq> 0 then Inr (ret, w)
     else bindE (foldE (\<lambda>(rt, a) w. case rt of None \<Rightarrow> give_back a w | Some (b, _) \<Rightarrow> rdma_cq_event_handler_ec c g tr b w)
         (zip routes as) w) (\<lambda>w. Inr (0, w))))))"

section \<open>Buffers of contexts\<close>

lemma ctx_bufs_with:
  assumes "\<forall>p\<in>set ps. has_pool w i (fst p) \<and> pool_free (pl p) \<and> pool_of w i (fst p) = with_ctx (pl p) (f p) (y p) \<and> ctx_rdma_buf (y p) = Some (d p)"
  shows "ctx_bufs w (map (\<lambda>p. (i, fst p, top_id (pl p))) ps) = Inr (map d ps)"
  using assms
proof (induction ps)
  case (Cons p ps)
  have "top_id (pl p) < length (ctx_pool (pl p))" using Cons.prems by (auto elim: pool_free_take)
  then have "ctx_at w (i, fst p, top_id (pl p)) = Inr (y p)" using Cons.prems by (auto intro: ctx_at_with)
  then show ?case using Cons by (simp add: buf_of_def)
qed simp

lemma store_bufs_with:
  assumes "distinct (map fst ps)" "length ds = length ps"
    and "\<forall>p\<in>set ps. has_pool w i (fst p) \<and> pool_free (pl p) \<and> pool_of w i (fst p) = with_ctx (pl p) (f p) (y p)"
  defines "w' \<equiv> store_bufs (map (\<lambda>p. (i, fst p, top_id (pl p))) ps) ds w"
  shows "frame w w' \<and> net w' = net w \<and> reqs w' = reqs w \<and> cnts w' = cnts w \<and> (\<forall>b. b \<notin> fst ` set ps \<longrightarrow> pool_of w' i b = pool_of w i b) \<and>
    (\<forall>(p, d)\<in>set (zip ps ds). pool_of w' i (fst p) = with_ctx (pl p) (f p) ((y p)\<lparr>ctx_rdma_buf := Some d\<rparr>))"
  using assms(2,1,3) unfolding w'_def
proof (induction ds ps arbitrary: w rule: list_induct2)
  case (Cons d ds p ps)
  let ?w = "upd_ctx (i, fst p, top_id (pl p)) (\<lambda>x. x\<lparr>ctx_rdma_buf := Some d\<rparr>) w"
  let ?v = "store_bufs (map (\<lambda>p. (i, fst p, top_id (pl p))) ps) ds ?w"
  have t: "top_id (pl p) < length (ctx_pool (pl p))" using Cons.prems by (auto elim: pool_free_take)
  have p: "pool_of ?w i b = (if b = fst p then with_ctx (pl p) (f p) ((y p)\<lparr>ctx_rdma_buf := Some d\<rparr>) else pool_of w i b)" for b
    using upd_ctx_with [OF _ _ t, of w i "fst p" "f p" "y p"] Cons.prems by simp
  have ne: "fst p' \<noteq> fst p" if "p' \<in> set ps" for p' using Cons.prems(1) that by (auto simp: image_iff)
  have "\<forall>p'\<in>set ps. has_pool ?w i (fst p') \<and> pool_free (pl p') \<and> pool_of ?w i (fst p') = with_ctx (pl p') (f p') (y p')"
    using Cons.prems(2) p ne by simp
  from Cons.IH [OF _ this] Cons.prems(1) have IH: "frame ?w ?v" "net ?v = net ?w" "reqs ?v = reqs ?w" "cnts ?v = cnts ?w"
    "\<forall>b. b \<notin> fst ` set ps \<longrightarrow> pool_of ?v i b = pool_of ?w i b"
    "\<forall>(p, d)\<in>set (zip ps ds). pool_of ?v i (fst p) = with_ctx (pl p) (f p) ((y p)\<lparr>ctx_rdma_buf := Some d\<rparr>)" by auto
  have v: "store_bufs (map (\<lambda>p. (i, fst p, top_id (pl p))) (p # ps)) (d # ds) w = ?v" by (simp add: store_bufs_def)
  have "fst p \<notin> fst ` set ps" using Cons.prems(1) by simp
  then have "pool_of ?v i (fst p) = with_ctx (pl p) (f p) ((y p)\<lparr>ctx_rdma_buf := Some d\<rparr>)" using IH(5) p by simp
  with IH p frame_trans [OF frame_ctx IH(1)] show ?case unfolding v by simp
qed (simp add: store_bufs_def)

section \<open>Completions of a read\<close>

lemma poll_ec_ok:
  assumes "reliable tr mem cqe" "alive (sess w) b" "cqe (net w) b = OP_READ a d # ops"
  shows "\<exists>n. rdma_cq_event_handler_ec c g tr b w =
      client_read_done_ec c g a (upd_ctx a (\<lambda>x. x\<lparr>ctx_rdma_buf := map_option (overlay d) (ctx_rdma_buf x)\<rparr>) (w\<lparr>net := n\<rparr>)) \<and>
    mem n = mem (net w) \<and> cqe n = (cqe (net w))(b := ops)"
proof -
  from assms(1,3) obtain n where n: "tp_poll tr b (net w) = Some (WC_SUCCESS, OP_READ a d, n)" "mem n = mem (net w)" "cqe n = (cqe (net w))(b := ops)"
    unfolding reliable_def by blast
  have "cb_state_list (sess (deliver b (OP_READ a d) (w\<lparr>net := n\<rparr>))) = cb_state_list (sess w)"
    by (simp add: frameD(2) [OF frame_ctx])
  then show ?thesis
    using n assms(2) by (intro exI [of _ n]) (auto simp: rdma_cq_event_handler_ec_def handle_completion_ec_def alive_def Let_def split: sum.splits)
qed

text \<open>A completion that is not the last only resets its context.\<close>

lemma read_done_ec_early:
  assumes "has_pool w i b" "pool_of w i b = with_ctx pl f x" "top_id pl < length (ctx_pool pl)"
    and "ctx_req x = Some r" "ctx_cnt x = Some cnt" "cnt < length (cnts w)" "cnts w ! cnt \<noteq> 1"
  shows "client_read_done_ec c g (i, b, top_id pl) w =
    Inr ((upd_ctx (i, b, top_id pl) reset_ctx w)\<lparr>cnts := (cnts w)[cnt := cnts w ! cnt - 1]\<rparr>)"
  using ctx_at_with [OF assms(1-3)] assms(4-) by (simp add: client_read_done_ec_def dec_and_test_def)

lemma read_done_ec_last:
  assumes c: "NDISKS c = length ps" and ps: "distinct (map fst ps)" "pm \<in> set ps"
    and pools: "\<forall>p\<in>set ps. has_pool w i (fst p) \<and> pool_free (pl p) \<and> pool_of w i (fst p) = with_ctx (pl p) (Some (popped (pl p))) (y p) \<and>
      ctx_rdma_buf (y p) = Some (d p)"
    and ym: "ctx_req (y pm) = Some r" "ctx_cnt (y pm) = Some cnt" "ctx_ctxs (y pm) = map (\<lambda>p. (i, fst p, top_id (pl p))) ps"
      "cnt < length (cnts w)" "cnts w ! cnt = 1" and q: "reqs w r = Some q"
    and ptrs: "ec_recover (rq_bytes q div NDATAS c) (NDATAS c) (nerrs g) (nsrcerrs g) (decode_tbls g) (decode_index g) (src_err_list g) (map d ps) = ptrs"
      "length ptrs = length ps" "ec_copy_out (NDATAS c) (rq_multi q) ptrs (rq_bios q) = Inr pages"
  shows "\<exists>w'. client_read_done_ec c g (i, fst pm, top_id (pl pm)) w = Inr w' \<and> frame w w' \<and> net w' = net w \<and>
    reqs w' = (reqs w)(r \<mapsto> q\<lparr>rq_bios := pages, rq_end := Some 0\<rparr>) \<and>
    (\<forall>p\<in>set ps. \<exists>x. pool_of w' i (fst p) = with_ctx (pl p) (free_ctxs (pl p)) x)"
proof -
  let ?a = "\<lambda>p. (i, fst p, top_id (pl p))" and ?y = "\<lambda>p. if p = pm then reset_ctx (y p) else y p" and ?f = "\<lambda>p. Some (popped (pl p))"
  have t: "top_id (pl p) < length (ctx_pool (pl p))" if "p \<in> set ps" for p using pools that by (auto elim: pool_free_take)
  have inj: "fst p = fst pm \<longleftrightarrow> p = pm" if "p \<in> set ps" for p using ps that by (auto simp: distinct_map inj_on_def)
  let ?w1 = "upd_ctx (?a pm) reset_ctx w"
  let ?w2 = "?w1\<lparr>cnts := (cnts w)[cnt := 0]\<rparr>"
  let ?w3 = "store_bufs (map ?a ps) ptrs ?w2"
  let ?w4 = "end_request r 0 (upd_req r (\<lambda>q. q\<lparr>rq_bios := pages\<rparr>) ?w3)"
  have m: "has_pool w i (fst pm)" "pool_of w i (fst pm) = with_ctx (pl pm) (?f pm) (y pm)" using pools ps(2) by auto
  have p2: "\<forall>p\<in>set ps. has_pool ?w2 i (fst p) \<and> pool_free (pl p) \<and> pool_of ?w2 i (fst p) = with_ctx (pl p) (?f p) (?y p)"
    using upd_ctx_with [OF m t [OF ps(2)], of reset_ctx] pools inj by auto
  moreover have "ctx_rdma_buf (?y p) = Some (d p)" if "p \<in> set ps" for p using pools that by (auto simp: reset_ctx_def)
  ultimately have bufs: "ctx_bufs ?w2 (map ?a ps) = Inr (map d ps)" by (intro ctx_bufs_with [where y = ?y and f = ?f]) simp
  have at: "ctx_at w (?a pm) = Inr (y pm)" by (rule ctx_at_with [OF m t [OF ps(2)]])
  have run: "client_read_done_ec c g (?a pm) w = foldE give_back (map ?a ps) ?w4"
    using at ym bufs ptrs c q by (simp add: client_read_done_ec_def dec_and_test_def req_at_def Let_def)
  have st: "frame ?w2 ?w3" "net ?w3 = net ?w2" "reqs ?w3 = reqs ?w2"
    "\<forall>(p, d)\<in>set (zip ps ptrs). pool_of ?w3 i (fst p) = with_ctx (pl p) (?f p) ((?y p)\<lparr>ctx_rdma_buf := Some d\<rparr>)"
    using store_bufs_with [OF ps(1) ptrs(2) p2] by auto
  have "\<forall>p\<in>set ps. \<exists>x. pool_of ?w3 i (fst p) = with_ctx (pl p) (?f p) x"
  proof
    fix p assume "p \<in> set ps"
    then obtain d where "(p, d) \<in> set (zip ps ptrs)" using ptrs(2) by (metis in_set_impl_in_set_zip1)
    with st(4) show "\<exists>x. pool_of ?w3 i (fst p) = with_ctx (pl p) (?f p) x" by blast
  qed
  from bchoice [OF this] obtain x where x: "\<forall>p\<in>set ps. pool_of ?w3 i (fst p) = with_ctx (pl p) (?f p) (x p)" by blast
  have f2: "frame w ?w2" by (rule frame_trans [OF frame_ctx frame_net(2)])
  have f4: "frame w ?w4" unfolding end_request_def by (rule frame_trans [OF f2 frame_trans [OF st(1) frame_trans [OF frame_net(4) frame_net(4)]]])
  have "\<forall>p\<in>set ps. has_pool ?w4 i (fst p) \<and> pool_free (pl p) \<and> pool_of ?w4 i (fst p) = with_ctx (pl p) (?f p) (x p)"
    using x pools frameD(5) [OF f4] by (simp add: end_request_def)
  from give_back_all [OF ps(1) this] obtain w' where w': "foldE give_back (map ?a ps) ?w4 = Inr w'" "frame ?w4 w'" "net w' = net ?w4" "reqs w' = reqs ?w4"
    "\<forall>p\<in>set ps. pool_of w' i (fst p) = with_ctx (pl p) (free_ctxs (pl p)) (x p)" by blast
  have "net ?w4 = net w" "reqs ?w4 = (reqs w)(r \<mapsto> q\<lparr>rq_bios := pages, rq_end := Some 0\<rparr>)" using q st by (simp_all add: end_request_def)
  with run w' frame_trans [OF f4 w'(2)] show ?thesis by (intro exI [of _ w']) auto
qed

text \<open>The loop that waits for the reads, on the servers \<open>qs\<close> that were read.\<close>

lemma ec_reads_complete:
  assumes rel: "reliable tr mem cqe" and c: "NDISKS c = length ps" and ps: "distinct (map fst ps)"
    and qs: "set qs \<subseteq> set ps" "distinct qs" "qs \<noteq> []"
    and pools: "\<forall>p\<in>set ps. has_pool w i (fst p) \<and> pool_free (pl p) \<and> pool_of w i (fst p) = with_ctx (pl p) (Some (popped (pl p))) (y p) \<and>
      ctx_rdma_buf (y p) = Some (d p)"
    and ys: "\<forall>p\<in>set qs. ctx_req (y p) = Some r \<and> ctx_cnt (y p) = Some cnt \<and> ctx_ctxs (y p) = map (\<lambda>p. (i, fst p, top_id (pl p))) ps \<and>
      alive (sess w) (fst p) \<and> cqe (net w) (fst p) = [OP_READ (i, fst p, top_id (pl p)) (data p)]"
    and cnt: "cnt < length (cnts w)" "cnts w ! cnt = int (length qs)" and q: "reqs w r = Some q"
    and ptrs: "ec_recover (rq_bytes q div NDATAS c) (NDATAS c) (nerrs g) (nsrcerrs g) (decode_tbls g) (decode_index g) (src_err_list g)
        (map (\<lambda>p. if p \<in> set qs then overlay (data p) (d p) else d p) ps) = ptrs"
      "length ptrs = length ps" "ec_copy_out (NDATAS c) (rq_multi q) ptrs (rq_bios q) = Inr pages"
  shows "\<exists>w'. foldE (\<lambda>p. rdma_cq_event_handler_ec c g tr (fst p)) qs w = Inr w' \<and> frame w w' \<and> mem (net w') = mem (net w) \<and>
    reqs w' = (reqs w)(r \<mapsto> q\<lparr>rq_bios := pages, rq_end := Some 0\<rparr>) \<and>
    (\<forall>p\<in>set ps. \<exists>x. pool_of w' i (fst p) = with_ctx (pl p) (free_ctxs (pl p)) x)"
  using qs pools ys cnt q ptrs(1)
proof (induction qs arbitrary: w y d)
  case (Cons p qs)
  let ?a = "\<lambda>p. (i, fst p, top_id (pl p))" and ?f = "\<lambda>p. Some (popped (pl p))"
  let ?h = "\<lambda>x. x\<lparr>ctx_rdma_buf := map_option (overlay (data p)) (ctx_rdma_buf x)\<rparr>"
  have p: "p \<in> set ps" using Cons.prems(1) by simp
  have inj: "fst p' = fst p \<longleftrightarrow> p' = p" if "p' \<in> set ps" for p' using ps that p by (auto simp: distinct_map inj_on_def)
  have t: "top_id (pl p) < length (ctx_pool (pl p))" using Cons.prems(4) p by (auto elim: pool_free_take)
  have yp: "ctx_req (y p) = Some r" "ctx_cnt (y p) = Some cnt" "ctx_ctxs (y p) = map ?a ps" "alive (sess w) (fst p)"
    "cqe (net w) (fst p) = [OP_READ (?a p) (data p)]" "ctx_rdma_buf (y p) = Some (d p)"
    using Cons.prems(4,5) p by auto
  from poll_ec_ok [OF rel yp(4,5)] obtain n where
    run: "rdma_cq_event_handler_ec c g tr (fst p) w = client_read_done_ec c g (?a p) (upd_ctx (?a p) ?h (w\<lparr>net := n\<rparr>))"
    and n: "mem n = mem (net w)" "cqe n = (cqe (net w))(fst p := [])" by blast
  define w1 where "w1 = upd_ctx (?a p) ?h (w\<lparr>net := n\<rparr>)"
  define y1 where "y1 = y(p := (y p)\<lparr>ctx_rdma_buf := Some (overlay (data p) (d p))\<rparr>)"
  define d1 where "d1 = d(p := overlay (data p) (d p))"
  have m: "has_pool (w\<lparr>net := n\<rparr>) i (fst p)" "pool_of (w\<lparr>net := n\<rparr>) i (fst p) = with_ctx (pl p) (?f p) (y p)" using Cons.prems(4) p by simp_all
  have pools1: "\<forall>p\<in>set ps. has_pool w1 i (fst p) \<and> pool_free (pl p) \<and> pool_of w1 i (fst p) = with_ctx (pl p) (?f p) (y1 p) \<and> ctx_rdma_buf (y1 p) = Some (d1 p)"
    using upd_ctx_with [OF m t, of ?h] Cons.prems(4) inj yp(6) by (auto simp: w1_def y1_def d1_def)
  have w1: "frame w w1" "net w1 = n" "cnts w1 = cnts w" "reqs w1 = reqs w"
    using frame_trans [OF frame_net(1) frame_ctx] by (simp_all add: w1_def)
  have y1: "ctx_req (y1 p) = Some r" "ctx_cnt (y1 p) = Some cnt" "ctx_ctxs (y1 p) = map ?a ps" using yp by (simp_all add: y1_def)
  show ?case
  proof (cases "qs = []")
    case True
    have "map d1 ps = map (\<lambda>p'. if p' \<in> set (p # qs) then overlay (data p') (d p') else d p') ps" using True by (simp add: d1_def)
    note rec = Cons.prems(9) [folded this]
    have "\<exists>w'. client_read_done_ec c g (?a p) w1 = Inr w' \<and> frame w1 w' \<and> net w' = net w1 \<and>
        reqs w' = (reqs w1)(r \<mapsto> q\<lparr>rq_bios := pages, rq_end := Some 0\<rparr>) \<and> (\<forall>p\<in>set ps. \<exists>x. pool_of w' i (fst p) = with_ctx (pl p) (free_ctxs (pl p)) x)"
      by (rule read_done_ec_last [OF c ps p pools1 y1 _ _ _ rec ptrs(2,3)]) (use Cons.prems(6-8) True w1 in simp_all)
    then obtain w' where "client_read_done_ec c g (?a p) w1 = Inr w'" "frame w1 w'" "net w' = net w1"
        "reqs w' = (reqs w1)(r \<mapsto> q\<lparr>rq_bios := pages, rq_end := Some 0\<rparr>)" "\<forall>p\<in>set ps. \<exists>x. pool_of w' i (fst p) = with_ctx (pl p) (free_ctxs (pl p)) x" by blast
    then show ?thesis using run True w1 n frame_trans [OF w1(1), of w'] by (intro exI [of _ w']) (simp add: w1_def [symmetric])
  next
    case False
    let ?w2 = "(upd_ctx (?a p) reset_ctx w1)\<lparr>cnts := (cnts w1)[cnt := cnts w1 ! cnt - 1]\<rparr>"
    let ?y2 = "y1(p := reset_ctx (y1 p))"
    have m1: "has_pool w1 i (fst p)" "pool_of w1 i (fst p) = with_ctx (pl p) (?f p) (y1 p)" using pools1 p by auto
    have "cnts w1 ! cnt \<noteq> 1" using Cons.prems(7) False w1(3) by simp
    then have r2: "client_read_done_ec c g (?a p) w1 = Inr ?w2"
      using Cons.prems(6) w1(3) by (intro read_done_ec_early [OF m1 t y1(1,2)]) simp_all
    have f2: "frame w ?w2" by (rule frame_trans [OF w1(1) frame_trans [OF frame_ctx frame_net(2)]])
    have pools2: "\<forall>p'\<in>set ps. has_pool ?w2 i (fst p') \<and> pool_free (pl p') \<and> pool_of ?w2 i (fst p') = with_ctx (pl p') (?f p') (?y2 p') \<and> ctx_rdma_buf (?y2 p') = Some (d1 p')"
      using upd_ctx_with [OF m1 t, of reset_ctx] pools1 inj by (auto simp: reset_ctx_def)
    have ne: "p' \<noteq> p \<and> p' \<in> set ps" if "p' \<in> set qs" for p' using Cons.prems(1,2) that by auto
    have ys2: "\<forall>p'\<in>set qs. ctx_req (?y2 p') = Some r \<and> ctx_cnt (?y2 p') = Some cnt \<and> ctx_ctxs (?y2 p') = map ?a ps \<and>
        alive (sess ?w2) (fst p') \<and> cqe (net ?w2) (fst p') = [OP_READ (?a p') (data p')]"
      using Cons.prems(5) ne inj n(2) w1(2) alive_frame [OF f2] by (auto simp: y1_def)
    have eq: "map (\<lambda>p'. if p' \<in> set qs then overlay (data p') (d1 p') else d1 p') ps = map (\<lambda>p'. if p' \<in> set (p # qs) then overlay (data p') (d p') else d p') ps"
      using Cons.prems(2) by (auto simp: d1_def)
    have "\<exists>w'. foldE (\<lambda>p. rdma_cq_event_handler_ec c g tr (fst p)) qs ?w2 = Inr w' \<and> frame ?w2 w' \<and> mem (net w') = mem (net ?w2) \<and>
        reqs w' = (reqs ?w2)(r \<mapsto> q\<lparr>rq_bios := pages, rq_end := Some 0\<rparr>) \<and> (\<forall>p\<in>set ps. \<exists>x. pool_of w' i (fst p) = with_ctx (pl p) (free_ctxs (pl p)) x)"
      by (rule Cons.IH [OF _ _ False pools2 ys2 _ _ _ Cons.prems(9) [folded eq]]) (use Cons.prems(1,2,6-8) w1 in simp_all)
    then obtain w' where "foldE (\<lambda>p. rdma_cq_event_handler_ec c g tr (fst p)) qs ?w2 = Inr w'" "frame ?w2 w'" "mem (net w') = mem (net ?w2)"
        "reqs w' = (reqs ?w2)(r \<mapsto> q\<lparr>rq_bios := pages, rq_end := Some 0\<rparr>)" "\<forall>p\<in>set ps. \<exists>x. pool_of w' i (fst p) = with_ctx (pl p) (free_ctxs (pl p)) x" by blast
    then show ?thesis using run r2 w1 n frame_trans [OF f2, of w'] by (intro exI [of _ w']) (simp add: w1_def [symmetric])
  qed
qed simp

section \<open>Staging\<close>

lemma ctx_at_upd: "ctx_at w a = Inr x \<Longrightarrow> ctx_at (upd_ctx a f w) a' = (if a' = a then Inr (f x) else ctx_at w a')"
  by (cases a; cases a')
    (auto simp: ctx_at.simps upd_ctx.simps upd_pool_def upd_sess_def pool_at_def aload_def nth_list_update bindE_def split: if_splits)

lemma ctx_bufs_upd_other: "a \<notin> set as \<Longrightarrow> ctx_at w a = Inr x \<Longrightarrow> ctx_bufs (upd_ctx a f w) as = ctx_bufs w as"
  by (induction as) (auto simp: ctx_at_upd)

lemma ctx_bufs_Cons: "ctx_bufs w (a # as) = Inr ds \<longleftrightarrow> (\<exists>x d ds'. ctx_at w a = Inr x \<and> ctx_rdma_buf x = Some d \<and> ctx_bufs w as = Inr ds' \<and> ds = d # ds')"
  by (auto simp: bindE_Inr buf_of_def split: option.splits)

lemma ctx_bufs_store:
  assumes "length ds = length as" "distinct as" "ctx_bufs w as = Inr ps"
  shows "ctx_bufs (store_bufs as ds w) as = Inr ds \<and> (\<forall>a. a \<notin> set as \<longrightarrow> ctx_at (store_bufs as ds w) a = ctx_at w a)"
  using assms
proof (induction ds as arbitrary: w ps rule: list_induct2)
  case (Cons d ds a as)
  let ?w = "upd_ctx a (\<lambda>x. x\<lparr>ctx_rdma_buf := Some d\<rparr>) w"
  from Cons.prems obtain x ps' where x: "ctx_at w a = Inr x" "ctx_bufs w as = Inr ps'" by (auto simp: ctx_bufs_Cons simp del: ctx_bufs.simps)
  then have "ctx_bufs ?w as = Inr ps'" using Cons.prems(1) by (simp add: ctx_bufs_upd_other)
  moreover have "distinct as" using Cons.prems(1) by simp
  ultimately have IH: "ctx_bufs (store_bufs as ds ?w) as = Inr ds" "a' \<notin> set as \<Longrightarrow> ctx_at (store_bufs as ds ?w) a' = ctx_at ?w a'" for a'
    using Cons.IH by blast+
  have eq: "store_bufs (a # as) (d # ds) w = store_bufs as ds ?w" by (simp add: store_bufs_def)
  have "ctx_at (store_bufs as ds ?w) a = Inr (x\<lparr>ctx_rdma_buf := Some d\<rparr>)" using Cons.prems(1) IH(2) [of a] x(1) by (simp add: ctx_at_upd)
  with IH x(1) show ?case unfolding eq by (auto simp: buf_of_def ctx_at_upd)
qed (simp add: store_bufs_def)

lemma ec_stage_ok:
  assumes c: "0 < NDATAS c" "NDATAS c \<le> NDISKS c" "IS_PAGE_SIZE = NDATAS c * B" "rq_bytes q = length (rq_bios q) * IS_PAGE_SIZE"
    and pages: "\<forall>p\<in>set (rq_bios q). length p = IS_PAGE_SIZE"
    and bufs: "distinct as" "length as = NDISKS c" "ctx_bufs w as = Inr ptrs" "stripe (NDISKS c) (length (rq_bios q) * B) ptrs"
    and init: "NDATAS c * NDISKS c \<le> length a" "32 * ((NDISKS c - NDATAS c) * NDATAS c) \<le> length t" "ec_init (NDATAS c) (NDISKS c) a t = (enc, encode_tbls g)"
  shows "\<exists>w' out. ec_stage c g q (rq_bytes q) as w = Inr w' \<and> stripe (NDISKS c) (length (rq_bios q) * B) out \<and>
    spread (NDATAS c) B (rq_bios q) out (length (rq_bios q)) \<and>
    w' = store_bufs as (ec_write (length (rq_bios q) * B) (NDATAS c) (NDISKS c) (encode_tbls g) out) w \<and>
    ctx_bufs w' as = Inr (ec_write (length (rq_bios q) * B) (NDATAS c) (NDISKS c) (encode_tbls g) out) \<and>
    map length (ec_write (length (rq_bios q) * B) (NDATAS c) (NDISKS c) (encode_tbls g) out) = map length ptrs"
proof -
  let ?len = "length (rq_bios q) * B"
  obtain out where out: "ec_copy_in (NDATAS c) (rq_multi q) (rq_bios q) ptrs = Inr out" "stripe (NDISKS c) ?len out"
    "spread (NDATAS c) B (rq_bios q) out (length (rq_bios q))" "map length out = map length ptrs"
    using ec_copy_in_spec [OF c(3,1) pages bufs(4) c(2)] by blast
  have "rq_bytes q div NDATAS c = ?len" unfolding c(4) by (rule page_div [OF c(3,1)])
  moreover have "stripe (NDISKS c) ?len (ec_write ?len (NDATAS c) (NDISKS c) (encode_tbls g) out)"
    by (rule ec_write_codeword(1) [OF c(1,2) init(1,2) out(2) init(3)])
  then have "length (ec_write ?len (NDATAS c) (NDISKS c) (encode_tbls g) out) = length as" using bufs(2) by (simp add: stripe_def)
  moreover have "map length (ec_write ?len (NDATAS c) (NDISKS c) (encode_tbls g) out) = map length ptrs"
    using ec_write_codeword(4) [OF c(1,2) init(1,2) out(2) init(3)] out(4) by simp
  ultimately show ?thesis
    using ctx_bufs_store [OF _ bufs(1,3), THEN conjunct1] bufs(3) out by (intro exI [of _ "store_bufs as (ec_write ?len (NDATAS c) (NDISKS c) (encode_tbls g) out) w"] exI [of _ out]) (simp add: ec_stage_def)
qed

section \<open>A stripe written and read\<close>

text \<open>
  The driver while the reads of a request are on their way: the contexts of all the disks \<open>ps\<close> are taken, and those of the disks \<open>qs\<close>
  that are read wait for one completion each, which brings \<open>data\<close>.
\<close>

definition ec_reading :: "('n \<Rightarrow> nat \<Rightarrow> completion list) \<Rightarrow> is_config \<Rightarrow> nat \<Rightarrow> nat \<Rightarrow> (nat \<times> nat) list \<Rightarrow> (nat \<times> nat \<Rightarrow> ctx_pool_list) \<Rightarrow>
    (nat \<times> nat) list \<Rightarrow> (nat \<times> nat \<Rightarrow> u8 list) \<Rightarrow> nat \<Rightarrow> nat \<Rightarrow> 'n world \<Rightarrow> bool" where
  "ec_reading cqe c L i ps pl qs data r cnt w \<longleftrightarrow> NDISKS c = length ps \<and> distinct (map fst ps) \<and>
     cnt < length (cnts w) \<and> cnts w ! cnt = int (length qs) \<and>
     (\<forall>p\<in>set ps. has_pool w i (fst p) \<and> pool_free (pl p) \<and>
       (\<exists>x d. pool_of w i (fst p) = with_ctx (pl p) (Some (popped (pl p))) x \<and> ctx_rdma_buf x = Some d \<and> L \<le> length d \<and>
         (p \<in> set qs \<longrightarrow> ctx_req x = Some r \<and> ctx_cnt x = Some cnt \<and> ctx_ctxs x = map (\<lambda>p. (i, fst p, top_id (pl p))) ps \<and>
           alive (sess w) (fst p) \<and> cqe (net w) (fst p) = [OP_READ (i, fst p, top_id (pl p)) (data p)])))"

lemma read_set_length: "k \<le> m \<Longrightarrow> length (failures m failed) \<le> m - k \<Longrightarrow> length (read_set k m failed) = k"
  using sum_length_filter_compl [of failed "[0..<m]"] by (simp add: read_set_def failures_def)

lemma read_set_less: "r \<in> set (read_set k m failed) \<Longrightarrow> r < m"
  by (auto simp: read_set_def dest!: in_set_takeD)

lemma ec_reading_ends:
  assumes rel: "reliable tr mem cqe" and rd: "ec_reading cqe c L i ps pl qs data r cnt w"
    and qs: "set qs \<subseteq> set ps" "distinct qs" "qs \<noteq> []" and q: "reqs w r = Some q"
    and data: "\<And>p. p \<in> set qs \<Longrightarrow> length (data p) = L"
    and rec: "\<And>bs. length bs = length ps \<Longrightarrow> (\<And>j. j < length ps \<Longrightarrow> L \<le> length (bs ! j)) \<Longrightarrow>
        (\<And>j x. j < length ps \<Longrightarrow> ps ! j \<in> set qs \<Longrightarrow> x < L \<Longrightarrow> bs ! j ! x = data (ps ! j) ! x) \<Longrightarrow>
        \<exists>ptrs. ec_recover (rq_bytes q div NDATAS c) (NDATAS c) (nerrs g) (nsrcerrs g) (decode_tbls g) (decode_index g) (src_err_list g) bs = ptrs \<and>
          length ptrs = length ps \<and> ec_copy_out (NDATAS c) (rq_multi q) ptrs (rq_bios q) = Inr pages"
  shows "\<exists>w'. foldE (\<lambda>p. rdma_cq_event_handler_ec c g tr (fst p)) qs w = Inr w' \<and> mem (net w') = mem (net w) \<and>
    reqs w' = (reqs w)(r \<mapsto> q\<lparr>rq_bios := pages, rq_end := Some 0\<rparr>) \<and>
    (\<forall>p\<in>set ps. \<exists>x. pool_of w' i (fst p) = with_ctx (pl p) (free_ctxs (pl p)) x)"
proof -
  let ?P = "\<lambda>p z. has_pool w i (fst p) \<and> pool_free (pl p) \<and> pool_of w i (fst p) = with_ctx (pl p) (Some (popped (pl p))) (fst z) \<and>
      ctx_rdma_buf (fst z) = Some (snd z) \<and> L \<le> length (snd z) \<and>
      (p \<in> set qs \<longrightarrow> ctx_req (fst z) = Some r \<and> ctx_cnt (fst z) = Some cnt \<and> ctx_ctxs (fst z) = map (\<lambda>p. (i, fst p, top_id (pl p))) ps \<and>
        alive (sess w) (fst p) \<and> cqe (net w) (fst p) = [OP_READ (i, fst p, top_id (pl p)) (data p)])"
  have "\<forall>p\<in>set ps. \<exists>z. ?P p z" using rd by (auto simp: ec_reading_def)
  from bchoice [OF this] obtain z where z: "\<forall>p\<in>set ps. ?P p (z p)" by blast
  let ?b = "\<lambda>p. if p \<in> set qs then overlay (data p) (snd (z p)) else snd (z p)"
  have d: "L \<le> length (snd (z (ps ! j)))" if "j < length ps" for j using z that by simp
  have "\<exists>ptrs. ec_recover (rq_bytes q div NDATAS c) (NDATAS c) (nerrs g) (nsrcerrs g) (decode_tbls g) (decode_index g) (src_err_list g) (map ?b ps) = ptrs \<and>
      length ptrs = length ps \<and> ec_copy_out (NDATAS c) (rq_multi q) ptrs (rq_bios q) = Inr pages"
    by (rule rec) (use d data in \<open>auto simp: overlay_def nth_append\<close>)
  then obtain ptrs where ptrs: "ec_recover (rq_bytes q div NDATAS c) (NDATAS c) (nerrs g) (nsrcerrs g) (decode_tbls g) (decode_index g) (src_err_list g) (map ?b ps) = ptrs"
      "length ptrs = length ps" "ec_copy_out (NDATAS c) (rq_multi q) ptrs (rq_bios q) = Inr pages" by blast
  have "NDISKS c = length ps" "distinct (map fst ps)" "cnt < length (cnts w)" "cnts w ! cnt = int (length qs)" using rd by (simp_all add: ec_reading_def)
  from ec_reads_complete [OF rel this(1,2) qs _ _ this(3,4) q ptrs, of i pl "\<lambda>p. fst (z p)"] z qs(1) show ?thesis by blast
qed

text \<open>
  The blocks of \<open>out\<close> were encoded and written; the disks that a read asks after the loss of \<open>failed\<close> return them. When the completions are
  handled, the request ends with success and with the pages that were spread over \<open>out\<close>, and every context is back in its pool.
\<close>

lemma ec_read_returns_pages:
  fixes g0 :: ec_tables
  assumes dim: "0 < NDATAS c" "NDATAS c \<le> NDISKS c" "NDISKS c \<le> 256" "IS_PAGE_SIZE = NDATAS c * B" "L = length pages * B"
    and tables: "NDATAS c * NDISKS c \<le> length a" "32 * ((NDISKS c - NDATAS c) * NDATAS c) \<le> length t"
      "ec_init (NDATAS c) (NDISKS c) a t = (enc, encode_tbls g0)" "decode_bufs (NDATAS c) (NDISKS c) ie el junk dm di ivt dt"
    and out: "stripe (NDISKS c) L out" "spread (NDATAS c) B pages out (length pages)" "\<forall>p\<in>set pages. length p = IS_PAGE_SIZE"
    and lost: "length (failures (NDISKS c) failed) \<le> NDISKS c - NDATAS c" "qs = map ((!) ps) (read_set (NDATAS c) (NDISKS c) failed)"
    and reading: "reliable tr mem cqe" "ec_reading cqe c L i ps pl qs data r cnt w"
      "\<forall>j\<in>set (read_set (NDATAS c) (NDISKS c) failed). data (ps ! j) = take L (ec_write L (NDATAS c) (NDISKS c) (encode_tbls g0) out ! j)"
      "reqs w r = Some q" "rq_bytes q = length pages * IS_PAGE_SIZE" "length (rq_bios q) = length pages" "\<forall>p\<in>set (rq_bios q). length p = IS_PAGE_SIZE"
  shows "\<exists>g w'. ec_prepare (NDATAS c) (NDISKS c) failed ie el junk enc dm di ivt dt = Some (decode_tbls g, decode_index g, src_err_list g, nerrs g, nsrcerrs g) \<and>
    foldE (\<lambda>p. rdma_cq_event_handler_ec c g tr (fst p)) qs w = Inr w' \<and>
    reqs w' r = Some (q\<lparr>rq_bios := pages, rq_end := Some 0\<rparr>) \<and>
    (\<forall>p\<in>set ps. \<exists>x. pool_of w' i (fst p) = with_ctx (pl p) (free_ctxs (pl p)) x)"
proof -
  let ?k = "NDATAS c" and ?m = "NDISKS c"
  define blocks where "blocks = ec_write L ?k ?m (encode_tbls g0) out"
  have st: "stripe ?m L blocks" unfolding blocks_def by (rule ec_write_codeword(1) [OF dim(1,2) tables(1,2) out(1) tables(3)])
  obtain dt' di' el' n ns where prep: "ec_prepare ?k ?m failed ie el junk enc dm di ivt dt = Some (dt', di', el', n, ns)"
    by (rule stripe_recovers [OF dim(1-3) tables lost(1) out(1) st]) (use blocks_def in auto)
  define g where "g = g0\<lparr>decode_tbls := dt', decode_index := di', src_err_list := el', nerrs := n, nsrcerrs := ns\<rparr>"
  have ps: "length ps = ?m" "distinct ps" using reading(2) by (auto simp: ec_reading_def distinct_map)
  have qs: "set qs \<subseteq> set ps" "distinct qs" "qs \<noteq> []"
  proof -
    show "set qs \<subseteq> set ps" using read_set_less ps(1) by (fastforce simp: lost(2))
    have "inj_on ((!) ps) (set (read_set ?k ?m failed))" using ps read_set_less by (intro inj_on_nth) auto
    then show "distinct qs" by (simp add: lost(2) distinct_map read_set_def)
    show "qs \<noteq> []" using read_set_length [OF dim(2) lost(1)] dim(1) by (auto simp: lost(2))
  qed
  have dl: "length (data p) = L" if "p \<in> set qs" for p
    using that reading(3) [folded blocks_def] st read_set_less by (fastforce simp: lost(2) stripe_def)
  have bytes: "rq_bytes q div ?k = L" unfolding reading(5) dim(5) by (rule page_div [OF dim(4,1)])
  have rec: "\<exists>ptrs. ec_recover (rq_bytes q div ?k) ?k (nerrs g) (nsrcerrs g) (decode_tbls g) (decode_index g) (src_err_list g) bs = ptrs \<and>
      length ptrs = length ps \<and> ec_copy_out ?k (rq_multi q) ptrs (rq_bios q) = Inr (pages)"
    if bs: "length bs = length ps" "\<And>j. j < length ps \<Longrightarrow> L \<le> length (bs ! j)"
      "\<And>j x. j < length ps \<Longrightarrow> ps ! j \<in> set qs \<Longrightarrow> x < L \<Longrightarrow> bs ! j ! x = data (ps ! j) ! x" for bs
  proof -
    have sb: "stripe ?m L bs" using bs(1,2) ps(1) by (simp add: stripe_def)
    have same: "bs ! j ! x = ec_write L ?k ?m (encode_tbls g0) out ! j ! x" if "j \<in> set (read_set ?k ?m failed)" "x < L" for j x
      using bs(3) [of j x] that reading(3) read_set_less [OF that(1)] ps(1) by (simp add: lost(2))
    obtain dt2 di2 el2 n2 ns2 where "ec_prepare ?k ?m failed ie el junk enc dm di ivt dt = Some (dt2, di2, el2, n2, ns2)"
      "ec_copy_out ?k (rq_multi q) (ec_recover L ?k n2 ns2 dt2 di2 el2 bs) (rq_bios q) = Inr (pages)"
      "stripe ?m L (ec_recover L ?k n2 ns2 dt2 di2 el2 bs)"
      by (rule ec_pages_recovered [OF dim(1-4) tables lost(1) out(3) reading(7,6) out(1) [unfolded dim(5)] out(2) sb [unfolded dim(5)], of "rq_multi q"])
        (use same in \<open>auto simp: dim(5)\<close>)
    then show ?thesis using prep ps(1) by (simp add: g_def bytes stripe_def)
  qed
  obtain w' where "foldE (\<lambda>p. rdma_cq_event_handler_ec c g tr (fst p)) qs w = Inr w'"
    "reqs w' = (reqs w)(r \<mapsto> q\<lparr>rq_bios := pages, rq_end := Some 0\<rparr>)" "\<forall>p\<in>set ps. \<exists>x. pool_of w' i (fst p) = with_ctx (pl p) (free_ctxs (pl p)) x"
    using ec_reading_ends [OF reading(1,2) qs reading(4) dl rec] by blast
  with prep show ?thesis by (intro exI [of _ g] exI [of _ w']) (simp add: g_def)
qed

end
