(* ===== verification/Ec_Requests.thy ===== *)
theory Ec_Requests
  imports Ec_Path Replication
begin

text \<open>
  An erasure-coded write from the request to the memory of the servers: \<open>IS_rdma_write\<close> posts one block of the encoded stripe to each
  server, and its completions end the request and return the contexts.
\<close>

section \<open>Posting the blocks\<close>

lemma post_blocks:
  assumes rel: "reliable tr mem cqe" and ps: "distinct (map fst ps)" "\<forall>p\<in>set ps. has_pool w i (fst p) \<and> pool_free (pl p) \<and> cqe (net w) (fst p) = [] \<and>
      pool_of w i (fst p) = with_ctx (pl p) (Some (popped (pl p))) (y p) \<and> ctx_opcode (y p) = IB_WR_RDMA_WRITE \<and> ctx_rdma_buf (y p) = Some (d p)"
  shows "\<exists>w'. whileE (\<lambda>(rt, a) w. case rt of None \<Rightarrow> Inr (0, w) | Some (b, _) \<Rightarrow> post_ctx tr b a w)
      (map (\<lambda>p. (the_route p, (i, fst p, top_id (pl p)))) ps) w = Inr (0, w') \<and> frame w w' \<and> reqs w' = reqs w \<and> cnts w' = cnts w \<and>
    (\<forall>p\<in>set ps. pool_of w' i (fst p) = with_ctx (pl p) (Some (popped (pl p))) (y p) \<and>
      mem (net w') (fst p) = mem_write (ctx_rkey (y p)) (ctx_remote_addr (y p)) (take (sg_length (y p)) (d p)) (mem (net w) (fst p)) \<and>
      cqe (net w') (fst p) = [OP_WRITE (i, fst p, top_id (pl p))])"
proof -
  let ?f = "\<lambda>(rt, a) w. case rt of None \<Rightarrow> Inr (0, w) | Some (b, _) \<Rightarrow> post_ctx tr b a w"
  let ?it = "\<lambda>p. (the_route p, (i, fst p, top_id (pl p)))"
  let ?I = "\<lambda>w'. frame w w' \<and> reqs w' = reqs w \<and> cnts w' = cnts w"
  let ?v = "\<lambda>b w. (pool_of w i b, mem (net w) b, cqe (net w) b)"
  let ?P = "\<lambda>p v. v = (with_ctx (pl p) (Some (popped (pl p))) (y p), mem (net w) (fst p), [])"
  let ?Q = "\<lambda>p v. v = (with_ctx (pl p) (Some (popped (pl p))) (y p),
    mem_write (ctx_rkey (y p)) (ctx_remote_addr (y p)) (take (sg_length (y p)) (d p)) (mem (net w) (fst p)), [OP_WRITE (i, fst p, top_id (pl p))])"
  have "\<exists>w'. foldE (\<lambda>p w. proceed (?f (?it p) w)) ps w = Inr w' \<and> ?I w' \<and> (\<forall>p\<in>set ps. ?Q p (?v (fst p) w')) \<and>
      (\<forall>b. b \<notin> fst ` set ps \<longrightarrow> ?v b w' = ?v b w)"
  proof (rule foldE_servers [where P = ?P])
    fix p u assume p: "p \<in> set ps" and I: "?I u" and "?P p (?v (fst p) u)"
    then have n: "pool_of u i (fst p) = with_ctx (pl p) (Some (popped (pl p))) (y p)"
      and m: "mem (net u) (fst p) = mem (net w) (fst p)" "cqe (net u) (fst p) = []" by auto
    have hp: "has_pool u i (fst p)" using ps(2) p I frameD(5) [of w u i "fst p"] by auto
    have t: "top_id (pl p) < length (ctx_pool (pl p))" by (rule pool_free_take [of "pl p"]) (use ps(2) p in auto)
    have yp: "ctx_opcode (y p) = IB_WR_RDMA_WRITE" "ctx_rdma_buf (y p) = Some (d p)" using ps(2) p by auto
    obtain n' where post: "post_ctx tr (fst p) (i, fst p, top_id (pl p)) u = Inr (0, u\<lparr>net := n'\<rparr>)"
      "mem n' = (mem (net u))(fst p := mem_write (ctx_rkey (y p)) (ctx_remote_addr (y p)) (take (sg_length (y p)) (d p)) (mem (net u) (fst p)))"
      "cqe n' = (cqe (net u))(fst p := cqe (net u) (fst p) @ [OP_WRITE (i, fst p, top_id (pl p))])"
      using post_ctx_ok [OF rel hp n t yp(2), of True] yp by auto
    show "\<exists>u'. proceed (?f (?it p) u) = Inr u' \<and> ?I u' \<and> ?Q p (?v (fst p) u') \<and> (\<forall>b. b \<noteq> fst p \<longrightarrow> ?v b u' = ?v b u)"
      by (intro exI [of _ "u\<lparr>net := n'\<rparr>"]) (use post m n I frame_trans [OF _ frame_net(1)] in \<open>auto simp: proceed_def the_route_def\<close>)
  qed (use ps in auto)
  then obtain w' where "foldE (\<lambda>p w. proceed (?f (?it p) w)) ps w = Inr w'" and rest: "?I w'" "\<forall>p\<in>set ps. ?Q p (?v (fst p) w')" by blast
  then have "whileE ?f (map ?it ps) w = Inr (0, w')" by (intro whileE_proceed) (simp add: foldE_map)
  with rest show ?thesis by (intro exI [of _ w']) auto
qed

section \<open>Completions of a write\<close>

text \<open>A write completion is handled the same way in both setups.\<close>

lemma poll_write_ec:
  assumes "reliable tr mem cqe" "cqe (net w) b = OP_WRITE a # ops"
  shows "rdma_cq_event_handler_ec c g tr b w = rdma_cq_event_handler c tr b w"
proof -
  from assms obtain n where "tp_poll tr b (net w) = Some (WC_SUCCESS, OP_WRITE a, n)" unfolding reliable_def by blast
  then show ?thesis
    by (cases "cb_at (sess w) (int b)") (simp_all add: rdma_cq_event_handler_ec_def rdma_cq_event_handler_def handle_completion_ec_def Let_def)
qed

text \<open>The counter starts at the number of data blocks; the completion that takes it to zero ends the request, the later ones do not.\<close>

lemma poll_blocks:
  assumes rel: "reliable tr mem cqe" and ps: "distinct (map fst ps)"
    and srv: "\<forall>p\<in>set ps. has_pool w i (fst p) \<and> pool_free (pl p) \<and> alive (sess w) (fst p) \<and> cqe (net w) (fst p) = [OP_WRITE (i, fst p, top_id (pl p))] \<and>
      pool_of w i (fst p) = with_ctx (pl p) (Some (popped (pl p))) (y p) \<and> ctx_req (y p) = Some r \<and> ctx_cnt (y p) = Some cnt \<and> page_ctx (y p)"
    and q: "cnt < length (cnts w)" "reqs w r = Some q"
  shows "\<exists>w'. foldE (\<lambda>(rt, a) w. case rt of None \<Rightarrow> give_back a w | Some (b, _) \<Rightarrow> rdma_cq_event_handler_ec c g tr b w)
      (map (\<lambda>p. (the_route p, (i, fst p, top_id (pl p)))) ps) w = Inr w' \<and> frame w w' \<and> mem (net w') = mem (net w) \<and>
    reqs w' = (if 1 \<le> cnts w ! cnt \<and> cnts w ! cnt \<le> int (length ps) then (reqs w)(r \<mapsto> q\<lparr>rq_end := Some 0\<rparr>) else reqs w) \<and>
    (\<forall>p\<in>set ps. pool_free (pool_of w' i (fst p)) \<and> cqe (net w') (fst p) = []) \<and>
    (\<forall>b. b \<notin> fst ` set ps \<longrightarrow> pool_of w' i b = pool_of w i b \<and> cqe (net w') b = cqe (net w) b)"
  using ps srv q
proof (induction ps arbitrary: w q)
  case Nil
  then show ?case by auto
next
  case (Cons p ps)
  let ?f = "\<lambda>(rt, a) w. case rt of None \<Rightarrow> give_back a w | Some (b, _) \<Rightarrow> rdma_cq_event_handler_ec c g tr b w"
  let ?it = "\<lambda>p. (the_route p, (i, fst p, top_id (pl p)))" and ?v = "cnts w ! cnt"
  have p: "has_pool w i (fst p)" "pool_free (pl p)" "alive (sess w) (fst p)" "cqe (net w) (fst p) = [OP_WRITE (i, fst p, top_id (pl p))]"
    "pool_of w i (fst p) = with_ctx (pl p) (Some (popped (pl p))) (y p)" "ctx_req (y p) = Some r" "ctx_cnt (y p) = Some cnt" "page_ctx (y p)"
    using Cons.prems(2) by auto
  obtain w1 where h1: "rdma_cq_event_handler_ec c g tr (fst p) w = Inr w1" and f1: "frame w w1" "mem (net w1) = mem (net w)"
    "cqe (net w1) = (cqe (net w))(fst p := [])" "cnts w1 = (cnts w)[cnt := ?v - 1]"
    "reqs w1 = (if ?v = 1 then (reqs w)(r \<mapsto> q\<lparr>rq_end := Some 0\<rparr>) else reqs w)"
    and p1: "\<forall>b. pool_of w1 i b = (if b = fst p then with_ctx (pl p) (free_ctxs (pl p)) (reset_ctx ((y p)\<lparr>ctx_in_flight := CTX_IDLE\<rparr>)) else pool_of w i b)"
    using poll_write [OF rel p(3,1,5,2,6,7) Cons.prems(3) p(4), of c] poll_write_ec [OF rel p(4), of c g] Cons.prems(4) by auto
  have ne: "fst p' \<noteq> fst p" if "p' \<in> set ps" for p' using Cons.prems(1) that by (auto simp: image_iff)
  have srv1: "\<forall>p\<in>set ps. has_pool w1 i (fst p) \<and> pool_free (pl p) \<and> alive (sess w1) (fst p) \<and> cqe (net w1) (fst p) = [OP_WRITE (i, fst p, top_id (pl p))] \<and>
      pool_of w1 i (fst p) = with_ctx (pl p) (Some (popped (pl p))) (y p) \<and> ctx_req (y p) = Some r \<and> ctx_cnt (y p) = Some cnt \<and> page_ctx (y p)"
    using Cons.prems(2) ne f1(3) p1 frameD(5) [OF f1(1)] alive_frame [OF f1(1)] by simp
  define q1 where "q1 = (if ?v = 1 then q\<lparr>rq_end := Some 0\<rparr> else q)"
  have q1: "reqs w1 r = Some q1" "cnt < length (cnts w1)" "cnts w1 ! cnt = ?v - 1" using f1(4,5) Cons.prems(3,4) by (simp_all add: q1_def)
  obtain w' where w': "foldE ?f (map ?it ps) w1 = Inr w'" "frame w1 w'" "mem (net w') = mem (net w1)"
    "reqs w' = (if 1 \<le> ?v - 1 \<and> ?v - 1 \<le> int (length ps) then (reqs w1)(r \<mapsto> q1\<lparr>rq_end := Some 0\<rparr>) else reqs w1)"
    "\<forall>p\<in>set ps. pool_free (pool_of w' i (fst p)) \<and> cqe (net w') (fst p) = []"
    "\<forall>b. b \<notin> fst ` set ps \<longrightarrow> pool_of w' i b = pool_of w1 i b \<and> cqe (net w') b = cqe (net w1) b"
    using Cons.IH [OF _ srv1 q1(2,1)] Cons.prems(1) unfolding q1(3) by auto
  have run: "foldE ?f (map ?it (p # ps)) w = Inr w'" using h1 w'(1) by (simp add: the_route_def)
  have reqs: "reqs w' = (if 1 \<le> ?v \<and> ?v \<le> int (length (p # ps)) then (reqs w)(r \<mapsto> q\<lparr>rq_end := Some 0\<rparr>) else reqs w)"
    using w'(4) f1(5) by (auto simp: q1_def)
  have "fst p \<notin> fst ` set ps" using Cons.prems(1) by simp
  then have "pool_of w' i (fst p) = with_ctx (pl p) (free_ctxs (pl p)) (reset_ctx ((y p)\<lparr>ctx_in_flight := CTX_IDLE\<rparr>))" "cqe (net w') (fst p) = []"
    using w'(6) p1 f1(3) by auto
  moreover have "page_ctx (reset_ctx ((y p)\<lparr>ctx_in_flight := CTX_IDLE\<rparr>))" using p(8) by (simp add: page_ctx_def reset_ctx_def)
  ultimately have "pool_free (pool_of w' i (fst p)) \<and> cqe (net w') (fst p) = []" using pool_free_back [OF p(2)] by simp
  with w'(5,6) p1 f1(3) have "\<forall>p\<in>set (p # ps). pool_free (pool_of w' i (fst p)) \<and> cqe (net w') (fst p) = []"
    "\<forall>b. b \<notin> fst ` set (p # ps) \<longrightarrow> pool_of w' i b = pool_of w i b \<and> cqe (net w') b = cqe (net w) b" by auto
  then show ?case using run reqs w'(3) f1(2) frame_trans [OF f1(1) w'(2)] by (intro exI [of _ w']) (simp only: simp_thms)
qed

section \<open>A write\<close>

lemma filled_ec:
  "ctx_remote_addr (filled c r offset ln True cnt p ch n x) = remote_addr ch + of_nat (offset div NDATAS c)"
  "sg_length (filled c r offset ln True cnt p ch n x) = ln div NDATAS c"
  by (simp_all add: filled_def fill_wr_def)

text \<open>What \<open>IS_rdma_write\<close> leaves on the servers: block \<open>j\<close> of the encoded stripe on the \<open>j\<close>-th one.\<close>

lemma rdma_write_ec_ok:
  assumes rel: "reliable tr mem cqe" and c: "0 < NDATAS c" "NDATAS c \<le> NDISKS c" "IS_PAGE_SIZE = NDATAS c * B" "L = length (rq_bios q) * B" "L \<le> IS_PAGE_SIZE"
    and tables: "NDATAS c * NDISKS c \<le> length a" "32 * ((NDISKS c - NDATAS c) * NDATAS c) \<le> length t" "ec_init (NDATAS c) (NDISKS c) a t = (enc, encode_tbls g)"
    and q: "reqs w r = Some q" "rq_bytes q = length (rq_bios q) * IS_PAGE_SIZE" "\<forall>p\<in>set (rq_bios q). length p = IS_PAGE_SIZE" "conn_id q = i"
    and ps: "length ps = NDISKS c" "distinct (map fst ps)" and srv: "\<forall>p\<in>set ps. srv_ready i cqe w (fst p) \<and> chunk_at w (Some p) = Inr (ch p)"
  shows "\<exists>w' out. IS_rdma_write_ec c g tr (map the_route ps) offset (rq_bytes q) r w = Inr (0, w') \<and> frame w w' \<and>
    reqs w' = (reqs w)(r \<mapsto> q\<lparr>rq_end := Some 0\<rparr>) \<and> stripe (NDISKS c) L out \<and> spread (NDATAS c) B (rq_bios q) out (length (rq_bios q)) \<and>
    (\<forall>j<NDISKS c. srv_ready i cqe w' (fst (ps ! j)) \<and> mem (net w') (fst (ps ! j)) =
      mem_write (remote_rkey (ch (ps ! j))) (remote_addr (ch (ps ! j)) + of_nat (offset div NDATAS c))
        (take L (ec_write L (NDATAS c) (NDISKS c) (encode_tbls g) out ! j)) (mem (net w) (fst (ps ! j))))"
proof -
  let ?k = "NDATAS c" and ?m = "NDISKS c" and ?ln = "rq_bytes q"
  define cnt where "cnt = length (cnts w)"
  define pl where "pl p = pool_of w i (fst p)" for p :: "nat \<times> nat"
  define x where "x p n = filled c r offset ?ln True cnt p (ch p) n (top_ctx (pl p))" for p n
  let ?w0 = "w\<lparr>cnts := cnts w @ [int ?k]\<rparr>" let ?as = "map (\<lambda>p. (i, fst p, top_id (pl p))) ps" and ?g = "\<lambda>p. Some (popped (pl p))"
  have sr: "has_pool w i (fst p)" "pool_free (pl p)" "alive (sess w) (fst p)" "cqe (net w) (fst p) = []" "chunk_at w (Some p) = Inr (ch p)"
    if "p \<in> set ps" for p using srv that by (auto simp: srv_ready_def pl_def)
  have as: "ctx_addrs i ?w0 ps = ?as" by (simp add: ctx_addrs_def pl_def)
  have fr: "frame w ?w0" by simp
  have pre0: "\<forall>p\<in>set ps. has_pool ?w0 i (fst p) \<and> pool_free (pool_of ?w0 i (fst p)) \<and> chunk_at ?w0 (Some p) = Inr (ch p)"
    using sr chunk_at_frame [OF fr] by (simp add: pl_def)
  obtain w1 where acq: "foldE (acquire c r q offset ?ln True cnt) (enumerate 0 (map the_route ps)) ([], ?w0) = Inr (?as, w1)"
    and f1: "frame ?w0 w1" "net w1 = net w" "reqs w1 = reqs w" "cnts w1 = cnts w @ [int ?k]"
    and p1: "\<forall>p\<in>set ps. \<exists>n. pool_of w1 i (fst p) = with_ctx (pl p) (?g p) (x p n)"
    using acquire_all [OF ps(2) q(4) pre0, of c r offset ?ln True cnt 0 "[]"] by (auto simp: as pl_def x_def)
  from bchoice [OF p1] obtain n where n: "\<forall>p\<in>set ps. pool_of w1 i (fst p) = with_ctx (pl p) (?g p) (x p (n p))" by blast
  define d where "d p = the (ctx_rdma_buf (x p (n p)))" for p
  have buf: "ctx_rdma_buf (x p (n p)) = Some (d p)" "length (d p) = IS_PAGE_SIZE" if "p \<in> set ps" for p
    using page_top [OF sr(2) [OF that]] by (auto simp: x_def filled_simps page_ctx_def d_def split: option.splits)
  have g1: "frame w w1" by (rule frame_trans [OF fr f1(1)])
  have pre1: "\<forall>p\<in>set ps. has_pool w1 i (fst p) \<and> pool_free (pl p) \<and> pool_of w1 i (fst p) = with_ctx (pl p) (?g p) (x p (n p)) \<and> ctx_rdma_buf (x p (n p)) = Some (d p)"
    using sr n buf frameD(5) [OF g1] by auto
  have bufs: "ctx_bufs w1 ?as = Inr (map d ps)" by (rule ctx_bufs_with [where f = ?g and y = "\<lambda>p. x p (n p)"]) (rule pre1)
  have st: "stripe ?m (length (rq_bios q) * B) (map d ps)" using buf(2) ps(1) c(4,5) by (simp add: stripe_def)
  have da: "distinct ?as" "length ?as = ?m" using ps by (auto simp: distinct_map inj_on_def)
  obtain out where stage: "ec_stage c g q ?ln ?as w1 = Inr (store_bufs ?as (ec_write L ?k ?m (encode_tbls g) out) w1)"
    and out: "stripe ?m L out" "spread ?k B (rq_bios q) out (length (rq_bios q))" "map length (ec_write L ?k ?m (encode_tbls g) out) = map length (map d ps)"
    using ec_stage_ok [OF c(1-3) q(2,3) da bufs st tables] unfolding c(4) by blast
  define bl where "bl = ec_write L ?k ?m (encode_tbls g) out"
  have bll: "length bl = length ps" using map_eq_imp_length_eq [OF out(3)] by (simp add: bl_def)
  define w2 where "w2 = store_bufs ?as bl w1"
  have "\<forall>p\<in>set ps. has_pool w1 i (fst p) \<and> pool_free (pl p) \<and> pool_of w1 i (fst p) = with_ctx (pl p) (?g p) (x p (n p))" using pre1 by blast
  from store_bufs_with [OF ps(2) bll this] have f2: "frame w1 w2" "net w2 = net w1" "reqs w2 = reqs w1" "cnts w2 = cnts w1"
    and p2: "\<forall>(p, d)\<in>set (zip ps bl). pool_of w2 i (fst p) = with_ctx (pl p) (?g p) ((x p (n p))\<lparr>ctx_rdma_buf := Some d\<rparr>)" by (auto simp: w2_def)
  have g2: "frame w w2" by (rule frame_trans [OF g1 f2(1)])
  define b where "b p = the (map_of (zip ps bl) p)" for p
  have bj: "b (ps ! j) = bl ! j" if "j < length ps" for j
    using that ps(2) bll map_of_zip_nth [of ps bl j] by (simp add: b_def distinct_map)
  define y where "y p = (x p (n p))\<lparr>ctx_rdma_buf := Some (b p)\<rparr>" for p
  have y: "pool_of w2 i (fst p) = with_ctx (pl p) (?g p) (y p)" "page_ctx (y p)" if "p \<in> set ps" for p
  proof -
    from that obtain j where j: "j < length ps" "p = ps ! j" by (auto simp: in_set_conv_nth)
    then have "(p, bl ! j) \<in> set (zip ps bl)" using bll by (auto simp: in_set_zip)
    with p2 j show "pool_of w2 i (fst p) = with_ctx (pl p) (?g p) (y p)" by (auto simp: y_def bj)
    have "length (bl ! j) = length (map d ps ! j)" using out(3) j bll by (metis bl_def nth_map length_map)
    then show "page_ctx (y p)" using j buf(2) [OF that] by (simp add: y_def page_ctx_def bj)
  qed
  have yf: "ctx_opcode (y p) = IB_WR_RDMA_WRITE" "ctx_rdma_buf (y p) = Some (b p)" "ctx_req (y p) = Some r" "ctx_cnt (y p) = Some cnt"
    "ctx_rkey (y p) = remote_rkey (ch p)" "ctx_remote_addr (y p) = remote_addr (ch p) + of_nat (offset div ?k)" "sg_length (y p) = L" for p
    using page_div(1) [OF c(3,1), of "length (rq_bios q)"] by (simp_all add: y_def x_def filled_simps filled_ec q(2) c(4))
  have pre2: "\<forall>p\<in>set ps. has_pool w2 i (fst p) \<and> pool_free (pl p) \<and> cqe (net w2) (fst p) = [] \<and>
      pool_of w2 i (fst p) = with_ctx (pl p) (?g p) (y p) \<and> ctx_opcode (y p) = IB_WR_RDMA_WRITE \<and> ctx_rdma_buf (y p) = Some (b p)"
    using sr y yf frameD(5) [OF g2] f2(2) f1(2) by simp
  obtain w3 where post: "whileE (\<lambda>(rt, a) w. case rt of None \<Rightarrow> Inr (0, w) | Some (b, _) \<Rightarrow> post_ctx tr b a w)
      (map (\<lambda>p. (the_route p, (i, fst p, top_id (pl p)))) ps) w2 = Inr (0, w3)" and f3: "frame w2 w3" "reqs w3 = reqs w2" "cnts w3 = cnts w2"
    and p3: "\<forall>p\<in>set ps. pool_of w3 i (fst p) = with_ctx (pl p) (?g p) (y p) \<and>
      mem (net w3) (fst p) = mem_write (remote_rkey (ch p)) (remote_addr (ch p) + of_nat (offset div ?k)) (take L (b p)) (mem (net w2) (fst p)) \<and>
      cqe (net w3) (fst p) = [OP_WRITE (i, fst p, top_id (pl p))]"
    using post_blocks [OF rel ps(2) pre2] unfolding yf by blast
  have g3: "frame w w3" by (rule frame_trans [OF g2 f3(1)])
  have pre3: "\<forall>p\<in>set ps. has_pool w3 i (fst p) \<and> pool_free (pl p) \<and> alive (sess w3) (fst p) \<and> cqe (net w3) (fst p) = [OP_WRITE (i, fst p, top_id (pl p))] \<and>
      pool_of w3 i (fst p) = with_ctx (pl p) (?g p) (y p) \<and> ctx_req (y p) = Some r \<and> ctx_cnt (y p) = Some cnt \<and> page_ctx (y p)"
    using sr y p3 yf frameD(5) [OF g3] alive_frame [OF g3] by simp
  have c3: "cnt < length (cnts w3)" "cnts w3 ! cnt = int ?k" "reqs w3 r = Some q" using f3 f2 f1 q(1) by (simp_all add: cnt_def)
  obtain w4 where poll: "foldE (\<lambda>(rt, a) w. case rt of None \<Rightarrow> give_back a w | Some (b, _) \<Rightarrow> rdma_cq_event_handler_ec c g tr b w)
      (map (\<lambda>p. (the_route p, (i, fst p, top_id (pl p)))) ps) w3 = Inr w4" and f4: "frame w3 w4" "mem (net w4) = mem (net w3)" "reqs w4 = (reqs w)(r \<mapsto> q\<lparr>rq_end := Some 0\<rparr>)"
    and p4: "\<forall>p\<in>set ps. pool_free (pool_of w4 i (fst p)) \<and> cqe (net w4) (fst p) = []"
    using poll_blocks [OF rel ps(2) pre3 c3(1,3), of c g] c(1,2) ps(1) f3(2) f2(3) f1(3) by (auto simp: c3(2))
  have g4: "frame w w4" by (rule frame_trans [OF g3 f4(1)])
  have "IS_rdma_write_ec c g tr (map the_route ps) offset ?ln r w = Inr (0, w4)"
    using acq stage post poll q(1) by (simp add: IS_rdma_write_ec_def req_at_def new_counter_def cnt_def zip_maps w2_def bl_def)
  moreover have "srv_ready i cqe w4 (fst p)" if "p \<in> set ps" for p
    using p4 that sr [OF that] frameD(5) [OF g4] alive_frame [OF g4] by (simp add: srv_ready_def)
  moreover have "mem (net w4) (fst (ps ! j)) = mem_write (remote_rkey (ch (ps ! j))) (remote_addr (ch (ps ! j)) + of_nat (offset div ?k))
      (take L (ec_write L ?k ?m (encode_tbls g) out ! j)) (mem (net w) (fst (ps ! j)))" if "j < ?m" for j
    using p3 that ps(1) bj [of j] f4(2) f2(2) f1(2) by (simp add: bl_def)
  ultimately show ?thesis using g4 f4(3) out(1,2) ps(1) by (intro exI [of _ w4] exI [of _ out]) simp
qed

end
