(* ===== verification/Ec_Reads.thy ===== *)
theory Ec_Reads
  imports Ec_Requests
begin

text \<open>
  An erasure-coded read from the request to its end: a parity is read in place of every data block whose slab has no server, the completions are
  awaited in the order of the disks, and the last one rebuilds the pages. Together with the write this gives the round trip of a request
  through \<open>IS_request\<close>.
\<close>

section \<open>Routines\<close>

definition inject_ec :: "is_config \<Rightarrow> ec_tables \<Rightarrow> 'n transport \<Rightarrow> nat \<times> route \<times> ctx_addr \<Rightarrow> 'n world \<Rightarrow> 'n world res" where
  "inject_ec c g tr = (\<lambda>(i, rt, a) w. case IS_fault_injection_inject_fault (fault_injection (sess w)) i of
       None \<Rightarrow> Inl Die
     | Some (f, fi) \<Rightarrow>
         let w = upd_ctx a (\<lambda>x. x\<lparr>ctx_fault := f\<rparr>) (upd_sess (\<lambda>s. s\<lparr>fault_injection := fi\<rparr>) w) in
         if f = 0 then Inr w
         else case rt of None \<Rightarrow> Inl Oob
         | Some (b, _) \<Rightarrow> bindE (IS_send_fault c tr b w) (\<lambda>(_, w). rdma_cq_event_handler_ec c g tr b w))"

definition await_ec :: "is_config \<Rightarrow> ec_tables \<Rightarrow> 'n transport \<Rightarrow> route \<times> ctx_addr \<Rightarrow> 'n world \<Rightarrow> 'n world res" where
  "await_ec c g tr = (\<lambda>(rt, a) w. bindE (usable w (rt, a)) (\<lambda>u. case rt of
     Some (b, _) \<Rightarrow> if u then rdma_cq_event_handler_ec c g tr b w else Inr w | None \<Rightarrow> Inr w))"

definition IS_rdma_read_ec :: "is_config \<Rightarrow> ec_tables \<Rightarrow> 'n transport \<Rightarrow> route list \<Rightarrow> nat \<Rightarrow> nat \<Rightarrow> nat \<Rightarrow> 'n world \<Rightarrow> (int \<times> 'n world) res" where
  "IS_rdma_read_ec c g tr routes offset ln r w = bindE (req_at w r) (\<lambda>q.
     case new_counter (int (NDATAS c)) w of (cnt, w) \<Rightarrow>
     bindE (foldE (acquire c r q offset ln False cnt) (enumerate 0 routes) ([], w)) (\<lambda>(as, w).
     let w = fold (\<lambda>a. upd_ctx a (\<lambda>x. x\<lparr>ctx_ctxs := as\<rparr>)) as w; rts = zip routes as in
     bindE (foldE (inject_ec c g tr) (enumerate 0 rts) w) (\<lambda>w.
     bindE (whileE (read_step c tr rts) [0..<NDATAS c] (0, w)) (\<lambda>(ret, j, w).
     if ret \<noteq> 0 then Inr (ret, w)
     else bindE (foldE (await_ec c g tr) (take (NDATAS c + j) rts) w) (\<lambda>w. Inr (0, w))))))"

definition IS_transfer_chunk_ec :: "is_config \<Rightarrow> ec_tables \<Rightarrow> 'n transport \<Rightarrow> route list \<Rightarrow> nat \<Rightarrow> nat \<Rightarrow> bool \<Rightarrow> nat \<Rightarrow> 'n world \<Rightarrow> (int \<times> 'n world) res" where
  "IS_transfer_chunk_ec c g tr routes offset ln write r w =
     (if write then IS_rdma_write_ec c g tr routes offset ln r w else IS_rdma_read_ec c g tr routes offset ln r w)"

definition IS_request_ec :: "is_config \<Rightarrow> ec_tables \<Rightarrow> 'n transport \<Rightarrow> nat \<Rightarrow> 'n world \<Rightarrow> (int \<times> 'n world) res" where
  "IS_request_ec c g tr r w = bindE (req_at w r) (\<lambda>q.
     let start = rq_pos q * 512; slab_index = start div 2 ^ SLAB_SHIFT c; chunk_offset = start mod 2 ^ SLAB_SHIFT c in
     bindE (foldE (\<lambda>i rs. bindE (route_of (sess w) (slab_index * NDISKS c + i)) (\<lambda>x. Inr (rs @ [x]))) [0..<NDISKS c] []) (\<lambda>routes.
     IS_transfer_chunk_ec c g tr routes chunk_offset (rq_bytes q) (rq_write q) r w))"

section \<open>Faults of contexts\<close>

text \<open>Handling a read completion changes no context's fault, so the loop over the disks skips the same ones from beginning to end.\<close>

definition faults :: "'n world \<Rightarrow> int list list list" where
  "faults w = map (\<lambda>cn. map (\<lambda>pl. map ctx_fault (ctx_pool pl)) (ctx_pools cn)) (IS_conns (sess w))"

lemma usable_faults: "usable w (rt, (i, b, k)) = bindE (aload (faults w) (int i)) (\<lambda>cn. bindE (aload cn (int b)) (\<lambda>pl. bindE (aload pl (int k)) (\<lambda>f.
    Inr (rt \<noteq> None \<and> f = 0))))"
  by (auto simp: usable_def ctx_at.simps pool_at_def faults_def aload_def bindE_def)

lemma usable_same: "faults w' = faults w \<Longrightarrow> usable w' p = usable w p"
  by (cases p) (auto simp: usable_faults)

lemma map_update_same: "g y = g (xs ! i) \<Longrightarrow> map g (xs[i := y]) = map g xs"
  by (metis list_update_id map_update)

lemma faults_upd_pool: "(\<And>pl. map ctx_fault (ctx_pool (f pl)) = map ctx_fault (ctx_pool pl)) \<Longrightarrow> faults (upd_pool i b f w) = faults w"
  by (simp add: faults_def upd_pool_def upd_sess_def map_update_same)

lemma faults_upd_ctx: "(\<And>x. ctx_fault (f x) = ctx_fault x) \<Longrightarrow> faults (upd_ctx a f w) = faults w"
  by (cases a) (auto simp: upd_ctx.simps map_update_same intro!: faults_upd_pool)

lemma faults_keep [simp]:
  "faults (w\<lparr>net := n\<rparr>) = faults w" "faults (w\<lparr>cnts := l\<rparr>) = faults w" "faults (upd_req r h w) = faults w"
  "faults (upd_sess (set_state b st) w) = faults w" "faults (upd_sess (\<lambda>s. s\<lparr>fault_injection := k s\<rparr>) w) = faults w"
  by (auto simp: faults_def upd_req_def upd_sess_def set_state_def upd_cb_def)

lemma faults_give_back:
  assumes "give_back a w = Inr w'"
  shows "faults w' = faults w \<and> net w' = net w"
proof -
  obtain i b k where a: "a = (i, b, k)" by (cases a)
  from assms obtain pl f f' where "pool_at w i (int b) = Inr pl" "free_ctxs pl = Some f" "w' = upd_pool i b (\<lambda>pl. pl\<lparr>free_ctxs := Some f'\<rparr>) w"
    by (cases "pool_at w i (int b)") (auto simp: a give_back.simps split: option.split_asm)
  then show ?thesis by (auto intro!: faults_upd_pool)
qed

lemma faults_store: "faults (store_bufs as ds w) = faults w \<and> net (store_bufs as ds w) = net w"
proof -
  have "faults (fold (\<lambda>(a, d). upd_ctx a (\<lambda>x. x\<lparr>ctx_rdma_buf := Some d\<rparr>)) zs w) = faults w \<and>
      net (fold (\<lambda>(a, d). upd_ctx a (\<lambda>x. x\<lparr>ctx_rdma_buf := Some d\<rparr>)) zs w) = net w" for zs
    by (induction zs arbitrary: w) (auto simp: faults_upd_ctx)
  then show ?thesis by (simp add: store_bufs_def)
qed

lemma faults_read_done:
  assumes "client_read_done_ec c g a w = Inr w'"
  shows "faults w' = faults w \<and> net w' = net w"
proof -
  have gave: "faults u' = faults u \<and> net u' = net u" if "foldE give_back bs u = Inr u'" for bs u u'
    by (rule foldE_inv [OF that]) (auto dest: faults_give_back)
  have r: "faults (upd_ctx a reset_ctx w) = faults w" by (rule faults_upd_ctx) (simp add: reset_ctx_def)
  from assms obtain x rq where x: "ctx_at w a = Inr x" "ctx_req x = Some rq"
    by (cases "ctx_at w a") (auto simp: client_read_done_ec_def split: option.split_asm)
  obtain l w1 where d: "dec_and_test (ctx_cnt x) (upd_ctx a reset_ctx w) = Inr (l, w1)"
    using assms x by (cases "dec_and_test (ctx_cnt x) (upd_ctx a reset_ctx w)") (auto simp: client_read_done_ec_def)
  then have w1: "faults w1 = faults w" "net w1 = net w" by (auto simp: dec_and_test_def r bindE_Inr split: option.split_asm if_split_asm)
  show ?thesis
  proof (cases l)
    case False
    then show ?thesis using assms x d w1 by (simp add: client_read_done_ec_def)
  next
    case True
    with assms x d obtain ds pages where
      "foldE give_back (take (NDISKS c) (ctx_ctxs x)) (end_request rq 0 (upd_req rq (\<lambda>q. q\<lparr>rq_bios := pages\<rparr>) (store_bufs (take (NDISKS c) (ctx_ctxs x)) ds w1))) = Inr w'"
      by (auto simp: client_read_done_ec_def Let_def bindE_Inr)
    from gave [OF this] show ?thesis using w1 by (simp add: end_request_def faults_store)
  qed
qed

text \<open>What the handler of one read completion leaves alone.\<close>

lemma poll_read_keeps:
  assumes rel: "reliable tr mem cqe" and op: "cqe (net w) b = OP_READ a d # ops" and run: "rdma_cq_event_handler_ec c g tr b w = Inr w'"
  shows "faults w' = faults w \<and> (\<forall>b'. b' \<noteq> b \<longrightarrow> cqe (net w') b' = cqe (net w) b')"
proof -
  from rel op obtain n where n: "tp_poll tr b (net w) = Some (WC_SUCCESS, OP_READ a d, n)" "cqe n = (cqe (net w))(b := ops)" unfolding reliable_def by blast
  have up: "faults (upd_ctx a (\<lambda>x. x\<lparr>ctx_rdma_buf := map_option (overlay d) (ctx_rdma_buf x)\<rparr>) u) = faults u" for u :: "'a world" by (rule faults_upd_ctx) simp
  have net: "net (upd_sess h u) = net u" for h and u :: "'a world" by (simp add: upd_sess_def)
  from run n show ?thesis
    by (auto simp: rdma_cq_event_handler_ec_def handle_completion_ec_def Let_def bindE_Inr up net dest!: faults_read_done split: if_splits)
qed

text \<open>The waiting loop handles the completions of the disks that were read and skips the others.\<close>

lemma await_reads_ec:
  assumes rel: "reliable tr mem cqe" and "distinct (map srv (filter good xs))"
    and "\<forall>x\<in>set xs. usable w (rt x, a x) = Inr (good x) \<and> (good x \<longrightarrow> (\<exists>z d. rt x = Some (srv x, z) \<and> cqe (net w) (srv x) = [OP_READ (a x) d]))"
  shows "foldE (await_ec c g tr) (map (\<lambda>x. (rt x, a x)) xs) w = foldE (\<lambda>x. rdma_cq_event_handler_ec c g tr (srv x)) (filter good xs) w"
  using assms(2,3)
proof (induction xs arbitrary: w)
  case (Cons x xs)
  show ?case
  proof (cases "good x")
    case True
    with Cons.prems obtain z d where x: "usable w (rt x, a x) = Inr True" "rt x = Some (srv x, z)" "cqe (net w) (srv x) = [OP_READ (a x) d]" by auto
    then have "await_ec c g tr (rt x, a x) w = rdma_cq_event_handler_ec c g tr (srv x) w" by (simp add: await_ec_def)
    moreover have "foldE (await_ec c g tr) (map (\<lambda>x. (rt x, a x)) xs) w1 = foldE (\<lambda>x. rdma_cq_event_handler_ec c g tr (srv x)) (filter good xs) w1"
      if "rdma_cq_event_handler_ec c g tr (srv x) w = Inr w1" for w1
    proof (rule Cons.IH)
      have k: "faults w1 = faults w" "\<And>b'. b' \<noteq> srv x \<Longrightarrow> cqe (net w1) b' = cqe (net w) b'" using poll_read_keeps [OF rel x(3) that] by auto
      show "distinct (map srv (filter good xs))" using Cons.prems(1) True by simp
      have "srv y \<noteq> srv x" if "y \<in> set xs" "good y" for y using Cons.prems(1) True that by (auto simp: image_iff)
      then show "\<forall>x\<in>set xs. usable w1 (rt x, a x) = Inr (good x) \<and> (good x \<longrightarrow> (\<exists>z d. rt x = Some (srv x, z) \<and> cqe (net w1) (srv x) = [OP_READ (a x) d]))"
        using Cons.prems(2) k usable_same [OF k(1)] by auto
    qed
    ultimately show ?thesis using True by (cases "rdma_cq_event_handler_ec c g tr (srv x) w") simp_all
  next
    case False
    with Cons.prems(2) have "await_ec c g tr (rt x, a x) w = Inr w" by (auto simp: await_ec_def split: option.splits)
    with Cons.IH [of w] Cons.prems False show ?thesis by simp
  qed
qed simp

section \<open>Posting the reads\<close>

lemma find_filter: "find P xs = (case filter P xs of [] \<Rightarrow> None | x # _ \<Rightarrow> Some x)"
  by (induction xs) simp_all

lemma next_parity_ok:
  assumes "\<forall>x<length rts. usable w (rts ! x) = Inr (good x)" "filter good [j..<length rts] \<noteq> []"
  obtains p where "next_parity w rts j = Inr p" "j \<le> p" "p < length rts" "good p" "filter good [j..<Suc p] = [p]"
proof -
  let ?n = "length rts"
  obtain p rest where p: "filter good [j..<?n] = p # rest" using assms(2) by (cases "filter good [j..<?n]") auto
  then have pn: "j \<le> p" "p < ?n" "good p" using list.set_intros(1) [of p rest] by (simp_all flip: p)
  have "\<forall>x\<in>set xs. usable w (rts ! x) = Inr (good x) \<Longrightarrow>
      foldr (\<lambda>i r. bindE (usable w (rts ! i)) (\<lambda>u. if u then Inr i else r)) xs (Inl Oob) = (case find good xs of None \<Rightarrow> Inl Oob | Some i \<Rightarrow> Inr i)" for xs
    by (induction xs) auto
  then have np: "next_parity w rts j = Inr p" using assms(1) by (simp add: next_parity_def find_filter p)
  have "filter good [j..<?n] = filter good [j..<p] @ p # filter good [Suc p..<?n]"
    using pn upt_add_eq_append [of j p "?n - p"] upt_conv_Cons [of p ?n] by simp
  with p have "filter good [j..<p] = [] \<or> hd (filter good [j..<p]) = p" by (cases "filter good [j..<p]") simp_all
  moreover have "filter good [j..<p] \<noteq> [] \<Longrightarrow> hd (filter good [j..<p]) \<in> set (filter good [j..<p])" by (rule hd_in_set)
  ultimately have "filter good [j..<p] = []" by (cases "filter good [j..<p] = []") auto
  then show thesis using np pn by (intro that [of p]) simp_all
qed

lemma post_read_ok:
  assumes rel: "reliable tr mem cqe" and p: "has_pool w i (fst p)" "pool_of w i (fst p) = with_ctx pl f x" "top_id pl < length (ctx_pool pl)"
    and x: "page_ctx x" "ctx_opcode x = IB_WR_RDMA_READ" and rts: "rts ! n = (the_route p, (i, fst p, top_id pl))"
  shows "\<exists>w'. post_read tr rts n w = Inr (0, w') \<and> frame w w' \<and> reqs w' = reqs w \<and> cnts w' = cnts w \<and> faults w' = faults w \<and> mem (net w') = mem (net w) \<and>
    (\<forall>b. pool_of w' i b = pool_of w i b) \<and> cqe (net w') = (cqe (net w))(fst p := cqe (net w) (fst p) @
      [OP_READ (i, fst p, top_id pl) (mem_read (ctx_rkey x) (ctx_remote_addr x) (sg_length x) (mem (net w) (fst p)))])"
proof -
  obtain d where d: "ctx_rdma_buf x = Some d" using x(1) by (auto simp: page_ctx_def split: option.splits)
  obtain u where post: "post_ctx tr (fst p) (i, fst p, top_id pl) w = Inr (0, w\<lparr>net := u\<rparr>)" "mem u = mem (net w)"
    "cqe u = (cqe (net w))(fst p := cqe (net w) (fst p) @ [OP_READ (i, fst p, top_id pl) (mem_read (ctx_rkey x) (ctx_remote_addr x) (sg_length x) (mem (net w) (fst p)))])"
    using post_ctx_ok [OF rel p d, of False] x(2) by auto
  let ?w = "upd_sess (\<lambda>s. s\<lparr>fault_injection := IS_fault_injection_access (fault_injection s) n\<rparr>) (w\<lparr>net := u\<rparr>)"
  have "post_read tr rts n w = Inr (0, ?w)" using post(1) rts by (simp add: post_read_def the_route_def)
  moreover have "frame w ?w" by (rule frame_trans [OF frame_net(1) frame_fi]) (simp add: IS_fault_injection_access_def)
  moreover have "pool_of ?w i b = pool_of w i b" for b by (simp add: pool_of_def upd_sess_def)
  moreover have "reqs ?w = reqs w" "cnts ?w = cnts w" "net ?w = u" by (simp_all add: upd_sess_def)
  ultimately show ?thesis using post(2,3) by (intro exI [of _ ?w]) simp
qed

lemma parity_left:
  assumes "k \<le> m" "length (filter failed [0..<m]) \<le> m - k" "n < k" "failed n" "k + j \<le> m"
    and "length (filter (\<lambda>x. \<not> failed x) [k..<k + j]) = length (filter failed [0..<n])"
  shows "filter (\<lambda>x. \<not> failed x) [k + j..<m] \<noteq> []"
proof -
  have k: "filter P [0..<m] = filter P [0..<n] @ filter P [n..<k] @ filter P [k..<m]" for P
    using assms(1,3) upt_add_eq_append [of 0 n "m - n"] upt_add_eq_append [of n k "m - k"] by simp
  have "failed n \<Longrightarrow> n \<in> set (filter failed [n..<k])" using assms(3) by simp
  then have "Suc 0 \<le> length (filter failed [n..<k])" using assms(4) by (cases "filter failed [n..<k]") auto
  moreover have "length (filter failed [k..<m]) + length (filter (\<lambda>x. \<not> failed x) [k..<m]) = m - k"
    using sum_length_filter_compl [of failed "[k..<m]"] by simp
  moreover have "length (filter failed [0..<m]) = length (filter failed [0..<n]) + length (filter failed [n..<k]) + length (filter failed [k..<m])"
    unfolding k by simp
  ultimately have "length (filter failed [0..<n]) < length (filter (\<lambda>x. \<not> failed x) [k..<m])" using assms(2) by linarith
  moreover have "filter (\<lambda>x. \<not> failed x) [k..<m] = filter (\<lambda>x. \<not> failed x) [k..<k + j] @ filter (\<lambda>x. \<not> failed x) [k + j..<m]"
    using assms(5) upt_add_eq_append [of k "k + j" "m - (k + j)"] by simp
  ultimately show ?thesis using assms(6) by auto
qed

lemma read_set_prefix:
  assumes "k \<le> m" "k + j \<le> m" "length (filter (\<lambda>x. \<not> failed x) [k..<k + j]) = length (filter failed [0..<k])"
  shows "filter (\<lambda>x. \<not> failed x) [0..<k + j] = read_set k m failed"
proof -
  let ?g = "\<lambda>x. \<not> failed x"
  have "filter ?g [0..<k + j] = filter ?g [0..<k] @ filter ?g [k..<k + j]" using upt_add_eq_append [of 0 k j] by simp
  then have "length (filter ?g [0..<k + j]) = k" using assms(3) sum_length_filter_compl [of failed "[0..<k]"] by simp
  moreover have "filter ?g [0..<m] = filter ?g [0..<k + j] @ filter ?g [k + j..<m]" using assms(2) upt_add_eq_append [of 0 "k + j" "m - (k + j)"] by simp
  ultimately show ?thesis by (simp add: read_set_def)
qed

lemma read_posts:
  assumes rel: "reliable tr mem cqe" and len: "length rts = m" "length ps = m" "NDATAS c = k" "k \<le> m" "distinct (map fst ps)"
    and few: "length (filter failed [0..<m]) \<le> m - k"
    and rts: "\<forall>x<m. rts ! x = (if failed x then None else the_route (ps ! x), (i, fst (ps ! x), top_id (pl (ps ! x))))"
    and us: "\<forall>x<m. usable w (rts ! x) = Inr (\<not> failed x)"
    and srv: "\<forall>x<m. \<not> failed x \<longrightarrow> has_pool w i (fst (ps ! x)) \<and> pool_free (pl (ps ! x)) \<and> pool_of w i (fst (ps ! x)) = with_ctx (pl (ps ! x)) (f (ps ! x)) (y (ps ! x)) \<and>
      ctx_opcode (y (ps ! x)) = IB_WR_RDMA_READ \<and> page_ctx (y (ps ! x)) \<and> cqe (net w) (fst (ps ! x)) = []"
  defines "op x \<equiv> OP_READ (i, fst (ps ! x), top_id (pl (ps ! x))) (mem_read (ctx_rkey (y (ps ! x))) (ctx_remote_addr (y (ps ! x))) (sg_length (y (ps ! x)))
      (mem (net w) (fst (ps ! x))))"
  shows "\<exists>j w'. whileE (read_step c tr rts) [0..<NDATAS c] (0, w) = Inr (0, j, w') \<and> k + j \<le> m \<and>
    filter (\<lambda>x. \<not> failed x) [0..<k + j] = read_set k m failed \<and> frame w w' \<and> reqs w' = reqs w \<and> cnts w' = cnts w \<and> faults w' = faults w \<and>
    mem (net w') = mem (net w) \<and> (\<forall>b. pool_of w' i b = pool_of w i b) \<and> (\<forall>x\<in>set (read_set k m failed). cqe (net w') (fst (ps ! x)) = [op x])"
proof -
  let ?g = "\<lambda>x. \<not> failed x"
  let ?I = "\<lambda>u. frame w u \<and> reqs u = reqs w \<and> cnts u = cnts w \<and> faults u = faults w \<and> mem (net u) = mem (net w) \<and> (\<forall>b. pool_of u i b = pool_of w i b)"
  let ?P = "\<lambda>n (j, u). k + j \<le> m \<and> length (filter ?g [k..<k + j]) = length (filter failed [0..<n]) \<and> ?I u \<and>
      (\<forall>x<m. ?g x \<longrightarrow> cqe (net u) (fst (ps ! x)) = (if x < n \<or> k \<le> x \<and> x < k + j then [op x] else []))"
  have post: "\<exists>u'. post_read tr rts x u = Inr (0, u') \<and> ?I u' \<and> cqe (net u') = (cqe (net u))(fst (ps ! x) := cqe (net u) (fst (ps ! x)) @ [op x])"
    if x: "x < m" "?g x" and I: "?I u" for x u
  proof -
    have h: "has_pool u i (fst (ps ! x))" using srv x I frameD(5) [of w u] by auto
    have p: "pool_of u i (fst (ps ! x)) = with_ctx (pl (ps ! x)) (f (ps ! x)) (y (ps ! x))" "top_id (pl (ps ! x)) < length (ctx_pool (pl (ps ! x)))"
      "page_ctx (y (ps ! x))" "ctx_opcode (y (ps ! x)) = IB_WR_RDMA_READ" using srv x I by (auto elim: pool_free_take)
    have r: "rts ! x = (the_route (ps ! x), (i, fst (ps ! x), top_id (pl (ps ! x))))" using rts x by simp
    from post_read_ok [OF rel h p r] I show ?thesis by (auto simp: op_def intro: frame_trans)
  qed
  have ne: "fst (ps ! x) = fst (ps ! x') \<longleftrightarrow> x = x'" if "x < m" "x' < m" for x x'
    using len(2,5) that by (auto simp: distinct_conv_nth)
  have step: "\<exists>t'. proceed (read_step c tr rts n t) = Inr t' \<and> ?P (Suc n) t'" if n: "n < k" and t: "?P n t" for n t
  proof -
    obtain j u where u: "t = (j, u)" "k + j \<le> m" "length (filter ?g [k..<k + j]) = length (filter failed [0..<n])" "?I u"
      and cq: "\<And>x. x < m \<Longrightarrow> ?g x \<Longrightarrow> cqe (net u) (fst (ps ! x)) = (if x < n \<or> k \<le> x \<and> x < k + j then [op x] else [])" using t by (cases t) auto
    have usu: "\<forall>x<length rts. usable u (rts ! x) = Inr (?g x)" using us len(1) usable_same [of u w] u(4) by simp
    have nm: "n < m" using n len(4) by simp
    show ?thesis
    proof (cases "failed n")
      case False
      from post [OF nm False u(4)] obtain u' where u': "post_read tr rts n u = Inr (0, u')" "?I u'"
        "cqe (net u') = (cqe (net u))(fst (ps ! n) := cqe (net u) (fst (ps ! n)) @ [op n])" by blast
      have "proceed (read_step c tr rts n t) = Inr (j, u')" using u'(1) usu nm len(1) False by (simp add: read_step_def u(1) proceed_def)
      moreover have "?P (Suc n) (j, u')" using u(2,3) u'(2,3) cq ne nm n False by (auto simp: less_Suc_eq)
      ultimately show ?thesis by blast
    next
      case True
      obtain p where p: "next_parity u rts (k + j) = Inr p" "k + j \<le> p" "p < m" "?g p" "filter ?g [k + j..<Suc p] = [p]"
        using next_parity_ok [OF usu, of "k + j"] parity_left [OF len(4) few n True u(2,3)] len(1) by metis
      from post [OF p(3,4) u(4)] obtain u' where u': "post_read tr rts p u = Inr (0, u')" "?I u'"
        "cqe (net u') = (cqe (net u))(fst (ps ! p) := cqe (net u) (fst (ps ! p)) @ [op p])" by blast
      have run: "proceed (read_step c tr rts n t) = Inr (Suc p - k, u')"
        using u'(1) usu nm len(1,3) True p(1,2) by (simp add: read_step_def u(1) proceed_def Suc_diff_le)
      have kp: "k + (Suc p - k) = Suc p" using p(2) by simp
      have "filter ?g [k..<Suc p] = filter ?g [k..<k + j] @ [p]"
        unfolding p(5) [symmetric] using p(2) upt_add_eq_append [of k "k + j" "Suc p - (k + j)"] by (simp del: upt_Suc)
      then have cnt: "length (filter ?g [k..<Suc p]) = length (filter failed [0..<Suc n])" using u(3) True by simp
      have skip: "x = p" if "k + j \<le> x" "x < Suc p" "?g x" for x
      proof -
        have "x \<in> set (filter ?g [k + j..<Suc p])" using that by (simp del: upt_Suc)
        then show ?thesis unfolding p(5) by simp
      qed
      have "cqe (net u') (fst (ps ! x)) = (if x < Suc n \<or> k \<le> x \<and> x < Suc p then [op x] else [])" if "x < m" "?g x" for x
      proof -
        have "x \<noteq> n" using True that by auto
        moreover have "k + j \<le> x \<longrightarrow> p \<le> x" using skip [of x] that(2) by (cases "x < Suc p") auto
        ultimately show ?thesis using u'(3) cq [OF that] cq [OF p(3,4)] ne [OF that(1) p(3)] n p(2) by auto
      qed
      then have "?P (Suc n) (Suc p - k, u')" using cnt u'(2) p(2,3) by (simp only: prod.case kp) simp
      with run show ?thesis by blast
    qed
  qed
  have "?P 0 (0, w)" using srv len(4) by auto
  then have "\<exists>z. foldE (\<lambda>x s. proceed (read_step c tr rts x s)) [0..<k] (0, w) = Inr z \<and> ?P k z" by (rule foldE_upto [where P = ?P, OF _ step])
  then obtain z where z: "foldE (\<lambda>x s. proceed (read_step c tr rts x s)) [0..<k] (0, w) = Inr z" "?P k z" by (elim exE conjE)
  obtain j w' where jw: "z = (j, w')" by (cases z)
  note loop = z(1) [unfolded jw] and P = z(2) [unfolded jw prod.case]
  have rs: "filter ?g [0..<k + j] = read_set k m failed" using P by (intro read_set_prefix [OF len(4)]) auto
  have "cqe (net w') (fst (ps ! x)) = [op x]" if "x \<in> set (read_set k m failed)" for x
  proof -
    have "x < k + j" "?g x" using that by (auto simp flip: rs)
    then show ?thesis using P by auto
  qed
  with whileE_proceed [OF loop] P rs len(3) show ?thesis by (intro exI [of _ j] exI [of _ w']) auto
qed

section \<open>A read\<close>

lemma inject_ec_off:
  "inject_fault (fault_injection (sess w)) \<noteq> 1 \<Longrightarrow> foldE (inject_ec c g tr) xs w = foldE (inject c tr) xs w"
proof (induction xs arbitrary: w)
  case (Cons x xs)
  obtain j rt a where x: "x = (j, rt, a)" by (cases x)
  have "upd_sess (\<lambda>s. s\<lparr>fault_injection := fault_injection (sess w)\<rparr>) w = w" by (simp add: upd_sess_def)
  then have "inject_ec c g tr x w = Inr (upd_ctx a (\<lambda>x. x\<lparr>ctx_fault := 0\<rparr>) w)"
    using Cons.prems by (simp add: x inject_ec_def IS_fault_injection_inject_fault_def Let_def)
  then show ?case using Cons.IH [of "upd_ctx a (\<lambda>x. x\<lparr>ctx_fault := 0\<rparr>) w"] Cons.prems inject_none [OF Cons.prems, of c tr j rt a] by (simp add: x upd_ctx_inject)
qed simp

definition disk_route :: "(nat \<Rightarrow> bool) \<Rightarrow> (nat \<times> nat) list \<Rightarrow> nat \<Rightarrow> route" where
  "disk_route failed ps x = (if failed x then None else the_route (ps ! x))"

text \<open>
  The device of a request \<open>q\<close>: a context is free for each of the disks \<open>ps\<close>, those of the lost disks in the pools of their positions, and the
  other disks are on live servers, under the chunks \<open>ch\<close>.
\<close>

definition disks_ready :: "is_config \<Rightarrow> ('n \<Rightarrow> nat \<Rightarrow> completion list) \<Rightarrow> (nat \<Rightarrow> bool) \<Rightarrow> nat \<Rightarrow> (nat \<times> nat) list \<Rightarrow> (nat \<times> nat \<Rightarrow> remote_chunk_g) \<Rightarrow> 'n world \<Rightarrow> bool" where
  "disks_ready c cqe failed i ps ch w \<longleftrightarrow> inject_fault (fault_injection (sess w)) \<noteq> 1 \<and> length ps = NDISKS c \<and> distinct (map fst ps) \<and>
     (\<forall>x<NDISKS c. has_pool w i (fst (ps ! x)) \<and> pool_free (pool_of w i (fst (ps ! x))) \<and>
      (if failed x then fst (ps ! x) = x
       else alive (sess w) (fst (ps ! x)) \<and> cqe (net w) (fst (ps ! x)) = [] \<and> chunk_at w (Some (ps ! x)) = Inr (ch (ps ! x))))"

text \<open>The context of a disk once the request has taken it, and a lost disk's, which is only linked to the others.\<close>

definition taken :: "is_config \<Rightarrow> nat \<Rightarrow> nat \<Rightarrow> nat \<Rightarrow> ctx_addr list \<Rightarrow> remote_chunk_g \<Rightarrow> bool \<Rightarrow> rdma_ctx \<Rightarrow> bool" where
  "taken c r offset cnt as ch live x \<longleftrightarrow> page_ctx x \<and> ctx_fault x = 0 \<and> ctx_ctxs x = as \<and> (live \<longrightarrow> ctx_opcode x = IB_WR_RDMA_READ \<and> ctx_req x = Some r \<and>
     ctx_cnt x = Some cnt \<and> ctx_rkey x = remote_rkey ch \<and> ctx_remote_addr x = remote_addr ch + of_nat (offset div NDATAS c))"

lemma ec_read_taken:
  assumes q: "reqs w r = Some q" "conn_id q = i" and dev: "disks_ready c cqe failed i ps ch w"
  defines "a \<equiv> \<lambda>p. (i, fst p, top_id (pool_of w i (fst p)))"
  defines "rts \<equiv> map (\<lambda>x. (disk_route failed ps x, a (ps ! x))) [0..<NDISKS c]"
  shows "\<exists>w2 y. (\<forall>g. IS_rdma_read_ec c g tr (map (disk_route failed ps) [0..<NDISKS c]) offset ln r w =
      bindE (whileE (read_step c tr rts) [0..<NDATAS c] (0, w2)) (\<lambda>(ret, j, w). if ret \<noteq> 0 then Inr (ret, w)
        else bindE (foldE (await_ec c g tr) (take (NDATAS c + j) rts) w) (\<lambda>w. Inr (0, w)))) \<and>
    frame w w2 \<and> net w2 = net w \<and> reqs w2 = reqs w \<and> cnts w2 = cnts w @ [int (NDATAS c)] \<and>
    (\<forall>x<NDISKS c. pool_of w2 i (fst (ps ! x)) = with_ctx (pool_of w i (fst (ps ! x))) (Some (popped (pool_of w i (fst (ps ! x))))) (y (ps ! x)) \<and>
      taken c r offset (length (cnts w)) (map a ps) (ch (ps ! x)) (\<not> failed x) (y (ps ! x)) \<and> (\<not> failed x \<longrightarrow> sg_length (y (ps ! x)) = ln div NDATAS c))"
proof -
  let ?m = "NDISKS c" and ?k = "NDATAS c" and ?cnt = "length (cnts w)" and ?w0 = "w\<lparr>cnts := cnts w @ [int (NDATAS c)]\<rparr>" and ?as = "map a ps"
  define live where "live p = (\<exists>x<?m. p = ps ! x \<and> \<not> failed x)" for p
  define pl where "pl p = pool_of w i (fst p)" for p :: "nat \<times> nat"
  have fi: "inject_fault (fault_injection (sess w)) \<noteq> 1" and ps: "length ps = ?m" "distinct (map fst ps)"
    and srv: "\<And>x. x < ?m \<Longrightarrow> has_pool w i (fst (ps ! x)) \<and> pool_free (pl (ps ! x)) \<and> (if failed x then fst (ps ! x) = x else chunk_at w (Some (ps ! x)) = Inr (ch (ps ! x)))"
    using dev by (auto simp: disks_ready_def pl_def)
  have live: "live (ps ! x) = (\<not> failed x)" if "x < ?m" for x using that ps by (auto simp: live_def distinct_map nth_eq_iff_index_eq)
  have as: "?as = map (\<lambda>p. (i, fst p, top_id (pl p))) ps" by (simp add: a_def pl_def)
  have routes: "map (disk_route failed ps) [0..<?m] = map (read_route live) ps"
    using ps(1) live by (intro nth_equalityI) (simp_all add: disk_route_def read_route_def)
  have rts: "rts = map (\<lambda>p. (read_route live p, a p)) ps"
    using ps(1) live by (intro nth_equalityI) (simp_all add: rts_def disk_route_def read_route_def)
  have fr: "frame w ?w0" by simp
  have pre0: "\<forall>p\<in>set ps. has_pool ?w0 i (fst p) \<and> pool_free (pl p) \<and> pool_of ?w0 i (fst p) = pl p \<and> (live p \<longrightarrow> chunk_at ?w0 (Some p) = Inr (ch p))"
    using srv live chunk_at_frame [OF fr] by (simp add: all_set_conv_all_nth ps(1) pl_def)
  have pos: "\<forall>x<length ps. live (ps ! x) \<or> fst (ps ! x) = x" using srv live ps(1) by auto
  obtain w1 w2 where acq: "foldE (acquire c r q offset ln False ?cnt) (enumerate 0 (map (read_route live) ps)) ([], ?w0) = Inr (?as, w1)"
    and fm: "frame ?w0 (fold (\<lambda>a. upd_ctx a (\<lambda>x. x\<lparr>ctx_ctxs := ?as\<rparr>)) ?as w1)"
    and inj: "foldE (inject c tr) (enumerate 0 (zip (map (read_route live) ps) ?as)) (fold (\<lambda>a. upd_ctx a (\<lambda>x. x\<lparr>ctx_ctxs := ?as\<rparr>)) ?as w1) = Inr w2"
    and f2: "frame ?w0 w2" "net w2 = net w" "reqs w2 = reqs w" "cnts w2 = cnts w @ [int ?k]"
    and p2: "\<forall>p\<in>set ps. \<exists>n. pool_of w2 i (fst p) = with_ctx (pl p) (Some (popped (pl p))) (read_ctx (live p) c r offset ln ?cnt ?as p (ch p) n (top_ctx (pl p)))"
    using read_prepare [OF q(2) ps(2) pos _ pre0, of c r offset ln ?cnt tr] fi unfolding as by auto
  from bchoice [OF p2] obtain n where n: "\<forall>p\<in>set ps. pool_of w2 i (fst p) = with_ctx (pl p) (Some (popped (pl p))) (read_ctx (live p) c r offset ln ?cnt ?as p (ch p) (n p) (top_ctx (pl p)))"
    by blast
  let ?y = "\<lambda>p. read_ctx (live p) c r offset ln ?cnt ?as p (ch p) (n p) (top_ctx (pl p))"
  have off: "inject_fault (fault_injection (sess (fold (\<lambda>a. upd_ctx a (\<lambda>x. x\<lparr>ctx_ctxs := ?as\<rparr>)) ?as w1))) \<noteq> 1" using frameD(7) [OF fm] fi by simp
  have "IS_rdma_read_ec c g tr (map (disk_route failed ps) [0..<?m]) offset ln r w = bindE (whileE (read_step c tr rts) [0..<?k] (0, w2)) (\<lambda>(ret, j, w).
      if ret \<noteq> 0 then Inr (ret, w) else bindE (foldE (await_ec c g tr) (take (?k + j) rts) w) (\<lambda>w. Inr (0, w)))" for g
    unfolding routes rts using q acq inject_ec_off [OF off, of c g tr] inj by (simp add: IS_rdma_read_ec_def req_at_def new_counter_def zip_maps Let_def cong: if_cong)
  moreover have "taken c r offset ?cnt ?as (ch (ps ! x)) (\<not> failed x) (?y (ps ! x)) \<and> (\<not> failed x \<longrightarrow> sg_length (?y (ps ! x)) = ln div ?k)" if "x < ?m" for x
    using live [OF that] page_top [of "pl (ps ! x)"] srv [OF that] by (simp add: taken_def read_ctx_simps)
  ultimately show ?thesis using frame_trans [OF fr f2(1)] f2 n ps(1) by (intro exI [of _ w2] exI [of _ ?y]) (simp add: pl_def)
qed

text \<open>Once the reads are posted \<open>ec_reading\<close> holds, and the waiting loop is the one over the disks that were read.\<close>

lemma ec_read_posted:
  assumes rel: "reliable tr mem cqe" and c: "NDATAS c \<le> NDISKS c" "L = ln div NDATAS c" "L \<le> IS_PAGE_SIZE"
    and q: "reqs w r = Some q" "conn_id q = i" and dev: "disks_ready c cqe failed i ps ch w" and few: "length (failures (NDISKS c) failed) \<le> NDISKS c - NDATAS c"
  shows "\<exists>w3. ec_reading cqe c L i ps (\<lambda>p. pool_of w i (fst p)) (map ((!) ps) (read_set (NDATAS c) (NDISKS c) failed))
      (\<lambda>p. mem_read (remote_rkey (ch p)) (remote_addr (ch p) + of_nat (offset div NDATAS c)) L (mem (net w) (fst p))) r (length (cnts w)) w3 \<and>
    reqs w3 = reqs w \<and> (\<forall>g. IS_rdma_read_ec c g tr (map (disk_route failed ps) [0..<NDISKS c]) offset ln r w =
      bindE (foldE (\<lambda>p. rdma_cq_event_handler_ec c g tr (fst p)) (map ((!) ps) (read_set (NDATAS c) (NDISKS c) failed)) w3) (\<lambda>w. Inr (0, w)))"
proof -
  let ?m = "NDISKS c" and ?k = "NDATAS c" and ?cnt = "length (cnts w)" and ?set = "read_set (NDATAS c) (NDISKS c) failed"
  define pl where "pl p = pool_of w i (fst p)" for p :: "nat \<times> nat"
  define a where "a p = (i, fst p, top_id (pl p))" for p :: "nat \<times> nat"
  let ?rts = "map (\<lambda>x. (disk_route failed ps x, a (ps ! x))) [0..<?m]"
  have ps: "length ps = ?m" "distinct (map fst ps)"
    and srv: "\<And>x. x < ?m \<Longrightarrow> has_pool w i (fst (ps ! x)) \<and> pool_free (pl (ps ! x)) \<and> (\<not> failed x \<longrightarrow> alive (sess w) (fst (ps ! x)) \<and> cqe (net w) (fst (ps ! x)) = [])"
    using dev by (auto simp: disks_ready_def pl_def)
  obtain w2 y where run: "\<And>g. IS_rdma_read_ec c g tr (map (disk_route failed ps) [0..<?m]) offset ln r w =
      bindE (whileE (read_step c tr ?rts) [0..<?k] (0, w2)) (\<lambda>(ret, j, w). if ret \<noteq> 0 then Inr (ret, w)
        else bindE (foldE (await_ec c g tr) (take (?k + j) ?rts) w) (\<lambda>w. Inr (0, w)))"
    and f2: "frame w w2" "net w2 = net w" "reqs w2 = reqs w" "cnts w2 = cnts w @ [int ?k]"
    and y: "\<And>x. x < ?m \<Longrightarrow> pool_of w2 i (fst (ps ! x)) = with_ctx (pl (ps ! x)) (Some (popped (pl (ps ! x)))) (y (ps ! x)) \<and>
      taken c r offset ?cnt (map a ps) (ch (ps ! x)) (\<not> failed x) (y (ps ! x)) \<and> (\<not> failed x \<longrightarrow> sg_length (y (ps ! x)) = L)"
    using ec_read_taken [OF q dev, of tr offset ln] unfolding pl_def a_def c(2) by blast
  have at: "has_pool w2 i (fst (ps ! x))" "ctx_at w2 (a (ps ! x)) = Inr (y (ps ! x))" if "x < ?m" for x
  proof -
    show h: "has_pool w2 i (fst (ps ! x))" using srv [OF that] frameD(5) [OF f2(1)] by simp
    have "top_id (pl (ps ! x)) < length (ctx_pool (pl (ps ! x)))" using srv [OF that] by (auto elim: pool_free_take)
    then show "ctx_at w2 (a (ps ! x)) = Inr (y (ps ! x))" unfolding a_def using y [OF that] by (intro ctx_at_with [OF h]) auto
  qed
  have us: "\<forall>x<?m. usable w2 (?rts ! x) = Inr (\<not> failed x)" using at(2) y by (simp add: usable_def disk_route_def the_route_def taken_def)
  have rts: "\<forall>x<?m. ?rts ! x = (if failed x then None else the_route (ps ! x), (i, fst (ps ! x), top_id (pl (ps ! x))))" by (simp add: disk_route_def a_def)
  have srv2: "\<forall>x<?m. \<not> failed x \<longrightarrow> has_pool w2 i (fst (ps ! x)) \<and> pool_free (pl (ps ! x)) \<and> pool_of w2 i (fst (ps ! x)) = with_ctx (pl (ps ! x)) (Some (popped (pl (ps ! x)))) (y (ps ! x)) \<and>
      ctx_opcode (y (ps ! x)) = IB_WR_RDMA_READ \<and> page_ctx (y (ps ! x)) \<and> cqe (net w2) (fst (ps ! x)) = []"
    using srv y at(1) f2(2) by (simp add: taken_def)
  let ?d = "\<lambda>p. mem_read (remote_rkey (ch p)) (remote_addr (ch p) + of_nat (offset div ?k)) L (mem (net w) (fst p))"
  have few': "length (filter failed [0..<?m]) \<le> ?m - ?k" using few by (simp add: failures_def)
  obtain j w3 where loop: "whileE (read_step c tr ?rts) [0..<?k] (0, w2) = Inr (0, j, w3)" and j: "?k + j \<le> ?m" "filter (\<lambda>x. \<not> failed x) [0..<?k + j] = ?set"
    and f3: "frame w2 w3" "reqs w3 = reqs w2" "cnts w3 = cnts w2" "faults w3 = faults w2" "\<forall>b. pool_of w3 i b = pool_of w2 i b"
    and cq: "\<And>x. x \<in> set ?set \<Longrightarrow> cqe (net w3) (fst (ps ! x)) = [OP_READ (i, fst (ps ! x), top_id (pl (ps ! x)))
      (mem_read (ctx_rkey (y (ps ! x))) (ctx_remote_addr (y (ps ! x))) (sg_length (y (ps ! x))) (mem (net w2) (fst (ps ! x))))]"
    using read_posts [OF rel _ ps(1) refl c(1) ps(2) few' rts us srv2] by auto
  have good: "x < ?m \<and> \<not> failed x" if "x \<in> set ?set" for x using in_set_takeD [OF that [unfolded read_set_def]] by simp
  have cq3: "cqe (net w3) (fst (ps ! x)) = [OP_READ (a (ps ! x)) (?d (ps ! x))]" if "x \<in> set ?set" for x
    using cq [OF that] y [of x] good [OF that] f2(2) by (simp add: taken_def a_def)
  have al: "alive (sess w3) (fst (ps ! x))" if "x < ?m" "\<not> failed x" for x using srv that alive_frame [OF frame_trans [OF f2(1) f3(1)]] by simp
  have "ec_reading cqe c L i ps pl (map ((!) ps) ?set) ?d r ?cnt w3" unfolding ec_reading_def
  proof (intro conjI ballI)
    fix p assume "p \<in> set ps"
    then obtain x where x: "x < ?m" "p = ps ! x" using ps(1) by (auto simp: in_set_conv_nth)
    show "has_pool w3 i (fst p)" "pool_free (pl p)" using srv [OF x(1)] at(1) [OF x(1)] frameD(5) [OF f3(1)] by (simp_all add: x(2))
    obtain d where d: "ctx_rdma_buf (y p) = Some d" "length d = IS_PAGE_SIZE" using y [OF x(1)] by (auto simp: taken_def page_ctx_def x(2) split: option.splits)
    have "ctx_req (y p) = Some r \<and> ctx_cnt (y p) = Some ?cnt \<and> ctx_ctxs (y p) = map (\<lambda>p. (i, fst p, top_id (pl p))) ps \<and> alive (sess w3) (fst p) \<and>
        cqe (net w3) (fst p) = [OP_READ (i, fst p, top_id (pl p)) (?d p)]" if "p \<in> set (map ((!) ps) ?set)"
    proof -
      from that obtain x' where x': "x' \<in> set ?set" "p = ps ! x'" by auto
      show ?thesis using y [of x'] cq3 [OF x'(1)] good [OF x'(1)] al [of x'] by (simp add: x'(2) taken_def a_def [abs_def])
    qed
    then show "\<exists>x d. pool_of w3 i (fst p) = with_ctx (pl p) (Some (popped (pl p))) x \<and> ctx_rdma_buf x = Some d \<and> L \<le> length d \<and>
        (p \<in> set (map ((!) ps) ?set) \<longrightarrow> ctx_req x = Some r \<and> ctx_cnt x = Some ?cnt \<and> ctx_ctxs x = map (\<lambda>p. (i, fst p, top_id (pl p))) ps \<and>
          alive (sess w3) (fst p) \<and> cqe (net w3) (fst p) = [OP_READ (i, fst p, top_id (pl p)) (?d p)])"
      using d c(3) y [OF x(1)] f3(5) by (intro exI [of _ "y p"] exI [of _ d]) (simp add: x(2))
  qed (use ps f3(3) f2(4) read_set_length [OF c(1) few] in simp_all)
  moreover have "IS_rdma_read_ec c g tr (map (disk_route failed ps) [0..<?m]) offset ln r w =
      bindE (foldE (\<lambda>p. rdma_cq_event_handler_ec c g tr (fst p)) (map ((!) ps) ?set) w3) (\<lambda>w. Inr (0, w))" for g
  proof -
    have tk: "take (?k + j) ?rts = map (\<lambda>x. (disk_route failed ps x, a (ps ! x))) [0..<?k + j]" using j(1) by (simp add: take_map min_def)
    have "x = x'" if "x < ?m" "x' < ?m" "fst (ps ! x) = fst (ps ! x')" for x x' using ps that by (auto simp: distinct_conv_nth)
    then have ds: "distinct (map (\<lambda>x. fst (ps ! x)) (filter (\<lambda>x. \<not> failed x) [0..<?k + j]))" using j(1) by (auto simp: distinct_map inj_on_def)
    have "usable w3 (disk_route failed ps x, a (ps ! x)) = Inr (\<not> failed x)" if "x < ?k + j" for x using us usable_same [OF f3(4)] j(1) that by simp
    moreover have "x \<in> set ?set" if "x < ?k + j" "\<not> failed x" for x using that by (simp flip: j(2))
    ultimately have u3: "\<forall>x\<in>set [0..<?k + j]. usable w3 (disk_route failed ps x, a (ps ! x)) = Inr (\<not> failed x) \<and>
        (\<not> failed x \<longrightarrow> (\<exists>z d. disk_route failed ps x = Some (fst (ps ! x), z) \<and> cqe (net w3) (fst (ps ! x)) = [OP_READ (a (ps ! x)) d]))"
      using cq3 by (simp add: disk_route_def the_route_def)
    have "foldE (await_ec c g tr) (take (?k + j) ?rts) w3 = foldE (\<lambda>p. rdma_cq_event_handler_ec c g tr (fst p)) (map ((!) ps) ?set) w3"
      unfolding tk await_reads_ec [OF rel ds u3] j(2) by (simp add: foldE_map)
    with loop show ?thesis unfolding run by simp
  qed
  ultimately show ?thesis using f3(2) f2(3) unfolding pl_def by (intro exI [of _ w3]) simp
qed

section \<open>Requests\<close>

lemma request_routes_ec:
  assumes "reqs w r = Some q" "\<And>x. x < NDISKS c \<Longrightarrow> route_of (sess w) (group_of c q * NDISKS c + x) = Inr (rt x)"
  shows "IS_request_ec c g tr r w = IS_transfer_chunk_ec c g tr (map rt [0..<NDISKS c]) (offset_of c q) (rq_bytes q) (rq_write q) r w"
proof -
  have "foldE (\<lambda>i rs. bindE (route_of (sess w) (group_of c q * NDISKS c + i)) (\<lambda>x. Inr (rs @ [x]))) [0..<NDISKS c] [] = Inr ([] @ map rt [0..<NDISKS c])"
    by (rule foldE_collect) (use assms(2) in auto)
  then show ?thesis using assms(1) by (simp add: IS_request_ec_def req_at_def Let_def group_of_def offset_of_def)
qed

text \<open>
  The device after the loss of the disks \<open>failed\<close>: their slabs have no server, the others are on the live servers of \<open>ps\<close>. The context of
  a lost disk is taken from the pool of its position, which none of the servers left uses.
\<close>

definition ec_degraded :: "is_config \<Rightarrow> ('n \<Rightarrow> nat \<Rightarrow> completion list) \<Rightarrow> (nat \<Rightarrow> bool) \<Rightarrow> request \<Rightarrow> (nat \<times> nat) list \<Rightarrow> 'n world \<Rightarrow> bool" where
  "ec_degraded c cqe failed q ps w \<longleftrightarrow> maps_ok c (sess w) \<and> inject_fault (fault_injection (sess w)) \<noteq> 1 \<and> length ps = NDISKS c \<and> distinct (map fst ps) \<and>
     group_of c q * NDISKS c + NDISKS c \<le> DISKSIZE_G c \<and>
     (\<forall>x<NDISKS c. has_pool w (conn_id q) (fst (ps ! x)) \<and> pool_free (pool_of w (conn_id q) (fst (ps ! x))) \<and>
       (if failed x then placement (sess w) (group_of c q * NDISKS c + x) = None \<and> fst (ps ! x) = x
        else placement (sess w) (group_of c q * NDISKS c + x) = Some (ps ! x) \<and> alive (sess w) (fst (ps ! x)) \<and> cqe (net w) (fst (ps ! x)) = []))"

lemma degraded_request:
  assumes "reqs w r = Some q" "ec_degraded c cqe failed q ps w"
  shows "IS_request_ec c g tr r w = IS_transfer_chunk_ec c g tr (map (disk_route failed ps) [0..<NDISKS c]) (offset_of c q) (rq_bytes q) (rq_write q) r w"
    and "disks_ready c cqe failed (conn_id q) ps (descriptor (sess w)) w"
proof -
  have ok: "maps_ok c (sess w)" and len: "length (cb_index_map (sess w)) = DISKSIZE_G c" using assms(2) by (auto simp: ec_degraded_def maps_ok_def tables_ok_def)
  have pl: "placement (sess w) (group_of c q * NDISKS c + x) = (if failed x then None else Some (ps ! x))" "group_of c q * NDISKS c + x < DISKSIZE_G c"
    if "x < NDISKS c" for x using assms(2) that by (auto simp: ec_degraded_def)
  have "route_of (sess w) (group_of c q * NDISKS c + x) = Inr (disk_route failed ps x)" if "x < NDISKS c" for x
  proof (cases "failed x")
    case True
    then show ?thesis using pl [OF that] len
      by (simp add: disk_route_def route_of_def placement_def split: if_splits del: of_nat_mult of_nat_add)
  next
    case False
    then show ?thesis using pl [OF that] placement_route(1) [OF ok] by (simp add: disk_route_def)
  qed
  then show "IS_request_ec c g tr r w = IS_transfer_chunk_ec c g tr (map (disk_route failed ps) [0..<NDISKS c]) (offset_of c q) (rq_bytes q) (rq_write q) r w"
    by (intro request_routes_ec [OF assms(1)])
  have "chunk_at w (Some (ps ! x)) = Inr (descriptor (sess w) (ps ! x))" if "x < NDISKS c" "\<not> failed x" for x
    using placement_route(2) [OF ok, of _ "ps ! x"] pl [OF that(1)] that(2) by (simp add: chunk_at_def split_beta)
  then show "disks_ready c cqe failed (conn_id q) ps (descriptor (sess w)) w" using assms(2) by (simp add: ec_degraded_def disks_ready_def)
qed

text \<open>The bytes of a disk that a request of \<open>L\<close> bytes per disk addresses.\<close>

definition remote_block :: "is_config \<Rightarrow> ('n \<Rightarrow> nat \<Rightarrow> memory) \<Rightarrow> 'n world \<Rightarrow> request \<Rightarrow> nat \<Rightarrow> nat \<times> nat \<Rightarrow> u8 list" where
  "remote_block c mem w q L p = mem_read (remote_rkey (descriptor (sess w) p)) (remote_addr (descriptor (sess w) p) + of_nat (offset_of c q div NDATAS c))
     L (mem (net w) (fst p))"

lemma ec_write_request:
  assumes rel: "reliable tr mem cqe" and c: "0 < NDATAS c" "NDATAS c \<le> NDISKS c" "IS_PAGE_SIZE = NDATAS c * B" "L = length (rq_bios q) * B" "L \<le> IS_PAGE_SIZE"
    and tables: "NDATAS c * NDISKS c \<le> length a" "32 * ((NDISKS c - NDATAS c) * NDATAS c) \<le> length t" "ec_init (NDATAS c) (NDISKS c) a t = (enc, encode_tbls g)"
    and q: "reqs w r = Some q" "rq_write q" "rq_bytes q = length (rq_bios q) * IS_PAGE_SIZE" "\<forall>p\<in>set (rq_bios q). length p = IS_PAGE_SIZE"
    and dev: "replicas c (sess w) (group_of c q) ps" "device_ready c cqe w (conn_id q) ps"
  shows "\<exists>w' out. IS_request_ec c g tr r w = Inr (0, w') \<and> frame w w' \<and> reqs w' r = Some (q\<lparr>rq_end := Some 0\<rparr>) \<and>
    stripe (NDISKS c) L out \<and> spread (NDATAS c) B (rq_bios q) out (length (rq_bios q)) \<and>
    (\<forall>x<NDISKS c. remote_block c mem w' q L (ps ! x) = take L (ec_write L (NDATAS c) (NDISKS c) (encode_tbls g) out ! x))"
proof -
  let ?k = "NDATAS c" and ?m = "NDISKS c" and ?off = "offset_of c q" and ?ch = "descriptor (sess w)"
  have ok: "maps_ok c (sess w)" using dev(2) by (simp add: device_ready_def)
  have ps: "length ps = ?m" "distinct (map fst ps)" "\<And>x. x < ?m \<Longrightarrow> placement (sess w) (group_of c q * ?m + x) = Some (ps ! x)" using dev(1) by (auto simp: replicas_def)
  have srv: "\<forall>p\<in>set ps. srv_ready (conn_id q) cqe w (fst p) \<and> chunk_at w (Some p) = Inr (?ch p)"
    using dev(2) request_routes(2) [OF ok q(1) dev(1)] by (simp add: device_ready_def)
  obtain w' out where w': "IS_rdma_write_ec c g tr (map the_route ps) ?off (rq_bytes q) r w = Inr (0, w')" "frame w w'" "reqs w' = (reqs w)(r \<mapsto> q\<lparr>rq_end := Some 0\<rparr>)"
    and out: "stripe ?m L out" "spread ?k B (rq_bios q) out (length (rq_bios q))"
    and m: "\<And>x. x < ?m \<Longrightarrow> mem (net w') (fst (ps ! x)) = mem_write (remote_rkey (?ch (ps ! x))) (remote_addr (?ch (ps ! x)) + of_nat (?off div ?k))
        (take L (ec_write L ?k ?m (encode_tbls g) out ! x)) (mem (net w) (fst (ps ! x)))"
    using rdma_write_ec_ok [OF rel c tables q(1,3,4) refl ps(1,2) srv, of ?off] by blast
  have "map (\<lambda>x. the_route (ps ! x)) [0..<?m] = map the_route ps" using ps(1) by (intro nth_equalityI) simp_all
  then have run: "IS_request_ec c g tr r w = Inr (0, w')"
    using request_routes_ec [where rt = "\<lambda>x. the_route (ps ! x)", OF q(1) placement_route(1) [OF ok ps(3)], of g tr] w'(1) q(2) by (simp add: IS_transfer_chunk_ec_def)
  have "stripe ?m L (ec_write L ?k ?m (encode_tbls g) out)" by (rule ec_write_codeword(1) [OF c(1,2) tables(1,2) out(1) tables(3)])
  moreover have "L < 2 ^ 64" using c(5) by (simp add: IS_PAGE_SIZE_def)
  ultimately have "remote_block c mem w' q L (ps ! x) = take L (ec_write L ?k ?m (encode_tbls g) out ! x)" if "x < ?m" for x
    using that by (simp add: remote_block_def frame_placement(3) [OF w'(2)] m mem_read_write stripe_def)
  with run w' out show ?thesis by (intro exI [of _ w'] exI [of _ out]) simp
qed

lemma ec_read_request:
  fixes g0 :: ec_tables
  assumes rel: "reliable tr mem cqe" and c: "0 < NDATAS c" "NDATAS c \<le> NDISKS c" "NDISKS c \<le> 256" "IS_PAGE_SIZE = NDATAS c * B" "L = length pages * B" "L \<le> IS_PAGE_SIZE"
    and tables: "NDATAS c * NDISKS c \<le> length a" "32 * ((NDISKS c - NDATAS c) * NDATAS c) \<le> length t" "ec_init (NDATAS c) (NDISKS c) a t = (enc, encode_tbls g0)"
      "decode_bufs (NDATAS c) (NDISKS c) ie el junk dm di ivt dt"
    and out: "stripe (NDISKS c) L out" "spread (NDATAS c) B pages out (length pages)" "\<forall>p\<in>set pages. length p = IS_PAGE_SIZE"
    and lost: "length (failures (NDISKS c) failed) \<le> NDISKS c - NDATAS c" "ec_degraded c cqe failed q ps w"
      "\<forall>x<NDISKS c. \<not> failed x \<longrightarrow> remote_block c mem w q L (ps ! x) = take L (ec_write L (NDATAS c) (NDISKS c) (encode_tbls g0) out ! x)"
    and q: "reqs w r = Some q" "\<not> rq_write q" "rq_bytes q = length pages * IS_PAGE_SIZE" "length (rq_bios q) = length pages" "\<forall>p\<in>set (rq_bios q). length p = IS_PAGE_SIZE"
  shows "\<exists>g w'. ec_prepare (NDATAS c) (NDISKS c) failed ie el junk enc dm di ivt dt = Some (decode_tbls g, decode_index g, src_err_list g, nerrs g, nsrcerrs g) \<and>
    IS_request_ec c g tr r w = Inr (0, w') \<and> reqs w' r = Some (q\<lparr>rq_bios := pages, rq_end := Some 0\<rparr>) \<and>
    (\<forall>p\<in>set ps. \<exists>x. pool_of w' (conn_id q) (fst p) = with_ctx (pool_of w (conn_id q) (fst p)) (free_ctxs (pool_of w (conn_id q) (fst p))) x)"
proof -
  let ?k = "NDATAS c" and ?m = "NDISKS c" and ?i = "conn_id q" and ?set = "read_set (NDATAS c) (NDISKS c) failed" and ?ch = "descriptor (sess w)"
  note deg = degraded_request [OF q(1) lost(2)]
  have L: "L = rq_bytes q div ?k" using page_div(1) [OF c(4,1), of "length pages"] by (simp add: c(5) q(3))
  obtain w3 where reading: "ec_reading cqe c L ?i ps (\<lambda>p. pool_of w ?i (fst p)) (map ((!) ps) ?set)
      (\<lambda>p. mem_read (remote_rkey (?ch p)) (remote_addr (?ch p) + of_nat (offset_of c q div ?k)) L (mem (net w) (fst p))) r (length (cnts w)) w3" "reqs w3 = reqs w"
    and run: "\<And>g. IS_rdma_read_ec c g tr (map (disk_route failed ps) [0..<?m]) (offset_of c q) (rq_bytes q) r w =
      bindE (foldE (\<lambda>p. rdma_cq_event_handler_ec c g tr (fst p)) (map ((!) ps) ?set) w3) (\<lambda>w. Inr (0, w))"
    using ec_read_posted [OF rel c(2) L c(6) q(1) refl deg(2) lost(1), of "offset_of c q"] by blast
  have good: "x < ?m \<and> \<not> failed x" if "x \<in> set ?set" for x using in_set_takeD [OF that [unfolded read_set_def]] by simp
  have data: "\<forall>x\<in>set ?set. mem_read (remote_rkey (?ch (ps ! x))) (remote_addr (?ch (ps ! x)) + of_nat (offset_of c q div ?k)) L (mem (net w) (fst (ps ! x))) =
      take L (ec_write L ?k ?m (encode_tbls g0) out ! x)" using good lost(3) by (simp add: remote_block_def)
  obtain g w4 where g: "ec_prepare ?k ?m failed ie el junk enc dm di ivt dt = Some (decode_tbls g, decode_index g, src_err_list g, nerrs g, nsrcerrs g)"
    and w4: "foldE (\<lambda>p. rdma_cq_event_handler_ec c g tr (fst p)) (map ((!) ps) ?set) w3 = Inr w4" "reqs w4 r = Some (q\<lparr>rq_bios := pages, rq_end := Some 0\<rparr>)"
      "\<forall>p\<in>set ps. \<exists>x. pool_of w4 ?i (fst p) = with_ctx (pool_of w ?i (fst p)) (free_ctxs (pool_of w ?i (fst p))) x"
    using ec_read_returns_pages [OF c(1-5) tables out lost(1) refl rel reading(1) data q(1) [folded reading(2)] q(3-5)] by (elim exE conjE)
  have "IS_request_ec c g tr r w = Inr (0, w4)" unfolding deg(1) using run w4(1) q(2) by (simp add: IS_transfer_chunk_ec_def)
  with g w4 show ?thesis by blast
qed

section \<open>A small stripe\<close>

text \<open>Two data blocks and a parity block on three servers, of which server 0 is lost before the read.\<close>

definition ec_small :: is_config where
  "ec_small = \<lparr>NDATAS = 2, NDISKS = 3, DATASIZE_G = 2, SLAB_SHIFT = 31\<rparr>"

definition ec_small_tables :: ec_tables where
  "ec_small_tables = \<lparr>encode_tbls = snd (ec_init 2 3 (replicate 6 0) (replicate 64 0)), decode_tbls = [], decode_index = [], src_err_list = [],
     nerrs = 0, nsrcerrs = 0\<rparr>"

definition ec_small_disks :: "(nat \<times> nat) list" where
  "ec_small_disks = [(0, 0), (1, 0), (2, 0)]"

definition ec_small_later :: "loop_net world \<Rightarrow> loop_net world" where
  "ec_small_later w = (small_world True 0)\<lparr>net := (fst (net w), \<lambda>_. [])\<rparr>"

lemma ec_small_params: "NDATAS ec_small = 2" "NDISKS ec_small = 3" "DISKSIZE_G ec_small = 3" "group_of ec_small (small_request wr v) = 0"
  by (simp_all add: ec_small_def DISKSIZE_G_def group_of_def small_request_def)

lemma ec_small_maps: "maps_ok ec_small (small_session lost)"
proof -
  have "DISKSIZE_G REP_config = 3" by (simp add: config_defs)
  then show ?thesis using small_maps [of lost] by (simp add: maps_ok_def tables_ok_def back_ok_def ec_small_params)
qed

lemma ec_small_ready:
  "replicas ec_small (small_session False) 0 ec_small_disks" "device_ready ec_small snd (small_world False 0) 0 ec_small_disks"
  using small_groups(1) ec_small_maps [of False] small_ready [of "ec_small_disks" False 0]
  by (auto simp: replicas_def ec_small_params device_ready_def small_requests(7) ec_small_disks_def small_replicas_def REP_config_def)

lemma ec_small_degraded: "ec_degraded ec_small snd (\<lambda>x. x = 0) (small_request False 0) ec_small_disks (ec_small_later w)"
proof -
  let ?w = "ec_small_later w"
  have s: "sess ?w = small_session True" "snd (net ?w) b = []" for b by (simp_all add: ec_small_later_def small_requests(7))
  have al: "alive (small_session True) b" if "b < 3" "b \<noteq> 0" for b
    using that by (auto simp: alive_def cb_at_def aload_def small_session_def small_cb_def less_3)
  have fi: "inject_fault (fault_injection (small_session True)) \<noteq> 1" by (simp add: small_session_def demo_session_def demo_injector_def)
  have d: "fst (ec_small_disks ! x) = x" "ec_small_disks ! x = (x, 0)" if "x < 3" for x using that by (auto simp: ec_small_disks_def less_3)
  have pool: "has_pool ?w 0 b" "pool_of ?w 0 b = small_pool" if "b < 3" for b
    using that small_pools [of b True 0] by (simp_all add: ec_small_later_def)
  have pl: "placement (small_session True) x = (if x = 0 then None else Some (x, 0))" if "x < 3" for x using that small_placement by simp
  have "length ec_small_disks = 3" "distinct (map fst ec_small_disks)" by (simp_all add: ec_small_disks_def)
  then show ?thesis using s al fi d pool pl small_pool_free ec_small_maps [of True]
    by (simp add: ec_degraded_def ec_small_params small_requests(2))
qed

section \<open>Properties\<close>



end
