(* ===== verification/Portal.thy ===== *)
theory Portal
  imports Session
begin

text \<open>
  The portal string that names the servers of a session: \<open>portal_parser\<close> reads back every list of servers printed in
  the format its comment gives, \<^verbatim>\<open>rdma://2,192.168.0.12:8000,192.168.0.11:9400\<close>.
\<close>

section \<open>Printing\<close>

definition print_portal :: "IS_portal \<Rightarrow> string" where
  "print_portal p = addr p @ '':'' @ print_nat (unat (port p))"

definition print_entries :: "IS_portal list \<Rightarrow> string" where
  "print_entries ps = concat (map (\<lambda>p. '','' @ print_portal p) ps)"

definition portal_text :: "IS_portal list \<Rightarrow> string" where
  "portal_text ps = ''rdma://'' @ print_nat (length ps) @ print_entries ps"

text \<open>An address that fits its field and contains no separator.\<close>

definition addr_ok :: "IS_portal \<Rightarrow> bool" where
  "addr_ok p \<longleftrightarrow> length (addr p) < 16 \<and> CHR '':'' \<notin> set (addr p) \<and> CHR '','' \<notin> set (addr p)"

section \<open>Parsing\<close>

lemma digit_not_sep: "is_digit ch \<Longrightarrow> ch \<noteq> CHR '','' \<and> ch \<noteq> CHR '':''"
  by (auto simp: is_digit_def code_def)

lemma comma_not_printed: "CHR '','' \<notin> set (print_nat n)"
  using print_nat_digits [of n] digit_not_sep by blast

lemma strsep_entries:
  assumes "CHR '','' \<notin> set f"
  shows "strsep (CHR '','') (f @ print_entries ps) =
    (f, case ps of [] \<Rightarrow> None | p # ps \<Rightarrow> Some (print_portal p @ print_entries ps))"
  using strsep_field [OF assms] strsep_last [OF assms] by (cases ps) (simp_all add: print_entries_def)

lemma parse_portal_print:
  assumes "addr_ok p"
  shows "parse_portal (print_portal p) = Inr p"
proof -
  have "takeWhile (\<lambda>ch. ch \<noteq> CHR '':'') (print_portal p) = addr p"
    using assms by (auto simp: print_portal_def addr_ok_def takeWhile_append2 takeWhile_tail)
  moreover have "unat (port p) < 2 ^ 31" using unsigned_less [of "port p", where ?'a = nat] by simp
  then have "sscanf_d (print_nat (unat (port p))) = Some (int (unat (port p)))" using sscanf_d_print [of "[]"] by simp
  ultimately show ?thesis
    using assms by (simp add: parse_portal_def Let_def addr_ok_def) (simp add: print_portal_def)
qed

lemma parse_portals_print:
  assumes "\<forall>p\<in>set ps. addr_ok p"
  shows "parse_portals (length ps) (case ps of [] \<Rightarrow> None | p # ps \<Rightarrow> Some (print_portal p @ print_entries ps)) = Inr ps"
  using assms
proof (induction ps)
  case (Cons p ps)
  have "CHR '','' \<notin> set (print_portal p)" using Cons.prems comma_not_printed by (auto simp: print_portal_def addr_ok_def)
  with Cons show ?case by (simp add: strsep_entries parse_portal_print)
qed simp

section \<open>Properties\<close>

text \<open>C27: The portal parser recovers every list of servers from its printed form: the count, and the address and port of each
  server, for addresses that fit the 16-byte field.\<close>

theorem portal_round_trip:
  assumes "\<forall>p\<in>set ps. addr_ok p" "length ps < 2 ^ 31"
  shows "portal_parser (s\<lparr>portal := portal_text ps\<rparr>) =
    Inr (s\<lparr>portal := portal_text ps, cb_num := int (length ps), portal_list := ps\<rparr>)"
proof -
  have "drop 7 (portal_text ps) = print_nat (length ps) @ print_entries ps" by (simp add: portal_text_def)
  with parse_portals_print [OF assms(1)] sscanf_d_print [of "[]" "length ps"] assms(2) show ?thesis
    by (simp add: portal_parser_def strsep_entries comma_not_printed Let_def)
qed

theorem portal_round_trip_witness:
  "\<forall>s. portal_parser (s\<lparr>portal := portal_text [\<lparr>port = 80, addr = ''10.0.0.1''\<rparr>, \<lparr>port = 22, addr = ''10.0.0.2''\<rparr>]\<rparr>) =
    Inr (s\<lparr>portal := ''rdma://2,10.0.0.1:80,10.0.0.2:22'', cb_num := 2,
      portal_list := [\<lparr>port = 80, addr = ''10.0.0.1''\<rparr>, \<lparr>port = 22, addr = ''10.0.0.2''\<rparr>]\<rparr>)"
proof -
  have "portal_text [\<lparr>port = 80, addr = ''10.0.0.1''\<rparr>, \<lparr>port = 22, addr = ''10.0.0.2''\<rparr>] = ''rdma://2,10.0.0.1:80,10.0.0.2:22''"
    by code_simp
  then show ?thesis
    using portal_round_trip [of "[\<lparr>port = 80, addr = ''10.0.0.1''\<rparr>, \<lparr>port = 22, addr = ''10.0.0.2''\<rparr>]"]
    by (simp add: addr_ok_def)
qed

end
