(* ===== verification/Hardware_Queues.thy ===== *)
theory Hardware_Queues
  imports Messages
begin

text \<open>
  The placement of hardware queues on memory nodes (\<open>IS_alloc_hctx\<close> of \<^verbatim>\<open>is_mq.c\<close>), and that it splits them evenly as its comment
  says.
\<close>

section \<open>Hardware queues and nodes\<close>

text \<open>
  \<open>IS_alloc_hctx\<close>, used before kernel 3.16: the relative number of the node on which hardware queue \<open>hctx_index\<close> is placed. The
  bucket size is lowered when \<open>tip\<close> reaches 0; a bucket of size 0 would be a division by zero.
\<close>

fun hctx_loop :: "nat \<Rightarrow> nat \<Rightarrow> nat \<Rightarrow> nat \<Rightarrow> nat \<Rightarrow> int \<Rightarrow> nat \<Rightarrow> nat res" where
  "hctx_loop nr nodes 0 n b_size tip node = Inr node"
| "hctx_loop nr nodes (Suc k) n b_size tip node =
     (if b_size = 0 then Inl Die
      else if n mod b_size = 0
      then hctx_loop nr nodes k 1 (if tip - 1 = 0 then nr div nodes else b_size) (tip - 1) (node + 1)
      else hctx_loop nr nodes k (n + 1) b_size tip node)"

definition IS_alloc_hctx :: "nat \<Rightarrow> nat \<Rightarrow> nat \<Rightarrow> nat res" where
  "IS_alloc_hctx nr nodes hctx_index = hctx_loop nr nodes hctx_index 1 ((nr + nodes - 1) div nodes) (int (nr mod nodes)) 0"

section \<open>Hardware queues are spread evenly\<close>

text \<open>The first queue of node \<open>k\<close>: the first \<open>nr mod nodes\<close> nodes have one queue more.\<close>

definition first_queue :: "nat \<Rightarrow> nat \<Rightarrow> nat \<Rightarrow> nat" where
  "first_queue nr nodes k = k * (nr div nodes) + min k (nr mod nodes)"

lemma first_queue_Suc: "first_queue nr nodes (Suc k) = first_queue nr nodes k + (nr div nodes + (if k < nr mod nodes then 1 else 0))"
  by (simp add: first_queue_def min_def)

lemma first_queue_mono: "k \<le> l \<Longrightarrow> first_queue nr nodes k \<le> first_queue nr nodes l"
  by (simp add: first_queue_def add_mono mult_le_mono1)

lemma first_queue_nodes: "0 < nodes \<Longrightarrow> first_queue nr nodes nodes = nr"
  by (simp add: first_queue_def min_absorb2 less_imp_le)

lemma div_round_up: "0 < nodes \<Longrightarrow> (nr + nodes - 1) div nodes = nr div nodes + (if 0 < nr mod nodes then 1 else (0 :: nat))"
proof -
  assume n: "0 < nodes"
  have "nr + nodes - 1 = nr div nodes * nodes + (nr mod nodes + nodes - 1)" using n div_mult_mod_eq [of nr nodes] by linarith
  then have "(nr + nodes - 1) div nodes = nr div nodes + (nr mod nodes + nodes - 1) div nodes"
    using n div_mult_self3 [of nodes "nr div nodes" "nr mod nodes + nodes - 1"] by simp
  moreover have "(nr mod nodes + nodes - 1) div nodes = (if 0 < nr mod nodes then 1 else 0)"
    using n mod_less_divisor [OF n, of nr] by (auto intro!: div_nat_eqI)
  ultimately show ?thesis by simp
qed

lemma hctx_loop_bucket:
  assumes "first_queue nr nodes node \<le> h" "h < first_queue nr nodes (Suc node)"
    and "b = nr div nodes + (if node < nr mod nodes then 1 else 0)" "n = h - first_queue nr nodes node + 1" "tip = int (nr mod nodes) - int node"
    and "h + k < nr" "0 < nodes"
  shows "\<exists>node'. hctx_loop nr nodes k n b tip node = Inr node' \<and> first_queue nr nodes node' \<le> h + k \<and> h + k < first_queue nr nodes (Suc node')"
  using assms
proof (induction k arbitrary: h n b tip node)
  case (Suc k)
  have b: "0 < b" "1 \<le> n" "n \<le> b" using Suc.prems first_queue_Suc [of nr nodes node] by auto
  show ?case
  proof (cases "n = b")
    case True
    then have h: "Suc h = first_queue nr nodes (Suc node)" using Suc.prems(1,3,4) first_queue_Suc [of nr nodes node] by simp
    have "0 < nr div nodes + (if Suc node < nr mod nodes then 1 else 0)"
    proof (rule ccontr)
      assume "\<not> ?thesis"
      then have "nr div nodes = 0" "nr mod nodes \<le> Suc node" by (auto split: if_splits)
      then have "first_queue nr nodes (Suc node) = nr" using div_mult_mod_eq [of nr nodes] by (simp add: first_queue_def min_absorb2)
      with h Suc.prems(6) show False by simp
    qed
    then have lt: "Suc h < first_queue nr nodes (Suc (Suc node))" using h first_queue_Suc [of nr nodes "Suc node"] by simp
    have t: "tip - 1 = int (nr mod nodes) - int (Suc node)" using Suc.prems(5) by simp
    have b': "(if tip - 1 = 0 then nr div nodes else b) = nr div nodes + (if Suc node < nr mod nodes then 1 else 0)"
      using Suc.prems(3,5) by auto
    have "hctx_loop nr nodes (Suc k) n b tip node = hctx_loop nr nodes k 1 (if tip - 1 = 0 then nr div nodes else b) (tip - 1) (Suc node)"
      using True b by simp
    then have "hctx_loop nr nodes (Suc k) n b tip node =
        hctx_loop nr nodes k 1 (nr div nodes + (if Suc node < nr mod nodes then 1 else 0)) (int (nr mod nodes) - int (Suc node)) (Suc node)"
      unfolding b' unfolding t .
    moreover have "first_queue nr nodes (Suc node) \<le> Suc h" "1 = Suc h - first_queue nr nodes (Suc node) + 1" "Suc h + k < nr" using h Suc.prems(6) by simp_all
    note Suc.IH [OF this(1) lt refl this(2) refl this(3) Suc.prems(7)]
    ultimately show ?thesis unfolding add_Suc_right add_Suc by (simp only:)
  next
    case False
    then have "n mod b \<noteq> 0" using b by (auto simp: mod_eq_0_iff_dvd dest: dvd_imp_le)
    then have run: "hctx_loop nr nodes (Suc k) n b tip node = hctx_loop nr nodes k (n + 1) b tip node" using b by simp
    have "first_queue nr nodes node \<le> Suc h" "Suc h < first_queue nr nodes (Suc node)" "n + 1 = Suc h - first_queue nr nodes node + 1" "Suc h + k < nr"
      using False b Suc.prems(1,3,4,6) first_queue_Suc [of nr nodes node] by simp_all
    from Suc.IH [OF this(1,2) Suc.prems(3) this(3) Suc.prems(5) this(4) Suc.prems(7)] show ?thesis unfolding run by simp
  qed
qed auto

lemma IS_alloc_hctx_bucket:
  assumes "h < nr" "0 < nodes"
  obtains k where "IS_alloc_hctx nr nodes h = Inr k" "k < nodes" "first_queue nr nodes k \<le> h" "h < first_queue nr nodes (Suc k)"
proof -
  have b: "(nr + nodes - 1) div nodes = nr div nodes + (if 0 < nr mod nodes then 1 else 0)"
    using div_round_up [OF assms(2)] .
  have pos: "0 < nr div nodes + (if 0 < nr mod nodes then 1 else 0)" using assms div_mult_mod_eq [of nr nodes] by (cases "nr div nodes = 0") auto
  then have z: "first_queue nr nodes 0 \<le> 0" "0 < first_queue nr nodes (Suc 0)" using first_queue_Suc [of nr nodes 0] by (simp_all add: first_queue_def)
  from hctx_loop_bucket [OF z refl, of 1 "int (nr mod nodes)" h] assms obtain k where
    k: "IS_alloc_hctx nr nodes h = Inr k" "first_queue nr nodes k \<le> h" "h < first_queue nr nodes (Suc k)"
    unfolding IS_alloc_hctx_def b by (auto simp: first_queue_def)
  have "k < nodes"
  proof (rule ccontr)
    assume "\<not> k < nodes"
    then have "first_queue nr nodes nodes \<le> h" using first_queue_mono [of nodes k nr nodes] k(2) by simp
    with first_queue_nodes [OF assms(2)] assms(1) show False by simp
  qed
  with k that show thesis by blast
qed

section \<open>Properties\<close>

text \<open>C36: The hardware queues are split evenly over the nodes: every queue gets a node that is there, and a node gets the same number of
  queues as any other, up to one more for the first ones when the division leaves a rest.\<close>

theorem hctx_split_even:
  assumes "0 < nodes"
  shows "(\<forall>h<nr. \<exists>k<nodes. IS_alloc_hctx nr nodes h = Inr k) \<and>
    (\<forall>k<nodes. card {h. h < nr \<and> IS_alloc_hctx nr nodes h = Inr k} = nr div nodes + (if k < nr mod nodes then 1 else 0))"
proof (intro conjI allI impI)
  fix h assume "h < nr"
  from IS_alloc_hctx_bucket [OF this assms] show "\<exists>k<nodes. IS_alloc_hctx nr nodes h = Inr k" by blast
next
  fix k assume k: "k < nodes"
  have "{h. h < nr \<and> IS_alloc_hctx nr nodes h = Inr k} = {first_queue nr nodes k..<first_queue nr nodes (Suc k)}"
  proof (intro set_eqI iffI)
    fix h assume "h \<in> {h. h < nr \<and> IS_alloc_hctx nr nodes h = Inr k}"
    then show "h \<in> {first_queue nr nodes k..<first_queue nr nodes (Suc k)}" using IS_alloc_hctx_bucket [of h nr nodes] assms by fastforce
  next
    fix h assume h: "h \<in> {first_queue nr nodes k..<first_queue nr nodes (Suc k)}"
    have n: "h < nr" using h k first_queue_mono [of "Suc k" nodes nr nodes] first_queue_nodes [OF assms, of nr] by auto
    obtain l where l: "IS_alloc_hctx nr nodes h = Inr l" "first_queue nr nodes l \<le> h" "h < first_queue nr nodes (Suc l)"
      by (rule IS_alloc_hctx_bucket [OF n assms])
    have "l = k" using h l first_queue_mono [of "Suc l" k nr nodes] first_queue_mono [of "Suc k" l nr nodes] by (cases l k rule: linorder_cases) auto
    with l n show "h \<in> {h. h < nr \<and> IS_alloc_hctx nr nodes h = Inr k}" by simp
  qed
  then show "card {h. h < nr \<and> IS_alloc_hctx nr nodes h = Inr k} = nr div nodes + (if k < nr mod nodes then 1 else 0)"
    by (simp add: first_queue_Suc)
qed

theorem hctx_split_even_witness:
  "card {h. h < 8 \<and> IS_alloc_hctx 8 3 h = Inr 0} = 3 \<and> card {h. h < 8 \<and> IS_alloc_hctx 8 3 h = Inr 2} = 2 \<and> IS_alloc_hctx 8 3 6 = Inr 2"
proof -
  have "card {h. h < 8 \<and> IS_alloc_hctx 8 3 h = Inr 0} = 3" "card {h. h < 8 \<and> IS_alloc_hctx 8 3 h = Inr 2} = 2"
    using hctx_split_even [of 3 8] by auto
  moreover have "IS_alloc_hctx 8 3 6 = Inr 2" by code_simp
  ultimately show ?thesis by blast
qed

end
