(* ===== verification/Device.thy ===== *)
theory Device
  imports Placement Portal
begin

text \<open>
  Block devices and their configuration: \<open>IS_file\<close> and its states, the registration of a device with the block layer
  (\<^verbatim>\<open>is_mq.c\<close>), its creation and destruction (\<^verbatim>\<open>is_main.c\<close>) and the configfs operations that a user
  triggers (\<^verbatim>\<open>is_configfs.c\<close>). What the block layer answers is a parameter. Devices and sessions are on lists with the newest
  in front, as \<^verbatim>\<open>list_add\<close> leaves them.
\<close>

section \<open>Devices\<close>

datatype IS_dev_state = DEVICE_INITIALIZING | DEVICE_OPENNING | DEVICE_RUNNING | DEVICE_OFFLINE

fun IS_device_state_str :: "IS_dev_state \<Rightarrow> string" where
  "IS_device_state_str DEVICE_INITIALIZING = ''Initial state''"
| "IS_device_state_str DEVICE_OPENNING = ''openning''"
| "IS_device_state_str DEVICE_RUNNING = ''running''"
| "IS_device_state_str DEVICE_OFFLINE = ''offline''"

definition IS_SECT_SIZE :: nat where "IS_SECT_SIZE = 512"
definition MAX_SGL_LEN :: nat where "MAX_SGL_LEN = 1"
definition MAX_IS_DEV_NAME :: nat where "MAX_IS_DEV_NAME = 256"
definition MAX_PORTAL_NAME :: nat where "MAX_PORTAL_NAME = 512"

record gendisk =
  disk_major :: int
  first_minor :: nat
  disk_name :: string
  block_size :: nat
  max_hw_sectors :: nat
  disk_sectors :: nat
  disk_added :: bool

record IS_queue =
  q_conn :: nat
  q_depth :: nat

text \<open>What is allocated for a device at the moment.\<close>

datatype blk_obj = B_QUEUES | B_TAG_SET | B_QUEUE | B_DISK

record IS_file =
  file_name :: string
  dev_name :: string
  dev_major :: int
  dev_index :: nat
  nr_queues :: nat
  queue_depth :: nat
  st_size :: nat
  queues :: "IS_queue option list"
  disk :: "gendisk option"
  dev_state :: IS_dev_state
  blk_objs :: "blk_obj list"

definition IS_set_device_state :: "IS_dev_state \<Rightarrow> IS_file \<Rightarrow> int \<times> IS_file" where
  "IS_set_device_state st f = (case st of
       DEVICE_OPENNING \<Rightarrow> if dev_state f = DEVICE_OFFLINE \<or> dev_state f = DEVICE_RUNNING then (- EINVAL, f) else (0, f\<lparr>dev_state := st\<rparr>)
     | DEVICE_RUNNING \<Rightarrow> (0, f\<lparr>dev_state := st\<rparr>)
     | DEVICE_OFFLINE \<Rightarrow> (0, f\<lparr>dev_state := st\<rparr>)
     | _ \<Rightarrow> (- EINVAL, f))"

text \<open>The answers of the block layer: allocations, the tag set, the request queue, and those to the mapping of the slabs.\<close>

record blk_env =
  queues_alloc :: bool
  tag_set_ret :: int
  init_queue :: handle
  disk_alloc :: bool
  map_envs :: "map_env list"

definition blk_alloc :: "blk_obj \<Rightarrow> IS_file \<Rightarrow> IS_file" where
  "blk_alloc ob f = f\<lparr>blk_objs := ob # blk_objs f\<rparr>"

definition blk_free :: "blk_obj \<Rightarrow> IS_file \<Rightarrow> IS_file" where
  "blk_free ob f = f\<lparr>blk_objs := remove1 ob (blk_objs f)\<rparr>"

definition IS_setup_queues :: "blk_env \<Rightarrow> nat \<Rightarrow> IS_file \<Rightarrow> int \<times> IS_file" where
  "IS_setup_queues env submit_queues f = (if queues_alloc env
     then (0, blk_alloc B_QUEUES (f\<lparr>queues := replicate submit_queues None\<rparr>))
     else (- ENOMEM, f\<lparr>queues := []\<rparr>))"

definition IS_destroy_queues :: "IS_file \<Rightarrow> IS_file" where
  "IS_destroy_queues = blk_free B_QUEUES"

definition IS_init_hctx :: "nat \<Rightarrow> IS_file \<Rightarrow> IS_file res" where
  "IS_init_hctx i f = bindE (astore (queues f) (int i) (Some \<lparr>q_conn = i, q_depth = queue_depth f\<rparr>)) (\<lambda>qs. Inr (f\<lparr>queues := qs\<rparr>))"

text \<open>\<^verbatim>\<open>blk_mq_init_queue\<close> calls \<open>IS_init_hctx\<close> once per hardware queue.\<close>

definition new_disk :: "IS_file \<Rightarrow> gendisk" where
  "new_disk f = \<lparr>disk_major = dev_major f, first_minor = dev_index f, disk_name = sscanf_s (dev_name f), block_size = IS_SECT_SIZE,
     max_hw_sectors = IS_PAGE_SIZE div IS_SECT_SIZE * MAX_SGL_LEN, disk_sectors = st_size f div IS_SECT_SIZE, disk_added = False\<rparr>"

definition IS_register_block_device :: "blk_env \<Rightarrow> int \<Rightarrow> nat \<Rightarrow> IS_file \<Rightarrow> (int \<times> IS_file) res" where
  "IS_register_block_device env IS_major submit_queues f =
     (let f = f\<lparr>dev_major := IS_major\<rparr> in
      if tag_set_ret env \<noteq> 0 then Inr (tag_set_ret env, f)
      else let f = blk_alloc B_TAG_SET f in
        case init_queue env of
          Err e \<Rightarrow> Inr (e, blk_free B_TAG_SET f)
        | _ \<Rightarrow> bindE (foldE IS_init_hctx [0..<submit_queues] (blk_alloc B_QUEUE f)) (\<lambda>f.
            if disk_alloc env then Inr (0, blk_alloc B_DISK (f\<lparr>disk := Some (new_disk f)\<rparr>))
            else Inr (- ENOMEM, blk_free B_TAG_SET (blk_free B_QUEUE (f\<lparr>disk := None\<rparr>)))))"

definition IS_unregister_block_device :: "IS_file \<Rightarrow> IS_file" where
  "IS_unregister_block_device f = blk_free B_DISK (blk_free B_TAG_SET (blk_free B_QUEUE f))"

fun IS_ioctl :: "nat \<Rightarrow> nat \<Rightarrow> int" where
  "IS_ioctl cmd arg = - ENOTTY"

section \<open>Sessions with their devices\<close>

record 'n session_group =
  sg_world :: "'n world"
  devs_list :: "(nat \<times> IS_file) list"
  xdev :: "nat option"

record globals =
  g_submit_queues :: nat
  g_major :: int
  g_indexes :: nat

definition upd_file :: "nat \<Rightarrow> (IS_file \<Rightarrow> IS_file) \<Rightarrow> 'n session_group \<Rightarrow> 'n session_group" where
  "upd_file d h s = s\<lparr>devs_list := map (\<lambda>(k, f). if k = d then (k, h f) else (k, f)) (devs_list s)\<rparr>"

definition file_at :: "'n session_group \<Rightarrow> nat \<Rightarrow> IS_file res" where
  "file_at s d = (case map_of (devs_list s) d of None \<Rightarrow> Inl Oob | Some f \<Rightarrow> Inr f)"

definition IS_file_find :: "'n session_group \<Rightarrow> string \<Rightarrow> nat option" where
  "IS_file_find s xdev_name = map_option fst (find (\<lambda>(d, f). file_name f = xdev_name) (devs_list s))"

text \<open>\<^verbatim>\<open>sscanf("%s")\<close> leaves its target alone when there is no word, and does not know the size of the target.\<close>

definition scan_into :: "nat \<Rightarrow> string \<Rightarrow> string \<Rightarrow> string res" where
  "scan_into n old s = (let v = sscanf_s s in if v = [] then Inr old else if n \<le> length v then Inl Oob else Inr v)"

definition IS_create_device :: "is_config \<Rightarrow> 'n transport \<Rightarrow> blk_env \<Rightarrow> string \<Rightarrow> nat \<Rightarrow> globals \<times> 'n session_group \<Rightarrow>
    (int \<times> globals \<times> 'n session_group) res" where
  "IS_create_device c tr env xdev_name d = (\<lambda>(g, s). bindE (file_at s d) (\<lambda>f. bindE (scan_into MAX_IS_DEV_NAME (file_name f) xdev_name) (\<lambda>name.
     let f = f\<lparr>file_name := name, dev_index := g_indexes g, nr_queues := g_submit_queues g, queue_depth := IS_QUEUE_DEPTH\<rparr>;
         g = g\<lparr>g_indexes := g_indexes g + 1\<rparr>; save = (\<lambda>f. upd_file d (\<lambda>_. f)) in
     case IS_setup_queues env (g_submit_queues g) f of (ret, f) \<Rightarrow>
       if ret \<noteq> 0 then Inr (ret, g, save f s)
       else let f = f\<lparr>st_size := capacity (sess (sg_world s))\<rparr>; s = s\<lparr>xdev := Some d\<rparr> in
         bindE (IS_register_block_device env (g_major g) (g_submit_queues g) f) (\<lambda>(ret, f).
         if ret \<noteq> 0 then Inr (ret, g, save (IS_destroy_queues f) s)
         else let f = snd (IS_set_device_state DEVICE_RUNNING f) in
           bindE (rdma_trigger c tr (map_envs env) (sg_world s)) (\<lambda>w.
           Inr (0, g, save (f\<lparr>disk := map_option (\<lambda>k. k\<lparr>disk_added := True\<rparr>) (disk f)\<rparr>) (s\<lparr>sg_world := w\<rparr>)))))))"

text \<open>Destroying a device reports its slabs as done, frees what it holds and takes it off the list; the device itself is freed by the caller.\<close>

definition report_done :: "is_config \<Rightarrow> 'n transport \<Rightarrow> nat \<Rightarrow> 'n world \<Rightarrow> 'n world res" where
  "report_done c tr i w = bindE (aload (cb_index_map (sess w)) (int i)) (\<lambda>b. if b \<le> NO_CB_MAPPED then Inr w
     else bindE (IS_send_done c tr (nat b) 1 w) (\<lambda>(_, w). Inr w))"

definition IS_destroy_device :: "is_config \<Rightarrow> 'n transport \<Rightarrow> nat \<Rightarrow> 'n session_group \<Rightarrow> (IS_file \<times> 'n session_group) res" where
  "IS_destroy_device c tr d s = bindE (file_at s d) (\<lambda>f.
     let f = snd (IS_set_device_state DEVICE_OFFLINE f) in
     bindE (foldE (report_done c tr) [0..<DISKSIZE_G c] (sg_world s)) (\<lambda>w.
     let f = (if disk f = None then f else IS_destroy_queues (IS_unregister_block_device f)) in
     Inr (f, s\<lparr>sg_world := w, devs_list := filter (\<lambda>(k, _). k \<noteq> d) (devs_list s)\<rparr>)))"

definition IS_destroy_session_devices :: "is_config \<Rightarrow> 'n transport \<Rightarrow> 'n session_group \<Rightarrow> 'n session_group res" where
  "IS_destroy_session_devices c tr s = foldE (\<lambda>(d, _) s. bindE (IS_destroy_device c tr d s) (\<lambda>(_, s). Inr s)) (devs_list s) s"

section \<open>Configuration\<close>

text \<open>\<open>page\<close> is what the user writes; \<open>junk\<close> is what the stack held where a conversion leaves a local unset.\<close>

definition device_attr_store :: "is_config \<Rightarrow> 'n transport \<Rightarrow> blk_env \<Rightarrow> string \<Rightarrow> nat \<Rightarrow> string \<Rightarrow> globals \<times> 'n session_group \<Rightarrow>
    (int \<times> globals \<times> 'n session_group) res" where
  "device_attr_store c tr env junk d page = (\<lambda>(g, s). bindE (scan_into MAX_IS_DEV_NAME junk page) (\<lambda>xdev_name.
     if IS_file_find s xdev_name \<noteq> None then Inr (- EEXIST, g, s)
     else bindE (IS_create_device c tr env xdev_name d (g, s)) (\<lambda>(ret, g, s).
       Inr (if ret \<noteq> 0 then ret else int (length page), g, s))))"

definition state_attr_show :: "IS_file \<Rightarrow> string" where
  "state_attr_show f = IS_device_state_str (dev_state f) @ [CHR 0x0A]"

definition zero_file :: IS_file where
  "zero_file = \<lparr>file_name = [], dev_name = [], dev_major = 0, dev_index = 0, nr_queues = 0, queue_depth = 0, st_size = 0, queues = [],
     disk = None, dev_state = DEVICE_INITIALIZING, blk_objs = []\<rparr>"

text \<open>\<open>d\<close> is the address of the new device.\<close>

definition IS_device_make_group :: "bool \<Rightarrow> nat \<Rightarrow> string \<Rightarrow> 'n session_group \<Rightarrow> 'n session_group res" where
  "IS_device_make_group alloc d name s = (if \<not> alloc then Inr s
     else case IS_set_device_state DEVICE_OPENNING zero_file of (ret, f) \<Rightarrow>
       if ret \<noteq> 0 then Inr s
       else bindE (scan_into MAX_IS_DEV_NAME (dev_name f) name) (\<lambda>n. Inr (s\<lparr>devs_list := (d, f\<lparr>dev_name := n\<rparr>) # devs_list s\<rparr>)))"

definition IS_device_drop :: "is_config \<Rightarrow> 'n transport \<Rightarrow> nat \<Rightarrow> 'n session_group \<Rightarrow> 'n session_group res" where
  "IS_device_drop c tr d s = bindE (IS_destroy_device c tr d s) (\<lambda>(_, s). Inr s)"

text \<open>The attributes of the fault injector.\<close>

definition upd_injector :: "IS_fault_injection \<Rightarrow> 'n session_group \<Rightarrow> 'n session_group" where
  "upd_injector fi s = s\<lparr>sg_world := upd_sess (\<lambda>x. x\<lparr>fault_injection := fi\<rparr>) (sg_world s)\<rparr>"

definition injector :: "'n session_group \<Rightarrow> IS_fault_injection" where
  "injector s = fault_injection (sess (sg_world s))"

definition fault_injection_enable_attr_store :: "int \<Rightarrow> string \<Rightarrow> 'n session_group \<Rightarrow> int \<times> 'n session_group" where
  "fault_injection_enable_attr_store junk page s = (int (length page),
     upd_injector (IS_fault_injection_set_enable (injector s) (word_of_int (case sscanf_d page of Some v \<Rightarrow> v | None \<Rightarrow> junk))) s)"

definition fault_injection_enable_attr_show :: "'n session_group \<Rightarrow> string" where
  "fault_injection_enable_attr_show s = print_d_nl (sint (IS_fault_injection_enable (injector s)))"

definition fault_injection_fault_count_attr_show :: "is_config \<Rightarrow> 'n session_group \<Rightarrow> string" where
  "fault_injection_fault_count_attr_show c s = print_d_nl (sint (ucast (IS_fault_injection_fault_count c (injector s)) :: u32))"

definition fault_injection_distr_attr_store :: "is_config \<Rightarrow> u64 \<Rightarrow> string \<Rightarrow> 'n session_group \<Rightarrow> (int \<times> 'n session_group) res" where
  "fault_injection_distr_attr_store c junk page s = (case IS_fault_injection_set_distr c junk (injector s) page of
       None \<Rightarrow> Inl Die | Some fi \<Rightarrow> Inr (int (length page), upd_injector fi s))"

definition fault_injection_distr_attr_show :: "'n session_group \<Rightarrow> string" where
  "fault_injection_distr_attr_show s = IS_fault_injection_distr (injector s)"

section \<open>The module\<close>

record 'n hydra =
  g_IS_sessions :: "(nat \<times> 'n session_group) list"
  created_portals :: nat
  hydra_globals :: globals

definition session_at :: "'n hydra \<Rightarrow> nat \<Rightarrow> 'n session_group res" where
  "session_at h k = (case map_of (g_IS_sessions h) k of None \<Rightarrow> Inl Oob | Some s \<Rightarrow> Inr s)"

definition upd_session :: "nat \<Rightarrow> 'n session_group \<Rightarrow> 'n hydra \<Rightarrow> 'n hydra" where
  "upd_session k s h = h\<lparr>g_IS_sessions := map (\<lambda>(j, x). if j = k then (j, s) else (j, x)) (g_IS_sessions h)\<rparr>"

definition IS_session_find_by_portal :: "'n hydra \<Rightarrow> string \<Rightarrow> nat option" where
  "IS_session_find_by_portal h p = map_option fst (find (\<lambda>(k, s). portal (sess (sg_world s)) = p) (g_IS_sessions h))"

text \<open>\<open>conns_alloc\<close>, \<open>conn_alloc\<close> and \<open>in4_pton\<close> are those of \<open>IS_session_create\<close>.\<close>

definition portal_attr_store :: "is_config \<Rightarrow> (string \<Rightarrow> u8 list) \<Rightarrow> bool \<Rightarrow> (nat \<Rightarrow> bool) \<Rightarrow> nat \<Rightarrow> string \<Rightarrow> 'n hydra \<Rightarrow> (int \<times> 'n hydra) res" where
  "portal_attr_store c in4_pton conns_alloc conn_alloc k txt h =
     (if MAX_PORTAL_NAME \<le> 7 + length txt then Inl Oob
      else let rdma = sscanf_s (''rdma://'' @ txt) in
        if IS_session_find_by_portal h rdma \<noteq> None then Inr (- EEXIST, h)
        else bindE (session_at h k) (\<lambda>s.
          bindE (IS_session_create c (g_submit_queues (hydra_globals h)) in4_pton conns_alloc conn_alloc rdma (sess (sg_world s))) (\<lambda>(ret, x).
          Inr (if ret \<noteq> 0 then - EINVAL else int (length txt), upd_session k (s\<lparr>sg_world := (sg_world s)\<lparr>sess := x\<rparr>\<rparr>) h))))"

text \<open>A session fresh from \<^verbatim>\<open>kzalloc\<close>; \<open>w\<close> is the world around it.\<close>

definition zero_injector :: "is_config \<Rightarrow> IS_fault_injection" where
  "zero_injector c = \<lparr>inject_fault = 0, fault_rate = 0, disk_fault = replicate (NDISKS c) \<lparr>access_count = 0,
     access_count_before_next_fault = 0, fault_count = 0, seed = \<lparr>mt = replicate 312 0, mti = 0\<rparr>\<rparr>\<rparr>"

definition zero_session :: "is_config \<Rightarrow> IS_session" where
  "zero_session c = \<lparr>fault_injection = zero_injector c, mapped_cb_num = 0, cb_list = [], portal_list = [], cb_num = 0, cb_state_list = [],
     IS_conns = [], portal = [], conns_count = 0, conns_wait = False, capacity = 0, mapped_capacity = 0, capacity_g = 0,
     cb_index_map = [], chunk_map_cb_chunk = [], unmapped_chunk_list = [], free_chunk_index = 0\<rparr>"

definition IS_session_make_group :: "is_config \<Rightarrow> bool \<Rightarrow> nat \<Rightarrow> 'n world \<Rightarrow> 'n hydra \<Rightarrow> 'n hydra" where
  "IS_session_make_group c alloc k w h = (if \<not> alloc then h
     else h\<lparr>g_IS_sessions := (k, \<lparr>sg_world = w\<lparr>sess := zero_session c\<rparr>, devs_list = [], xdev = None\<rparr>) # g_IS_sessions h,
            created_portals := created_portals h + 1\<rparr>)"

text \<open>
  The connections are indexed by the number of servers, although there is one per submit queue; their array is freed, the session
  leaves the list, and its devices are destroyed last.
\<close>

definition IS_session_destroy :: "is_config \<Rightarrow> 'n transport \<Rightarrow> nat \<Rightarrow> 'n hydra \<Rightarrow> ('n session_group \<times> 'n hydra) res" where
  "IS_session_destroy c tr k h = bindE (session_at h k) (\<lambda>s.
     let x = sess (sg_world s) in
     if int (length (IS_conns x)) < cb_num x then Inl Oob
     else bindE (IS_destroy_session_devices c tr (s\<lparr>sg_world := (sg_world s)\<lparr>sess := x\<lparr>IS_conns := []\<rparr>\<rparr>\<rparr>)) (\<lambda>s.
       Inr (s, h\<lparr>g_IS_sessions := filter (\<lambda>(j, _). j \<noteq> k) (g_IS_sessions h)\<rparr>)))"

definition IS_session_drop :: "is_config \<Rightarrow> 'n transport \<Rightarrow> nat \<Rightarrow> 'n hydra \<Rightarrow> 'n hydra res" where
  "IS_session_drop c tr k h = bindE (IS_session_destroy c tr k h) (\<lambda>(_, h). Inr h)"

text \<open>\<open>configfs_ret\<close> and \<open>major\<close> are the answers of \<^verbatim>\<open>configfs_register_subsystem\<close> and \<^verbatim>\<open>register_blkdev\<close>.\<close>

definition IS_init_module :: "int \<Rightarrow> nat \<Rightarrow> int \<Rightarrow> 'n hydra \<Rightarrow> int \<times> 'n hydra" where
  "IS_init_module configfs_ret online_cpus major h = (if configfs_ret \<noteq> 0 then (1, h)
     else let h = h\<lparr>hydra_globals := (hydra_globals h)\<lparr>g_submit_queues := online_cpus, g_major := major\<rparr>\<rparr> in
       if major < 0 then (major, h) else (0, h\<lparr>g_IS_sessions := []\<rparr>))"

definition IS_cleanup_module :: "is_config \<Rightarrow> 'n transport \<Rightarrow> 'n hydra \<Rightarrow> 'n hydra res" where
  "IS_cleanup_module c tr h = foldE (\<lambda>(k, _) h. bindE (IS_session_destroy c tr k h) (\<lambda>(_, h). Inr h)) (g_IS_sessions h) h"

section \<open>The devices of a session\<close>

abbreviation dev_map :: "'n session_group \<Rightarrow> nat \<rightharpoonup> IS_file" where
  "dev_map s \<equiv> map_of (devs_list s)"

lemma map_of_pointwise: "map_of (map (\<lambda>(k, f). if k = d then (k, h f) else (k, f)) xs) = (map_of xs)(d := map_option h (map_of xs d))"
  by (induction xs) (auto simp: fun_eq_iff)

lemma map_of_without: "map_of (filter (\<lambda>(k, _). k \<noteq> d) xs) = (map_of xs)(d := None)"
  by (induction xs) (auto simp: fun_eq_iff)

lemma dev_map_simps [simp]:
  "dev_map (upd_file d h s) = (dev_map s)(d := map_option h (dev_map s d))" "dev_map (s\<lparr>sg_world := w\<rparr>) = dev_map s" "dev_map (s\<lparr>xdev := x\<rparr>) = dev_map s"
  by (simp_all add: upd_file_def map_of_pointwise)

lemma file_at_Inr: "file_at s d = Inr f \<longleftrightarrow> dev_map s d = Some f"
  by (simp add: file_at_def split: option.splits)

lemma file_find_None: "IS_file_find s n = None \<Longrightarrow> dev_map s d = Some f \<Longrightarrow> file_name f \<noteq> n"
  by (auto simp: IS_file_find_def find_None_iff dest: map_of_SomeD)

lemma file_find_Some: "dev_map s d = Some f \<Longrightarrow> IS_file_find s (file_name f) \<noteq> None"
  by (auto simp: IS_file_find_def find_None_iff dest: map_of_SomeD)

lemma sscanf_s_word: "\<forall>c\<in>set (sscanf_s s). \<not> is_space c" "sscanf_s (sscanf_s s) = sscanf_s s"
proof -
  show w: "\<forall>c\<in>set (sscanf_s s). \<not> is_space c" by (auto simp: sscanf_s_def dest: set_takeWhileD)
  then have "dropWhile is_space (sscanf_s s) = sscanf_s s" by (cases "sscanf_s s") auto
  then show "sscanf_s (sscanf_s s) = sscanf_s s" using w by (subst sscanf_s_def) (auto simp: takeWhile_eq_all_conv)
qed

lemma scan_into_Inr: "sscanf_s s \<noteq> [] \<Longrightarrow> scan_into n old s = Inr v \<Longrightarrow> v = sscanf_s s"
  by (auto simp: scan_into_def Let_def split: if_splits)

lemma scan_into_word: "sscanf_s s \<noteq> [] \<Longrightarrow> length (sscanf_s s) < n \<Longrightarrow> scan_into n old s = Inr (sscanf_s s)"
  by (simp add: scan_into_def Let_def)

section \<open>Creating a device\<close>

lemma init_hctx_frame:
  assumes "foldE IS_init_hctx is f = Inr f'"
  shows "\<exists>qs. f' = f\<lparr>queues := qs\<rparr>"
  by (rule foldE_inv [OF assms, of "\<lambda>f'. \<exists>qs. f' = f\<lparr>queues := qs\<rparr>"]) (auto simp: IS_init_hctx_def bindE_Inr intro: exI [of _ "queues f"])

lemma init_hctx_Inr:
  assumes "length (queues f) = n"
  shows "\<exists>qs. foldE IS_init_hctx [0..<n] f = Inr (f\<lparr>queues := qs\<rparr>)"
proof -
  have "\<exists>t. foldE IS_init_hctx [0..<n] f = Inr t \<and> (\<exists>qs. t = f\<lparr>queues := qs\<rparr> \<and> length qs = n)"
  proof (rule foldE_upto [where P = "\<lambda>_ t. \<exists>qs. t = f\<lparr>queues := qs\<rparr> \<and> length qs = n"])
    fix i t assume "i < n" "\<exists>qs. t = f\<lparr>queues := qs\<rparr> \<and> length qs = n"
    then obtain qs where "i < n" "t = f\<lparr>queues := qs\<rparr>" "length qs = n" by blast
    then show "\<exists>t'. IS_init_hctx i t = Inr t' \<and> (\<exists>qs. t' = f\<lparr>queues := qs\<rparr> \<and> length qs = n)"
      by (intro exI [of _ "f\<lparr>queues := qs[i := Some \<lparr>q_conn = i, q_depth = queue_depth f\<rparr>]\<rparr>"] conjI)
        (auto simp: IS_init_hctx_def intro: exI [of _ "qs[i := Some \<lparr>q_conn = i, q_depth = queue_depth f\<rparr>]"])
  qed (use assms in \<open>auto intro: exI [of _ "queues f"]\<close>)
  then show ?thesis by auto
qed

text \<open>Whatever the block layer answers, registration touches no name and leaves the old disk, no disk or one with the device's index.\<close>

lemma register_result:
  assumes "IS_register_block_device env mj n f = Inr (ret, f')"
  shows "file_name f' = file_name f \<and> (\<forall>k. disk f' = Some k \<longrightarrow> first_minor k = dev_index f \<or> disk f = Some k)"
  using assms
  by (auto simp: IS_register_block_device_def Let_def bindE_Inr blk_alloc_def blk_free_def new_disk_def
      split: if_splits handle.splits dest!: init_hctx_frame)

lemma create_device_result:
  assumes "IS_create_device c tr env name d (g, s) = Inr (ret, g', s')" "sscanf_s name \<noteq> []"
  shows "\<exists>f f'. dev_map s d = Some f \<and> dev_map s' = (dev_map s)(d \<mapsto> f') \<and> file_name f' = sscanf_s name \<and> g_indexes g' = g_indexes g + 1 \<and>
    (\<forall>k'. disk f' = Some k' \<longrightarrow> first_minor k' = g_indexes g \<or> (\<exists>k. disk f = Some k \<and> first_minor k = first_minor k'))"
proof -
  define start where "start f = (f :: IS_file)\<lparr>file_name := sscanf_s name, dev_index := g_indexes g, nr_queues := g_submit_queues g, queue_depth := IS_QUEUE_DEPTH\<rparr>" for f
  define ready where "ready f = (snd (IS_setup_queues env (g_submit_queues g) (start f)))\<lparr>st_size := capacity (sess (sg_world s))\<rparr>" for f
  have st: "file_name (ready f) = sscanf_s name" "disk (ready f) = disk f" "dev_index (ready f) = g_indexes g"
    "file_name (snd (IS_setup_queues env n (start f))) = sscanf_s name" "disk (snd (IS_setup_queues env n (start f))) = disk f" for f n
    by (simp_all add: ready_def start_def IS_setup_queues_def blk_alloc_def)
  have q: "IS_setup_queues env n f = (fst (IS_setup_queues env n f), snd (IS_setup_queues env n f))" for n f by simp
  from assms(1) obtain f nm where f: "file_at s d = Inr f" "scan_into MAX_IS_DEV_NAME (file_name f) name = Inr nm"
    by (auto simp: IS_create_device_def bindE_Inr)
  have dm: "dev_map s d = Some f" using f(1) by (simp add: file_at_Inr)
  have nm: "nm = sscanf_s name" by (rule scan_into_Inr [OF assms(2) f(2)])
  let ?r = "IS_setup_queues env (g_submit_queues g) (start f)"
  show ?thesis
  proof (cases "fst ?r = 0")
    case False
    then have "g' = g\<lparr>g_indexes := g_indexes g + 1\<rparr>" "s' = upd_file d (\<lambda>_. snd ?r) s"
      using assms(1) f by (auto simp: IS_create_device_def nm start_def Let_def split_beta)
    then show ?thesis using dm st(4,5) [of "g_submit_queues g" f] by (intro exI [of _ f] exI [of _ "snd ?r"]) simp
  next
    case True
    then obtain ret1 f1 where reg: "IS_register_block_device env (g_major g) (g_submit_queues g) (ready f) = Inr (ret1, f1)"
      using assms(1) f by (auto simp: IS_create_device_def nm start_def ready_def Let_def split_beta bindE_Inr)
    from register_result [OF reg] st have f1: "file_name f1 = sscanf_s name"
      "\<forall>k'. disk f1 = Some k' \<longrightarrow> first_minor k' = g_indexes g \<or> disk f = Some k'" by auto
    define run where "run = snd (IS_set_device_state DEVICE_RUNNING f1)"
    define live where "live = run\<lparr>disk := map_option (\<lambda>k. k\<lparr>disk_added := True\<rparr>) (disk run)\<rparr>"
    have "g' = g\<lparr>g_indexes := g_indexes g + 1\<rparr> \<and> (dev_map s' = (dev_map s)(d \<mapsto> IS_destroy_queues f1) \<or> dev_map s' = (dev_map s)(d \<mapsto> live))"
      using assms(1) f True reg dm
      by (auto simp: IS_create_device_def nm start_def ready_def run_def live_def Let_def split_beta bindE_Inr split: if_splits)
    moreover have "file_name live = file_name f1" "\<forall>k'. disk live = Some k' \<longrightarrow> (\<exists>k. disk f1 = Some k \<and> first_minor k' = first_minor k)"
      "file_name (IS_destroy_queues f1) = file_name f1" "disk (IS_destroy_queues f1) = disk f1"
      by (auto simp: live_def run_def IS_destroy_queues_def blk_free_def IS_set_device_state_def)
    ultimately obtain f' where s': "g' = g\<lparr>g_indexes := g_indexes g + 1\<rparr>" "dev_map s' = (dev_map s)(d \<mapsto> f')" "file_name f' = file_name f1"
      "\<forall>k'. disk f' = Some k' \<longrightarrow> (\<exists>k. disk f1 = Some k \<and> first_minor k' = first_minor k)" by metis
    then show ?thesis using dm f1 by (intro exI [of _ f] exI [of _ f']) fastforce
  qed
qed

section \<open>Runs of the configuration\<close>

text \<open>What a user does to the devices of a session; \<open>Store\<close> writes to the attribute that creates the device.\<close>

datatype dev_event = Make nat string | Store blk_env nat string | Drop nat

fun dev_step :: "is_config \<Rightarrow> 'n transport \<Rightarrow> dev_event \<Rightarrow> globals \<times> 'n session_group \<Rightarrow> (globals \<times> 'n session_group) res" where
  "dev_step c tr (Make d name) (g, s) = bindE (IS_device_make_group True d name s) (\<lambda>s. Inr (g, s))"
| "dev_step c tr (Store env d page) (g, s) = bindE (device_attr_store c tr env [] d page (g, s)) (\<lambda>(_, gs). Inr gs)"
| "dev_step c tr (Drop d) (g, s) = bindE (IS_device_drop c tr d s) (\<lambda>s. Inr (g, s))"

text \<open>A new device has an address of its own, and a name is written.\<close>

fun dev_allowed :: "dev_event \<Rightarrow> globals \<times> 'n session_group \<Rightarrow> bool" where
  "dev_allowed (Make d name) (g, s) \<longleftrightarrow> dev_map s d = None"
| "dev_allowed (Store env d page) (g, s) \<longleftrightarrow> sscanf_s page \<noteq> []"
| "dev_allowed (Drop d) (g, s) \<longleftrightarrow> True"

definition apart :: "IS_file \<Rightarrow> IS_file \<Rightarrow> bool" where
  "apart f f' \<longleftrightarrow> (file_name f \<noteq> [] \<longrightarrow> file_name f \<noteq> file_name f') \<and>
     (\<forall>k k'. disk f = Some k \<longrightarrow> disk f' = Some k' \<longrightarrow> first_minor k \<noteq> first_minor k')"

fun devices_ok :: "globals \<times> 'n session_group \<Rightarrow> bool" where
  "devices_ok (g, s) \<longleftrightarrow> (\<forall>d d' f f'. dev_map s d = Some f \<longrightarrow> dev_map s d' = Some f' \<longrightarrow> d \<noteq> d' \<longrightarrow> apart f f') \<and>
     (\<forall>d f k. dev_map s d = Some f \<longrightarrow> disk f = Some k \<longrightarrow> first_minor k < g_indexes g)"

lemma apart_sym: "apart f f' \<Longrightarrow> apart f' f"
  by (auto simp: apart_def)

lemma devices_ok_update:
  assumes "devices_ok (g, s)" "dev_map s' = (dev_map s)(d \<mapsto> f)" "g_indexes g \<le> g_indexes g'"
    and "\<And>d' f'. d' \<noteq> d \<Longrightarrow> dev_map s d' = Some f' \<Longrightarrow> apart f f'" "\<And>k. disk f = Some k \<Longrightarrow> first_minor k < g_indexes g'"
  shows "devices_ok (g', s')"
  unfolding devices_ok.simps
proof (intro conjI allI impI)
  fix e e' x x' assume e: "dev_map s' e = Some x" "dev_map s' e' = Some x'" "e \<noteq> e'"
  consider "e = d" "e' \<noteq> d" | "e \<noteq> d" "e' = d" | "e \<noteq> d" "e' \<noteq> d" using e(3) by blast
  then show "apart x x'"
  proof cases
    case 1
    then show ?thesis using e assms(2) assms(4) [of e' x'] by simp
  next
    case 2
    then show ?thesis using e assms(2) assms(4) [of e x] by (simp add: apart_sym)
  next
    case 3
    then show ?thesis using e assms(1,2) by auto
  qed
next
  fix e x k assume "dev_map s' e = Some x" "disk x = Some k"
  then show "first_minor k < g_indexes g'" using assms(1,2,3,5) by (cases "e = d") fastforce+
qed

lemma make_ok:
  assumes "devices_ok (g, s)" "IS_device_make_group True d name s = Inr s'"
  shows "devices_ok (g, s')"
proof -
  from assms(2) obtain n where s': "s' = s\<lparr>devs_list := (d, zero_file\<lparr>dev_state := DEVICE_OPENNING, dev_name := n\<rparr>) # devs_list s\<rparr>"
    by (auto simp: IS_device_make_group_def IS_set_device_state_def bindE_Inr zero_file_def)
  show ?thesis
    by (rule devices_ok_update [OF assms(1), where d = d and f = "zero_file\<lparr>dev_state := DEVICE_OPENNING, dev_name := n\<rparr>"])
      (auto simp: s' zero_file_def apart_def)
qed

lemma store_ok:
  assumes ok: "devices_ok (g, s)" and st: "device_attr_store c tr env [] d page (g, s) = Inr (ret, g', s')" "sscanf_s page \<noteq> []"
  shows "devices_ok (g', s')"
proof (cases "IS_file_find s (sscanf_s page) = None")
  case False
  from st(1) have "scan_into MAX_IS_DEV_NAME [] page = Inr (sscanf_s page)" using scan_into_Inr [OF st(2)] by (fastforce simp: device_attr_store_def bindE_Inr)
  with False st ok show ?thesis by (auto simp: device_attr_store_def)
next
  case True
  let ?n = "sscanf_s page"
  from st(1) have "scan_into MAX_IS_DEV_NAME [] page = Inr ?n" using scan_into_Inr [OF st(2)] by (fastforce simp: device_attr_store_def bindE_Inr)
  with True st obtain ret0 where "IS_create_device c tr env ?n d (g, s) = Inr (ret0, g', s')"
    by (auto simp: device_attr_store_def bindE_Inr)
  from create_device_result [OF this] st(2) obtain f f' where
    f: "dev_map s d = Some f" "dev_map s' = (dev_map s)(d \<mapsto> f')" "file_name f' = ?n" "g_indexes g' = g_indexes g + 1"
    and k: "\<forall>k'. disk f' = Some k' \<longrightarrow> first_minor k' = g_indexes g \<or> (\<exists>k. disk f = Some k \<and> first_minor k = first_minor k')"
    by (auto simp: sscanf_s_word)
  show ?thesis
  proof (rule devices_ok_update [OF ok f(2)])
    fix e x assume e: "e \<noteq> d" "dev_map s e = Some x"
    have "file_name x \<noteq> ?n" by (rule file_find_None [OF True e(2)])
    moreover have "first_minor a \<noteq> first_minor b" if "disk f' = Some a" "disk x = Some b" for a b
    proof -
      have "first_minor b < g_indexes g" using ok e that(2) by auto
      moreover have "apart f x" using ok e f(1) by auto
      ultimately show ?thesis using k that by (fastforce simp: apart_def)
    qed
    ultimately show "apart f' x" using f(3) by (simp add: apart_def)
  next
    fix k' assume "disk f' = Some k'"
    then show "first_minor k' < g_indexes g'" using k f(1,4) ok by fastforce
  qed (use f(4) in simp)
qed

lemma drop_ok:
  assumes "devices_ok (g, s)" "IS_device_drop c tr d s = Inr s'"
  shows "devices_ok (g, s')"
proof -
  from assms(2) have "dev_map s' = (dev_map s)(d := None)"
    by (auto simp: IS_device_drop_def IS_destroy_device_def bindE_Inr Let_def map_of_without)
  then show ?thesis using assms(1) by (auto split: if_splits)
qed

declare devices_ok.simps [simp del]

interpretation devices: preserved dev_allowed "dev_step c tr" devices_ok
proof
  fix s e s' assume ok: "devices_ok s" and al: "dev_allowed e s" and st: "dev_step c tr e s = Inr s'"
  obtain g x where s: "s = (g, x)" by (cases s)
  show "devices_ok s'"
  proof (cases e)
    case (Make d name)
    then show ?thesis using ok st s make_ok by (auto simp: bindE_Inr)
  next
    case (Store env d page)
    then show ?thesis using ok st al s store_ok by (cases s') (auto simp: bindE_Inr)
  next
    case (Drop d)
    then show ?thesis using ok st s drop_ok by (auto simp: bindE_Inr)
  qed
qed

section \<open>A failed creation\<close>

text \<open>The error with which the block layer stops the creation of a device, 0 if it does not.\<close>

definition create_error :: "blk_env \<Rightarrow> int" where
  "create_error env = (if \<not> queues_alloc env then - ENOMEM else if tag_set_ret env \<noteq> 0 then tag_set_ret env
     else case init_queue env of Err e \<Rightarrow> e | _ \<Rightarrow> if disk_alloc env then 0 else - ENOMEM)"

lemma register_error:
  assumes "queues_alloc env" "create_error env \<noteq> 0" "length (queues f) = n"
  shows "\<exists>f'. IS_register_block_device env mj n f = Inr (create_error env, f') \<and> file_name f' = file_name f \<and> blk_objs f' = blk_objs f"
proof (cases "tag_set_ret env \<noteq> 0")
  case True
  then show ?thesis using assms(1) by (auto simp: IS_register_block_device_def create_error_def)
next
  case tags: False
  let ?f = "blk_alloc B_QUEUE (blk_alloc B_TAG_SET (f\<lparr>dev_major := mj\<rparr>))"
  obtain qs where q: "foldE IS_init_hctx [0..<n] ?f = Inr (?f\<lparr>queues := qs\<rparr>)" using init_hctx_Inr [of ?f n] assms(3) by (auto simp: blk_alloc_def)
  have "\<not> disk_alloc env" if "init_queue env = Null \<or> init_queue env = Obj" using that assms(1,2) tags by (auto simp: create_error_def)
  then show ?thesis using assms(1) tags q
    by (cases "init_queue env") (auto simp: IS_register_block_device_def create_error_def Let_def blk_alloc_def blk_free_def)
qed

lemma create_device_error:
  assumes "dev_map s d = Some f" "sscanf_s name = name" "name \<noteq> []" "length name < MAX_IS_DEV_NAME" "create_error env \<noteq> 0"
  shows "\<exists>g' s' f'. IS_create_device c tr env name d (g, s) = Inr (create_error env, g', s') \<and> dev_map s' d = Some f' \<and>
    file_name f' = name \<and> blk_objs f' = blk_objs f"
proof -
  define f0 where "f0 = f\<lparr>file_name := name, dev_index := g_indexes g, nr_queues := g_submit_queues g, queue_depth := IS_QUEUE_DEPTH\<rparr>"
  have at: "file_at s d = Inr f" "scan_into MAX_IS_DEV_NAME (file_name f) name = Inr name" using assms by (simp_all add: file_at_Inr scan_into_word)
  show ?thesis
  proof (cases "queues_alloc env")
    case False
    then show ?thesis using at assms(1) by (auto simp: IS_create_device_def IS_setup_queues_def create_error_def ENOMEM_def Let_def)
  next
    case True
    let ?f1 = "(blk_alloc B_QUEUES (f0\<lparr>queues := replicate (g_submit_queues g) None\<rparr>))\<lparr>st_size := capacity (sess (sg_world s))\<rparr>"
    obtain f' where f': "IS_register_block_device env (g_major g) (g_submit_queues g) ?f1 = Inr (create_error env, f')" "file_name f' = name"
      "blk_objs f' = B_QUEUES # blk_objs f"
      using register_error [OF True assms(5), of ?f1 "g_submit_queues g" "g_major g"] by (auto simp: blk_alloc_def f0_def)
    then show ?thesis using at True assms(1,5)
      by (auto simp: IS_create_device_def IS_setup_queues_def f0_def IS_destroy_queues_def blk_free_def Let_def)
  qed
qed

section \<open>Properties\<close>


text \<open>C37: A creation that the block layer stops with an error frees everything it had allocated for the device, and leaves the device holding the
  name: writing the same name again, also to the same device, is refused with \<open>-EEXIST\<close> from then on.\<close>

theorem failed_create_keeps_name:
  assumes "dev_map s d = Some f" "blk_objs f = []" "sscanf_s page \<noteq> []" "length (sscanf_s page) < MAX_IS_DEV_NAME"
    and "IS_file_find s (sscanf_s page) = None" "create_error env \<noteq> 0"
  shows "\<exists>g' s' f'. device_attr_store c tr env junk d page (g, s) = Inr (create_error env, g', s') \<and> dev_map s' d = Some f' \<and> blk_objs f' = [] \<and>
    (\<forall>env' d'. device_attr_store c tr env' junk d' page (g', s') = Inr (- EEXIST, g', s'))"
proof -
  let ?n = "sscanf_s page"
  have sc: "scan_into MAX_IS_DEV_NAME junk page = Inr ?n" by (rule scan_into_word [OF assms(3,4)])
  obtain g' s' f' where c: "IS_create_device c tr env ?n d (g, s) = Inr (create_error env, g', s')" "dev_map s' d = Some f'" "file_name f' = ?n" "blk_objs f' = []"
    using create_device_error [OF assms(1) sscanf_s_word(2) assms(3,4,6), of c tr g] assms(2) by auto
  have "IS_file_find s' ?n \<noteq> None" using file_find_Some [OF c(2)] c(3) by simp
  with c sc assms(5,6) show ?thesis by (intro exI [of _ g'] exI [of _ s'] exI [of _ f']) (simp add: device_attr_store_def)
qed

definition empty_group :: "unit session_group" where
  "empty_group = \<lparr>sg_world = \<lparr>sess = zero_session REP_config, reqs = Map.empty, cnts = [], kobjs = (\<lambda>_. []), net = ()\<rparr>, devs_list = [], xdev = None\<rparr>"

definition no_disk_env :: blk_env where
  "no_disk_env = \<lparr>queues_alloc = True, tag_set_ret = 0, init_queue = Obj, disk_alloc = False, map_envs = []\<rparr>"

definition two_cpus :: globals where
  "two_cpus = \<lparr>g_submit_queues = 2, g_major = 252, g_indexes = 0\<rparr>"

definition one_device :: "unit session_group" where
  "one_device = empty_group\<lparr>devs_list := [(5, zero_file\<lparr>dev_state := DEVICE_OPENNING, dev_name := ''swap0''\<rparr>)]\<rparr>"

lemma scan_names: "sscanf_s ''swap0'' = ''swap0''" "sscanf_s ''swap1'' = ''swap1''" "sscanf_s ''disk0'' = ''disk0''"
  by code_simp+

theorem failed_create_keeps_name_witness:
  "\<exists>g s. device_attr_store REP_config idle_transport no_disk_env [] 5 ''disk0'' (two_cpus, one_device) = Inr (- ENOMEM, g, s) \<and>
    device_attr_store REP_config idle_transport (no_disk_env\<lparr>disk_alloc := True\<rparr>) [] 5 ''disk0'' (g, s) = Inr (- EEXIST, g, s)"
proof -
  have "dev_map one_device 5 = Some (zero_file\<lparr>dev_state := DEVICE_OPENNING, dev_name := ''swap0''\<rparr>)"
    "IS_file_find one_device (sscanf_s ''disk0'') = None" "create_error no_disk_env = - ENOMEM"
    by (simp_all add: one_device_def IS_file_find_def scan_names zero_file_def create_error_def no_disk_env_def)
  with failed_create_keeps_name [of one_device 5 _ "''disk0''" no_disk_env REP_config idle_transport "[]" two_cpus] show ?thesis
    by (fastforce simp: scan_names zero_file_def MAX_IS_DEV_NAME_def ENOMEM_def)
qed


end
