(* ===== verification/Error_Injection.thy ===== *)
theory Error_Injection
  imports Config Text_Scan Runs
begin

text \<open>
  The driver that injects hardware errors through ACPI (\<^verbatim>\<open>einj.c\<close>, \<^verbatim>\<open>apei-internal.h\<close>): its parameter block, the
  protocol with the firmware, the execution of the trigger table, the checks of what a user asks for, and the life of the
  module. The APEI core, the platform tables and the kernel's resource functions are parameters; \<open>held\<close> lists what the
  driver has allocated, mapped or requested and not yet given back.
\<close>

unbundle bit_operations_syntax

section \<open>Firmware and parameter block\<close>

datatype einj_action = BEGIN_OPERATION | GET_TRIGGER_TABLE | SET_ERROR_TYPE | GET_ERROR_TYPE | END_OPERATION | EXECUTE_OPERATION
  | CHECK_BUSY_STATUS | GET_COMMAND_STATUS | SET_ERROR_TYPE_WITH_ADDRESS | TRIGGER_ERROR

datatype einj_instruction = READ_REGISTER | READ_REGISTER_VALUE | WRITE_REGISTER | WRITE_REGISTER_VALUE | NOOP

text \<open>An entry of an action table, with its register: whether it is in system memory, its address and its width in bits.\<close>

record whea_entry =
  action :: einj_action
  instruction :: einj_instruction
  in_memory :: bool
  reg_address :: u64
  bit_width :: nat

record set_error_type_with_address =
  v5_type :: u32
  vendor_extension :: u32
  v5_flags :: u32
  apicid :: u32
  memory_address :: u64
  memory_address_range :: u64
  pcie_sbdf :: u32

record vendor_error_type_extension =
  ext_sbdf :: u32
  vendor_id :: "16 word"
  device_id :: "16 word"
  rev_id :: u8

record einj_parameter =
  v4_type :: u64
  reserved1 :: u64
  reserved2 :: u64
  param1 :: u64
  param2 :: u64

datatype param_block = V5 set_error_type_with_address | V4 einj_parameter

definition SETWA_FLAGS_APICID :: u32 where "SETWA_FLAGS_APICID = 1"
definition SETWA_FLAGS_MEM :: u32 where "SETWA_FLAGS_MEM = 2"
definition SETWA_FLAGS_PCIE_SBDF :: u32 where "SETWA_FLAGS_PCIE_SBDF = 4"
definition ACPI5_VENDOR_BIT :: u32 where "ACPI5_VENDOR_BIT = 0x80000000"
definition MEM_ERROR_MASK :: u32 where "MEM_ERROR_MASK = 0x8 OR 0x10 OR 0x20"
definition EINJ_OP_BUSY :: u64 where "EINJ_OP_BUSY = 1"
definition EINJ_STATUS_SUCCESS :: u64 where "EINJ_STATUS_SUCCESS = 0"
definition SPIN_UNIT :: u64 where "SPIN_UNIT = 100"
definition FIRMWARE_TIMEOUT :: u64 where "FIRMWARE_TIMEOUT = 1000000"
definition PAGE_MASK :: u64 where "PAGE_MASK = NOT 0xfff"

record trigger_header =
  header_size :: u32
  table_size :: u32
  entry_count :: u32

text \<open>What the kernel answers while the trigger table at one address is run.\<close>

record trigger_env =
  req_header :: bool
  map_header :: "trigger_header option"
  req_entries :: bool
  map_table :: "whea_entry list option"
  collect_ret :: int
  sub_ret :: int
  add_ret :: int
  sub_addr_ret :: int
  request_ret :: int
  pre_map_ret :: int

text \<open>
  The APEI core and the platform: \<open>exec_run\<close> runs the instructions of an action, optional or not, on the value of the context,
  and may read the parameter block; the sizes are those of the ACPI structures.
\<close>

record 'f apei =
  exec_run :: "einj_action \<Rightarrow> bool \<Rightarrow> param_block option \<Rightarrow> u64 \<Rightarrow> 'f \<Rightarrow> int \<times> u64 \<times> 'f"
  exec_trigger :: "whea_entry list \<Rightarrow> 'f \<Rightarrow> int \<times> 'f"
  trigger_at :: "u64 \<Rightarrow> 'f \<Rightarrow> trigger_env"
  page_is_ram :: "u64 \<Rightarrow> bool"
  ctx_junk :: u64
  sz_trigger :: u32
  sz_entry :: u32

datatype einj_obj = T_HEADER | T_ENTRIES | T_MAP | T_RESOURCES | T_ADDR | T_REQUESTED | T_GARS
  | E_DIR | E_RESOURCES | E_REQUESTED | E_GARS | E_PARAM

record 'f einj =
  acpi5 :: bool
  param_extension :: bool
  notrigger :: u32
  vendor_flags :: u32
  vendor_dev :: string
  einj_param :: "param_block option"
  error_type :: u32
  error_flags :: u32
  error_param1 :: u64
  error_param2 :: u64
  error_param3 :: u64
  error_param4 :: u64
  held :: "einj_obj list"
  fw :: 'f

definition hold :: "einj_obj \<Rightarrow> 'f einj \<Rightarrow> 'f einj" where
  "hold ob e = e\<lparr>held := ob # held e\<rparr>"

definition unhold :: "einj_obj \<Rightarrow> 'f einj \<Rightarrow> 'f einj" where
  "unhold ob e = e\<lparr>held := remove1 ob (held e)\<rparr>"

text \<open>\<open>apei_exec_run\<close> and \<open>apei_exec_run_optional\<close>: return code, value of the context, state.\<close>

definition apei_exec_run :: "'f apei \<Rightarrow> einj_action \<Rightarrow> u64 \<Rightarrow> 'f einj \<Rightarrow> int \<times> u64 \<times> 'f einj" where
  "apei_exec_run ap a v e = (case exec_run ap a False (einj_param e) v (fw e) of (rc, v, f) \<Rightarrow> (rc, v, e\<lparr>fw := f\<rparr>))"

definition apei_exec_run_optional :: "'f apei \<Rightarrow> einj_action \<Rightarrow> u64 \<Rightarrow> 'f einj \<Rightarrow> int \<times> u64 \<times> 'f einj" where
  "apei_exec_run_optional ap a v e = (case exec_run ap a True (einj_param e) v (fw e) of (rc, v, f) \<Rightarrow> (rc, v, e\<lparr>fw := f\<rparr>))"

definition einj_get_available_error_type :: "'f apei \<Rightarrow> 'f einj \<Rightarrow> int \<times> u32 \<times> 'f einj" where
  "einj_get_available_error_type ap e = (case apei_exec_run ap GET_ERROR_TYPE (ctx_junk ap) e of (rc, v, e) \<Rightarrow>
     if rc \<noteq> 0 then (rc, 0, e) else (0, ucast v, e))"

section \<open>Waiting for the firmware\<close>

definition einj_timedout :: "u64 \<Rightarrow> bool \<times> u64" where
  "einj_timedout t = (if sint t < sint SPIN_UNIT then (True, t) else (False, t - SPIN_UNIT))"

lemma einj_timedout_less: "einj_timedout t = (False, t') \<Longrightarrow> unat t' < unat t"
proof -
  assume a: "einj_timedout t = (False, t')"
  then have t: "100 \<le> sint t" "t' = t - 100" by (auto simp: einj_timedout_def SPIN_UNIT_def split: if_splits)
  then have "uint t = sint t" using uint_sint [of t] sint_lt [of t] by (simp add: take_bit_int_eq_self)
  with t have "100 \<le> uint t" by simp
  then have "(100 :: u64) \<le> t" by (simp add: word_le_def)
  then show ?thesis using t(2) by (simp add: unat_sub word_le_nat_alt)
qed

text \<open>The loop that polls the busy status; it ends with the last poll's error, with 0, or with a timeout.\<close>

function einj_wait :: "'f apei \<Rightarrow> u64 \<Rightarrow> u64 \<Rightarrow> 'f einj \<Rightarrow> int \<times> u64 \<times> 'f einj" where
  "einj_wait ap t v e = (case apei_exec_run ap CHECK_BUSY_STATUS v e of (rc, v, e) \<Rightarrow>
     if rc \<noteq> 0 then (rc, v, e)
     else if v AND EINJ_OP_BUSY = 0 then (0, v, e)
     else case einj_timedout t of (True, t) \<Rightarrow> (- EIO, v, e) | (False, t) \<Rightarrow> einj_wait ap t v e)"
  by pat_completeness auto

termination by (relation "measure (\<lambda>(ap, t, v, e). unat t)") (auto intro: einj_timedout_less [OF sym])

declare einj_wait.simps [simp del]

section \<open>The trigger table\<close>

text \<open>The sanity check of the header; the arithmetic is that of \<^verbatim>\<open>u32\<close>.\<close>

definition einj_check_trigger_header :: "'f apei \<Rightarrow> trigger_header \<Rightarrow> int" where
  "einj_check_trigger_header ap h =
     (if header_size h \<noteq> sz_trigger ap then - EINVAL
      else if 4096 < table_size h \<or> table_size h < header_size h then - EINVAL
      else if entry_count h \<noteq> (table_size h - header_size h) div sz_entry ap then - EINVAL
      else 0)"

definition einj_get_trigger_parameter_region :: "whea_entry list \<Rightarrow> nat \<Rightarrow> u64 \<Rightarrow> u64 \<Rightarrow> whea_entry option" where
  "einj_get_trigger_parameter_region tab n p1 p2 = find (\<lambda>en. action en = TRIGGER_ERROR \<and> instruction en = WRITE_REGISTER_VALUE \<and>
     in_memory en \<and> reg_address en AND p2 = p1 AND p2) (take n tab)"

text \<open>
  The resources that the entries use: those of the driver and the injection address are taken out, the rest is requested. An error of
  \<open>apei_exec_pre_map_gars\<close> is ignored.
\<close>

definition run_trigger :: "'f apei \<Rightarrow> trigger_env \<Rightarrow> whea_entry list \<Rightarrow> nat \<Rightarrow> u32 \<Rightarrow> u64 \<Rightarrow> u64 \<Rightarrow> 'f einj \<Rightarrow> int \<times> 'f einj" where
  "run_trigger ap tv tab n ty p1 p2 e =
     (if collect_ret tv \<noteq> 0 then (collect_ret tv, e)
      else if sub_ret tv \<noteq> 0 then (sub_ret tv, e)
      else let memory = (param_extension e \<or> acpi5 e) \<and> ty AND MEM_ERROR_MASK \<noteq> 0 \<and> p2 \<noteq> 0;
               region = einj_get_trigger_parameter_region tab n p1 p2
        in if memory \<and> region \<noteq> None \<and> add_ret tv \<noteq> 0 then (add_ret tv, e)
        else let e = (if memory \<and> region \<noteq> None then unhold T_ADDR (hold T_ADDR e) else e);
                 rc = (if memory \<and> region \<noteq> None then sub_addr_ret tv else 0)
          in if rc \<noteq> 0 then (rc, e)
          else if request_ret tv \<noteq> 0 then (request_ret tv, e)
          else let e = hold T_REQUESTED e; e = (if pre_map_ret tv = 0 then hold T_GARS e else e) in
            case exec_trigger ap (take n tab) (fw e) of (rc, f) \<Rightarrow>
              (rc, unhold T_REQUESTED (unhold T_GARS (e\<lparr>fw := f\<rparr>))))"

definition einj_error_trigger :: "'f apei \<Rightarrow> u64 \<Rightarrow> u32 \<Rightarrow> u64 \<Rightarrow> u64 \<Rightarrow> 'f einj \<Rightarrow> int \<times> 'f einj" where
  "einj_error_trigger ap paddr ty p1 p2 e =
     (let tv = trigger_at ap paddr (fw e) in
      if \<not> req_header tv then (- EIO, e)
      else let e = hold T_HEADER e in case map_header tv of
        None \<Rightarrow> (- EIO, unhold T_HEADER e)
      | Some h \<Rightarrow> let e = hold T_MAP e; rc = einj_check_trigger_header ap h; out = (\<lambda>e. unhold T_MAP (unhold T_HEADER e)) in
          if rc \<noteq> 0 then (rc, out e)
          else if entry_count h = 0 then (0, out e)
          else if \<not> req_entries tv then (- EIO, out e)
          else let e = unhold T_MAP (hold T_ENTRIES e) in case map_table tv of
            None \<Rightarrow> (- EIO, unhold T_HEADER (unhold T_ENTRIES e))
          | Some tab \<Rightarrow> (case run_trigger ap tv tab (unat (entry_count h)) ty p1 p2 (hold T_RESOURCES (hold T_MAP e)) of
              (rc, e) \<Rightarrow> (rc, out (unhold T_ENTRIES (unhold T_RESOURCES e)))))"

section \<open>Injection\<close>

definition fill_v5 :: "u32 \<Rightarrow> u32 \<Rightarrow> u32 \<Rightarrow> u64 \<Rightarrow> u64 \<Rightarrow> u64 \<Rightarrow> u64 \<Rightarrow> set_error_type_with_address \<Rightarrow> set_error_type_with_address" where
  "fill_v5 vflags ty flags p1 p2 p3 p4 b = (let b = b\<lparr>v5_type := ty\<rparr> in
     if ty AND ACPI5_VENDOR_BIT \<noteq> 0
     then (if vflags = SETWA_FLAGS_APICID then b\<lparr>apicid := ucast p1\<rparr>
           else if vflags = SETWA_FLAGS_MEM then b\<lparr>memory_address := p1, memory_address_range := p2\<rparr>
           else if vflags = SETWA_FLAGS_PCIE_SBDF then b\<lparr>pcie_sbdf := ucast p1\<rparr> else b)\<lparr>v5_flags := vflags\<rparr>
     else if flags \<noteq> 0
     then b\<lparr>v5_flags := flags, memory_address := p1, memory_address_range := p2, apicid := ucast p3, pcie_sbdf := ucast p4\<rparr>
     else if ty = 0x1 \<or> ty = 0x2 \<or> ty = 0x4 then b\<lparr>apicid := ucast p1, v5_flags := SETWA_FLAGS_APICID\<rparr>
     else if ty = 0x8 \<or> ty = 0x10 \<or> ty = 0x20 then b\<lparr>memory_address := p1, memory_address_range := p2, v5_flags := SETWA_FLAGS_MEM\<rparr>
     else if ty = 0x40 \<or> ty = 0x80 \<or> ty = 0x100 then b\<lparr>pcie_sbdf := ucast p1, v5_flags := SETWA_FLAGS_PCIE_SBDF\<rparr>
     else b)"

text \<open>Going on after a run of the firmware that returned 0.\<close>

definition on_success :: "int \<times> u64 \<times> 'f einj \<Rightarrow> (u64 \<Rightarrow> 'f einj \<Rightarrow> (int \<times> 'f einj) res) \<Rightarrow> (int \<times> 'f einj) res" where
  "on_success r k = (case r of (rc, v, e) \<Rightarrow> if rc \<noteq> 0 then Inr (rc, e) else k v e)"

definition execute_error :: "'f apei \<Rightarrow> u32 \<Rightarrow> u64 \<Rightarrow> u64 \<Rightarrow> u64 \<Rightarrow> 'f einj \<Rightarrow> (int \<times> 'f einj) res" where
  "execute_error ap ty p1 p2 v e =
     on_success (apei_exec_run ap EXECUTE_OPERATION v e) (\<lambda>v e.
     on_success (einj_wait ap FIRMWARE_TIMEOUT v e) (\<lambda>v e.
     on_success (apei_exec_run ap GET_COMMAND_STATUS v e) (\<lambda>v e.
       if v \<noteq> EINJ_STATUS_SUCCESS then Inr (- EBUSY, e)
       else on_success (apei_exec_run ap GET_TRIGGER_TABLE v e) (\<lambda>v e.
         case (if notrigger e = 0 then einj_error_trigger ap v ty p1 p2 e else (0, e)) of (rc, e) \<Rightarrow>
           if rc \<noteq> 0 then Inr (rc, e)
           else on_success (apei_exec_run_optional ap END_OPERATION v e) (\<lambda>v e. Inr (0, e))))))"

text \<open>\<^verbatim>\<open>__einj_error_inject\<close>: the block is filled in and the operation executed.\<close>

definition einj_error_inject_locked :: "'f apei \<Rightarrow> u32 \<Rightarrow> u32 \<Rightarrow> u64 \<Rightarrow> u64 \<Rightarrow> u64 \<Rightarrow> u64 \<Rightarrow> 'f einj \<Rightarrow> (int \<times> 'f einj) res" where
  "einj_error_inject_locked ap ty flags p1 p2 p3 p4 e =
     on_success (apei_exec_run_optional ap BEGIN_OPERATION (ctx_junk ap) e) (\<lambda>_ e.
       if acpi5 e then (case einj_param e of
           Some (V5 b) \<Rightarrow> execute_error ap ty p1 p2 (ucast ty) (e\<lparr>einj_param := Some (V5 (fill_v5 (vendor_flags e) ty flags p1 p2 p3 p4 b))\<rparr>)
         | _ \<Rightarrow> Inl Oob)
       else on_success (apei_exec_run ap SET_ERROR_TYPE (ucast ty) e) (\<lambda>v e. case einj_param e of
           None \<Rightarrow> execute_error ap ty p1 p2 v e
         | Some (V4 b) \<Rightarrow> execute_error ap ty p1 p2 v (e\<lparr>einj_param := Some (V4 (b\<lparr>param1 := p1, param2 := p2\<rparr>))\<rparr>)
         | Some (V5 b) \<Rightarrow> Inl Oob))"

text \<open>The checks before an injection: legal flags, and for a memory error an address in RAM under a mask of a page or less.\<close>

definition memory_related :: "'f einj \<Rightarrow> u32 \<Rightarrow> u32 \<Rightarrow> bool" where
  "memory_related e ty flags \<longleftrightarrow> (if ty AND ACPI5_VENDOR_BIT \<noteq> 0 then vendor_flags e = SETWA_FLAGS_MEM
     else ty AND MEM_ERROR_MASK \<noteq> 0 \<or> flags AND SETWA_FLAGS_MEM \<noteq> 0)"

definition address_ok :: "'f apei \<Rightarrow> u64 \<Rightarrow> u64 \<Rightarrow> bool" where
  "address_ok ap p1 p2 \<longleftrightarrow> page_is_ram ap (drop_bit 12 (p1 AND p2)) \<and> p2 AND PAGE_MASK = PAGE_MASK"

definition einj_error_inject :: "'f apei \<Rightarrow> u32 \<Rightarrow> u32 \<Rightarrow> u64 \<Rightarrow> u64 \<Rightarrow> u64 \<Rightarrow> u64 \<Rightarrow> 'f einj \<Rightarrow> (int \<times> 'f einj) res" where
  "einj_error_inject ap ty flags p1 p2 p3 p4 e =
     (if flags \<noteq> 0 \<and> flags AND NOT (SETWA_FLAGS_APICID OR SETWA_FLAGS_MEM OR SETWA_FLAGS_PCIE_SBDF) \<noteq> 0 then Inr (- EINVAL, e)
      else if (param_extension e \<or> acpi5 e) \<and> memory_related e ty flags \<and> \<not> address_ok ap p1 p2 then Inr (- EINVAL, e)
      else einj_error_inject_locked ap ty flags p1 p2 p3 p4 e)"

section \<open>The files of the driver\<close>

definition error_type_names :: "(u32 \<times> string) list" where
  "error_type_names = [(0x1, ''0x00000001'' @ [CHR 0x09] @ ''Processor Correctable''),
     (0x2, ''0x00000002'' @ [CHR 0x09] @ ''Processor Uncorrectable non-fatal''), (0x4, ''0x00000004'' @ [CHR 0x09] @ ''Processor Uncorrectable fatal''),
     (0x8, ''0x00000008'' @ [CHR 0x09] @ ''Memory Correctable''), (0x10, ''0x00000010'' @ [CHR 0x09] @ ''Memory Uncorrectable non-fatal''),
     (0x20, ''0x00000020'' @ [CHR 0x09] @ ''Memory Uncorrectable fatal''), (0x40, ''0x00000040'' @ [CHR 0x09] @ ''PCI Express Correctable''),
     (0x80, ''0x00000080'' @ [CHR 0x09] @ ''PCI Express Uncorrectable non-fatal''), (0x100, ''0x00000100'' @ [CHR 0x09] @ ''PCI Express Uncorrectable fatal''),
     (0x200, ''0x00000200'' @ [CHR 0x09] @ ''Platform Correctable''), (0x400, ''0x00000400'' @ [CHR 0x09] @ ''Platform Uncorrectable non-fatal''),
     (0x800, ''0x00000800'' @ [CHR 0x09] @ ''Platform Uncorrectable fatal'')]"

definition available_error_type_show :: "'f apei \<Rightarrow> 'f einj \<Rightarrow> int \<times> string \<times> 'f einj" where
  "available_error_type_show ap e = (case einj_get_available_error_type ap e of (rc, ty, e) \<Rightarrow>
     if rc \<noteq> 0 then (rc, [], e)
     else (0, concat (map (\<lambda>(b, n). if ty AND b \<noteq> 0 then n @ [CHR 0x0A] else []) error_type_names), e))"

definition error_type_get :: "'f einj \<Rightarrow> u64" where
  "error_type_get e = ucast (error_type e)"

definition error_type_set :: "'f apei \<Rightarrow> u64 \<Rightarrow> 'f einj \<Rightarrow> int \<times> 'f einj" where
  "error_type_set ap val e =
     (let vendor = ucast (val AND ucast ACPI5_VENDOR_BIT) :: u32; tval = ucast (val AND 0x7fffffff) :: u32 in
      if tval AND (tval - 1) \<noteq> 0 then (- EINVAL, e)
      else if vendor \<noteq> 0 then (0, e\<lparr>error_type := ucast val\<rparr>)
      else case einj_get_available_error_type ap e of (rc, avail, e) \<Rightarrow>
        if rc \<noteq> 0 then (rc, e)
        else if val AND ucast avail = 0 then (- EINVAL, e)
        else (0, e\<lparr>error_type := ucast val\<rparr>))"

definition error_inject_set :: "'f apei \<Rightarrow> u64 \<Rightarrow> 'f einj \<Rightarrow> (int \<times> 'f einj) res" where
  "error_inject_set ap val e = (if error_type e = 0 then Inr (- EINVAL, e)
     else einj_error_inject ap (error_type e) (error_flags e) (error_param1 e) (error_param2 e) (error_param3 e) (error_param4 e) e)"

section \<open>The life of the module\<close>

record einj_table =
  tab_length :: u32
  header_length :: u32
  entries :: u32
  tab_entries :: "whea_entry list"

datatype acpi_answer = Not_Found | Failure | Table einj_table

text \<open>What the kernel and the platform answer while the module is loaded.\<close>

record init_env =
  acpi_disabled :: bool
  acpi_get_table :: acpi_answer
  sz_table :: u32
  sz_header :: u32
  sz_record :: u32
  create_dir :: bool
  create_file :: "string \<Rightarrow> bool"
  init_collect :: int
  init_request :: int
  init_pre_map :: int
  map_v5 :: "u64 \<Rightarrow> set_error_type_with_address option"
  map_v4 :: "u64 \<Rightarrow> einj_parameter option"
  map_vendor :: "u64 \<Rightarrow> vendor_error_type_extension option"

text \<open>\<^verbatim>\<open>%x\<close>\<close>

fun print_hex :: "nat \<Rightarrow> string" where
  "print_hex n = (if n < 16 then [''0123456789abcdef'' ! n] else print_hex (n div 16) @ [''0123456789abcdef'' ! (n mod 16)])"

declare print_hex.simps [simp del]

text \<open>The offset of the extension is an \<^verbatim>\<open>int\<close>: it is sign-extended before it is added to the address.\<close>

definition check_vendor_extension :: "init_env \<Rightarrow> u64 \<Rightarrow> set_error_type_with_address \<Rightarrow> 'f einj \<Rightarrow> 'f einj" where
  "check_vendor_extension iv paddr b e =
     (if vendor_extension b = 0 then e
      else case map_vendor iv (paddr + scast (vendor_extension b)) of
        None \<Rightarrow> e
      | Some x \<Rightarrow> let sbdf = ext_sbdf x in
          e\<lparr>vendor_dev := print_hex (unat (drop_bit 24 sbdf)) @ '':'' @ print_hex (unat (drop_bit 16 sbdf AND 0xff)) @ '':'' @
            print_hex (unat (drop_bit 11 sbdf AND 0x1f)) @ ''.'' @ print_hex (unat (drop_bit 8 sbdf AND 0x7)) @
            '' vendor_id='' @ print_hex (unat (vendor_id x)) @ '' device_id='' @ print_hex (unat (device_id x)) @
            '' rev_id='' @ print_hex (unat (rev_id x)) @ [CHR 0x0A]\<rparr>)"

text \<open>The last register in memory that the table writes for an action, 0 if there is none.\<close>

definition last_register :: "einj_action \<Rightarrow> whea_entry list \<Rightarrow> u64" where
  "last_register a tab = fold (\<lambda>en p. if action en = a \<and> instruction en = WRITE_REGISTER \<and> in_memory en then reg_address en else p) tab 0"

definition einj_get_parameter_address :: "init_env \<Rightarrow> einj_table \<Rightarrow> 'f einj \<Rightarrow> param_block option \<times> 'f einj" where
  "einj_get_parameter_address iv tb e =
     (let tab = take (unat (entries tb)) (tab_entries tb); pa_v4 = last_register SET_ERROR_TYPE tab;
          pa_v5 = last_register SET_ERROR_TYPE_WITH_ADDRESS tab; b5 = (if pa_v5 \<noteq> 0 then map_v5 iv pa_v5 else None) in
      case b5 of
        Some b \<Rightarrow> (Some (V5 b), check_vendor_extension iv pa_v5 b (hold E_PARAM (e\<lparr>acpi5 := True\<rparr>)))
      | None \<Rightarrow>
          if param_extension e \<and> pa_v4 \<noteq> 0
          then (case map_v4 iv pa_v4 of
              None \<Rightarrow> (None, e)
            | Some b \<Rightarrow> if reserved1 b \<noteq> 0 \<or> reserved2 b \<noteq> 0 then (None, unhold E_PARAM (hold E_PARAM e)) else (Some (V4 b), hold E_PARAM e))
          else (None, e))"

definition einj_check_table :: "init_env \<Rightarrow> einj_table \<Rightarrow> int" where
  "einj_check_table iv tb =
     (if header_length tb \<noteq> sz_table iv - sz_header iv \<and> header_length tb \<noteq> sz_table iv then - EINVAL
      else if tab_length tb < sz_table iv then - EINVAL
      else if entries tb \<noteq> (tab_length tb - sz_table iv) div sz_record iv then - EINVAL
      else 0)"

definition unmap_param :: "'f einj \<Rightarrow> 'f einj" where
  "unmap_param e = (if einj_param e \<noteq> None then unhold E_PARAM e else e)"

definition einj_files :: "'f einj \<Rightarrow> string list" where
  "einj_files e =
     (if (param_extension e \<or> acpi5 e) \<and> einj_param e \<noteq> None
      then [''flags'', ''param1'', ''param2'', ''param3'', ''param4'', ''notrigger''] else []) @
     (if vendor_dev e \<noteq> [] then [''vendor'', ''vendor_flags''] else [])"

text \<open>\<open>einj_init\<close> with its exits from the innermost label outwards; as in the trigger, an error of the mapping is ignored.\<close>

definition err_cleanup :: "int \<Rightarrow> 'f einj \<Rightarrow> int \<times> 'f einj" where
  "err_cleanup rc e = (rc, unhold E_DIR e)"

definition err_fini :: "int \<Rightarrow> 'f einj \<Rightarrow> int \<times> 'f einj" where
  "err_fini rc e = err_cleanup rc (unhold E_RESOURCES e)"

definition err_unmap :: "int \<Rightarrow> 'f einj \<Rightarrow> int \<times> 'f einj" where
  "err_unmap rc e = err_fini rc (unhold E_REQUESTED (unhold E_GARS (unmap_param e)))"

definition einj_start :: "init_env \<Rightarrow> einj_table \<Rightarrow> 'f einj \<Rightarrow> int \<times> 'f einj" where
  "einj_start iv tb e =
     (let e = hold E_REQUESTED e; e = (if init_pre_map iv = 0 then hold E_GARS e else e) in
      case einj_get_parameter_address iv tb e of (b, e) \<Rightarrow>
        let e = e\<lparr>einj_param := b\<rparr> in if list_all (create_file iv) (einj_files e) then (0, e) else err_unmap (- ENOMEM) e)"

definition einj_init :: "init_env \<Rightarrow> 'f einj \<Rightarrow> int \<times> 'f einj" where
  "einj_init iv e =
     (if acpi_disabled iv then (- ENODEV, e)
      else case acpi_get_table iv of
        Not_Found \<Rightarrow> (- ENODEV, e)
      | Failure \<Rightarrow> (- EINVAL, e)
      | Table tb \<Rightarrow>
          if einj_check_table iv tb \<noteq> 0 then (- EINVAL, e)
          else if \<not> create_dir iv then err_cleanup (- ENOMEM) e
          else let e = hold E_DIR e in
            if \<not> list_all (create_file iv) [''available_error_type'', ''error_type'', ''error_inject''] then err_cleanup (- ENOMEM) e
            else let e = hold E_RESOURCES e in
              if init_collect iv \<noteq> 0 then err_fini (init_collect iv) e
              else if init_request iv \<noteq> 0 then err_fini (init_request iv) e
              else einj_start iv tb e)"

definition einj_exit :: "'f einj \<Rightarrow> 'f einj" where
  "einj_exit e = unhold E_DIR (unhold E_RESOURCES (unhold E_REQUESTED (unhold E_GARS (unmap_param e))))"

text \<open>The module as it is loaded: zeroed statics, the module parameter and the firmware.\<close>

definition einj_loaded :: "bool \<Rightarrow> 'f \<Rightarrow> 'f einj" where
  "einj_loaded pe f = \<lparr>acpi5 = False, param_extension = pe, notrigger = 0, vendor_flags = 0, vendor_dev = [], einj_param = None,
     error_type = 0, error_flags = 0, error_param1 = 0, error_param2 = 0, error_param3 = 0, error_param4 = 0, held = [], fw = f\<rparr>"

text \<open>What a user does through the files, whatever the return code.\<close>

datatype einj_op = Show_Available | Set_Type u64 | Inject u64 | Set_Flags u32 | Set_Param1 u64 | Set_Param2 u64 | Set_Param3 u64
  | Set_Param4 u64 | Set_Notrigger u32 | Set_Vendor_Flags u32

fun einj_step :: "'f apei \<Rightarrow> einj_op \<Rightarrow> 'f einj \<Rightarrow> 'f einj res" where
  "einj_step ap Show_Available e = Inr (snd (snd (available_error_type_show ap e)))"
| "einj_step ap (Set_Type v) e = Inr (snd (error_type_set ap v e))"
| "einj_step ap (Inject v) e = map_sum id snd (error_inject_set ap v e)"
| "einj_step ap (Set_Flags v) e = Inr (e\<lparr>error_flags := v\<rparr>)"
| "einj_step ap (Set_Param1 v) e = Inr (e\<lparr>error_param1 := v\<rparr>)"
| "einj_step ap (Set_Param2 v) e = Inr (e\<lparr>error_param2 := v\<rparr>)"
| "einj_step ap (Set_Param3 v) e = Inr (e\<lparr>error_param3 := v\<rparr>)"
| "einj_step ap (Set_Param4 v) e = Inr (e\<lparr>error_param4 := v\<rparr>)"
| "einj_step ap (Set_Notrigger v) e = Inr (e\<lparr>notrigger := v\<rparr>)"
| "einj_step ap (Set_Vendor_Flags v) e = Inr (e\<lparr>vendor_flags := v\<rparr>)"

end
