(* ===== verification/Error_Injection_Safety.thy ===== *)
theory Error_Injection_Safety
  imports Error_Injection
begin

text \<open>
  Properties of the error injection driver, for any firmware and any platform: nothing is left allocated or mapped, the wait for the
  firmware ends, tables and texts stay in their bounds, and no memory error is injected at an address that was not checked.
\<close>

unbundle bit_operations_syntax

section \<open>Nothing is left held\<close>

text \<open>\<open>fw_only\<close>: nothing but the firmware has changed.\<close>

definition fw_only :: "'f einj \<Rightarrow> 'f einj \<Rightarrow> bool" where
  "fw_only e e' \<longleftrightarrow> (\<exists>f. e' = e\<lparr>fw := f\<rparr>)"

lemma fw_only_fields:
  "fw_only e e' \<Longrightarrow> acpi5 e' = acpi5 e \<and> einj_param e' = einj_param e \<and> held e' = held e \<and> vendor_flags e' = vendor_flags e"
  by (auto simp: fw_only_def)

lemma fw_only_refl [simp]: "fw_only e e"
  unfolding fw_only_def by (rule exI [of _ "fw e"]) simp

lemma fw_only_fw [simp]: "fw_only e (e\<lparr>fw := f\<rparr>)"
  by (auto simp: fw_only_def)

lemma fw_only_trans: "fw_only e e' \<Longrightarrow> fw_only e' e'' \<Longrightarrow> fw_only e e''"
  by (auto simp: fw_only_def)

lemma apei_exec_run_fw_only: "apei_exec_run ap a v e = (rc, v', e') \<Longrightarrow> fw_only e e'"
  by (auto simp: apei_exec_run_def split: prod.splits)

lemma apei_exec_run_optional_fw_only: "apei_exec_run_optional ap a v e = (rc, v', e') \<Longrightarrow> fw_only e e'"
  by (auto simp: apei_exec_run_optional_def split: prod.splits)

lemma einj_wait_fw_only: "einj_wait ap t v e = (rc, v', e') \<Longrightarrow> fw_only e e'"
proof (induction ap t v e rule: einj_wait.induct)
  case (1 ap t v e)
  obtain r w e1 where r: "apei_exec_run ap CHECK_BUSY_STATUS v e = (r, w, e1)" by (metis prod_cases3)
  then have q: "fw_only e e1" by (rule apei_exec_run_fw_only)
  obtain d t' where t: "einj_timedout t = (d, t')" by force
  have "fw_only e1 e'" if "einj_wait ap t' w e1 = (rc, v', e')" "r = 0" "w AND EINJ_OP_BUSY \<noteq> 0" "\<not> d"
    using 1(1) [OF r [symmetric]] that t by auto
  then show ?case using 1(2) r q t by (subst (asm) einj_wait.simps) (auto split: if_splits bool.splits intro: fw_only_trans)
qed

lemma unhold_hold [simp]: "unhold ob (hold ob e) = e"
  by (simp add: hold_def unhold_def)

lemma unhold_hold_other: "ob \<noteq> ob' \<Longrightarrow> unhold ob (hold ob' e) = hold ob' (unhold ob e)"
  by (simp add: hold_def unhold_def)

lemma unhold_absent: "ob \<notin> set (held e) \<Longrightarrow> unhold ob e = e"
  by (simp add: unhold_def remove1_idem)

lemma hold_fw: "(hold ob e)\<lparr>fw := f\<rparr> = hold ob (e\<lparr>fw := f\<rparr>)"
  by (simp add: hold_def)

lemma held_hold [simp]: "held (hold ob e) = ob # held e"
  by (simp add: hold_def)

lemmas holding = unhold_hold_other hold_fw unhold_absent

lemma run_trigger_fw_only:
  assumes "T_GARS \<notin> set (held e)" "run_trigger ap tv tab n ty p1 p2 e = (rc, e')"
  shows "fw_only e e'"
  using assms(2,1) unfolding run_trigger_def Let_def by (simp add: holding split: if_splits prod.splits) auto

lemma fw_only_hold: "fw_only (hold ob e) e' \<Longrightarrow> \<exists>e''. e' = hold ob e'' \<and> fw_only e e''"
  by (auto simp: fw_only_def hold_fw)

lemma einj_error_trigger_fw_only:
  assumes "T_GARS \<notin> set (held e)" "einj_error_trigger ap paddr ty p1 p2 e = (rc, e')"
  shows "fw_only e e'"
proof -
  have "\<exists>e2. fw_only e e2 \<and> out = hold T_RESOURCES (hold T_MAP (hold T_ENTRIES (hold T_HEADER e2)))"
    if "run_trigger ap tv tab n ty p1 p2 (hold T_RESOURCES (hold T_MAP (hold T_ENTRIES (hold T_HEADER e)))) = (r, out)" for tv tab n r out
    using run_trigger_fw_only [OF _ that] assms(1) by (force dest: fw_only_hold)
  with assms(2) show ?thesis
    unfolding einj_error_trigger_def Let_def by (fastforce simp: holding split: if_splits option.splits prod.splits)
qed

text \<open>
  The block has the layout that \<^verbatim>\<open>acpi5\<close> says, it is mapped when it is there, and no register of a trigger table is left mapped.
\<close>

fun typed_block :: "bool \<Rightarrow> param_block option \<Rightarrow> bool" where
  "typed_block a (Some (V5 b)) = a"
| "typed_block a (Some (V4 b)) = (\<not> a)"
| "typed_block a None = (\<not> a)"

definition einj_ok :: "'f einj \<Rightarrow> bool" where
  "einj_ok e \<longleftrightarrow> typed_block (acpi5 e) (einj_param e) \<and> (einj_param e \<noteq> None \<longleftrightarrow> E_PARAM \<in> set (held e)) \<and>
     T_GARS \<notin> set (held e)"

lemma fw_only_ok: "fw_only e e' \<Longrightarrow> einj_ok e \<Longrightarrow> einj_ok e' \<and> held e' = held e"
  by (auto simp: einj_ok_def dest: fw_only_fields)

text \<open>\<open>calm r e\<close>: the operation returned, and it kept the invariant and what is held.\<close>

definition calm :: "(int \<times> 'f einj) res \<Rightarrow> 'f einj \<Rightarrow> bool" where
  "calm r e \<longleftrightarrow> (\<exists>rc e'. r = Inr (rc, e') \<and> einj_ok e' \<and> held e' = held e)"

lemma calm_Inr: "einj_ok e \<Longrightarrow> calm (Inr (rc, e)) e"
  by (simp add: calm_def)

lemma calm_on_success:
  assumes "\<And>rc v e'. r = (rc, v, e') \<Longrightarrow> fw_only e e'" "einj_ok e"
    "\<And>v e'. fw_only e e' \<Longrightarrow> einj_ok e' \<Longrightarrow> calm (k v e') e'"
  shows "calm (on_success r k) e"
proof -
  obtain rc v e' where r: "r = (rc, v, e')" by (metis prod_cases3)
  note q = assms(1) [OF r]
  show ?thesis using fw_only_ok [OF q assms(2)] assms(3) [OF q, of v] by (auto simp: on_success_def r calm_def)
qed

lemma execute_error_calm:
  assumes "einj_ok e" shows "calm (execute_error ap ty p1 p2 v e) e"
proof -
  have t: "calm (case (if notrigger e = 0 then einj_error_trigger ap v ty p1 p2 e else (0, e)) of (rc, e) \<Rightarrow>
      if rc \<noteq> 0 then Inr (rc, e) else on_success (apei_exec_run_optional ap END_OPERATION v e) (\<lambda>v e. Inr (0, e))) e"
    if ok: "einj_ok e" for v :: u64 and e :: "'a einj"
  proof -
    obtain rc e' where r: "(if notrigger e = 0 then einj_error_trigger ap v ty p1 p2 e else (0, e)) = (rc, e')" by force
    then have "fw_only e e'" using ok by (auto simp: einj_ok_def intro: einj_error_trigger_fw_only split: if_splits)
    then have e': "einj_ok e'" "held e' = held e" using fw_only_ok ok by auto
    have "calm (on_success (apei_exec_run_optional ap END_OPERATION v e') (\<lambda>v e. Inr (0, e))) e'"
      using e'(1) by (intro calm_on_success) (auto intro: apei_exec_run_optional_fw_only calm_Inr)
    then show ?thesis using e' by (auto simp: r calm_def)
  qed
  show ?thesis unfolding execute_error_def
    by (intro calm_on_success assms) (auto intro: apei_exec_run_fw_only einj_wait_fw_only calm_Inr calm_on_success t)
qed

lemma einj_error_inject_calm:
  assumes "einj_ok e" shows "calm (einj_error_inject ap ty flags p1 p2 p3 p4 e) e"
proof -
  have x: "calm (execute_error ap ty p1 p2 v (e\<lparr>einj_param := Some p\<rparr>)) e"
    if "einj_ok e" "typed_block (acpi5 e) (Some p)" "einj_param e \<noteq> None" for v p and e :: "'a einj"
    using execute_error_calm [of "e\<lparr>einj_param := Some p\<rparr>" ap ty p1 p2 v] that by (simp add: calm_def einj_ok_def)
  have "calm (einj_error_inject_locked ap ty flags p1 p2 p3 p4 e) e" unfolding einj_error_inject_locked_def
  proof (intro calm_on_success [OF apei_exec_run_optional_fw_only assms], assumption, goal_cases)
    case (1 v e')
    then have ok: "typed_block (acpi5 e') (einj_param e')" by (simp add: einj_ok_def)
    have set: "calm (on_success (apei_exec_run ap SET_ERROR_TYPE (ucast ty) e') (\<lambda>v e. case einj_param e of
           None \<Rightarrow> execute_error ap ty p1 p2 v e
         | Some (V4 b) \<Rightarrow> execute_error ap ty p1 p2 v (e\<lparr>einj_param := Some (V4 (b\<lparr>param1 := p1, param2 := p2\<rparr>))\<rparr>)
         | Some (V5 b) \<Rightarrow> Inl Oob)) e'" if "\<not> acpi5 e'"
    proof (rule calm_on_success [OF apei_exec_run_fw_only 1(2)], assumption)
      fix v e2 assume e2: "fw_only e' e2" "einj_ok e2"
      then have "typed_block False (einj_param e2)" using that ok fw_only_fields [OF e2(1)] by simp
      with e2 that show "calm (case einj_param e2 of None \<Rightarrow> execute_error ap ty p1 p2 v e2
         | Some (V4 b) \<Rightarrow> execute_error ap ty p1 p2 v (e2\<lparr>einj_param := Some (V4 (b\<lparr>param1 := p1, param2 := p2\<rparr>))\<rparr>)
         | Some (V5 b) \<Rightarrow> Inl Oob) e2"
        by (auto simp: execute_error_calm x fw_only_fields split: option.splits param_block.splits)
    qed
    show ?case
      using ok set 1 by (auto simp: x split: option.splits param_block.splits)
  qed
  then show ?thesis using assms by (auto simp: einj_error_inject_def calm_Inr)
qed

lemma error_type_set_fw_only:
  "\<exists>e'. fw_only e e' \<and> (snd (error_type_set ap v e) = e' \<or> snd (error_type_set ap v e) = e'\<lparr>error_type := ucast v\<rparr>)"
proof -
  obtain rc v' e' where r: "apei_exec_run ap GET_ERROR_TYPE (ctx_junk ap) e = (rc, v', e')" by (metis prod_cases3)
  note apei_exec_run_fw_only [OF this]
  moreover have "snd (error_type_set ap v e) \<in> {e, e\<lparr>error_type := ucast v\<rparr>, e', e'\<lparr>error_type := ucast v\<rparr>}"
    by (auto simp: error_type_set_def einj_get_available_error_type_def r Let_def)
  ultimately show ?thesis by (auto intro: fw_only_refl)
qed

lemma einj_step_calm: "einj_ok e \<Longrightarrow> \<exists>e'. einj_step ap op e = Inr e' \<and> einj_ok e' \<and> held e' = held e"
proof (cases op)
  case Show_Available
  assume ok: "einj_ok e"
  obtain rc v' e' where r: "apei_exec_run ap GET_ERROR_TYPE (ctx_junk ap) e = (rc, v', e')" by (metis prod_cases3)
  then show ?thesis using fw_only_ok [OF apei_exec_run_fw_only [OF r] ok] Show_Available
    by (simp add: available_error_type_show_def einj_get_available_error_type_def)
next
  case (Set_Type v)
  assume ok: "einj_ok e"
  obtain e' where "fw_only e e'" "snd (error_type_set ap v e) = e' \<or> snd (error_type_set ap v e) = e'\<lparr>error_type := ucast v\<rparr>"
    using error_type_set_fw_only by blast
  then show ?thesis using fw_only_ok [of e e'] ok Set_Type by (auto simp: einj_ok_def)
next
  case (Inject v)
  assume ok: "einj_ok e"
  have "calm (error_inject_set ap v e) e"
    using ok by (simp add: error_inject_set_def calm_Inr einj_error_inject_calm)
  then show ?thesis using Inject by (auto simp: calm_def)
qed (auto simp: einj_ok_def)

interpretation injector: refinement "\<lambda>_ _. True" "einj_step ap" einj_ok held "\<lambda>_ h. h"
  using einj_step_calm by unfold_locales auto

text \<open>Loading: what is held after success is what the unloading gives back, and after a failure nothing is.\<close>

definition held_loaded :: "'f einj \<Rightarrow> bool" where
  "held_loaded e \<longleftrightarrow> (\<exists>g\<in>{[], [E_GARS]}. held e = (if einj_param e \<noteq> None then [E_PARAM] else []) @ g @ [E_REQUESTED, E_RESOURCES, E_DIR])"

lemma held_unhold [simp]: "held (unhold ob e) = remove1 ob (held e)"
  by (simp add: unhold_def)

lemma held_unmap_param: "held (unmap_param e) = (if einj_param e \<noteq> None then remove1 E_PARAM (held e) else held e)"
  by (simp add: unmap_param_def)

lemma held_loaded_exit: "held_loaded e \<Longrightarrow> held (einj_exit e) = []"
  by (auto simp: held_loaded_def einj_exit_def held_unmap_param)

lemma held_loaded_err: "held_loaded e \<Longrightarrow> err_unmap rc e = (rc', e') \<Longrightarrow> rc' = rc \<and> held e' = []"
  by (auto simp: held_loaded_def err_unmap_def err_fini_def err_cleanup_def held_unmap_param)

lemma check_vendor_extension_fields:
  "held (check_vendor_extension iv p b e) = held e" "acpi5 (check_vendor_extension iv p b e) = acpi5 e"
  by (auto simp: check_vendor_extension_def Let_def split: option.splits)

lemma einj_get_parameter_address_held:
  "einj_get_parameter_address iv tb e = (b, e') \<Longrightarrow> \<not> acpi5 e \<Longrightarrow>
     held e' = (if b \<noteq> None then [E_PARAM] else []) @ held e \<and> typed_block (acpi5 e') b"
  by (auto simp: einj_get_parameter_address_def Let_def check_vendor_extension_fields hold_def unhold_def split: option.splits if_splits)

lemma einj_init_held:
  assumes "einj_init iv (einj_loaded pe f) = (rc, e)"
  shows "(rc \<noteq> 0 \<longrightarrow> held e = []) \<and> (rc = 0 \<longrightarrow> held_loaded e \<and> einj_ok e)"
proof -
  have s: "(rc \<noteq> 0 \<longrightarrow> held e = []) \<and> (rc = 0 \<longrightarrow> held_loaded e \<and> einj_ok e)"
    if r: "einj_start iv tb (hold E_RESOURCES (hold E_DIR (einj_loaded pe f))) = (rc, e)" for tb
  proof -
    define e0 where "e0 = (let e = hold E_REQUESTED (hold E_RESOURCES (hold E_DIR (einj_loaded pe f))) in
      if init_pre_map iv = 0 then hold E_GARS e else e)"
    obtain b e1 where b: "einj_get_parameter_address iv tb e0 = (b, e1)" by force
    have e0: "\<not> acpi5 e0" "held e0 \<in> {[E_REQUESTED, E_RESOURCES, E_DIR], [E_GARS, E_REQUESTED, E_RESOURCES, E_DIR]}"
      by (simp_all add: e0_def einj_loaded_def hold_def Let_def)
    have l: "held_loaded (e1\<lparr>einj_param := b\<rparr>) \<and> einj_ok (e1\<lparr>einj_param := b\<rparr>)"
      using einj_get_parameter_address_held [OF b e0(1)] e0(2) by (auto simp: held_loaded_def einj_ok_def)
    have "einj_start iv tb (hold E_RESOURCES (hold E_DIR (einj_loaded pe f))) =
        (let e = e1\<lparr>einj_param := b\<rparr> in if list_all (create_file iv) (einj_files e) then (0, e) else err_unmap (- ENOMEM) e)"
      using b by (simp add: einj_start_def e0_def Let_def)
    with r l show ?thesis using held_loaded_err [of "e1\<lparr>einj_param := b\<rparr>" "- ENOMEM" rc e]
      by (auto simp: Let_def ENOMEM_def split: if_splits)
  qed
  have h: "held (einj_loaded pe f) = []" by (simp add: einj_loaded_def)
  from assms s show ?thesis unfolding einj_init_def Let_def
    by (auto simp: err_cleanup_def err_fini_def h EINVAL_def ENODEV_def ENOMEM_def split: if_splits acpi_answer.splits)
qed

text \<open>
  A platform used for examples: an ACPI 5 table with one entry, firmware that does what it is asked, and a trigger
  table with one entry at every address.
\<close>

definition sample_fw :: "nat apei" where
  "sample_fw = \<lparr>exec_run = \<lambda>a opt p v n. (0, if a = GET_ERROR_TYPE then 0x38 else if a = CHECK_BUSY_STATUS then (if n < 3 then 1 else 0) else 0,
       if a = CHECK_BUSY_STATUS then Suc n else n),
     exec_trigger = \<lambda>tab n. (0, n),
     trigger_at = \<lambda>p n. \<lparr>req_header = True, map_header = Some \<lparr>header_size = 16, table_size = 48, entry_count = 1\<rparr>, req_entries = True,
       map_table = Some [\<lparr>action = TRIGGER_ERROR, instruction = WRITE_REGISTER_VALUE, in_memory = True, reg_address = 0x5000, bit_width = 64\<rparr>],
       collect_ret = 0, sub_ret = 0, add_ret = 0, sub_addr_ret = 0, request_ret = 0, pre_map_ret = 0\<rparr>,
     page_is_ram = \<lambda>n. n < 16, ctx_junk = 7, sz_trigger = 16, sz_entry = 32\<rparr>"

definition sample_block :: set_error_type_with_address where
  "sample_block = \<lparr>v5_type = 0, vendor_extension = 0x10, v5_flags = 0, apicid = 0, memory_address = 0, memory_address_range = 0, pcie_sbdf = 0\<rparr>"

definition sample_init :: init_env where
  "sample_init = \<lparr>acpi_disabled = False,
     acpi_get_table = Table \<lparr>tab_length = 80, header_length = 12, entries = 1, tab_entries =
       [\<lparr>action = SET_ERROR_TYPE_WITH_ADDRESS, instruction = WRITE_REGISTER, in_memory = True, reg_address = 0x9000, bit_width = 64\<rparr>]\<rparr>,
     sz_table = 48, sz_header = 36, sz_record = 32, create_dir = True, create_file = \<lambda>_. True, init_collect = 0, init_request = 0,
     init_pre_map = - 22, map_v5 = \<lambda>_. Some sample_block, map_v4 = \<lambda>_. None,
     map_vendor = \<lambda>_. Some \<lparr>ext_sbdf = 0x01020304, vendor_id = 0x8086, device_id = 0x10, rev_id = 2\<rparr>\<rparr>"

definition sample_driver :: "'f \<Rightarrow> 'f einj" where
  "sample_driver f = (einj_loaded True f)\<lparr>acpi5 := True, einj_param := Some (V5 sample_block),
     vendor_dev := ''1:2:0.3 vendor_id=8086 device_id=10 rev_id=2'' @ [CHR 0x0A], held := [E_PARAM, E_REQUESTED, E_RESOURCES, E_DIR]\<rparr>"

lemma sample_init_loads: "einj_init sample_init (einj_loaded True f) = (0, sample_driver f)"
  by (simp add: einj_init_def sample_init_def einj_check_table_def einj_start_def einj_get_parameter_address_def last_register_def
    check_vendor_extension_def print_hex.simps einj_files_def hold_def sample_block_def sample_driver_def einj_loaded_def Let_def)

text \<open>C15:
  The module gives back everything. Whatever the platform and the kernel answer, a load that fails leaves no directory, resource,
  register or block behind. After a load that succeeds, whatever sequence of reads, writes and injections a user makes, with any firmware,
  every further operation returns (none uses the parameter block under the wrong layout), what the module holds is what it held after
  the load (no injection leaves a region requested or a table mapped, on any of its error exits), and unloading gives back all of it.
\<close>

theorem einj_module_balanced:
  assumes "einj_init iv (einj_loaded pe f) = (rc, e)"
  shows "(rc \<noteq> 0 \<longrightarrow> held e = []) \<and>
    (rc = 0 \<and> run (\<lambda>_ _. True) (einj_step ap) e ops e' \<longrightarrow>
       held e' = held e \<and> held (einj_exit e') = [] \<and> (\<exists>e''. einj_step ap op e' = Inr e''))"
proof -
  have "held e' = held e \<and> held (einj_exit e') = [] \<and> (\<exists>e''. einj_step ap op e' = Inr e'')"
    if "rc = 0" and r: "run (\<lambda>_ _. True) (einj_step ap) e ops e'"
  proof -
    from that(1) have l: "held_loaded e" "einj_ok e" using einj_init_held [OF assms] by auto
    have "fold (\<lambda>_ h. h) ops (held e) = held e" by (induction ops) auto
    then have ok: "einj_ok e'" "held e' = held e" using injector.run_refines [OF r l(2)] by simp_all
    then have "held_loaded e'" using l by (auto simp: held_loaded_def einj_ok_def)
    then show ?thesis using held_loaded_exit ok injector.run_progress [OF r l(2)] by auto
  qed
  then show ?thesis using einj_init_held [OF assms] by auto
qed

lemma sample_set_type:
  "einj_step sample_fw (Set_Type 0x8) (sample_driver 0) = Inr ((sample_driver 0)\<lparr>error_type := 8\<rparr>)"
  by (simp add: error_type_set_def sample_fw_def einj_get_available_error_type_def apei_exec_run_def Let_def)

lemma sample_inject:
  "einj_step sample_fw (Inject 1) ((sample_driver 0)\<lparr>error_type := 8, error_param1 := 0x5000, error_param2 := 0xfffffffffffff000\<rparr>) =
    Inr ((sample_driver 0)\<lparr>error_type := 8, error_param1 := 0x5000, error_param2 := 0xfffffffffffff000, fw := 4,
      einj_param := Some (V5 (sample_block\<lparr>v5_type := 8, v5_flags := 2, memory_address := 0x5000, memory_address_range := 0xfffffffffffff000\<rparr>))\<rparr>)"
  by code_simp

theorem einj_module_balanced_witness:
  "\<exists>e. run (\<lambda>_ _. True) (einj_step sample_fw) (sample_driver 0)
       [Set_Type 0x8, Set_Param1 0x5000, Set_Param2 0xfffffffffffff000, Inject 1] e \<and> fw e = 4 \<and> held (einj_exit e) = []"
proof -
  let ?ok = "\<lambda>_ _. True"
  note steps = run.more [OF run.more [OF run.more [OF run.more [OF run.start]]], where step = "einj_step sample_fw" and allowed = ?ok, simplified]
  have "run ?ok (einj_step sample_fw) (sample_driver 0) [Set_Type 0x8, Set_Param1 0x5000, Set_Param2 0xfffffffffffff000, Inject 1]
      (projr (einj_step sample_fw (Inject 1) ((sample_driver 0)\<lparr>error_type := 8, error_param1 := 0x5000, error_param2 := 0xfffffffffffff000\<rparr>)))"
    by (rule steps [OF sample_set_type]) (auto simp: sample_inject simp del: einj_step.simps(3))
  from conjunct2 [OF einj_module_balanced [OF sample_init_loads, where ap = sample_fw]] this show ?thesis
    by (fastforce simp: sample_inject simp del: einj_step.simps)
qed

section \<open>The answer of the firmware\<close>

text \<open>The polls one after the other, each with the value that the previous one left.\<close>

definition poll :: "'f apei \<Rightarrow> int \<times> u64 \<times> 'f einj \<Rightarrow> int \<times> u64 \<times> 'f einj" where
  "poll ap = (\<lambda>(rc, v, e). apei_exec_run ap CHECK_BUSY_STATUS v e)"

fun answered :: "int \<times> u64 \<times> 'f einj \<Rightarrow> bool" where
  "answered (rc, v, e) \<longleftrightarrow> rc \<noteq> 0 \<or> v AND EINJ_OP_BUSY = 0"

definition first_answer :: "'f apei \<Rightarrow> nat \<Rightarrow> int \<times> u64 \<times> 'f einj \<Rightarrow> int \<times> u64 \<times> 'f einj" where
  "first_answer ap n x = (case find (\<lambda>k. answered ((poll ap ^^ Suc k) x)) [0..<n] of
     Some k \<Rightarrow> (poll ap ^^ Suc k) x
   | None \<Rightarrow> (- EIO, snd ((poll ap ^^ n) x)))"

lemma find_map: "find P (map f xs) = map_option f (find (P \<circ> f) xs)"
  by (induction xs) auto

lemma first_answer_Suc:
  "first_answer ap (Suc n) x = (if answered (poll ap x) then poll ap x else if n = 0 then (- EIO, snd (poll ap x))
     else first_answer ap n (poll ap x))"
proof -
  have "[0..<Suc n] = 0 # map Suc [0..<n]" by (simp add: upt_conv_Cons map_Suc_upt del: upt_Suc)
  then show ?thesis
    by (auto simp: first_answer_def find_map comp_def funpow_swap1 simp del: upt_Suc split: option.splits)
qed

lemma einj_timedout_nat:
  assumes "n < 2 ^ 63"
  shows "einj_timedout (word_of_nat n) = (if n < 100 then (True, word_of_nat n) else (False, word_of_nat (n - 100)))"
proof -
  have "sint (word_of_nat n :: u64) = int n" using assms by (simp add: signed_of_nat signed_take_bit_int_eq_self)
  then show ?thesis by (auto simp: einj_timedout_def SPIN_UNIT_def of_nat_diff)
qed

lemma einj_wait_polls:
  "100 * n + 100 \<le> 2 ^ 63 \<Longrightarrow> einj_wait ap (word_of_nat (100 * n)) v e = first_answer ap (Suc n) (rc, v, e)"
proof (induction n arbitrary: v e rc)
  case 0
  then show ?case using einj_timedout_nat [of 0]
    by (subst einj_wait.simps) (auto simp: first_answer_Suc poll_def split: prod.splits)
next
  case (Suc n)
  have t: "einj_timedout (word_of_nat (100 * Suc n)) = (False, word_of_nat (100 * n))"
    using einj_timedout_nat [of "100 * Suc n"] Suc.prems by (simp del: of_nat_Suc of_nat_add of_nat_mult)
  have IH: "einj_wait ap (word_of_nat (100 * n)) w e' = first_answer ap (Suc n) (r, w, e')" for w e' r
    using Suc.prems by (intro Suc.IH) simp
  show ?case
    by (subst einj_wait.simps, subst first_answer_Suc)
      (auto simp: t IH poll_def simp del: of_nat_mult of_nat_Suc of_nat_add mult_Suc_right split: prod.splits)
qed

text \<open>C30:
  Waiting for the firmware ends, with any firmware. The driver polls the busy status until the first answer (an error, or not busy)
  and hands on that answer; if none of the first 10001 polls is answered, which is one millisecond in steps of 100 nanoseconds, it
  gives up with \<open>-EIO\<close> and polls no more.
\<close>

theorem einj_wait_first_answer:
  "einj_wait ap FIRMWARE_TIMEOUT v e = first_answer ap 10001 (0, v, e)"
  using einj_wait_polls [of 10000 ap v e 0] by (simp add: FIRMWARE_TIMEOUT_def)

text \<open>C31:
  The check of a trigger table is exact: it accepts a header when, in unbounded arithmetic, the header has the size of the structure,
  the entries that it counts fit into the table with less than an entry to spare, and the table fits into a page. So no entry that is
  run lies outside the memory that the driver has mapped.
\<close>

theorem einj_check_trigger_header_exact:
  assumes "sz_entry ap \<noteq> 0"
  shows "einj_check_trigger_header ap h = 0 \<longleftrightarrow> header_size h = sz_trigger ap \<and> unat (table_size h) \<le> 4096 \<and>
    unat (sz_trigger ap) + unat (entry_count h) * unat (sz_entry ap) \<le> unat (table_size h) \<and>
    unat (table_size h) < unat (sz_trigger ap) + (unat (entry_count h) + 1) * unat (sz_entry ap)"
proof -
  have z: "0 < unat (sz_entry ap)" using assms by (simp add: unat_gt_0)
  have d: "entry_count h = (table_size h - sz_trigger ap) div sz_entry ap \<longleftrightarrow>
      unat (entry_count h) = (unat (table_size h) - unat (sz_trigger ap)) div unat (sz_entry ap)" if "sz_trigger ap \<le> table_size h"
    using that by (simp add: word_unat_eq_iff unat_div unat_sub)
  have q: "unat (entry_count h) = m div k \<longleftrightarrow> unat (entry_count h) * k \<le> m \<and> m < (unat (entry_count h) + 1) * k" if "0 < k" for m k :: nat
    using that by (metis (no_types, opaque_lifting) Suc_eq_plus1 div_nat_eqI dividend_less_times_div div_times_less_eq_dividend mult.commute mult_Suc)
  show ?thesis
  proof (cases "sz_trigger ap \<le> table_size h")
    case True
    then obtain m where m: "unat (table_size h) = unat (sz_trigger ap) + m" by (metis le_Suc_ex word_le_nat_alt)
    have "einj_check_trigger_header ap h = 0 \<longleftrightarrow> header_size h = sz_trigger ap \<and> unat (table_size h) \<le> 4096 \<and>
        unat (entry_count h) = m div unat (sz_entry ap)"
      using d [OF True] True m by (auto simp: einj_check_trigger_header_def EINVAL_def word_less_nat_alt word_le_nat_alt)
    then show ?thesis unfolding q [OF z] by (auto simp: m)
  next
    case False
    then show ?thesis by (auto simp: einj_check_trigger_header_def EINVAL_def word_less_nat_alt word_le_nat_alt)
  qed
qed

theorem einj_check_trigger_header_exact_witness:
  "einj_check_trigger_header sample_fw \<lparr>header_size = 16, table_size = 48, entry_count = 1\<rparr> = 0 \<and>
   einj_check_trigger_header sample_fw \<lparr>header_size = 16, table_size = 47, entry_count = 1\<rparr> \<noteq> 0"
  using einj_check_trigger_header_exact [of sample_fw "\<lparr>header_size = 16, table_size = 48, entry_count = 1\<rparr>"]
    einj_check_trigger_header_exact [of sample_fw "\<lparr>header_size = 16, table_size = 47, entry_count = 1\<rparr>"]
  by (simp add: sample_fw_def)

section \<open>What is injected\<close>

text \<open>The firmware with a record of the actions it ran, newest first, each with the parameter block that it found.\<close>

definition traced :: "'f apei \<Rightarrow> ('f \<times> (einj_action \<times> param_block option) list) apei" where
  "traced ap = \<lparr>exec_run = \<lambda>a opt p v (f, l). case exec_run ap a opt p v f of (rc, v, f) \<Rightarrow> (rc, v, f, (a, p) # l),
     exec_trigger = \<lambda>tab (f, l). case exec_trigger ap tab f of (rc, f) \<Rightarrow> (rc, f, l), trigger_at = \<lambda>p (f, l). trigger_at ap p f,
     page_is_ram = page_is_ram ap, ctx_junk = ctx_junk ap, sz_trigger = sz_trigger ap, sz_entry = sz_entry ap\<rparr>"

definition executed :: "('f \<times> (einj_action \<times> param_block option) list) einj \<Rightarrow> param_block option list" where
  "executed e = map snd (filter (\<lambda>x. fst x = EXECUTE_OPERATION) (snd (fw e)))"

lemma traced_run:
  "apei_exec_run (traced ap) a v e = (rc, v', e') \<Longrightarrow> executed e' = (if a = EXECUTE_OPERATION then [einj_param e] else []) @ executed e"
  by (auto simp: apei_exec_run_def traced_def executed_def split: prod.splits)

lemma traced_run_optional:
  "apei_exec_run_optional (traced ap) a v e = (rc, v', e') \<Longrightarrow> a \<noteq> EXECUTE_OPERATION \<Longrightarrow> executed e' = executed e"
  by (auto simp: apei_exec_run_optional_def traced_def executed_def split: prod.splits)

lemma executed_fields [simp]: "executed (hold ob e) = executed e" "executed (unhold ob e) = executed e"
  "executed (e\<lparr>einj_param := p\<rparr>) = executed e"
  by (simp_all add: executed_def hold_def unhold_def)

lemma traced_trigger: "run_trigger (traced ap) tv tab n ty p1 p2 e = (rc, e') \<Longrightarrow> executed e' = executed e"
  unfolding run_trigger_def Let_def by (auto simp: traced_def executed_def hold_def unhold_def split: if_splits prod.splits)

lemma traced_error_trigger: "einj_error_trigger (traced ap) pa ty p1 p2 e = (rc, e') \<Longrightarrow> executed e' = executed e"
  unfolding einj_error_trigger_def Let_def by (auto dest!: traced_trigger split: if_splits option.splits prod.splits)

lemma traced_wait: "einj_wait (traced ap) t v e = (rc, v', e') \<Longrightarrow> executed e' = executed e"
proof (induction "traced ap" t v e rule: einj_wait.induct)
  case (1 t v e)
  obtain r w e1 where r: "apei_exec_run (traced ap) CHECK_BUSY_STATUS v e = (r, w, e1)" by (metis prod_cases3)
  then have q: "executed e1 = executed e" using traced_run [OF r] by simp
  obtain d t' where t: "einj_timedout t = (d, t')" by force
  have "executed e' = executed e1" if "einj_wait (traced ap) t' w e1 = (rc, v', e')" "r = 0" "w AND EINJ_OP_BUSY \<noteq> 0" "\<not> d"
    using 1(1) [OF r [symmetric]] that t by auto
  then show ?case using 1(2) r q t by (subst (asm) einj_wait.simps) (auto split: if_splits bool.splits)
qed

text \<open>\<open>silent\<close>: nothing more is executed.\<close>

definition silent :: "(int \<times> ('f \<times> (einj_action \<times> param_block option) list) einj) res \<Rightarrow> ('f \<times> (einj_action \<times> param_block option) list) einj \<Rightarrow> bool" where
  "silent r e \<longleftrightarrow> (\<forall>rc e'. r = Inr (rc, e') \<longrightarrow> executed e' = executed e)"

lemma silent_Inr [simp]: "silent (Inr (rc, e)) e"
  by (simp add: silent_def)

lemma silent_on_success:
  assumes "\<And>rc v e'. r = (rc, v, e') \<Longrightarrow> executed e' = executed e" "\<And>v e'. silent (k v e') e'"
  shows "silent (on_success r k) e"
proof -
  obtain rc v e' where r: "r = (rc, v, e')" by (metis prod_cases3)
  show ?thesis using assms(1) [OF r] assms(2) [of v e'] by (auto simp: on_success_def silent_def r)
qed

lemma execute_error_executes:
  assumes "execute_error (traced ap) ty p1 p2 v e = Inr (rc, e')"
  shows "executed e' = einj_param e # executed e"
proof -
  define rest where "rest = (\<lambda>v e. on_success (einj_wait (traced ap) FIRMWARE_TIMEOUT v e) (\<lambda>v e.
     on_success (apei_exec_run (traced ap) GET_COMMAND_STATUS v e) (\<lambda>v e.
       if v \<noteq> EINJ_STATUS_SUCCESS then Inr (- EBUSY, e)
       else on_success (apei_exec_run (traced ap) GET_TRIGGER_TABLE v e) (\<lambda>v e.
         case (if notrigger e = 0 then einj_error_trigger (traced ap) v ty p1 p2 e else (0, e)) of (rc, e) \<Rightarrow>
           if rc \<noteq> 0 then Inr (rc, e)
           else on_success (apei_exec_run_optional (traced ap) END_OPERATION v e) (\<lambda>v e. Inr (0, e))))))"
  have t: "silent (case (if notrigger e = 0 then einj_error_trigger (traced ap) v ty p1 p2 e else (0, e)) of (rc, e) \<Rightarrow>
           if rc \<noteq> 0 then Inr (rc, e)
           else on_success (apei_exec_run_optional (traced ap) END_OPERATION v e) (\<lambda>v e. Inr (0, e))) e" for v e
  proof -
    obtain rc e1 where r: "(if notrigger e = 0 then einj_error_trigger (traced ap) v ty p1 p2 e else (0, e)) = (rc, e1)" by force
    then have x: "executed e1 = executed e" by (auto dest: traced_error_trigger split: if_splits)
    have "silent (on_success (apei_exec_run_optional (traced ap) END_OPERATION v e1) (\<lambda>v e. Inr (0, e))) e1"
      by (rule silent_on_success) (auto dest: traced_run_optional)
    then show ?thesis using x by (simp add: r silent_def)
  qed
  have s: "silent (rest v e) e" for v e unfolding rest_def
    by (intro silent_on_success; (auto dest: traced_wait traced_run intro!: silent_on_success t)?)
  obtain r w e1 where r: "apei_exec_run (traced ap) EXECUTE_OPERATION v e = (r, w, e1)" by (metis prod_cases3)
  have "(if r \<noteq> 0 then Inr (r, e1) else rest w e1) = Inr (rc, e')"
    using assms unfolding execute_error_def rest_def r by (simp add: on_success_def [of "(r, w, e1)"])
  then show ?thesis using traced_run [OF r] s [of w e1] by (auto simp: silent_def split: if_splits)
qed

lemma traced_ok [simp]: "address_ok (traced ap) p1 p2 = address_ok ap p1 p2"
  by (simp add: address_ok_def traced_def)

text \<open>
  The requests for which the block says what the error is about: vendor errors with one kind of parameter, and other errors
  with explicit flags or of a type for processors, memory or PCI Express.
\<close>

definition plain_request :: "u32 \<Rightarrow> u32 \<Rightarrow> u32 \<Rightarrow> bool" where
  "plain_request vflags ty flags \<longleftrightarrow>
     (if ty AND ACPI5_VENDOR_BIT \<noteq> 0 then vflags \<in> set [SETWA_FLAGS_APICID, SETWA_FLAGS_MEM, SETWA_FLAGS_PCIE_SBDF]
      else flags \<noteq> 0 \<or> ty \<in> set [0x1, 0x2, 0x4, 0x8, 0x10, 0x20, 0x40, 0x80, 0x100])"

definition checked_block :: "'f apei \<Rightarrow> u64 \<Rightarrow> u64 \<Rightarrow> set_error_type_with_address \<Rightarrow> bool" where
  "checked_block ap p1 p2 b \<longleftrightarrow> v5_flags b AND SETWA_FLAGS_MEM = 0 \<or>
     memory_address b = p1 \<and> memory_address_range b = p2 \<and> address_ok ap p1 p2"

lemma fill_v5_checked:
  assumes "plain_request vflags ty flags"
    "(if ty AND ACPI5_VENDOR_BIT \<noteq> 0 then vflags = SETWA_FLAGS_MEM else ty AND MEM_ERROR_MASK \<noteq> 0 \<or> flags AND SETWA_FLAGS_MEM \<noteq> 0) \<Longrightarrow>
       address_ok ap p1 p2"
  shows "checked_block ap p1 p2 (fill_v5 vflags ty flags p1 p2 p3 p4 b)"
proof (cases "ty AND ACPI5_VENDOR_BIT \<noteq> 0")
  case True
  then show ?thesis using assms
    by (auto simp: checked_block_def fill_v5_def plain_request_def Let_def SETWA_FLAGS_APICID_def SETWA_FLAGS_MEM_def SETWA_FLAGS_PCIE_SBDF_def)
next
  case False
  then show ?thesis using assms
    by (auto simp: checked_block_def fill_v5_def plain_request_def Let_def SETWA_FLAGS_APICID_def SETWA_FLAGS_MEM_def SETWA_FLAGS_PCIE_SBDF_def MEM_ERROR_MASK_def)
qed



section \<open>The error type\<close>

lemma single_bit:
  fixes x :: u32
  assumes "x AND (x - 1) = 0" "x \<noteq> 0"
  obtains k where "k < 32" "x = 2 ^ k"
proof -
  have "1 \<le> unat x" using assms(2) by (simp add: Suc_le_eq unat_gt_0)
  then obtain k where k: "2 ^ k \<le> unat x" "unat x < 2 ^ (k + 1)" using ex_power_ivl1 [of 2 "unat x"] by auto
  have "unat x < 2 ^ 32" using unsigned_less [of x] by simp
  with k(1) have "(2::nat) ^ k < 2 ^ 32" by (rule le_less_trans)
  then have l: "k < 32" by (rule power_less_imp_less_exp [rotated]) simp
  have b: "bit y k" if "2 ^ k \<le> unat y" "unat y < 2 ^ (k + 1)" for y :: u32
  proof -
    have "unat y div 2 ^ k = 1" using that by (intro div_nat_eqI) auto
    then have "bit (unat y) k" by (simp add: bit_iff_odd)
    then show ?thesis by (simp add: bit_unsigned_iff)
  qed
  have "unat x = 2 ^ k"
  proof (rule ccontr)
    assume "unat x \<noteq> 2 ^ k"
    moreover have "unat (x - 1) = unat x - 1" using assms(2) by (simp add: unat_minus_one)
    ultimately have "bit (x AND (x - 1)) k" using b [of x] b [of "x - 1"] k by (simp add: bit_and_iff)
    then show False using assms(1) by simp
  qed
  then have "word_of_nat (unat x) = (word_of_nat (2 ^ k) :: u32)" by simp
  then have "x = 2 ^ k" by simp
  with l that show thesis by blast
qed



section \<open>The vendor's device\<close>

lemma print_hex_length: "n < 16 ^ k \<Longrightarrow> 0 < k \<Longrightarrow> length (print_hex n) \<le> k"
proof (induction k arbitrary: n)
  case (Suc k)
  show ?case
  proof (cases "n < 16")
    case False
    then have "0 < k" using Suc.prems by (cases k) auto
    moreover have "n div 16 < 16 ^ k" using Suc.prems by (simp add: less_mult_imp_div_less mult.commute)
    ultimately have "length (print_hex (n div 16)) \<le> k" by (rule Suc.IH [rotated])
    with False show ?thesis by (subst print_hex.simps) simp
  qed (simp add: print_hex.simps)
qed simp

text \<open>The text that describes the vendor's device never overruns its buffer: whatever the extension table holds, it and its terminating zero
  fit into the 64 bytes of \<^verbatim>\<open>vendor_dev\<close>, with twelve to spare, so the unchecked \<^verbatim>\<open>sprintf\<close> is safe.
\<close>

theorem vendor_dev_fits: "length (vendor_dev e) \<le> 51 \<Longrightarrow> length (vendor_dev (check_vendor_extension iv paddr b e)) + 1 + 12 \<le> 64"
proof -
  have h: "length (print_hex (unat w)) \<le> k" if "unat w < 16 ^ k" "0 < k" for w :: "'w::len word" and k
    using print_hex_length that by blast
  have m: "unat (w AND k) \<le> unat k" for w k :: u32 using word_and_le1 [of w k] by (simp add: word_le_nat_alt)
  have "unat s < 16 ^ 2 * 2 ^ 24" for s :: u32 using unsigned_less [of s] by simp
  then have "unat s div 2 ^ 24 < 16 ^ 2" for s :: u32 by (rule less_mult_imp_div_less)
  then have d: "length (print_hex (unat (drop_bit 24 s))) \<le> 2" for s :: u32 by (intro h) (simp_all add: drop_bit_eq_div unat_div)
  have f: "length (print_hex (unat (w AND 0xff))) \<le> 2" "length (print_hex (unat (w AND 0x1f))) \<le> 2"
      "length (print_hex (unat (w AND 0x7))) \<le> 1" for w :: u32
    using m [of w "0xff"] m [of w "0x1f"] m [of w "0x7"] by (intro h; simp)+
  have i: "length (print_hex (unat v)) \<le> 4" for v :: u16 using unsigned_less [of v] by (intro h) simp_all
  have r: "length (print_hex (unat v)) \<le> 2" for v :: u8 using unsigned_less [of v] by (intro h) simp_all
  have t: "length (print_hex (unat (drop_bit 24 s))) + (length (print_hex (unat (drop_bit 16 s AND 0xff))) +
      (length (print_hex (unat (drop_bit 11 s AND 0x1f))) + (length (print_hex (unat (drop_bit 8 s AND 0x7))) +
      (length (print_hex (unat v1)) + (length (print_hex (unat v2)) + length (print_hex (unat v3))))))) \<le> 17"
    for s :: u32 and v1 v2 :: u16 and v3 :: u8
    using d [of s] f(1) [of "drop_bit 16 s"] f(2) [of "drop_bit 11 s"] f(3) [of "drop_bit 8 s"] i [of v1] i [of v2] r [of v3] by linarith
  assume "length (vendor_dev e) \<le> 51"
  then show ?thesis
    unfolding check_vendor_extension_def Let_def by (auto split: option.splits intro: t)
qed

text \<open>
  A vendor error with two kinds of parameter at once is not checked: the firmware is told to inject at the address of
  an earlier request, whatever address the user has given now.
\<close>

lemma vendor_flags_stale_address:
  "let e = (sample_driver (0, []))\<lparr>vendor_flags := SETWA_FLAGS_APICID OR SETWA_FLAGS_MEM,
             einj_param := Some (V5 (sample_block\<lparr>memory_address := 0x7777000\<rparr>))\<rparr>
   in case einj_error_inject (traced sample_fw) (ACPI5_VENDOR_BIT OR 1) 0 0x5000 0xfffffffffffff000 0 0 e of
        Inr (rc, e') \<Rightarrow> (case executed e' of [Some (V5 b)] \<Rightarrow> v5_flags b AND SETWA_FLAGS_MEM \<noteq> 0 \<and> memory_address b = 0x7777000 \<and>
          \<not> address_ok sample_fw (memory_address b) (memory_address_range b) | _ \<Rightarrow> False)
      | Inl _ \<Rightarrow> False"
  by code_simp

theorem vendor_dev_fits_witness:
  "length (vendor_dev (check_vendor_extension sample_init 0x9000 sample_block (einj_loaded True ()))) \<le> 51"
  using vendor_dev_fits [of "einj_loaded True ()" sample_init "0x9000" sample_block] by (simp add: einj_loaded_def)

end
