(* ===== verification/Daemon.thy ===== *)
theory Daemon
  imports Monitor_Safety "HOL-Library.Signed_Division"
begin

text \<open>
  The program around the resource monitor: the arguments and the event loop of \<^verbatim>\<open>daemon.c\<close>, and the delay of
  \<^verbatim>\<open>util.c\<close> that a simulated fault adds. \<^verbatim>\<open>getopt\<close>, the clock and the connection manager are parameters.
\<close>

unbundle bit_operations_syntax

section \<open>Arguments\<close>

text \<open>What \<^verbatim>\<open>getopt(argc, argv, "f:v::")\<close> returns, call after call, before \<^verbatim>\<open>-1\<close>.\<close>

datatype opt = Opt_v "string option" | Opt_f string | Opt_unknown

record daemon_args =
  ip :: "string option"
  port_number :: int
  verbose_level :: int
  fault_latency_us :: int

text \<open>\<open>usage\<close> exits.\<close>

definition usage :: "'a res" where
  "usage = Inl Die"

fun parse_opts :: "opt list \<Rightarrow> daemon_args \<Rightarrow> (int \<times> daemon_args) res" where
  "parse_opts [] a = Inr (0, a)"
| "parse_opts (Opt_v None # os) a = parse_opts os (a\<lparr>verbose_level := 1\<rparr>)"
| "parse_opts (Opt_v (Some s) # os) a = parse_opts os (a\<lparr>verbose_level := atoi s\<rparr>)"
| "parse_opts (Opt_f s # os) a = (let a = a\<lparr>fault_latency_us := atoi s\<rparr> in
     if fault_latency_us a \<le> 0 then Inr (1, a) else parse_opts os a)"
| "parse_opts (Opt_unknown # os) a = usage"

definition parse_args :: "opt list \<Rightarrow> string list \<Rightarrow> daemon_args \<Rightarrow> (int \<times> daemon_args) res" where
  "parse_args os rest a =
     bindE (parse_opts os (a\<lparr>ip := None, port_number := - 1\<rparr>)) (\<lambda>(r, a).
       if r \<noteq> 0 then Inr (r, a)
       else case rest of
         i # p # _ \<Rightarrow> let a = a\<lparr>ip := Some i, port_number := atoi p\<rparr> in
           if port_number a \<le> 0 \<or> 65535 < port_number a then Inr (1, a) else Inr (0, a)
       | _ \<Rightarrow> usage)"

section \<open>The event loop\<close>

text \<open>
  The connection manager: whether the channel, the identifier, the address, the listener and the thread could be made, and the
  port that the listener got when it is bound to an address.
\<close>

record listen_env =
  channel_ok :: bool
  create_id_ret :: int
  bind_addr_ret :: "string \<Rightarrow> u16 \<Rightarrow> int"
  listen_ret :: int
  get_src_port :: "u16 \<Rightarrow> u16"
  thread_ret :: int

text \<open>
  The set-up in \<open>main\<close>: the port that is printed and the arguments. Then the events, until no more is delivered (a handler
  never returns another value than 0).
\<close>

definition daemon_setup :: "listen_env \<Rightarrow> opt list \<Rightarrow> string list \<Rightarrow> (u16 \<times> daemon_args) res" where
  "daemon_setup ce os rest =
     bindE (parse_args os rest \<lparr>ip = None, port_number = - 1, verbose_level = 0, fault_latency_us = 30\<rparr>) (\<lambda>(r, a).
       if r \<noteq> 0 then usage
       else let sin6_port = htons (word_of_int (port_number a)) in
         if \<not> channel_ok ce \<or> create_id_ret ce \<noteq> 0 then Inl Die
         else case ip a of None \<Rightarrow> Inl Oob
           | Some s \<Rightarrow>
             if bind_addr_ret ce s sin6_port \<noteq> 0 \<or> listen_ret ce \<noteq> 0 \<or> thread_ret ce \<noteq> 0 then Inl Die
             else Inr (htons (get_src_port ce sin6_port), a))"

definition daemon_main :: "listen_env \<Rightarrow> verbs \<Rightarrow> opt list \<Rightarrow> string list \<Rightarrow> (nat \<times> cm_event) list \<Rightarrow> monitor \<Rightarrow> monitor res" where
  "daemon_main ce env os rest evs st =
     bindE (daemon_setup ce os rest) (\<lambda>_. foldE (\<lambda>(cid, ev). on_event env cid ev) evs (st\<lparr>running := True\<rparr>))"

section \<open>The delay\<close>

record timespec =
  tv_sec :: int
  tv_nsec :: int

definition diff_in_us :: "timespec \<Rightarrow> timespec \<Rightarrow> int" where
  "diff_in_us s t = (tv_sec t - tv_sec s) * 1000000 + (tv_nsec t - tv_nsec s) sdiv 1000"

text \<open>The loop reads the clock until enough time has gone; the number of the last reading.\<close>

partial_function (option) spin_from :: "(nat \<Rightarrow> timespec) \<Rightarrow> int \<Rightarrow> nat \<Rightarrow> nat option" where
  "spin_from clock us k = (if diff_in_us (clock 0) (clock k) < us then spin_from clock us (Suc k) else Some k)"

definition spin_microseconds :: "(nat \<Rightarrow> timespec) \<Rightarrow> int \<Rightarrow> nat option" where
  "spin_microseconds clock us = spin_from clock us 1"

section \<open>Properties\<close>

lemma parse_opts_latency:
  "parse_opts os a = Inr (0, a') \<Longrightarrow> 0 < fault_latency_us a \<Longrightarrow> 0 < fault_latency_us a'"
  by (induction os a rule: parse_opts.induct) (auto simp: Let_def usage_def split: if_splits)

text \<open>A daemon that starts listens where it was told: the port is that of the second argument and between 1 and 65535, it goes
  into the address in network order and is printed back unchanged when the listener keeps it, and the delay of a simulated fault is positive.
\<close>

theorem daemon_setup_port:
  assumes "daemon_setup ce os rest = Inr (q, a)" "\<forall>x. get_src_port ce x = x"
  shows "(\<exists>i p more. rest = i # p # more \<and> ip a = Some i \<and> uint q = atoi p) \<and> 1 \<le> uint q \<and> 0 < fault_latency_us a"
proof -
  have pa: "parse_args os rest \<lparr>ip = None, port_number = - 1, verbose_level = 0, fault_latency_us = 30\<rparr> = Inr (0, a)"
    and q: "q = htons (htons (word_of_int (port_number a)))"
    using assms by (auto simp: daemon_setup_def usage_def bindE_Inr Let_def split: if_splits option.splits)
  from pa obtain a0 i p more where o: "parse_opts os \<lparr>ip = None, port_number = - 1, verbose_level = 0, fault_latency_us = 30\<rparr> = Inr (0, a0)"
    and r: "rest = i # p # more" and a: "a = a0\<lparr>ip := Some i, port_number := atoi p\<rparr>" and p: "0 < atoi p" "atoi p \<le> 65535"
    unfolding parse_args_def usage_def Let_def bindE_Inr by (fastforce split: if_splits list.splits)
  have "uint q = atoi p" using p a unfolding q htons_htons by (simp add: uint_word_of_int)
  moreover have "0 < fault_latency_us a" using parse_opts_latency [OF o] a by simp
  ultimately show ?thesis using r a p by simp
qed

definition sample_cm :: listen_env where
  "sample_cm = \<lparr>channel_ok = True, create_id_ret = 0, bind_addr_ret = \<lambda>_ _. 0, listen_ret = 0, get_src_port = \<lambda>x. x, thread_ret = 0\<rparr>"

theorem daemon_setup_port_witness:
  "\<exists>q a. daemon_setup sample_cm [Opt_v None, Opt_f ''50''] [''::1'', ''80''] = Inr (q, a) \<and> uint q = 80 \<and> fault_latency_us a = 50"
proof -
  let ?r = "daemon_setup sample_cm [Opt_v None, Opt_f ''50''] [''::1'', ''80'']"
  have r: "?r = Inr (fst (projr ?r), snd (projr ?r))" "fault_latency_us (snd (projr ?r)) = 50" "atoi ''80'' = 80" by code_simp+
  have "uint (fst (projr ?r)) = 80" using daemon_setup_port [OF r(1)] r(3) by (simp add: sample_cm_def)
  with r(1,2) show ?thesis by blast
qed

text \<open>Nanoseconds between two readings.\<close>

definition elapsed_ns :: "timespec \<Rightarrow> timespec \<Rightarrow> int" where
  "elapsed_ns s t = (tv_sec t - tv_sec s) * 1000000000 + (tv_nsec t - tv_nsec s)"

lemma diff_in_us_close: "1000 * diff_in_us s t - elapsed_ns s t < 1000" "elapsed_ns s t - 1000 * diff_in_us s t < 1000"
proof -
  have "\<bar>1000 * (x sdiv 1000) - x\<bar> < 1000" for x :: int
    by (simp add: signed_divide_int_def sgn_if abs_if) linarith
  then have "\<bar>1000 * ((tv_nsec t - tv_nsec s) sdiv 1000) - (tv_nsec t - tv_nsec s)\<bar> < 1000" .
  then show "1000 * diff_in_us s t - elapsed_ns s t < 1000" "elapsed_ns s t - 1000 * diff_in_us s t < 1000"
    by (simp_all add: diff_in_us_def elapsed_ns_def algebra_simps)
qed

lemma spin_from_first:
  assumes "\<forall>j. k \<le> j \<and> j < n \<longrightarrow> diff_in_us (clock 0) (clock j) < us" "us \<le> diff_in_us (clock 0) (clock n)" "k \<le> n"
  shows "spin_from clock us k = Some n"
  using assms
proof (induction "n - k" arbitrary: k)
  case 0
  then show ?case by (subst spin_from.simps) simp
next
  case (Suc d)
  then have "spin_from clock us (Suc k) = Some n" by (intro Suc.hyps(1)) auto
  then show ?case using Suc by (subst spin_from.simps) auto
qed

text \<open>C33:
  The delay ends as soon as it may and not much too early: with a clock that some reading \<open>m\<close> finds at least \<open>us\<close> microseconds
  (and the rounding of one) after the start, the loop returns at a reading \<open>n \<le> m\<close>, the first whose computed difference is \<open>us\<close>; the time
  that has passed then is more than \<open>us - 1\<close> microseconds, and one reading earlier it was less than \<open>us + 1\<close>.
\<close>

theorem spin_returns:
  assumes "1 \<le> m" "1000 * us + 1000 \<le> elapsed_ns (clock 0) (clock m)"
  shows "\<exists>n. spin_microseconds clock us = Some n \<and> 1 \<le> n \<and> n \<le> m \<and> 1000 * us - 1000 < elapsed_ns (clock 0) (clock n) \<and>
    (1 < n \<longrightarrow> elapsed_ns (clock 0) (clock (n - 1)) < 1000 * us + 1000)"
proof -
  let ?done = "\<lambda>n. 1 \<le> n \<and> us \<le> diff_in_us (clock 0) (clock n)"
  define n where "n = (LEAST n. ?done n)"
  have "us \<le> diff_in_us (clock 0) (clock m)" using assms(2) diff_in_us_close(2) [where s = "clock 0" and t = "clock m"] by linarith
  then have "?done m" using assms(1) by simp
  then have n: "?done n" "n \<le> m" unfolding n_def by (rule LeastI, rule Least_le)
  have less: "diff_in_us (clock 0) (clock j) < us" if "1 \<le> j" "j < n" for j
    using not_less_Least [of j ?done] that unfolding n_def by auto
  have "spin_microseconds clock us = Some n"
    unfolding spin_microseconds_def using n less by (intro spin_from_first) auto
  moreover have "1000 * us - 1000 < elapsed_ns (clock 0) (clock n)" using n diff_in_us_close(1) [where s = "clock 0" and t = "clock n"] by linarith
  moreover have "elapsed_ns (clock 0) (clock (n - 1)) < 1000 * us + 1000" if "1 < n"
    using less [of "n - 1"] that diff_in_us_close(2) [where s = "clock 0" and t = "clock (n - 1)"] by linarith
  ultimately show ?thesis using n by blast
qed

theorem spin_returns_witness:
  "\<exists>n. spin_microseconds (\<lambda>k. \<lparr>tv_sec = int (k div 4), tv_nsec = 250000000 * int (k mod 4)\<rparr>) 30 = Some n \<and> n \<le> 1"
  using spin_returns [of 1 30 "\<lambda>k. \<lparr>tv_sec = int (k div 4), tv_nsec = 250000000 * int (k mod 4)\<rparr>"] by (auto simp: elapsed_ns_def)

end
