(* ===== verification/Memory_Test.thy ===== *)
theory Memory_Test
  imports Config Text_Scan Messages "HOL-Library.Signed_Division"
begin

text \<open>
  The test program \<^verbatim>\<open>test/random.c\<close>: it fills memory with pseudo-random bytes and checks them. The C library's
  generator is a parameter (\<open>srand\<close> gives its state, \<open>rand\<close> the next value and state), and so is whether an allocation succeeds.
\<close>

text \<open>The bytes of the buffer from its start on; a \<^verbatim>\<open>char\<close> is signed.\<close>

primrec fill_loop :: "('r \<Rightarrow> int \<times> 'r) \<Rightarrow> nat \<Rightarrow> 'r \<Rightarrow> u8 list" where
  "fill_loop rand 0 r = []"
| "fill_loop rand (Suc n) r = (case rand r of (v, r) \<Rightarrow> word_of_int (v smod 128) # fill_loop rand n r)"

definition fill_memory :: "(u32 \<Rightarrow> 'r) \<Rightarrow> ('r \<Rightarrow> int \<times> 'r) \<Rightarrow> (u64 \<Rightarrow> bool) \<Rightarrow> u32 \<Rightarrow> u64 \<Rightarrow> u8 list res" where
  "fill_memory srand rand malloc seed sz = (if malloc sz then Inr (fill_loop rand (unat sz) (srand seed)) else Inl Die)"

text \<open>A byte that does not match aborts the program; reading past the buffer would be an error.\<close>

primrec check_loop :: "('r \<Rightarrow> int \<times> 'r) \<Rightarrow> nat \<Rightarrow> 'r \<Rightarrow> u8 list \<Rightarrow> unit res" where
  "check_loop rand 0 r mem = Inr ()"
| "check_loop rand (Suc n) r mem = (case mem of [] \<Rightarrow> Inl Oob
     | b # mem \<Rightarrow> (case rand r of (v, r) \<Rightarrow> if sint b \<noteq> v smod 128 then Inl Die else check_loop rand n r mem))"

definition check_memory :: "(u32 \<Rightarrow> 'r) \<Rightarrow> ('r \<Rightarrow> int \<times> 'r) \<Rightarrow> u32 \<Rightarrow> u64 \<Rightarrow> u8 list \<Rightarrow> unit res" where
  "check_memory srand rand seed sz mem = check_loop rand (unat sz) (srand seed) mem"

text \<open>
  \<^verbatim>\<open>atoi(argv[2])*1024*1024\<close> is computed in \<^verbatim>\<open>int\<close>, where an overflow is undefined, and then converted to \<^verbatim>\<open>size_t\<close>.
\<close>

definition size_of_mb :: "int \<Rightarrow> u64 res" where
  "size_of_mb n = (let v = n * 1024 * 1024 in if - (2 ^ 31) \<le> v \<and> v < 2 ^ 31 then Inr (word_of_int v) else Inl Oob)"

definition test_main :: "(u32 \<Rightarrow> 'r) \<Rightarrow> ('r \<Rightarrow> int \<times> 'r) \<Rightarrow> (u64 \<Rightarrow> bool) \<Rightarrow> string list \<Rightarrow> int res" where
  "test_main srand rand malloc argv =
     (if length argv < 3 then Inr (- 1)
      else let seed = word_of_int (atoi (argv ! 1)) in
        bindE (size_of_mb (atoi (argv ! 2))) (\<lambda>sz.
        bindE (fill_memory srand rand malloc seed sz) (\<lambda>mem.
        bindE (check_memory srand rand seed sz mem) (\<lambda>_. Inr 0))))"

lemma sint_smod: "sint (word_of_int (v smod 128) :: u8) = v smod 128"
proof -
  have "- 128 \<le> v smod 128" "v smod 128 < 128" by (auto simp: signed_modulo_int_def sgn_if)
  then show ?thesis by (simp add: signed_of_int signed_take_bit_int_eq_self)
qed

lemma check_fill: "check_loop rand n r (fill_loop rand n r) = Inr ()"
  by (induction n arbitrary: r) (auto simp: sint_smod split: prod.splits)

text \<open>The test fails only on a machine at fault. With any generator, a test of up to 2047 megabytes whose allocation succeeds finds every byte as it was
  written and ends with 0; from 2048 megabytes on the size overflows before anything is tested.
\<close>

theorem test_main_passes:
  assumes "3 \<le> length argv" "0 \<le> atoi (argv ! 2)" "\<forall>sz. malloc sz"
  shows "test_main srand rand malloc argv = (if atoi (argv ! 2) < 2048 then Inr 0 else Inl Oob)"
  using assms by (auto simp: test_main_def size_of_mb_def Let_def fill_memory_def check_memory_def check_fill)

theorem test_main_passes_witness:
  "test_main id (\<lambda>r. (uint (r * 75), r * 75 + 74)) (\<lambda>_. True) [''random'', ''7'', ''1''] = Inr 0"
proof -
  have "atoi ''1'' = 1" by code_simp
  then show ?thesis using test_main_passes [of "[''random'', ''7'', ''1'']" "\<lambda>_. True" id "\<lambda>r. (uint (r * 75), r * 75 + 74)"] by simp
qed

end
