(* ===== verification/Spec2Isabelle.thy ===== *)
theory Spec2Isabelle
  imports Reclaim Protocol Ec_Reads Portal Hardware_Queues Device Error_Injection_Safety Daemon Memory_Test
begin

text \<open>
  Verification of Hydra (the \<^verbatim>\<open>ramp\<close> repository), resilient remote memory over RDMA. Paths are below \<^verbatim>\<open>src/\<close>.

  \<^bold>\<open>The program.\<close> The resilience manager (\<^verbatim>\<open>resilience_manager/\<close>), a kernel module, offers a block device whose pages live in the memory of
  other machines. A session connects to servers; the address space of the device is cut into slabs of 1 GB, and each slab is bound to a chunk
  of a server. In the setup that is built (\<^verbatim>\<open>REP\<close>) the slabs of a group are replicas; the erasure coding setup splits a page
  into data and parity blocks instead. The resource monitor (\<^verbatim>\<open>resource_monitor/\<close>), a daemon on each server, lends chunks to its
  clients and takes them back under memory pressure. The two talk by messages (bind, info, evict, stop, done) and the manager then reads
  and writes the chunks by RDMA. The driver \<^verbatim>\<open>einj/\<close> injects hardware errors for experiments, and \<^verbatim>\<open>test/\<close> checks memory.

  \<^bold>\<open>Shared theories.\<close>
  \<^item> \<open>Prelude\<close>: word types, and lemmas on lists, folds and words that several theories use.
  \<^item> \<open>Config\<close>: the constants of \<^verbatim>\<open>infiniswap.h\<close> in both setups, as values of one record, and the error numbers.
  \<^item> \<open>Text_Scan\<close>: the kernel's and C library's text functions that the sources call.
  \<^item> \<open>Messages\<close>: errors as values (\<open>Die\<close> for a call that ends the program or a trap, \<open>Oob\<close> for an access outside an object, \<open>Blocked\<close> for a wait
    that nothing ends), the message that both sides exchange, and byte orders.
  \<^item> \<open>Runs\<close>: runs of a component as sequences of events, and the contracts \<open>preserved\<close> (an invariant) and \<open>refinement\<close> (an abstract
    effect of every event). The session, the devices and the error injection driver are interpretations of them.

  \<^bold>\<open>Erasure code\<close> (\<^verbatim>\<open>erasure_code/\<close>, and the decoding matrix in \<^verbatim>\<open>is_main.c\<close>).
  \<^item> \<open>GF256\<close>: \<open>gf_mul\<close>, \<open>gf_inv\<close> and the tables; log-table multiplication is multiplication of polynomials modulo \<open>0x11d\<close>, which makes
    bytes an instance of the class of fields.
  \<^item> \<open>GF_Matrix\<close>: generator matrices and \<open>gf_invert_matrix\<close> on flat arrays; the inversion returns an inverse exactly for regular matrices.
  \<^item> \<open>Erasure_Code\<close>: tables, encoders and updates, the AVX kernels (16-byte steps, nibble lookups, overlapping last step) and their dispatcher; all compute the
    matrix product.
  \<^item> \<open>Erasure_Decode\<close>, \<open>Recovery\<close>: \<open>gf_gen_decode_matrix\<close> with its retry loop and the encode and decode steps; any loss of up to
    \<open>m - k\<close> blocks is recovered.
  \<^item> \<open>Ec_Pages\<close>, \<open>Ec_Path\<close>, \<open>Ec_Requests\<close>, \<open>Ec_Reads\<close>: the erasure coding branches of the data path on the driver's state, from the block request
    on: pages spread over the buffers of the contexts, posts to the disks, parities read in place of lost blocks, completions that recover the
    stripe. Pages written come back after the loss of servers.

  \<^bold>\<open>Resilience manager\<close> (\<^verbatim>\<open>is_main.c\<close>, \<^verbatim>\<open>is_mq.c\<close>, \<^verbatim>\<open>is_configfs.c\<close>, \<^verbatim>\<open>is_fault.c\<close>, \<^verbatim>\<open>mt19937*.c\<close>).
  \<^item> \<open>Mersenne_Twister\<close>, \<open>Fault_Injection\<close>: the generators and the countdown to the next simulated fault of each disk.
  \<^item> \<open>Ctx_Pool\<close>: the stacks of free contexts; no context is handed out twice, and what an insertion into a full pool does.
  \<^item> \<open>Session\<close>, \<open>Session_Maps\<close>, \<open>Session_Runs\<close>, \<open>Failover\<close>: portals, control blocks, the two slab tables, message handling and disconnection. The
    abstract view is a partial map from slabs to chunks; every run of events refines it.
  \<^item> \<open>Portal\<close>, \<open>Connection\<close>, \<open>Selection\<close>, \<open>Placement\<close>: the parser of the server list, connection set-up with its error exits, random selection of servers,
    the sort by free memory, binding and the client's part of an eviction.
  \<^item> \<open>Data_Path\<close>, \<open>Read_Write\<close>, \<open>Read_Path\<close>, \<open>Replication\<close>: block requests, posting, completion, and the page round trip; also what a read does when
    the first replica is lost.
  \<^item> \<open>Hardware_Queues\<close>, \<open>Device\<close>: queues on nodes, device states, block device registration, configfs and module life.

  \<^bold>\<open>Resource monitor\<close> (\<^verbatim>\<open>rdma-common.c\<close>, \<^verbatim>\<open>daemon.c\<close>, \<^verbatim>\<open>util.c\<close>).
  \<^item> \<open>Monitor\<close>, \<open>Monitor_Invariant\<close>, \<open>Monitor_Safety\<close>: connections on a heap, the chunk tables, message handlers; \<open>monitor_step\<close> is the step
    relation, and in every reachable state a lent chunk has one holder.
  \<^item> \<open>Monitor_Eviction\<close>: the memory thread.
  \<^item> \<open>Protocol\<close>: what the monitor sends, whatever its clients do and however its threads take turns, is a message a client handles.
  \<^item> \<open>Reclaim\<close>: taking chunks back end to end, from the monitor's stop through the client's eviction to the monitor's tables.
  \<^item> \<open>Daemon\<close>: arguments, set-up, event loop, and the busy delay.

  \<^bold>\<open>Tools\<close>: \<open>Error_Injection\<close> and \<open>Error_Injection_Safety\<close> (\<^verbatim>\<open>einj.c\<close>), \<open>Memory_Test\<close> (\<^verbatim>\<open>test/random.c\<close>).

  \<^bold>\<open>This theory\<close> composes both sides: a bind, from the monitor's grant to the entry in the client's tables.

  \<^bold>\<open>Conventions.\<close> State is passed explicitly, pointers are identifiers into association lists or maps, and concurrent parts take turns at the granularity
  of a handler. Hardware, verbs, connection manager, block layer, firmware, clock and allocators are arguments. Words have the width of the source
  where a value may wrap. Loops are structural or have a measure; no definition needs fuel. The loops that may run for ever are
  \<open>while_option\<close> (the probing for a free server or chunk) and a \<open>partial_function\<close> (\<open>spin_from\<close>), with theorems that they return.

  \<^bold>\<open>The erasure coding setup\<close> is disabled in this commit. Its constants in \<^verbatim>\<open>infiniswap.h\<close>, the body of \<open>IS_ec_init\<close> and the calls that build the decoding
  tables in \<open>IS_disconnect_handler\<close> are commented out, and modelled as they stand there (\<open>EC_config\<close>, \<open>ec_init\<close>, \<open>ec_prepare\<close>); the branches under
  \<^verbatim>\<open>#ifdef EC\<close> of the data path are modelled as code.

  \<^bold>\<open>Not modelled.\<close> The 64 KB product table (generated data, not enabled), the SSE, AVX2 and AVX-512 kernels (assembly that is not called), the
  attribute structures handed to the verbs library, constant operation tables, locks, printing, and the deployment scripts.
\<close>

section \<open>A bind, end to end\<close>

lemma single_grant:
  assumes inv: "monitor_inv st" "heap st cid = Some k" "connected k"
    and env: "\<forall>i<MAX_FREE_MEM_GB. \<exists>a key. reg_mr env i = Some (a, key) \<and> key \<noteq> 0" "post_send_ret env = 0"
    and free: "0 < avail (rdma_remote (session st)) [0..<MAX_FREE_MEM_GB]"
  shows "\<exists>st' m i. send_single_mr env cid label st = Inr st' \<and> last (sent st') = (cid, m) \<and> mtype m = INFO_SINGLE \<and> size_gb m = label \<and>
    granted_chunk m = Some i \<and> chunk_free (rdma_remote (session st)) i \<and> i < MAX_FREE_MEM_GB \<and>
    reg_mr env i = Some (ntohll (buf m ! i), ntohl (rkey m ! i)) \<and>
    (\<forall>j<MAX_FREE_MEM_GB. conn_map (rdma_remote (session st')) ! j =
      (if j = i then conn_index k else conn_map (rdma_remote (session st)) ! j))"
proof -
  let ?r = "rdma_remote (session st)" let ?free = "filter (chunk_free ?r) [0..<MAX_FREE_MEM_GB]"
  obtain c where c: "conn_ok ?r c 0 k" by (rule inv_conn_ok [OF inv(1,2)])
  have len: "length (conn_map ?r) = MAX_FREE_MEM_GB" using inv(1) by (simp add: monitor_inv_def inv_off_def remote_ok2_def)
  have env': "\<forall>i<MAX_FREE_MEM_GB. reg_mr env i \<noteq> None" using env(1) by auto
  have ok: "message_ok (send_msg k)" "conn_index k \<noteq> - 1" using c by (simp_all add: conn_ok_def)
  obtain i rest where f: "?free = i # rest" using free by (cases ?free) (simp_all add: avail_def)
  then have i: "i < MAX_FREE_MEM_GB" "chunk_free ?r i" using list.set_intros(1) [of i rest] by (simp_all flip: f)
  from send_chunks_result [OF inv(2,3) ok len env' env(2), of 1 label INFO_SINGLE] f obtain st' m where
    m: "send_single_mr env cid label st = Inr st'" "last (sent st') = (cid, m)" "mtype m = INFO_SINGLE" "size_gb m = label"
    and all: "\<forall>j<MAX_FREE_MEM_GB. if j = i
      then buf m ! j = htonll (fst (the (reg_mr env j))) \<and> rkey m ! j = ntohl (snd (the (reg_mr env j))) \<and>
        conn_map (rdma_remote (session st')) ! j = conn_index k
      else rkey m ! j = 0 \<and> conn_map (rdma_remote (session st')) ! j = conn_map ?r ! j"
    unfolding send_single_mr_def by auto
  from env(1) i(1) obtain a key where reg: "reg_mr env i = Some (a, key)" "key \<noteq> 0" by blast
  have msg: "buf m ! i = htonll a" "rkey m ! i = ntohl key" using all i(1) reg by auto
  have "granted_chunk m = Some i"
    unfolding granted_chunk_def find_upt_first using all i(1) msg reg by (auto simp: ntohl_eq_0 MAX_FREE_MEM_GB_def MAX_MR_SIZE_GB_def)
  with m i reg msg all show ?thesis by (intro exI [of _ st'] exI [of _ m] exI [of _ i]) auto
qed

text \<open>C5: A slab is bound end to end: while the monitor has a chunk to lend, its answer to the client's single bind makes the client enter
  that slab under a chunk that was free and is now lent to this client, with the address and key under which the monitor registered it;
  both sides keep their invariants and stay in agreement.\<close>

theorem bind_installs_region:
  assumes mon: "monitor_inv st" "heap st cid = Some k" "connected k" "0 < avail (rdma_remote (session st)) [0..<MAX_FREE_MEM_GB]"
    and env: "\<forall>i<MAX_FREE_MEM_GB. \<exists>a key. reg_mr env i = Some (a, key) \<and> key \<noteq> 0" "post_send_ret env = 0"
    and cli: "session_inv c s" "server_up s b" "CONNECTED \<le> state (the (cb_list s ! b))" "x < DISKSIZE_G c" "placement s x = None"
    and both: "agrees b k (rdma_remote (session st)) s"
  shows "\<exists>st' m s' cb i. send_single_mr env cid (int x) st = Inr st' \<and> last (sent st') = (cid, m) \<and>
    slab_step c q (Grant b m) s = Inr s' \<and> session_inv c s' \<and> placement s' = (placement s)(x \<mapsto> (b, i)) \<and>
    chunk_free (rdma_remote (session st)) i \<and> conn_map (rdma_remote (session st')) ! i = conn_index k \<and>
    cb_list s' ! b = Some cb \<and>
    reg_mr env i = Some (remote_addr (chunk_list (remote_chunk cb) ! i), remote_rkey (chunk_list (remote_chunk cb) ! i)) \<and>
    agrees b k (rdma_remote (session st')) s'"
proof -
  let ?r = "rdma_remote (session st)"
  obtain st' m i where m: "send_single_mr env cid (int x) st = Inr st'" "last (sent st') = (cid, m)" "mtype m = INFO_SINGLE" "size_gb m = int x"
    and i: "granted_chunk m = Some i" "chunk_free ?r i" "i < MAX_FREE_MEM_GB" and reg: "reg_mr env i = Some (ntohll (buf m ! i), ntohl (rkey m ! i))"
    and cm: "\<forall>j<MAX_FREE_MEM_GB. conn_map (rdma_remote (session st')) ! j = (if j = i then conn_index k else conn_map ?r ! j)"
    using single_grant [OF mon(1-3) env mon(4)] by blast
  obtain k0 where "conn_ok ?r k0 0 k" by (rule inv_conn_ok [OF mon(1,2)])
  then have "conn_index k \<noteq> - 1" by (simp add: conn_ok_def)
  then have new: "placement s y \<noteq> Some (b, i)" for y
    using both i(2) by (auto simp: agrees_def chunk_free_def ran_def)
  have "slab_allowed c (Grant b m) s" using cli m i new by simp
  from grant_result [OF cli(1) this, of q] i m obtain s' cb where
    s': "slab_step c q (Grant b m) s = Inr s'" "session_inv c s'" "placement s' = (placement s)(x \<mapsto> (b, i))"
    "cb_list s' ! b = Some cb" "chunk_list (remote_chunk cb) ! i = \<lparr>remote_rkey = ntohl (rkey m ! i), remote_addr = ntohll (buf m ! i)\<rparr>"
    by auto
  have "j < MAX_FREE_MEM_GB \<and> conn_map (rdma_remote (session st')) ! j = conn_index k" if "(b, j) \<in> ran (placement s')" for j
  proof -
    have "j = i \<or> (b, j) \<in> ran (placement s)" using that by (auto simp: s'(3) ran_def split: if_splits)
    then show ?thesis using both cm i(3) by (auto simp: agrees_def)
  qed
  then have "agrees b k (rdma_remote (session st')) s'" by (simp add: agrees_def)
  then show ?thesis using m s' i cm reg by (intro exI [of _ st'] exI [of _ m] exI [of _ s'] exI [of _ cb] exI [of _ i]) simp
qed

theorem bind_installs_region_witness:
  "\<exists>st' m s s' i. send_single_mr demo_verbs 3 2 demo_3 = Inr st' \<and> last (sent st') = (3, m) \<and> placement s = Map.empty \<and>
    slab_step REP_config 2 (Grant 0 m) s = Inr s' \<and> placement s' = [2 \<mapsto> (0, i)]"
proof -
  obtain s0 where s0: "IS_session_create REP_config 2 (\<lambda>_. [10, 0, 0, 1]) True (\<lambda>_. True) ''rdma://1,10.0.0.1:9400'' (demo_session demo_injector) = Inr (0, s0)"
    "length (cb_list s0) = 1" "cb_state_list s0 = [CB_IDLE]" by (rule demo_create)
  from first_connect_run [OF session_create_inv [OF s0(1)], of 2] s0 obtain s cb where
    s: "session_inv REP_config s" "placement s = Map.empty" "server_up s 0" "cb_list s ! 0 = Some cb" "state cb = CONNECTED" by auto
  have "heap demo_3 3 \<noteq> None" "connected (the (heap demo_3 3))" by code_simp+
  then obtain k where k: "heap demo_3 3 = Some k" "connected k" by auto
  have e: "\<forall>i<MAX_FREE_MEM_GB. \<exists>a key. reg_mr demo_verbs i = Some (a, key) \<and> key \<noteq> 0" by (simp add: demo_verbs_def)
  have a: "0 < avail (rdma_remote (session demo_3)) [0..<MAX_FREE_MEM_GB]" "post_send_ret demo_verbs = 0" by code_simp+
  from bind_installs_region [OF reachable_inv [OF demo_run demo_fresh_ok] k a(1) e a(2) s(1,3), of 2 2] s show ?thesis
    by (fastforce simp: agrees_def config_defs)
qed

end
